(* ===== verification/Prelude.thy ===== *)
theory Prelude
  imports Main "HOL-Library.Word"
begin

text \<open>
  Shared vocabulary of the development: the fixed-width integer types of the C code, the
  status codes of the firmware interfaces, the outcome of a C routine that may stop at an
  ASSERT, reach undefined behaviour or not return, and the generic lemmas about lists, words
  and outcomes that the component theories use.
\<close>

unbundle bit_operations_syntax

section \<open>Types\<close>

type_synonym u8 = "8 word"
type_synonym u16 = "16 word"
type_synonym u32 = "32 word"
type_synonym u64 = "64 word"

text \<open>A pointer is an address or NULL.\<close>

type_synonym addr = nat
type_synonym ptr = "nat option"

text \<open>A GUID is compared and copied as a whole only, so it is an opaque number.\<close>

type_synonym guid = "128 word"

text \<open>The \<open>EFI_STATUS\<close> values the modelled code returns. None of them is a warning code.\<close>

datatype efi_status =
    EFI_SUCCESS
  | EFI_INVALID_PARAMETER
  | EFI_UNSUPPORTED
  | EFI_BUFFER_TOO_SMALL
  | EFI_NOT_READY
  | EFI_OUT_OF_RESOURCES
  | EFI_NOT_FOUND
  | EFI_ACCESS_DENIED
  | EFI_ALREADY_STARTED
  | EFI_DEVICE_ERROR
  | EFI_SECURITY_VIOLATION
  | EFI_NOT_AVAILABLE_YET
  | EFI_NOT_STARTED
  | EFI_NETWORK_UNREACHABLE
  | EFI_TIMEOUT
  | EFI_ABORTED

definition EFI_ERROR :: "efi_status \<Rightarrow> bool" where
  "EFI_ERROR st \<longleftrightarrow> st \<noteq> EFI_SUCCESS"

lemma EFI_ERROR_simps [simp]:
  "EFI_ERROR EFI_SUCCESS = False"
  "\<not> EFI_ERROR st \<longleftrightarrow> st = EFI_SUCCESS"
  by (simp_all add: EFI_ERROR_def)

lemma EFI_ERROR_codes [simp]:
  "EFI_ERROR EFI_INVALID_PARAMETER" "EFI_ERROR EFI_UNSUPPORTED"
  "EFI_ERROR EFI_BUFFER_TOO_SMALL" "EFI_ERROR EFI_NOT_READY"
  "EFI_ERROR EFI_OUT_OF_RESOURCES" "EFI_ERROR EFI_NOT_FOUND"
  "EFI_ERROR EFI_ACCESS_DENIED" "EFI_ERROR EFI_ALREADY_STARTED"
  "EFI_ERROR EFI_DEVICE_ERROR" "EFI_ERROR EFI_SECURITY_VIOLATION"
  "EFI_ERROR EFI_NOT_AVAILABLE_YET" "EFI_ERROR EFI_NOT_STARTED"
  "EFI_ERROR EFI_NETWORK_UNREACHABLE" "EFI_ERROR EFI_TIMEOUT" "EFI_ERROR EFI_ABORTED"
  by (simp_all add: EFI_ERROR_def)

section \<open>Words\<close>

text \<open>A count that fits in the gap before a bound does not wrap.\<close>

lemma word_gap_no_wrap:
  fixes off cnt e :: "'a::len word"
  assumes "off < e" and "cnt \<le> e - off"
  shows "unat (off + cnt) = unat off + unat cnt" and "unat off + unat cnt \<le> unat e"
proof -
  have "unat (e - off) = unat e - unat off"
    using assms(1) by (simp add: unat_sub word_less_nat_alt word_le_nat_alt)
  then have "unat cnt \<le> unat e - unat off"
    using assms(2) by (simp add: word_le_nat_alt)
  then show *: "unat off + unat cnt \<le> unat e"
    using assms(1) by (simp add: word_less_nat_alt)
  have "unat off + unat cnt < 2 ^ LENGTH('a)"
    using * by (meson le_less_trans unsigned_less)
  then show "unat (off + cnt) = unat off + unat cnt"
    by (simp add: unat_word_ariths)
qed

lemma word_less_iff_succ_le:
  fixes x g :: "'a::len word"
  shows "x < g \<longleftrightarrow> x + 1 \<le> g \<and> x + 1 \<noteq> 0"
proof (cases "x + 1 = 0")
  case True
  then have "x = - 1" by (simp add: eq_neg_iff_add_eq_0)
  then show ?thesis by (simp add: not_less)
next
  case False
  then have "unat (x + 1) = Suc (unat x)" by (simp add: unatSuc add.commute)
  then show ?thesis using False by (simp add: word_less_nat_alt word_le_nat_alt Suc_le_eq)
qed

text \<open>Bytes assembled in little-endian order are the number they spell.\<close>

lemma nat_or_push_bit:
  assumes "x < 2 ^ k"
  shows "x OR push_bit k y = x + y * (2::nat) ^ k"
proof -
  have x: "bit x n \<Longrightarrow> n < k" for n
    using assms bit_take_bit_iff[of k x n] by (simp add: take_bit_nat_eq_self)
  have "x AND push_bit k y = 0"
    by (rule bit_eqI) (use x in \<open>auto simp: bit_simps dest!: x\<close>)
  then have "x OR push_bit k y = x + push_bit k y"
    by (simp add: disjunctive_add_eq_or)
  then show ?thesis by (simp add: push_bit_eq_mult)
qed

lemma unat_byte_less [simp]: "unat (a :: u8) < 256"
  using unsigned_less[of a] by simp

lemma unat_ucast_byte:
  "unat (ucast (a :: u8) :: u32) = unat a"
  by (simp add: unsigned_ucast_eq take_bit_nat_eq_self less_trans[OF unat_byte_less])

lemma unat_push_byte:
  assumes "k \<le> 24"
  shows "unat (push_bit k (ucast (a :: u8)) :: u32) = unat a * 2 ^ k"
proof -
  have "unat a * 2 ^ k < 256 * 2 ^ k" by simp
  also have "(256::nat) * 2 ^ k = 2 ^ (8 + k)" by (simp add: power_add)
  also have "\<dots> \<le> 2 ^ 32" using assms by (intro power_increasing) auto
  finally have "unat a * 2 ^ k < 2 ^ 32" .
  then have "take_bit 32 (push_bit k (unat a)) = unat a * 2 ^ k"
    by (simp add: push_bit_eq_mult take_bit_nat_eq_self)
  moreover have "unat (push_bit k (ucast a :: u32)) = take_bit LENGTH(32) (push_bit k (unat (ucast a :: u32)))"
    by (rule unsigned_push_bit_eq)
  ultimately show ?thesis by (simp only: unat_ucast_byte) simp
qed

lemma unat_bytes_u32:
  "unat ((ucast (a :: u8) :: u32) OR push_bit 8 (ucast (b :: u8)) OR push_bit 16 (ucast (c :: u8))
      OR push_bit 24 (ucast (d :: u8))) =
     unat a + 256 * unat b + 65536 * unat c + 16777216 * unat d"
proof -
  have p: "push_bit k x = x * 2 ^ k" for k and x :: nat by (simp add: push_bit_eq_mult)
  have 1: "unat a OR unat b * 256 = unat a + 256 * unat b"
    using nat_or_push_bit[of "unat a" 8 "unat b"] by (simp add: p)
  have "unat a + 256 * unat b < 65536"
    using unat_byte_less[of a] unat_byte_less[of b] by linarith
  then have 2: "(unat a + 256 * unat b) OR unat c * 65536 = unat a + 256 * unat b + 65536 * unat c"
    using nat_or_push_bit[of _ 16 "unat c"] by (simp add: p)
  have "unat a + 256 * unat b + 65536 * unat c < 16777216"
    using unat_byte_less[of a] unat_byte_less[of b] unat_byte_less[of c] by linarith
  then have 3: "(unat a + 256 * unat b + 65536 * unat c) OR unat d * 16777216 =
      unat a + 256 * unat b + 65536 * unat c + 16777216 * unat d"
    using nat_or_push_bit[of _ 24 "unat d"] by (simp add: p)
  have "unat ((ucast a :: u32) OR push_bit 8 (ucast b) OR push_bit 16 (ucast c)
      OR push_bit 24 (ucast d)) =
      ((unat a OR unat b * 256) OR unat c * 65536) OR unat d * 16777216"
    by (simp only: unsigned_or_eq unat_ucast_byte unat_push_byte or.assoc) (simp add: unat_push_byte)
  then show ?thesis by (simp only: 1 2 3)
qed

lemma unat_bytes_u16:
  "unat (ucast ((ucast (a :: u8) :: u32) OR push_bit 8 (ucast (b :: u8))) :: u16) =
     unat a + 256 * unat b"
proof -
  have "unat ((ucast a :: u32) OR push_bit 8 (ucast b)) = unat a + 256 * unat b"
    using unat_bytes_u32[of a b 0 0] by simp
  moreover have "unat a + 256 * unat b < 65536"
    using unat_byte_less[of a] unat_byte_less[of b] by linarith
  ultimately show ?thesis by (simp add: unsigned_ucast_eq take_bit_nat_eq_self)
qed

section \<open>Lists\<close>

lemma map_of_nth_distinct:
  "distinct (map fst xs) \<Longrightarrow> i < length xs \<Longrightarrow> map_of xs (fst (xs ! i)) = Some (snd (xs ! i))"
  by (simp add: map_of_eq_Some_iff)

lemma map_of_list_update:
  assumes "distinct (map fst xs)" and "i < length xs" and "fst (xs ! i) = k"
  shows "map_of (xs[i := (k, v)]) = (map_of xs)(k \<mapsto> v)"
  using assms
proof (induction xs arbitrary: i)
  case (Cons x xs)
  obtain a b where x: "x = (a, b)" by fastforce
  show ?case
  proof (cases i)
    case 0
    with Cons.prems x show ?thesis by (simp add: fun_eq_iff)
  next
    case (Suc j)
    with Cons.prems x have j: "j < length xs" "fst (xs ! j) = k" by simp_all
    with Cons.prems x have "a \<noteq> k" by auto
    with Cons.IH[OF _ j] Cons.prems(1) x Suc show ?thesis
      by (simp add: fun_eq_iff)
  qed
qed simp

lemma map_fst_list_update:
  "i < length xs \<Longrightarrow> fst (xs ! i) = k \<Longrightarrow> map fst (xs[i := (k, v)]) = map fst xs"
  by (metis fst_conv list_update_id map_update nth_map)

text \<open>Moving the last entry into slot \<open>i\<close> and dropping the last slot.\<close>

definition swap_remove :: "nat \<Rightarrow> 'a list \<Rightarrow> 'a list" where
  "swap_remove i xs = (if i < length xs - 1 then butlast (xs[i := last xs]) else butlast xs)"

lemma swap_remove_append:
  "swap_remove (length as) (as @ [x]) = as"
  "swap_remove (length as) (as @ x # cs @ [z]) = as @ z # cs"
  by (simp_all add: swap_remove_def butlast_append)

lemma swap_remove_distinct:
  assumes "distinct (map fst xs)" and "i < length xs"
  shows "distinct (map fst (swap_remove i xs)) \<and> set (swap_remove i xs) = set xs - {xs ! i}"
proof -
  obtain as x bs where xs: "xs = as @ x # bs" and i: "i = length as" and x: "xs ! i = x"
    using id_take_nth_drop[OF assms(2)] assms(2)
    by (metis add.commute append_Cons length_take min.absorb4)
  have dist: "distinct (map fst (as @ x # bs))" using assms(1) xs by simp
  have nin: "x \<notin> set as" "x \<notin> set bs" using dist by (auto simp: image_iff)
  show ?thesis
  proof (cases bs rule: rev_cases)
    case Nil
    with dist nin show ?thesis by (auto simp: xs i swap_remove_append)
  next
    case (snoc cs z)
    with dist nin show ?thesis by (auto simp: xs i swap_remove_append nth_append)
  qed
qed

text \<open>Compacting an array in place is \<open>swap_remove\<close> on its active part.\<close>

lemma take_compaction:
  assumes "i < n" and "n \<le> length t"
  shows "take (n - 1) ((if i < n - 1 then t[i := t ! (n - 1)] else t)[n - 1 := e]) =
           swap_remove i (take n t)"
proof -
  have "last (take n t) = t ! (n - 1)"
    using assms by (subst last_conv_nth) auto
  with assms show ?thesis
    by (auto simp: swap_remove_def butlast_take take_update_swap butlast_list_update
        list_update_beyond)
qed


end
