(* ===== verification/Outcome.thy ===== *)
theory Outcome
  imports Prelude
begin

text \<open>
  The outcome of a C routine. \<open>Ret\<close> is a normal return; \<open>Assert\<close> is a failed \<open>ASSERT\<close>
  (\<open>DebugLibHost\<close> prints the message and exits the process); \<open>Fault\<close> is undefined behaviour:
  a use of freed memory, an index outside a fixed array, or the unlinking of a list entry that
  is in no list; \<open>NoFuel\<close> says that the recursion bound of the model was reached, so that
  nothing is known about the routine. \<open>safe P\<close> holds of an outcome that is neither a failed
  assertion nor undefined behaviour and whose result, if there is one, satisfies \<open>P\<close>; \<open>returns P\<close>
  says in addition that there is a result.
\<close>

datatype 'a outcome = Ret 'a | Assert | Fault | NoFuel

fun bind :: "'a outcome \<Rightarrow> ('a \<Rightarrow> 'b outcome) \<Rightarrow> 'b outcome" where
  "bind (Ret x) f = f x"
| "bind Assert f = Assert"
| "bind Fault f = Fault"
| "bind NoFuel f = NoFuel"

definition ASSERT :: "bool \<Rightarrow> 'a outcome \<Rightarrow> 'a outcome" where
  "ASSERT b k = (if b then k else Assert)"

definition deref :: "'a option \<Rightarrow> ('a \<Rightarrow> 'b outcome) \<Rightarrow> 'b outcome" where
  "deref p k = (case p of None \<Rightarrow> Fault | Some x \<Rightarrow> k x)"

lemma ASSERT_simps [simp]: "ASSERT True k = k" "ASSERT False k = Assert"
  by (simp_all add: ASSERT_def)

lemma deref_simps [simp]: "deref (Some x) k = k x" "deref None k = Fault"
  by (simp_all add: deref_def)

text \<open>Evaluation in the kernel runs a continuation only when its argument is there.\<close>

lemma eval_lazily [code_unfold]:
  "bind m f = (case m of Ret x \<Rightarrow> f x | Assert \<Rightarrow> Assert | Fault \<Rightarrow> Fault | NoFuel \<Rightarrow> NoFuel)"
  "ASSERT b k = (if b then k else Assert)"
  "deref p g = (case p of None \<Rightarrow> Fault | Some x \<Rightarrow> g x)"
  by (simp_all add: ASSERT_def deref_def split: outcome.split)

lemma bind_Ret_right [simp]: "bind m Ret = m"
  by (cases m) simp_all

lemma bind_assoc: "bind (bind m f) g = bind m (\<lambda>x. bind (f x) g)"
  by (cases m) simp_all

lemma bind_snd: "bind (bind m (\<lambda>(_, y). Ret y)) g = bind m (\<lambda>(_, y). g y)"
  by (cases m) (auto split: prod.splits)

lemma bind_eq_Ret: "bind m f = Ret y \<longleftrightarrow> (\<exists>x. m = Ret x \<and> f x = Ret y)"
  by (cases m) simp_all

section \<open>Safety\<close>

fun safe :: "('a \<Rightarrow> bool) \<Rightarrow> 'a outcome \<Rightarrow> bool" where
  "safe P (Ret x) = P x"
| "safe P Assert = False"
| "safe P Fault = False"
| "safe P NoFuel = True"

lemma safe_bind:
  "safe Q m \<Longrightarrow> (\<And>x. Q x \<Longrightarrow> safe P (f x)) \<Longrightarrow> safe P (bind m f)"
  by (cases m) simp_all

lemma safe_mono: "safe Q m \<Longrightarrow> (\<And>x. Q x \<Longrightarrow> P x) \<Longrightarrow> safe P m"
  by (cases m) simp_all

lemma safe_conj: "safe P m \<Longrightarrow> safe Q m \<Longrightarrow> safe (\<lambda>x. P x \<and> Q x) m"
  by (cases m) simp_all

lemma safe_ASSERT: "b \<Longrightarrow> safe P k \<Longrightarrow> safe P (ASSERT b k)"
  by simp

lemma safe_deref: "p = Some x \<Longrightarrow> safe P (k x) \<Longrightarrow> safe P (deref p k)"
  by simp

lemma safe_if: "(b \<Longrightarrow> safe P x) \<Longrightarrow> (\<not> b \<Longrightarrow> safe P y) \<Longrightarrow> safe P (if b then x else y)"
  by simp

lemma safe_RetI: "P x \<Longrightarrow> safe P (Ret x)"
  by simp

lemma safe_Ret: "m = Ret x \<Longrightarrow> safe P m \<Longrightarrow> P x"
  by simp

text \<open>\<open>returns P\<close> holds of an outcome that is a result with \<open>P\<close>: the routine is safe and the fuel was enough.\<close>

definition returns :: "('a \<Rightarrow> bool) \<Rightarrow> 'a outcome \<Rightarrow> bool" where
  "returns P m \<longleftrightarrow> (\<exists>x. m = Ret x \<and> P x)"

lemma returns_Ret [simp]: "returns P (Ret x) = P x"
  by (auto simp: returns_def)

lemma returnsI: "safe P m \<Longrightarrow> m \<noteq> NoFuel \<Longrightarrow> returns P m"
  by (cases m) (simp_all add: returns_def)

lemma returns_mono: "returns Q m \<Longrightarrow> (\<And>x. Q x \<Longrightarrow> P x) \<Longrightarrow> returns P m"
  by (auto simp: returns_def)

lemma returns_safe: "returns P m \<Longrightarrow> safe P m"
  by (auto simp: returns_def)

section \<open>More fuel, same result\<close>

text \<open>\<open>ole a b\<close>: \<open>b\<close> is what \<open>a\<close> is, unless \<open>a\<close> ran out of fuel.\<close>

definition ole :: "'a outcome \<Rightarrow> 'a outcome \<Rightarrow> bool" where
  "ole a b \<longleftrightarrow> a = NoFuel \<or> a = b"

named_theorems ole_intros

lemma ole_refl [simp, ole_intros]: "ole a a"
  by (simp add: ole_def)

lemma ole_NoFuel [simp, ole_intros]: "ole NoFuel a"
  by (simp add: ole_def)

lemma ole_trans: "ole a b \<Longrightarrow> ole b c \<Longrightarrow> ole a c"
  by (auto simp: ole_def)

lemma ole_Ret: "ole (Ret x) b \<Longrightarrow> b = Ret x"
  by (simp add: ole_def)

lemma ole_bind [ole_intros]: "ole a b \<Longrightarrow> (\<And>x. ole (f x) (g x)) \<Longrightarrow> ole (bind a f) (bind b g)"
  by (cases a; cases b) (auto simp: ole_def)

lemma ole_ASSERT [ole_intros]: "ole a b \<Longrightarrow> ole (ASSERT c a) (ASSERT c b)"
  by (cases c) simp_all

lemma ole_deref [ole_intros]: "(\<And>x. ole (f x) (g x)) \<Longrightarrow> ole (deref p f) (deref p g)"
  by (cases p) simp_all

lemma ole_if [ole_intros]: "ole a b \<Longrightarrow> ole a' b' \<Longrightarrow> ole (if c then a else a') (if c then b else b')"
  by simp

lemma ole_case_prod [ole_intros]:
  "(\<And>x y. ole (f x y) (g x y)) \<Longrightarrow> ole (case p of (x, y) \<Rightarrow> f x y) (case p of (x, y) \<Rightarrow> g x y)"
  by (cases p) simp

lemma ole_case_option [ole_intros]:
  "ole a b \<Longrightarrow> (\<And>x. ole (f x) (g x)) \<Longrightarrow>
     ole (case p of None \<Rightarrow> a | Some x \<Rightarrow> f x) (case p of None \<Rightarrow> b | Some x \<Rightarrow> g x)"
  by (cases p) simp_all

lemma ole_Let [ole_intros]: "(\<And>x. ole (f x) (g x)) \<Longrightarrow> ole (let x = e in f x) (let x = e in g x)"
  by (simp add: Let_def)

end
