(* ===== verification/EventState.thy ===== *)
theory EventState
  imports Outcome
begin

text \<open>
  The shared state of the event, timer and task-priority services of
  \<open>HostLib/UefiBootServicesTableLibHost\<close> (the globals of \<open>EventDxeCore.c\<close>,
  \<open>TimerDxeCore.c\<close>, \<open>TplDxeCore.c\<close>, \<open>MockTimerHost.c\<close>), the \<open>IEVENT\<close> structure of
  \<open>EventDxeCore.h\<close>, the lock helpers of \<open>Library.c\<close> and the bit scan of \<open>BaseLibHost\<close> that the
  dispatcher uses. An event is a number, \<open>events\<close> says which are allocated. The intrusive list
  links of an event are represented by the lists of the heads and one flag per link, which says
  whether its \<open>ForwardLink\<close> is not NULL.
\<close>

section \<open>Highest set bit\<close>

text \<open>The loop shifts left until the sign bit is set; 32 rounds always suffice.\<close>

fun HighBitSet32_loop :: "nat \<Rightarrow> u32 \<Rightarrow> int \<Rightarrow> int" where
  "HighBitSet32_loop 0 Operand BitIndex = BitIndex"
| "HighBitSet32_loop (Suc k) Operand BitIndex =
     (if 0 <s Operand then HighBitSet32_loop k (push_bit 1 Operand) (BitIndex - 1) else BitIndex)"

definition HighBitSet32 :: "u32 \<Rightarrow> int" where
  "HighBitSet32 Operand = (if Operand = 0 then - 1 else HighBitSet32_loop 32 Operand 31)"

definition HighBitSet64 :: "u64 \<Rightarrow> int" where
  "HighBitSet64 Operand =
     (if Operand = ucast (ucast Operand :: u32) then HighBitSet32 (ucast Operand)
      else HighBitSet32 (ucast (drop_bit 32 Operand)) + 32)"

text \<open>The bit scan finds the highest set bit.\<close>

definition is_high :: "'a::len word \<Rightarrow> nat \<Rightarrow> bool" where
  "is_high w h \<longleftrightarrow> bit w h \<and> (\<forall>q. bit w q \<longrightarrow> q \<le> h)"

lemma is_high_unique: "is_high w h \<Longrightarrow> is_high w h' \<Longrightarrow> h = h'"
  by (auto simp: is_high_def intro: le_antisym)

lemma is_high_exists:
  assumes "w \<noteq> (0 :: 'a::len word)"
  shows "\<exists>h < LENGTH('a). is_high w h"
proof -
  have ne: "{q. bit w q} \<noteq> {}" using assms by (auto simp: bit_eq_iff)
  have fin: "finite {q. bit w q}"
    by (rule finite_subset[of _ "{..<LENGTH('a)}"]) (auto dest: bit_imp_le_length)
  have "is_high w (Max {q. bit w q})"
    using Max_in[OF fin ne] Max_ge[OF fin] by (simp add: is_high_def)
  moreover from this have "Max {q. bit w q} < LENGTH('a)"
    using bit_imp_le_length by (auto simp: is_high_def)
  ultimately show ?thesis by blast
qed

lemma sless_bit: "w \<noteq> 0 \<Longrightarrow> (0 <s (w :: u32)) \<longleftrightarrow> \<not> bit w 31"
proof -
  have "bit w 31 \<longleftrightarrow> sint w < 0" using bit_last_iff[of w] by simp
  moreover assume "w \<noteq> 0"
  then have "sint w \<noteq> 0" by (metis signed_0 signed_word_eqI)
  ultimately show ?thesis by (auto simp: word_sless_alt)
qed

lemma HighBitSet32_loop_eq:
  "is_high w h \<Longrightarrow> h \<le> 31 \<Longrightarrow> 31 - h \<le> k \<Longrightarrow> HighBitSet32_loop k w b = b - (31 - int h)"
proof (induction k arbitrary: w h b)
  case (Suc k)
  have nz: "w \<noteq> 0" using Suc.prems(1) by (auto simp: is_high_def)
  show ?case
  proof (cases "h = 31")
    case True
    then have "\<not> 0 <s w" using Suc.prems(1) sless_bit[OF nz] by (simp add: is_high_def)
    then show ?thesis using True by simp
  next
    case False
    then have "\<not> bit w 31" "h < 31" using Suc.prems(1,2) by (auto simp: is_high_def)
    then have "0 <s w" using sless_bit[OF nz] by simp
    moreover have "is_high (push_bit 1 w) (Suc h)"
      using Suc.prems(1) \<open>h < 31\<close> unfolding is_high_def bit_simps by fastforce
    from Suc.IH[OF this, of "b - 1"] \<open>h < 31\<close> Suc.prems(3)
    have "HighBitSet32_loop k (push_bit 1 w) (b - 1) = b - (31 - int h)" by simp
    ultimately show ?thesis by simp
  qed
qed simp

lemma HighBitSet32_high: "is_high w h \<Longrightarrow> HighBitSet32 w = int h"
proof -
  assume h: "is_high w h"
  then have "w \<noteq> 0" "h \<le> 31" using bit_imp_le_length[of w h] by (auto simp: is_high_def)
  with HighBitSet32_loop_eq[OF h, of 32 31] show ?thesis by (simp add: HighBitSet32_def)
qed

lemma HighBitSet64_high:
  assumes "is_high (w :: u64) h"
  shows "HighBitSet64 w = int h"
proof (cases "w = ucast (ucast w :: u32)")
  case True
  have b: "bit (ucast w :: u32) q \<longleftrightarrow> bit w q" for q
    using bit_imp_le_length[of w q] by (subst (2) True) (auto simp: bit_simps)
  then have "is_high (ucast w :: u32) h" using assms by (simp add: is_high_def)
  then show ?thesis using True by (simp add: HighBitSet64_def HighBitSet32_high)
next
  case False
  then obtain q where "bit w q \<noteq> bit (ucast (ucast w :: u32) :: u64) q" by (auto simp: bit_eq_iff)
  then have "bit w q" "\<not> q < 32" by (auto simp: bit_simps dest: bit_imp_le_length)
  then have h: "32 \<le> h" "h < 64" using assms bit_imp_le_length[of w h] by (auto simp: is_high_def)
  have b: "bit (ucast (drop_bit 32 w) :: u32) q \<longleftrightarrow> bit w (q + 32)" for q
    using bit_imp_le_length[of w "q + 32"] by (auto simp: bit_simps add.commute)
  have "is_high (ucast (drop_bit 32 w) :: u32) (h - 32)"
    using assms h unfolding is_high_def b by auto
  from HighBitSet32_high[OF this] False h show ?thesis by (simp add: HighBitSet64_def)
qed

theorem HighBitSet64_highest:
  "if w = 0 then HighBitSet64 w = - 1
   else \<exists>h < 64. HighBitSet64 w = int h \<and> bit w h \<and> (\<forall>q. bit w q \<longrightarrow> q \<le> h)"
proof (cases "w = 0")
  case True
  then show ?thesis by (simp add: HighBitSet64_def HighBitSet32_def)
next
  case False
  then obtain h where "h < 64" "is_high w h" using is_high_exists[of w] by auto
  with False show ?thesis using HighBitSet64_high[of w h] by (auto simp: is_high_def)
qed

section \<open>Constants\<close>

abbreviation TPL_APPLICATION :: nat where "TPL_APPLICATION \<equiv> 4"
abbreviation TPL_CALLBACK :: nat where "TPL_CALLBACK \<equiv> 8"
abbreviation TPL_NOTIFY :: nat where "TPL_NOTIFY \<equiv> 16"
abbreviation TPL_HIGH_LEVEL :: nat where "TPL_HIGH_LEVEL \<equiv> 31"

definition VALID_TPL :: "nat \<Rightarrow> bool" where
  "VALID_TPL a \<longleftrightarrow> a \<le> TPL_HIGH_LEVEL"

abbreviation EVT_TIMER :: u32 where "EVT_TIMER \<equiv> 0x80000000"
abbreviation EVT_RUNTIME :: u32 where "EVT_RUNTIME \<equiv> 0x40000000"
abbreviation EVT_NOTIFY_WAIT :: u32 where "EVT_NOTIFY_WAIT \<equiv> 0x00000100"
abbreviation EVT_NOTIFY_SIGNAL :: u32 where "EVT_NOTIFY_SIGNAL \<equiv> 0x00000200"
abbreviation EVT_SIGNAL_EXIT_BOOT_SERVICES :: u32 where
  "EVT_SIGNAL_EXIT_BOOT_SERVICES \<equiv> 0x00000201"
abbreviation EVT_SIGNAL_VIRTUAL_ADDRESS_CHANGE :: u32 where
  "EVT_SIGNAL_VIRTUAL_ADDRESS_CHANGE \<equiv> 0x60000202"
abbreviation EVT_EXFLAG_EVENT_GROUP :: u8 where "EVT_EXFLAG_EVENT_GROUP \<equiv> 1"
abbreviation EVT_EXFLAG_EVENT_PROTOCOL_NOTIFICATION :: u8 where
  "EVT_EXFLAG_EVENT_PROTOCOL_NOTIFICATION \<equiv> 2"

abbreviation EVENT_SIGNATURE :: u64 where "EVENT_SIGNATURE \<equiv> 0x746e7665"

abbreviation gEfiEventExitBootServicesGuid :: guid where
  "gEfiEventExitBootServicesGuid \<equiv> 0x27ABF055B1B84C268048748F37BAA2DF"
abbreviation gEfiEventVirtualAddressChangeGuid :: guid where
  "gEfiEventVirtualAddressChangeGuid \<equiv> 0x13FA7698C83149C787EA8F43FCC25196"
abbreviation gIdleLoopEventGuid :: guid where
  "gIdleLoopEventGuid \<equiv> 0x3C8D294C5FC34451BB31C4C032295E6C"

text \<open>\<open>(UINTN)(1 << Tpl)\<close>: the shift is done on a 32-bit int, then sign-extended.\<close>

definition tpl_bit :: "nat \<Rightarrow> u64" where
  "tpl_bit t = scast (push_bit t (1 :: u32))"

section \<open>Events, locks and the global state\<close>

text \<open>
  The notification functions: the timer check and the empty function of the core, and the
  functions of the drivers and mocks, which are numbered.
\<close>

datatype notify_fn = CoreCheckTimersFn | EfiEventEmptyFunction | ClientFn nat

record ievent =
  Signature :: u64
  Type :: u32
  SignalCount :: u32
  NotifyTpl :: nat
  NotifyFunction :: "notify_fn option"
  NotifyContext :: ptr
  EventGroup :: guid
  ExFlag :: u8
  TriggerTime :: u64
  Period :: u64
  SignalLinked :: bool
  NotifyLinked :: bool
  RuntimeLinked :: bool
  TimerLinked :: bool

definition zero_event :: ievent where
  "zero_event = \<lparr>Signature = 0, Type = 0, SignalCount = 0, NotifyTpl = 0, NotifyFunction = None,
     NotifyContext = None, EventGroup = 0, ExFlag = 0, TriggerTime = 0, Period = 0,
     SignalLinked = False, NotifyLinked = False, RuntimeLinked = False, TimerLinked = False\<rparr>"

datatype lock_state = EfiLockUninitialized | EfiLockReleased | EfiLockAcquired

record efi_lock =
  Tpl :: nat
  OwnerTpl :: nat
  Lock :: lock_state

datatype lock_id = gEventQueueLock | mEfiTimerLock | mEfiSystemTimeLock | gProtocolDatabaseLock

record core =
  events :: "nat \<Rightarrow> ievent option"
  next_event :: nat
  gEfiCurrentTpl :: nat
  gEventQueue :: "nat \<Rightarrow> nat list"
  gEventPending :: u64
  gEventSignalQueue :: "nat list"
  mEfiTimerList :: "nat list"
  gRuntimeEventHead :: "nat list"
  mEfiSystemTime :: u64
  gPendingTimerDuration :: u64
  mEfiCheckTimerEvent :: ptr
  gIdleLoopEvent :: ptr
  gTimerHostInitialized :: bool
  locks :: "lock_id \<Rightarrow> efi_lock"

definition set_event :: "nat \<Rightarrow> ievent \<Rightarrow> 'x core_scheme \<Rightarrow> 'x core_scheme" where
  "set_event e ev s = s\<lparr>events := (events s)(e := Some ev)\<rparr>"

text \<open>The initial values of the globals. The protocol database lock is at \<open>TPL_NOTIFY\<close>.\<close>

fun lock_tpl :: "lock_id \<Rightarrow> nat" where
  "lock_tpl gEventQueueLock = TPL_HIGH_LEVEL"
| "lock_tpl mEfiTimerLock = TPL_HIGH_LEVEL - 1"
| "lock_tpl mEfiSystemTimeLock = TPL_HIGH_LEVEL"
| "lock_tpl gProtocolDatabaseLock = TPL_NOTIFY"

definition initial_core :: core where
  "initial_core = \<lparr>events = Map.empty, next_event = 1, gEfiCurrentTpl = TPL_APPLICATION,
     gEventQueue = (\<lambda>_. []), gEventPending = 0, gEventSignalQueue = [], mEfiTimerList = [],
     gRuntimeEventHead = [], mEfiSystemTime = 0, gPendingTimerDuration = 0,
     mEfiCheckTimerEvent = None, gIdleLoopEvent = None, gTimerHostInitialized = False,
     locks = (\<lambda>l. \<lparr>Tpl = lock_tpl l, OwnerTpl = TPL_APPLICATION, Lock = EfiLockReleased\<rparr>)\<rparr>"

section \<open>Raising the TPL and the locks\<close>

text \<open>\<open>CoreSetInterruptState\<close> returns at once: \<open>gCpu\<close> is NULL in the host.\<close>

definition CoreSetInterruptState :: "bool \<Rightarrow> 'x core_scheme \<Rightarrow> 'x core_scheme" where
  "CoreSetInterruptState Enable s = s"

definition CoreRaiseTpl :: "nat \<Rightarrow> 'x core_scheme \<Rightarrow> (nat \<times> 'x core_scheme) outcome" where
  "CoreRaiseTpl NewTpl s =
     (let OldTpl = gEfiCurrentTpl s
      in ASSERT (\<not> OldTpl > NewTpl)
        (ASSERT (VALID_TPL NewTpl)
          (let s1 = (if NewTpl \<ge> TPL_HIGH_LEVEL \<and> OldTpl < TPL_HIGH_LEVEL
                     then CoreSetInterruptState False s else s)
           in Ret (OldTpl, s1\<lparr>gEfiCurrentTpl := NewTpl\<rparr>))))"

text \<open>
  \<open>CoreRestoreTpl\<close> runs callbacks that call the services again, and \<open>CoreReleaseLock\<close> calls it.
  Every service that releases a lock therefore takes \<open>CoreRestoreTpl\<close> as its first argument,
  and the recursion is closed where \<open>CoreRestoreTpl\<close> is defined.
\<close>

type_synonym 's restore = "nat \<Rightarrow> 's \<Rightarrow> 's outcome"

definition CoreAcquireLock :: "lock_id \<Rightarrow> 'x core_scheme \<Rightarrow> 'x core_scheme outcome" where
  "CoreAcquireLock l s =
     ASSERT (Lock (locks s l) = EfiLockReleased)
       (bind (CoreRaiseTpl (Tpl (locks s l)) s) (\<lambda>(OldTpl, s1).
         Ret (s1\<lparr>locks := (locks s1)(l := (locks s1 l)\<lparr>OwnerTpl := OldTpl, Lock := EfiLockAcquired\<rparr>)\<rparr>)))"

definition CoreAcquireLockOrFail ::
  "lock_id \<Rightarrow> 'x core_scheme \<Rightarrow> (efi_status \<times> 'x core_scheme) outcome" where
  "CoreAcquireLockOrFail l s =
     ASSERT (Lock (locks s l) \<noteq> EfiLockUninitialized)
       (if Lock (locks s l) = EfiLockAcquired then Ret (EFI_ACCESS_DENIED, s)
        else bind (CoreRaiseTpl (Tpl (locks s l)) s) (\<lambda>(OldTpl, s1).
          Ret (EFI_SUCCESS, s1\<lparr>locks :=
            (locks s1)(l := (locks s1 l)\<lparr>OwnerTpl := OldTpl, Lock := EfiLockAcquired\<rparr>)\<rparr>)))"

definition CoreReleaseLock ::
  "'x core_scheme restore \<Rightarrow> lock_id \<Rightarrow> 'x core_scheme \<Rightarrow> 'x core_scheme outcome" where
  "CoreReleaseLock rst l s =
     ASSERT (Lock (locks s l) = EfiLockAcquired)
       (let t = OwnerTpl (locks s l)
        in rst t (s\<lparr>locks := (locks s)(l := (locks s l)\<lparr>Lock := EfiLockReleased\<rparr>)\<rparr>))"

definition CoreAcquireEventLock :: "'x core_scheme \<Rightarrow> 'x core_scheme outcome" where
  "CoreAcquireEventLock s = CoreAcquireLock gEventQueueLock s"

definition CoreReleaseEventLock ::
  "'x core_scheme restore \<Rightarrow> 'x core_scheme \<Rightarrow> 'x core_scheme outcome" where
  "CoreReleaseEventLock rst s = CoreReleaseLock rst gEventQueueLock s"

text \<open>\<open>ASSERT_LOCKED\<close>: the lock is held.\<close>

definition ASSERT_LOCKED :: "lock_id \<Rightarrow> 'x core_scheme \<Rightarrow> 'a outcome \<Rightarrow> 'a outcome" where
  "ASSERT_LOCKED l s k = ASSERT (Lock (locks s l) = EfiLockAcquired) k"

end
