(* ===== verification/EventCore.thy ===== *)
theory EventCore
  imports EventState
begin

text \<open>
  The operations of \<open>EventDxeCore.c\<close>, \<open>TimerDxeCore.c\<close>, \<open>TplDxeCore.c\<close> and
  \<open>MockTimerHost.c\<close> over the state of \<open>EventState\<close>. Each service has its C name; the first
  argument \<open>rst\<close> is \<open>CoreRestoreTpl\<close> (see \<open>EventState\<close>). Allocations that can fail take a flag
  that says whether the allocator returns memory.
\<close>

section \<open>Queueing and signalling\<close>

text \<open>\<open>RemoveEntryList (&Event->NotifyLink)\<close> and clearing of the link.\<close>

definition RemoveNotifyLink :: "nat \<Rightarrow> 'x core_scheme \<Rightarrow> 'x core_scheme outcome" where
  "RemoveNotifyLink e s =
     deref (events s e) (\<lambda>ev.
       if \<exists>p \<in> set [0..<32]. e \<in> set (gEventQueue s p)
       then Ret (set_event e (ev\<lparr>NotifyLinked := False\<rparr>)
              (s\<lparr>gEventQueue := (\<lambda>p. remove1 e (gEventQueue s p))\<rparr>))
       else Fault)"

definition CoreNotifyEvent :: "nat \<Rightarrow> 'x core_scheme \<Rightarrow> 'x core_scheme outcome" where
  "CoreNotifyEvent e s =
     ASSERT_LOCKED gEventQueueLock s
       (deref (events s e) (\<lambda>ev.
         bind (if NotifyLinked ev then RemoveNotifyLink e s else Ret s) (\<lambda>s1.
           if NotifyTpl ev \<le> TPL_HIGH_LEVEL
           then Ret (set_event e (ev\<lparr>NotifyLinked := True\<rparr>)
                  (s1\<lparr>gEventQueue := (gEventQueue s1)
                        (NotifyTpl ev := gEventQueue s1 (NotifyTpl ev) @ [e]),
                     gEventPending := gEventPending s1 OR tpl_bit (NotifyTpl ev)\<rparr>))
           else Fault)))"

text \<open>The walk over the signal queue, which queueing an event does not change.\<close>

fun NotifySignalMembers :: "guid \<Rightarrow> nat list \<Rightarrow> 'x core_scheme \<Rightarrow> 'x core_scheme outcome" where
  "NotifySignalMembers g [] s = Ret s"
| "NotifySignalMembers g (e # es) s =
     deref (events s e) (\<lambda>ev.
       bind (if EventGroup ev = g then CoreNotifyEvent e s else Ret s) (NotifySignalMembers g es))"

definition CoreNotifySignalList ::
  "'x core_scheme restore \<Rightarrow> guid \<Rightarrow> 'x core_scheme \<Rightarrow> 'x core_scheme outcome" where
  "CoreNotifySignalList rst g s =
     bind (CoreAcquireEventLock s) (\<lambda>s1.
     bind (NotifySignalMembers g (gEventSignalQueue s1) s1) (\<lambda>s2.
     CoreReleaseEventLock rst s2))"

text \<open>
  Signalling a group releases the lock, queues all members and takes the lock again; an event
  that is not signalled yet is marked and, if it has a signal notification, queued.
\<close>

definition Signal_group ::
  "'x core_scheme restore \<Rightarrow> nat \<Rightarrow> 'x core_scheme \<Rightarrow> 'x core_scheme outcome" where
  "Signal_group rst e s =
     bind (CoreReleaseEventLock rst s) (\<lambda>s1.
     deref (events s1 e) (\<lambda>ev.
     bind (CoreNotifySignalList rst (EventGroup ev) s1) CoreAcquireEventLock))"

definition Signal_mark ::
  "'x core_scheme restore \<Rightarrow> nat \<Rightarrow> 'x core_scheme \<Rightarrow> 'x core_scheme outcome" where
  "Signal_mark rst e s =
     deref (events s e) (\<lambda>ev.
       if SignalCount ev = 0 then
         (let ev1 = ev\<lparr>SignalCount := SignalCount ev + 1\<rparr>; s1 = set_event e ev1 s
          in if Type ev1 AND EVT_NOTIFY_SIGNAL \<noteq> 0 then
               (if ExFlag ev1 AND EVT_EXFLAG_EVENT_GROUP \<noteq> 0 then Signal_group rst e s1
                else CoreNotifyEvent e s1)
             else Ret s1)
       else Ret s)"

definition CoreSignalEvent ::
  "'x core_scheme restore \<Rightarrow> ptr \<Rightarrow> 'x core_scheme \<Rightarrow> (efi_status \<times> 'x core_scheme) outcome" where
  "CoreSignalEvent rst UserEvent s =
     (case UserEvent of None \<Rightarrow> Ret (EFI_INVALID_PARAMETER, s)
      | Some e \<Rightarrow>
        deref (events s e) (\<lambda>ev.
          if Signature ev \<noteq> EVENT_SIGNATURE then Ret (EFI_INVALID_PARAMETER, s)
          else
            bind (CoreAcquireEventLock s) (\<lambda>s1.
            bind (Signal_mark rst e s1) (\<lambda>s2.
            bind (CoreReleaseEventLock rst s2) (\<lambda>s3. Ret (EFI_SUCCESS, s3))))))"

section \<open>Timers\<close>

text \<open>The walk to the first timer that triggers later; the new entry goes in front of it.\<close>

fun InsertTimer_walk ::
  "(nat \<Rightarrow> ievent option) \<Rightarrow> u64 \<Rightarrow> nat \<Rightarrow> nat list \<Rightarrow> nat list outcome" where
  "InsertTimer_walk evs Trigger e [] = Ret [e]"
| "InsertTimer_walk evs Trigger e (x # xs) =
     deref (evs x) (\<lambda>ev2.
       if TriggerTime ev2 > Trigger then Ret (e # x # xs)
       else bind (InsertTimer_walk evs Trigger e xs) (\<lambda>ys. Ret (x # ys)))"

definition CoreInsertEventTimer :: "nat \<Rightarrow> 'x core_scheme \<Rightarrow> 'x core_scheme outcome" where
  "CoreInsertEventTimer e s =
     ASSERT_LOCKED mEfiTimerLock s
       (deref (events s e) (\<lambda>ev.
         bind (InsertTimer_walk (events s) (TriggerTime ev) e (mEfiTimerList s)) (\<lambda>l.
         Ret (set_event e (ev\<lparr>TimerLinked := True\<rparr>) (s\<lparr>mEfiTimerList := l\<rparr>)))))"

definition CoreCurrentSystemTime ::
  "'x core_scheme restore \<Rightarrow> 'x core_scheme \<Rightarrow> (u64 \<times> 'x core_scheme) outcome" where
  "CoreCurrentSystemTime rst s =
     bind (CoreAcquireLock mEfiSystemTimeLock s) (\<lambda>s1.
     let SystemTime = mEfiSystemTime s1
     in bind (CoreReleaseLock rst mEfiSystemTimeLock s1) (\<lambda>s2. Ret (SystemTime, s2)))"

text \<open>\<open>RemoveEntryList (&Event->Timer.Link)\<close> and clearing of the link.\<close>

definition RemoveTimerLink :: "nat \<Rightarrow> 'x core_scheme \<Rightarrow> 'x core_scheme outcome" where
  "RemoveTimerLink e s =
     deref (events s e) (\<lambda>ev.
       if e \<in> set (mEfiTimerList s)
       then Ret (set_event e (ev\<lparr>TimerLinked := False\<rparr>)
              (s\<lparr>mEfiTimerList := remove1 e (mEfiTimerList s)\<rparr>))
       else Fault)"

text \<open>
  One round of the loop of \<open>CoreCheckTimers\<close>, for the expired head \<open>e\<close> of the list: it leaves
  the list, is signalled, and is armed again if it is periodic.
\<close>

definition CheckTimers_rearm ::
  "'x core_scheme restore \<Rightarrow> u64 \<Rightarrow> nat \<Rightarrow> 'x core_scheme \<Rightarrow> 'x core_scheme outcome" where
  "CheckTimers_rearm rst SystemTime e s =
     deref (events s e) (\<lambda>ev.
       if Period ev = 0 then Ret s
       else
         let ev1 = ev\<lparr>TriggerTime := TriggerTime ev + Period ev\<rparr>
         in bind (if TriggerTime ev1 \<le> SystemTime
                  then bind (CoreSignalEvent rst (mEfiCheckTimerEvent s)
                               (set_event e (ev1\<lparr>TriggerTime := SystemTime\<rparr>) s))
                         (\<lambda>(_, s1). Ret s1)
                  else Ret (set_event e ev1 s))
              (CoreInsertEventTimer e))"

definition CheckTimers_expire ::
  "'x core_scheme restore \<Rightarrow> u64 \<Rightarrow> nat \<Rightarrow> 'x core_scheme \<Rightarrow> 'x core_scheme outcome" where
  "CheckTimers_expire rst SystemTime e s =
     bind (RemoveTimerLink e s) (\<lambda>s1.
     bind (CoreSignalEvent rst (Some e) s1) (\<lambda>(_, s2).
     CheckTimers_rearm rst SystemTime e s2))"

fun CheckTimers_loop ::
  "'x core_scheme restore \<Rightarrow> nat \<Rightarrow> u64 \<Rightarrow> 'x core_scheme \<Rightarrow> 'x core_scheme outcome" where
  "CheckTimers_loop rst 0 SystemTime s = NoFuel"
| "CheckTimers_loop rst (Suc k) SystemTime s =
     (case mEfiTimerList s of [] \<Rightarrow> Ret s
      | e # _ \<Rightarrow>
        deref (events s e) (\<lambda>ev.
          if TriggerTime ev > SystemTime then Ret s
          else bind (CheckTimers_expire rst SystemTime e s) (CheckTimers_loop rst k SystemTime)))"

definition CoreCheckTimers ::
  "'x core_scheme restore \<Rightarrow> nat \<Rightarrow> 'x core_scheme \<Rightarrow> 'x core_scheme outcome" where
  "CoreCheckTimers rst k s =
     bind (CoreAcquireLock mEfiTimerLock s) (\<lambda>s1.
     bind (CoreCurrentSystemTime rst s1) (\<lambda>(SystemTime, s2).
     bind (CheckTimers_loop rst k SystemTime s2) (\<lambda>s3.
     CoreReleaseLock rst mEfiTimerLock s3)))"

definition CoreTimerTick ::
  "'x core_scheme restore \<Rightarrow> u64 \<Rightarrow> 'x core_scheme \<Rightarrow> 'x core_scheme outcome" where
  "CoreTimerTick rst Duration s =
     bind (CoreAcquireLock mEfiSystemTimeLock s) (\<lambda>s1.
     let s2 = s1\<lparr>mEfiSystemTime := mEfiSystemTime s1 + Duration\<rparr>
     in bind (case mEfiTimerList s2 of [] \<Rightarrow> Ret s2
              | e # _ \<Rightarrow>
                deref (events s2 e) (\<lambda>ev.
                  if TriggerTime ev \<le> mEfiSystemTime s2
                  then bind (CoreSignalEvent rst (mEfiCheckTimerEvent s2) s2) (\<lambda>(_, s3). Ret s3)
                  else Ret s2))
          (CoreReleaseLock rst mEfiSystemTimeLock))"

text \<open>The \<open>EFI_TIMER_DELAY\<close> argument is an enumeration; other values are refused.\<close>

datatype timer_delay = TimerCancel | TimerPeriodic | TimerRelative | TimerOther u32

abbreviation DEFAULT_TIMER_TICK_DURATION :: u64 where
  "DEFAULT_TIMER_TICK_DURATION \<equiv> 100000"

fun timer_delay_valid :: "timer_delay \<Rightarrow> bool" where
  "timer_delay_valid (TimerOther _) = False"
| "timer_delay_valid _ = True"

text \<open>Arming the unlinked timer \<open>e\<close>: period and trigger time, insertion, and the check event.\<close>

definition SetTimer_arm ::
  "'x core_scheme restore \<Rightarrow> nat \<Rightarrow> timer_delay \<Rightarrow> u64 \<Rightarrow> 'x core_scheme \<Rightarrow> 'x core_scheme outcome" where
  "SetTimer_arm rst e Ty Trigger s =
     (let Trigger' = (if Ty = TimerPeriodic \<and> Trigger = 0
            then DEFAULT_TIMER_TICK_DURATION else Trigger)
      in bind (CoreCurrentSystemTime rst s) (\<lambda>(now, s1).
         deref (events s1 e) (\<lambda>ev.
         bind (CoreInsertEventTimer e
             (set_event e (ev\<lparr>TriggerTime := now + Trigger',
                Period := (if Ty = TimerPeriodic then Trigger' else Period ev)\<rparr>) s1)) (\<lambda>s2.
         if Trigger' = 0
         then bind (CoreSignalEvent rst (mEfiCheckTimerEvent s2) s2) (\<lambda>(_, s3). Ret s3)
         else Ret s2))))"

definition CoreSetTimer ::
  "'x core_scheme restore \<Rightarrow> ptr \<Rightarrow> timer_delay \<Rightarrow> u64 \<Rightarrow> 'x core_scheme \<Rightarrow>
     (efi_status \<times> 'x core_scheme) outcome" where
  "CoreSetTimer rst UserEvent Ty Trigger s =
     (case UserEvent of None \<Rightarrow> Ret (EFI_INVALID_PARAMETER, s)
      | Some e \<Rightarrow>
        deref (events s e) (\<lambda>ev.
          if Signature ev \<noteq> EVENT_SIGNATURE then Ret (EFI_INVALID_PARAMETER, s)
          else if \<not> timer_delay_valid Ty \<or> Type ev AND EVT_TIMER = 0
          then Ret (EFI_INVALID_PARAMETER, s)
          else
            bind (CoreAcquireLock mEfiTimerLock s) (\<lambda>s1.
            bind (if TimerLinked ev then RemoveTimerLink e s1 else Ret s1) (\<lambda>s2.
            deref (events s2 e) (\<lambda>ev2.
            let s3 = set_event e (ev2\<lparr>TriggerTime := 0, Period := 0\<rparr>) s2
            in bind (if Ty \<noteq> TimerCancel then SetTimer_arm rst e Ty Trigger s3 else Ret s3) (\<lambda>s4.
            bind (CoreReleaseLock rst mEfiTimerLock s4) (\<lambda>s5. Ret (EFI_SUCCESS, s5))))))))"

section \<open>Dispatching and lowering the TPL\<close>

text \<open>
  The notification functions of drivers and mocks are a parameter: they get \<open>CoreRestoreTpl\<close>,
  their number, the event and the context, and may call every service.
\<close>

type_synonym 's client = "'s restore \<Rightarrow> nat \<Rightarrow> nat \<Rightarrow> ptr \<Rightarrow> 's \<Rightarrow> 's outcome"

fun call_notify ::
  "'x core_scheme client \<Rightarrow> 'x core_scheme restore \<Rightarrow> nat \<Rightarrow> notify_fn \<Rightarrow> nat \<Rightarrow> ptr \<Rightarrow>
     'x core_scheme \<Rightarrow> 'x core_scheme outcome" where
  "call_notify cl rst k CoreCheckTimersFn e ctx s = CoreCheckTimers rst k s"
| "call_notify cl rst k EfiEventEmptyFunction e ctx s = Ret s"
| "call_notify cl rst k (ClientFn f) e ctx s = cl rst f e ctx s"

text \<open>The head of the queue leaves it and, for a signal event, becomes unsignalled.\<close>

definition Dispatch_take :: "nat \<Rightarrow> 'x core_scheme \<Rightarrow> 'x core_scheme outcome" where
  "Dispatch_take e s =
     bind (RemoveNotifyLink e s) (\<lambda>s1.
     deref (events s1 e) (\<lambda>ev.
       Ret (if Type ev AND EVT_NOTIFY_SIGNAL \<noteq> 0
            then set_event e (ev\<lparr>SignalCount := 0\<rparr>) s1 else s1)))"

fun Dispatch_loop ::
  "'x core_scheme client \<Rightarrow> 'x core_scheme restore \<Rightarrow> nat \<Rightarrow> nat \<Rightarrow> nat \<Rightarrow> 'x core_scheme \<Rightarrow>
     'x core_scheme outcome" where
  "Dispatch_loop cl rst k 0 Priority s = NoFuel"
| "Dispatch_loop cl rst k (Suc m) Priority s =
     (case gEventQueue s Priority of [] \<Rightarrow> Ret s
      | e # _ \<Rightarrow>
        bind (Dispatch_take e s) (\<lambda>s1.
        bind (CoreReleaseEventLock rst s1) (\<lambda>s2.
        deref (events s2 e) (\<lambda>ev.
        ASSERT (NotifyFunction ev \<noteq> None)
          (bind (call_notify cl rst k (the (NotifyFunction ev)) e (NotifyContext ev) s2) (\<lambda>s3.
           bind (CoreAcquireEventLock s3) (Dispatch_loop cl rst k m Priority)))))))"

definition CoreDispatchEventNotifies ::
  "'x core_scheme client \<Rightarrow> 'x core_scheme restore \<Rightarrow> nat \<Rightarrow> nat \<Rightarrow> 'x core_scheme \<Rightarrow>
     'x core_scheme outcome" where
  "CoreDispatchEventNotifies cl rst k Priority s =
     bind (CoreAcquireEventLock s) (\<lambda>s1.
     ASSERT (OwnerTpl (locks s1 gEventQueueLock) = Priority)
       (bind (Dispatch_loop cl rst k k Priority s1) (\<lambda>s2.
        CoreReleaseEventLock rst
          (s2\<lparr>gEventPending := gEventPending s2 AND NOT (tpl_bit Priority)\<rparr>))))"

definition MockTimerHostConsumePending :: "'x core_scheme \<Rightarrow> u64 \<times> 'x core_scheme" where
  "MockTimerHostConsumePending s = (gPendingTimerDuration s, s\<lparr>gPendingTimerDuration := 0\<rparr>)"

text \<open>The loop over the pending priorities.\<close>

fun Restore_loop ::
  "'x core_scheme client \<Rightarrow> 'x core_scheme restore \<Rightarrow> nat \<Rightarrow> nat \<Rightarrow> nat \<Rightarrow> 'x core_scheme \<Rightarrow>
     'x core_scheme outcome" where
  "Restore_loop cl rst k 0 NewTpl s = NoFuel"
| "Restore_loop cl rst k (Suc m) NewTpl s =
     (if gEventPending s = 0 then Ret s
      else
        let PendingTpl = nat (HighBitSet64 (gEventPending s))
        in if PendingTpl \<le> NewTpl then Ret s
           else
             let s1 = s\<lparr>gEfiCurrentTpl := PendingTpl\<rparr>;
                 s2 = (if PendingTpl < TPL_HIGH_LEVEL then CoreSetInterruptState True s1 else s1)
             in bind (CoreDispatchEventNotifies cl rst k PendingTpl s2)
                  (Restore_loop cl rst k m NewTpl))"

text \<open>The pending timer interrupt, processed when the TPL drops below \<open>TPL_HIGH_LEVEL\<close>.\<close>

definition Restore_interrupt :: "'x core_scheme restore \<Rightarrow> 'x core_scheme restore" where
  "Restore_interrupt rst NewTpl s =
     (if gEfiCurrentTpl s \<ge> TPL_HIGH_LEVEL \<and> NewTpl < TPL_HIGH_LEVEL then
        (let (PendingDuration, s1) =
               MockTimerHostConsumePending (s\<lparr>gEfiCurrentTpl := TPL_HIGH_LEVEL\<rparr>)
         in if PendingDuration > 0 then CoreTimerTick rst PendingDuration s1 else Ret s1)
      else Ret s)"

definition Restore_body ::
  "'x core_scheme client \<Rightarrow> 'x core_scheme restore \<Rightarrow> nat \<Rightarrow> 'x core_scheme restore" where
  "Restore_body cl rst k NewTpl s =
     ASSERT (\<not> NewTpl > gEfiCurrentTpl s)
       (ASSERT (VALID_TPL NewTpl)
         (bind (Restore_interrupt rst NewTpl s) (\<lambda>s2.
          bind (Restore_loop cl rst k k NewTpl s2) (\<lambda>s3.
            let s4 = s3\<lparr>gEfiCurrentTpl := NewTpl\<rparr>
            in Ret (if NewTpl < TPL_HIGH_LEVEL then CoreSetInterruptState True s4 else s4)))))"

text \<open>
  \<open>CoreRestoreTpl\<close> with a bound \<open>n\<close> on the depth of nested calls and on the rounds of every
  loop inside.
\<close>

fun CoreRestoreTpl :: "'x core_scheme client \<Rightarrow> nat \<Rightarrow> 'x core_scheme restore" where
  "CoreRestoreTpl cl 0 NewTpl s = NoFuel"
| "CoreRestoreTpl cl (Suc n) NewTpl s = Restore_body cl (CoreRestoreTpl cl n) n NewTpl s"

section \<open>Creating, checking, waiting for and closing events\<close>

definition mEventTable :: "u32 list" where
  "mEventTable = [EVT_TIMER OR EVT_NOTIFY_SIGNAL, EVT_TIMER, EVT_NOTIFY_WAIT, EVT_NOTIFY_SIGNAL,
     EVT_SIGNAL_EXIT_BOOT_SERVICES, EVT_SIGNAL_VIRTUAL_ADDRESS_CHANGE, 0,
     EVT_TIMER OR EVT_NOTIFY_WAIT]"

text \<open>The type and the group after the conversion of the pre-defined groups.\<close>

definition convert_group :: "u32 \<Rightarrow> guid option \<Rightarrow> u32 \<times> guid option" where
  "convert_group Ty Group =
     (case Group of
        Some g \<Rightarrow>
          (if g = gEfiEventExitBootServicesGuid then (EVT_SIGNAL_EXIT_BOOT_SERVICES, Group)
           else if g = gEfiEventVirtualAddressChangeGuid
           then (EVT_SIGNAL_VIRTUAL_ADDRESS_CHANGE, Group)
           else (Ty, Group))
      | None \<Rightarrow>
          (if Ty = EVT_SIGNAL_EXIT_BOOT_SERVICES then (Ty, Some gEfiEventExitBootServicesGuid)
           else if Ty = EVT_SIGNAL_VIRTUAL_ADDRESS_CHANGE
           then (Ty, Some gEfiEventVirtualAddressChangeGuid)
           else (Ty, None)))"

definition is_notify_type :: "u32 \<Rightarrow> bool" where
  "is_notify_type Ty \<longleftrightarrow> Ty AND (EVT_NOTIFY_WAIT OR EVT_NOTIFY_SIGNAL) \<noteq> 0"

text \<open>The new event structure, and its allocation with the link into the runtime event list.\<close>

definition new_event :: "u32 \<Rightarrow> nat \<Rightarrow> notify_fn option \<Rightarrow> ptr \<Rightarrow> guid option \<Rightarrow> ievent" where
  "new_event Ty NTpl Fn Ctx Group = zero_event\<lparr>Signature := EVENT_SIGNATURE, Type := Ty,
     NotifyTpl := NTpl, NotifyFunction := Fn, NotifyContext := Ctx,
     EventGroup := (case Group of None \<Rightarrow> 0 | Some g \<Rightarrow> g),
     ExFlag := (if Group = None then 0 else EVT_EXFLAG_EVENT_GROUP)\<rparr>"

definition CreateEvent_alloc :: "ievent \<Rightarrow> 'x core_scheme \<Rightarrow> 'x core_scheme" where
  "CreateEvent_alloc ev s =
     (let e = next_event s; s1 = set_event e ev (s\<lparr>next_event := e + 1\<rparr>)
      in if Type ev AND EVT_RUNTIME \<noteq> 0
         then set_event e (ev\<lparr>RuntimeLinked := True\<rparr>)
                (s1\<lparr>gRuntimeEventHead := gRuntimeEventHead s1 @ [e]\<rparr>)
         else s1)"

text \<open>
  \<open>out\<close> says whether the \<open>Event\<close> argument is not NULL, \<open>mem\<close> whether the allocation succeeds. The
  result holds the new event, \<open>None\<close> when \<open>*Event\<close> is not written.
\<close>

definition CoreCreateEventInternal ::
  "'x core_scheme restore \<Rightarrow> bool \<Rightarrow> bool \<Rightarrow> u32 \<Rightarrow> nat \<Rightarrow> notify_fn option \<Rightarrow> ptr \<Rightarrow> guid option \<Rightarrow>
     'x core_scheme \<Rightarrow> (efi_status \<times> ptr \<times> 'x core_scheme) outcome" where
  "CoreCreateEventInternal rst mem out Ty NTpl Fn Ctx Group s =
     (if \<not> out then Ret (EFI_INVALID_PARAMETER, None, s)
      else if Ty \<notin> set mEventTable then Ret (EFI_INVALID_PARAMETER, None, s)
      else if Group \<noteq> None \<and>
        (Ty = EVT_SIGNAL_EXIT_BOOT_SERVICES \<or> Ty = EVT_SIGNAL_VIRTUAL_ADDRESS_CHANGE)
      then Ret (EFI_INVALID_PARAMETER, None, s)
      else
        let (Ty1, Group1) = convert_group Ty Group
        in if is_notify_type Ty1 \<and> (Fn = None \<or> NTpl \<le> TPL_APPLICATION \<or> NTpl \<ge> TPL_HIGH_LEVEL)
           then Ret (EFI_INVALID_PARAMETER, None, s)
           else if \<not> mem then Ret (EFI_OUT_OF_RESOURCES, None, s)
           else
             let ev = (if is_notify_type Ty1 then new_event Ty1 NTpl Fn Ctx Group1
                       else new_event Ty1 0 None None Group1);
                 e = next_event s;
                 s1 = CreateEvent_alloc ev s
             in bind (if Ty1 AND EVT_NOTIFY_SIGNAL \<noteq> 0 then
                        bind (CoreAcquireEventLock s1) (\<lambda>s2.
                        deref (events s2 e) (\<lambda>ev2.
                        CoreReleaseEventLock rst
                          (set_event e (ev2\<lparr>SignalLinked := True\<rparr>)
                            (s2\<lparr>gEventSignalQueue := e # gEventSignalQueue s2\<rparr>))))
                      else Ret s1)
                  (\<lambda>s3. Ret (EFI_SUCCESS, Some e, s3)))"

definition CoreCreateEventEx ::
  "'x core_scheme restore \<Rightarrow> bool \<Rightarrow> bool \<Rightarrow> u32 \<Rightarrow> nat \<Rightarrow> notify_fn option \<Rightarrow> ptr \<Rightarrow> guid option \<Rightarrow>
     'x core_scheme \<Rightarrow> (efi_status \<times> ptr \<times> 'x core_scheme) outcome" where
  "CoreCreateEventEx rst mem out Ty NTpl Fn Ctx Group s =
     (if is_notify_type Ty \<and> NTpl \<noteq> TPL_APPLICATION \<and> NTpl \<noteq> TPL_CALLBACK \<and> NTpl \<noteq> TPL_NOTIFY
      then Ret (EFI_INVALID_PARAMETER, None, s)
      else CoreCreateEventInternal rst mem out Ty NTpl Fn Ctx Group s)"

definition CoreCreateEvent ::
  "'x core_scheme restore \<Rightarrow> bool \<Rightarrow> bool \<Rightarrow> u32 \<Rightarrow> nat \<Rightarrow> notify_fn option \<Rightarrow> ptr \<Rightarrow>
     'x core_scheme \<Rightarrow> (efi_status \<times> ptr \<times> 'x core_scheme) outcome" where
  "CoreCreateEvent rst mem out Ty NTpl Fn Ctx s =
     CoreCreateEventEx rst mem out Ty NTpl Fn Ctx None s"

definition CoreCheckEvent ::
  "'x core_scheme restore \<Rightarrow> ptr \<Rightarrow> 'x core_scheme \<Rightarrow> (efi_status \<times> 'x core_scheme) outcome" where
  "CoreCheckEvent rst UserEvent s =
     (case UserEvent of None \<Rightarrow> Ret (EFI_INVALID_PARAMETER, s)
      | Some e \<Rightarrow>
        deref (events s e) (\<lambda>ev.
          if Signature ev \<noteq> EVENT_SIGNATURE then Ret (EFI_INVALID_PARAMETER, s)
          else if Type ev AND EVT_NOTIFY_SIGNAL \<noteq> 0 then Ret (EFI_INVALID_PARAMETER, s)
          else
            bind (if SignalCount ev = 0 \<and> Type ev AND EVT_NOTIFY_WAIT \<noteq> 0 then
                    bind (CoreAcquireEventLock s) (\<lambda>s1.
                    bind (if SignalCount ev = 0 then CoreNotifyEvent e s1 else Ret s1)
                      (CoreReleaseEventLock rst))
                  else Ret s) (\<lambda>s2.
            deref (events s2 e) (\<lambda>ev2.
            bind (if SignalCount ev2 \<noteq> 0 then
                    bind (CoreAcquireEventLock s2) (\<lambda>s3.
                    bind (CoreReleaseEventLock rst
                        (set_event e (ev2\<lparr>SignalCount := 0\<rparr>) s3)) (\<lambda>s4. Ret (EFI_SUCCESS, s4)))
                  else Ret (EFI_NOT_READY, s2)) (\<lambda>(Status, s5).
            if Status = EFI_NOT_READY then
              deref (events s5 e) (\<lambda>ev5.
                if Type ev5 AND EVT_TIMER \<noteq> 0
                then bind (CoreTimerTick rst 10000 s5) (\<lambda>s6. Ret (Status, s6))
                else Ret (Status, s5))
            else Ret (Status, s5))))))"

text \<open>One pass over the events: the index and status of the first that is not \<open>EFI_NOT_READY\<close>.\<close>

fun Wait_pass ::
  "'x core_scheme restore \<Rightarrow> nat \<Rightarrow> ptr list \<Rightarrow> 'x core_scheme \<Rightarrow>
     ((nat \<times> efi_status) option \<times> 'x core_scheme) outcome" where
  "Wait_pass rst Index [] s = Ret (None, s)"
| "Wait_pass rst Index (e # es) s =
     bind (CoreCheckEvent rst e s) (\<lambda>(Status, s1).
       if Status \<noteq> EFI_NOT_READY then Ret (Some (Index, Status), s1)
       else Wait_pass rst (Index + 1) es s1)"

fun Wait_loop ::
  "'x core_scheme restore \<Rightarrow> nat \<Rightarrow> ptr list \<Rightarrow> 'x core_scheme \<Rightarrow>
     (efi_status \<times> nat \<times> 'x core_scheme) outcome" where
  "Wait_loop rst 0 es s = Ret (EFI_SUCCESS, 0, s)"
| "Wait_loop rst (Suc k) es s =
     bind (Wait_pass rst 0 es s) (\<lambda>(r, s1).
       case r of Some (Index, Status) \<Rightarrow> Ret (Status, Index, s1)
       | None \<Rightarrow> bind (CoreSignalEvent rst (gIdleLoopEvent s1) s1) (\<lambda>(_, s2). Wait_loop rst k es s2))"

text \<open>
  \<open>UserEvents\<close> is the array of events, \<open>None\<close> for a NULL array pointer; its length is
  \<open>NumberOfEvents\<close>. The result holds the value of \<open>*UserIndex\<close>, \<open>None\<close> when it is not written.
\<close>

definition CoreWaitForEvent ::
  "'x core_scheme restore \<Rightarrow> nat \<Rightarrow> ptr list option \<Rightarrow> 'x core_scheme \<Rightarrow>
     (efi_status \<times> nat option \<times> 'x core_scheme) outcome" where
  "CoreWaitForEvent rst NumberOfEvents UserEvents s =
     (if gEfiCurrentTpl s \<noteq> TPL_APPLICATION then Ret (EFI_UNSUPPORTED, None, s)
      else if NumberOfEvents = 0 then Ret (EFI_INVALID_PARAMETER, None, s)
      else case UserEvents of None \<Rightarrow> Ret (EFI_INVALID_PARAMETER, None, s)
      | Some es \<Rightarrow> bind (Wait_loop rst 4 (take NumberOfEvents es) s)
                    (\<lambda>(Status, Index, s1). Ret (Status, Some Index, s1)))"

text \<open>
  \<open>CoreUnregisterProtocolNotify\<close> of the protocol database is the parameter \<open>unreg\<close>. Unlinking an
  entry that is in no list is undefined behaviour.
\<close>

definition unlink_runtime :: "nat \<Rightarrow> 'x core_scheme \<Rightarrow> 'x core_scheme outcome" where
  "unlink_runtime e s =
     (if e \<in> set (gRuntimeEventHead s)
      then Ret (s\<lparr>gRuntimeEventHead := remove1 e (gRuntimeEventHead s)\<rparr>) else Fault)"

definition unlink_signal :: "nat \<Rightarrow> 'x core_scheme \<Rightarrow> 'x core_scheme outcome" where
  "unlink_signal e s =
     (if e \<in> set (gEventSignalQueue s)
      then Ret (s\<lparr>gEventSignalQueue := remove1 e (gEventSignalQueue s)\<rparr>) else Fault)"

text \<open>The part of \<open>CoreCloseEvent\<close> after the timer has been cancelled.\<close>

definition CloseEvent_unlink ::
  "(nat \<Rightarrow> 'x core_scheme \<Rightarrow> 'x core_scheme outcome) \<Rightarrow> 'x core_scheme restore \<Rightarrow> nat \<Rightarrow>
     'x core_scheme \<Rightarrow> (efi_status \<times> 'x core_scheme) outcome" where
  "CloseEvent_unlink unreg rst e s =
     bind (CoreAcquireEventLock s) (\<lambda>s1.
     deref (events s1 e) (\<lambda>ev.
     bind (if RuntimeLinked ev then unlink_runtime e s1 else Ret s1) (\<lambda>s2.
     bind (if NotifyLinked ev then RemoveNotifyLink e s2 else Ret s2) (\<lambda>s3.
     bind (if SignalLinked ev then unlink_signal e s3 else Ret s3) (\<lambda>s4.
     bind (CoreReleaseEventLock rst s4) (\<lambda>s5.
     deref (events s5 e) (\<lambda>ev5.
     bind (if ExFlag ev5 AND EVT_EXFLAG_EVENT_PROTOCOL_NOTIFICATION \<noteq> 0
           then unreg e s5 else Ret s5) (\<lambda>s6.
     Ret (EFI_SUCCESS, s6\<lparr>events := (events s6)(e := None)\<rparr>)))))))))"

definition CoreCloseEvent ::
  "(nat \<Rightarrow> 'x core_scheme \<Rightarrow> 'x core_scheme outcome) \<Rightarrow> 'x core_scheme restore \<Rightarrow> ptr \<Rightarrow>
     'x core_scheme \<Rightarrow> (efi_status \<times> 'x core_scheme) outcome" where
  "CoreCloseEvent unreg rst UserEvent s =
     (case UserEvent of None \<Rightarrow> Ret (EFI_INVALID_PARAMETER, s)
      | Some e \<Rightarrow>
        deref (events s e) (\<lambda>ev.
          if Signature ev \<noteq> EVENT_SIGNATURE then Ret (EFI_INVALID_PARAMETER, s)
          else
            bind (if Type ev AND EVT_TIMER \<noteq> 0
                  then bind (CoreSetTimer rst (Some e) TimerCancel 0 s) (\<lambda>(_, s1). Ret s1)
                  else Ret s) (CloseEvent_unlink unreg rst e)))"

section \<open>Initialisation and the host timer\<close>

definition HostShimInitRuntime :: "'x core_scheme \<Rightarrow> 'x core_scheme" where
  "HostShimInitRuntime s = s\<lparr>gRuntimeEventHead := []\<rparr>"

definition CoreInitializeTimer ::
  "'x core_scheme restore \<Rightarrow> bool \<Rightarrow> 'x core_scheme \<Rightarrow> 'x core_scheme outcome" where
  "CoreInitializeTimer rst mem s =
     bind (CoreCreateEventInternal rst mem True EVT_NOTIFY_SIGNAL (TPL_HIGH_LEVEL - 1)
        (Some CoreCheckTimersFn) None None s) (\<lambda>(Status, e, s1).
     ASSERT (\<not> EFI_ERROR Status)
       (Ret (case e of None \<Rightarrow> s1 | Some _ \<Rightarrow> s1\<lparr>mEfiCheckTimerEvent := e\<rparr>)))"

definition CoreInitializeEventServices ::
  "'x core_scheme restore \<Rightarrow> bool \<Rightarrow> bool \<Rightarrow> 'x core_scheme \<Rightarrow> (efi_status \<times> 'x core_scheme) outcome" where
  "CoreInitializeEventServices rst mem1 mem2 s =
     bind (CoreInitializeTimer rst mem1 (s\<lparr>gEventQueue := (\<lambda>_. [])\<rparr>)) (\<lambda>s1.
     bind (CoreCreateEventEx rst mem2 True EVT_NOTIFY_SIGNAL TPL_NOTIFY (Some EfiEventEmptyFunction)
        None (Some gIdleLoopEventGuid) s1) (\<lambda>(_, e, s2).
     Ret (EFI_SUCCESS, case e of None \<Rightarrow> s2 | Some _ \<Rightarrow> s2\<lparr>gIdleLoopEvent := e\<rparr>)))"

text \<open>
  The context pointer and the \<open>TimerAdvanceFn\<close> field of the pool that these two functions also
  set belong to the pool (\<open>FuzzContext\<close>); they are no part of the event state.
\<close>

definition MockTimerInit ::
  "'x core_scheme restore \<Rightarrow> bool \<Rightarrow> bool \<Rightarrow> 'x core_scheme \<Rightarrow> 'x core_scheme outcome" where
  "MockTimerInit rst mem1 mem2 s =
     (if gTimerHostInitialized s then Ret s
      else bind (CoreInitializeEventServices rst mem1 mem2 (HostShimInitRuntime s)) (\<lambda>(_, s1).
        Ret (s1\<lparr>gTimerHostInitialized := True\<rparr>)))"

definition MockEventResetState ::
  "'x core_scheme restore \<Rightarrow> bool \<Rightarrow> bool \<Rightarrow> 'x core_scheme \<Rightarrow> 'x core_scheme outcome" where
  "MockEventResetState rst mem1 mem2 s =
     bind (CoreInitializeEventServices rst mem1 mem2
        (HostShimInitRuntime (s\<lparr>gEventPending := 0, gEventQueue := (\<lambda>_. []), gEventSignalQueue := [],
           mEfiTimerList := [], mEfiSystemTime := 0, gPendingTimerDuration := 0,
           gEfiCurrentTpl := TPL_APPLICATION, gIdleLoopEvent := None,
           mEfiCheckTimerEvent := None\<rparr>))) (\<lambda>(_, s1). Ret s1)"

definition MockTimerAdvance100ns ::
  "'x core_scheme restore \<Rightarrow> u64 \<Rightarrow> 'x core_scheme \<Rightarrow> 'x core_scheme outcome" where
  "MockTimerAdvance100ns rst Time100ns s =
     (if \<not> gTimerHostInitialized s then Ret s
      else if Time100ns = 0 then Ret s
      else if gEfiCurrentTpl s \<ge> TPL_HIGH_LEVEL
      then Ret (s\<lparr>gPendingTimerDuration := gPendingTimerDuration s + Time100ns\<rparr>)
      else bind (CoreTimerTick rst Time100ns s) (\<lambda>s1.
        if gEventPending s1 \<noteq> 0
        then bind (CoreRaiseTpl TPL_HIGH_LEVEL s1) (\<lambda>(SavedTpl, s2). rst SavedTpl s2)
        else Ret s1))"

definition MockTimerAdvance ::
  "'x core_scheme restore \<Rightarrow> u64 \<Rightarrow> 'x core_scheme \<Rightarrow> 'x core_scheme outcome" where
  "MockTimerAdvance rst Microseconds s = MockTimerAdvance100ns rst (Microseconds * 10) s"

definition MockTimerGetSystemTime :: "'x core_scheme \<Rightarrow> u64" where
  "MockTimerGetSystemTime s = mEfiSystemTime s"

end
