(* ===== verification/EventInv.thy ===== *)
theory EventInv
  imports EventCore
begin

text \<open>
  The invariant of the event state and its preservation by every operation, under the contract of
  \<open>CoreRestoreTpl\<close> (locale \<open>tpl_restore\<close>) and the contract of notification functions (locale
  \<open>notify_client\<close>). The contract of \<open>CoreRestoreTpl\<close> is then derived for the code's definition.
\<close>

section \<open>Bits of the pending mask\<close>

lemma bit_tpl_bit [simp]:
  "t \<le> 30 \<Longrightarrow> bit (tpl_bit t) p \<longleftrightarrow> p = t"
  by (auto simp: tpl_bit_def bit_simps min_def)

section \<open>Lists of linked events\<close>

definition listed :: "(ievent \<Rightarrow> bool) \<Rightarrow> (nat \<Rightarrow> ievent option) \<Rightarrow> nat list \<Rightarrow> bool" where
  "listed flag evs xs \<longleftrightarrow> distinct xs \<and> (\<forall>e. e \<in> set xs \<longleftrightarrow> (\<exists>v. evs e = Some v \<and> flag v))"

lemma listedD:
  "listed flag evs xs \<Longrightarrow> e \<in> set xs \<Longrightarrow> \<exists>v. evs e = Some v \<and> flag v"
  by (simp add: listed_def)

lemma listed_mem:
  "listed flag evs xs \<Longrightarrow> evs e = Some v \<Longrightarrow> e \<in> set xs \<longleftrightarrow> flag v"
  by (simp add: listed_def)

lemma listed_distinct: "listed flag evs xs \<Longrightarrow> distinct xs"
  by (simp add: listed_def)

lemma listed_same:
  "listed flag evs xs \<Longrightarrow> evs e = Some v \<Longrightarrow> flag v' = flag v \<Longrightarrow> listed flag (evs(e \<mapsto> v')) xs"
  by (auto simp: listed_def)

lemma listed_remove:
  "listed flag evs xs \<Longrightarrow> \<not> flag v' \<Longrightarrow> listed flag (evs(e \<mapsto> v')) (remove1 e xs)"
  by (auto simp: listed_def)

lemma listed_add:
  "listed flag evs xs \<Longrightarrow> e \<notin> set xs \<Longrightarrow> flag v' \<Longrightarrow> set ys = insert e (set xs) \<Longrightarrow> distinct ys \<Longrightarrow>
     listed flag (evs(e \<mapsto> v')) ys"
  by (auto simp: listed_def)

lemma listed_free:
  "listed flag evs xs \<Longrightarrow> e \<notin> set xs \<Longrightarrow> listed flag (evs(e := None)) xs"
  by (auto simp: listed_def)

lemma listed_new:
  "listed flag evs xs \<Longrightarrow> evs e = None \<Longrightarrow> \<not> flag v' \<Longrightarrow> listed flag (evs(e \<mapsto> v')) xs"
  by (auto simp: listed_def)

lemma listed_Nil: "listed flag evs [] \<longleftrightarrow> (\<forall>e v. evs e = Some v \<longrightarrow> \<not> flag v)"
  by (auto simp: listed_def)

section \<open>The invariant\<close>

definition event_ok :: "ievent \<Rightarrow> bool" where
  "event_ok v \<longleftrightarrow> Signature v = EVENT_SIGNATURE \<and>
     (is_notify_type (Type v) \<longrightarrow>
        NotifyFunction v \<noteq> None \<and> TPL_APPLICATION < NotifyTpl v \<and> NotifyTpl v < TPL_HIGH_LEVEL) \<and>
     (NotifyLinked v \<longrightarrow> is_notify_type (Type v)) \<and>
     (SignalLinked v \<longrightarrow> Type v AND EVT_NOTIFY_SIGNAL \<noteq> 0) \<and>
     (TimerLinked v \<longrightarrow> Type v AND EVT_TIMER \<noteq> 0)"

abbreviation queued_at :: "nat \<Rightarrow> ievent \<Rightarrow> bool" where
  "queued_at p v \<equiv> NotifyLinked v \<and> NotifyTpl v = p"

definition trigger_of :: "(nat \<Rightarrow> ievent option) \<Rightarrow> nat \<Rightarrow> u64" where
  "trigger_of evs e = TriggerTime (the (evs e))"

definition event_inv :: "'x core_scheme \<Rightarrow> bool" where
  "event_inv s \<longleftrightarrow>
     (\<forall>e v. events s e = Some v \<longrightarrow> event_ok v \<and> e < next_event s) \<and>
     (\<forall>p. listed (queued_at p) (events s) (gEventQueue s p)) \<and>
     listed SignalLinked (events s) (gEventSignalQueue s) \<and>
     listed TimerLinked (events s) (mEfiTimerList s) \<and>
     listed RuntimeLinked (events s) (gRuntimeEventHead s) \<and>
     sorted (map (trigger_of (events s)) (mEfiTimerList s)) \<and>
     (\<forall>e. mEfiCheckTimerEvent s = Some e \<longrightarrow> events s e \<noteq> None) \<and>
     (\<forall>e. gIdleLoopEvent s = Some e \<longrightarrow> events s e \<noteq> None)"

definition tpl_inv :: "'x core_scheme \<Rightarrow> bool" where
  "tpl_inv s \<longleftrightarrow> gEfiCurrentTpl s \<le> TPL_HIGH_LEVEL \<and>
     (\<forall>p. gEventQueue s p \<noteq> [] \<longrightarrow> bit (gEventPending s) p) \<and>
     (\<forall>p. bit (gEventPending s) p \<longrightarrow> p < TPL_HIGH_LEVEL \<and> p \<le> gEfiCurrentTpl s) \<and>
     (gEfiCurrentTpl s < TPL_HIGH_LEVEL \<longrightarrow> gPendingTimerDuration s = 0)"

definition lock_inv :: "'x core_scheme \<Rightarrow> bool" where
  "lock_inv s \<longleftrightarrow> (\<forall>l. Tpl (locks s l) = lock_tpl l \<and> Lock (locks s l) \<noteq> EfiLockUninitialized \<and>
     (Lock (locks s l) = EfiLockAcquired \<longrightarrow> lock_tpl l \<le> gEfiCurrentTpl s))"

definition core_inv :: "'x core_scheme \<Rightarrow> bool" where
  "core_inv s \<longleftrightarrow> event_inv s \<and> tpl_inv s \<and> lock_inv s"

text \<open>\<open>held s l\<close>: the lock is taken. \<open>free_above t s\<close>: only locks up to level \<open>t\<close> are.\<close>

abbreviation held :: "'x core_scheme \<Rightarrow> lock_id \<Rightarrow> bool" where
  "held s l \<equiv> Lock (locks s l) = EfiLockAcquired"

definition free_above :: "nat \<Rightarrow> 'x core_scheme \<Rightarrow> bool" where
  "free_above t s \<longleftrightarrow> (\<forall>l. held s l \<longrightarrow> lock_tpl l \<le> t)"

definition locks_kept :: "'x core_scheme \<Rightarrow> 'x core_scheme \<Rightarrow> bool" where
  "locks_kept s s' \<longleftrightarrow> (\<forall>l. Lock (locks s' l) = Lock (locks s l) \<and>
     (held s l \<longrightarrow> OwnerTpl (locks s' l) = OwnerTpl (locks s l)))"

lemma locks_kept_refl [simp]: "locks_kept s s"
  by (simp add: locks_kept_def)

lemma locks_kept_trans: "locks_kept s s1 \<Longrightarrow> locks_kept s1 s2 \<Longrightarrow> locks_kept s s2"
  by (auto simp: locks_kept_def)

text \<open>Nothing is pending above level \<open>t\<close>: lowering the TPL to \<open>t\<close> has nothing to do.\<close>

definition nothing_above :: "nat \<Rightarrow> 'x core_scheme \<Rightarrow> bool" where
  "nothing_above t s \<longleftrightarrow> (\<forall>p. bit (gEventPending s) p \<longrightarrow> p \<le> t) \<and>
     (gEfiCurrentTpl s < TPL_HIGH_LEVEL \<or> TPL_HIGH_LEVEL \<le> t \<or> gPendingTimerDuration s = 0)"

section \<open>The contracts\<close>

locale tpl_restore =
  fixes rst :: "'x core_scheme restore"
  assumes rst_safe: "core_inv s \<Longrightarrow> t \<le> gEfiCurrentTpl s \<Longrightarrow> free_above t s \<Longrightarrow>
      safe (\<lambda>s'. core_inv s' \<and> gEfiCurrentTpl s' = t \<and> locks_kept s s') (rst t s)"
    and rst_quiet: "tpl_inv s \<Longrightarrow> t \<le> gEfiCurrentTpl s \<Longrightarrow> nothing_above t s \<Longrightarrow>
      safe (\<lambda>s'. s' = s\<lparr>gEfiCurrentTpl := t\<rparr>) (rst t s)"

text \<open>
  What a notification function promises (the UEFI rules for notification functions): called at a
  level above every lock that is held, it keeps the invariant and returns at the same level with
  the locks as it found them.
\<close>

locale notify_client =
  fixes cl :: "'x core_scheme client"
  assumes client_safe: "tpl_restore rst \<Longrightarrow> core_inv s \<Longrightarrow> gEfiCurrentTpl s < TPL_HIGH_LEVEL \<Longrightarrow>
      (\<forall>l. held s l \<longrightarrow> lock_tpl l < gEfiCurrentTpl s) \<Longrightarrow>
      safe (\<lambda>s'. core_inv s' \<and> gEfiCurrentTpl s' = gEfiCurrentTpl s \<and> locks_kept s s')
        (cl rst f e ctx s)"

section \<open>Locks\<close>

definition svc :: "'x core_scheme \<Rightarrow> 'x core_scheme \<Rightarrow> bool" where
  "svc s s' \<longleftrightarrow> core_inv s' \<and> gEfiCurrentTpl s' = gEfiCurrentTpl s \<and> locks_kept s s'"

lemma svc_refl: "core_inv s \<Longrightarrow> svc s s"
  by (simp add: svc_def)

lemma svc_trans: "svc s s1 \<Longrightarrow> svc s1 s2 \<Longrightarrow> svc s s2"
  by (auto simp: svc_def intro: locks_kept_trans)

lemma svcD:
  "svc s s' \<Longrightarrow> core_inv s'" "svc s s' \<Longrightarrow> gEfiCurrentTpl s' = gEfiCurrentTpl s"
  "svc s s' \<Longrightarrow> held s' l = held s l"
  by (auto simp: svc_def locks_kept_def)

definition locked :: "lock_id \<Rightarrow> 'x core_scheme \<Rightarrow> 'x core_scheme" where
  "locked l s = s\<lparr>gEfiCurrentTpl := lock_tpl l,
     locks := (locks s)(l := (locks s l)\<lparr>OwnerTpl := gEfiCurrentTpl s, Lock := EfiLockAcquired\<rparr>)\<rparr>"

definition unlocked :: "lock_id \<Rightarrow> 'x core_scheme \<Rightarrow> 'x core_scheme" where
  "unlocked l s = s\<lparr>locks := (locks s)(l := (locks s l)\<lparr>Lock := EfiLockReleased\<rparr>)\<rparr>"

lemma lock_tpl_le [simp]: "lock_tpl l \<le> TPL_HIGH_LEVEL"
  by (cases l) simp_all

lemma AcquireLock_eq:
  assumes "lock_inv s" and "\<not> held s l" and "gEfiCurrentTpl s \<le> lock_tpl l"
  shows "CoreAcquireLock l s = Ret (locked l s)"
proof -
  have "Lock (locks s l) = EfiLockReleased" "Tpl (locks s l) = lock_tpl l"
    using assms by (auto simp: lock_inv_def intro: lock_state.exhaust)
  then show ?thesis
    using assms(3)
    by (simp add: CoreAcquireLock_def CoreRaiseTpl_def VALID_TPL_def locked_def Let_def
        CoreSetInterruptState_def)
qed

lemma ReleaseLock_eq:
  "held s l \<Longrightarrow> CoreReleaseLock rst l s = rst (OwnerTpl (locks s l)) (unlocked l s)"
  by (simp add: CoreReleaseLock_def unlocked_def Let_def)

lemma locked_simps [simp]:
  "gEfiCurrentTpl (locked l s) = lock_tpl l" "events (locked l s) = events s"
  "gEventQueue (locked l s) = gEventQueue s" "gEventPending (locked l s) = gEventPending s"
  "gEventSignalQueue (locked l s) = gEventSignalQueue s" "mEfiTimerList (locked l s) = mEfiTimerList s"
  "mEfiSystemTime (locked l s) = mEfiSystemTime s"
  "gPendingTimerDuration (locked l s) = gPendingTimerDuration s"
  "mEfiCheckTimerEvent (locked l s) = mEfiCheckTimerEvent s" "gIdleLoopEvent (locked l s) = gIdleLoopEvent s"
  "next_event (locked l s) = next_event s" "gRuntimeEventHead (locked l s) = gRuntimeEventHead s"
  "held (locked l s) k \<longleftrightarrow> k = l \<or> held s k"
  "OwnerTpl (locks (locked l s) l) = gEfiCurrentTpl s"
  by (simp_all add: locked_def)

lemma event_inv_cong:
  "events s' = events s \<Longrightarrow> next_event s' = next_event s \<Longrightarrow> gEventQueue s' = gEventQueue s \<Longrightarrow>
   gEventSignalQueue s' = gEventSignalQueue s \<Longrightarrow> mEfiTimerList s' = mEfiTimerList s \<Longrightarrow>
   gRuntimeEventHead s' = gRuntimeEventHead s \<Longrightarrow> mEfiCheckTimerEvent s' = mEfiCheckTimerEvent s \<Longrightarrow>
   gIdleLoopEvent s' = gIdleLoopEvent s \<Longrightarrow> event_inv s' = event_inv s"
  by (simp add: event_inv_def)

lemma core_inv_locked:
  assumes "core_inv s" and "gEfiCurrentTpl s \<le> lock_tpl l"
  shows "core_inv (locked l s)"
proof -
  have "event_inv (locked l s)" using assms(1) by (simp add: core_inv_def event_inv_def)
  moreover have "tpl_inv (locked l s)"
    using assms by (auto simp: core_inv_def tpl_inv_def)
  moreover have "lock_inv (locked l s)"
    using assms by (auto simp: core_inv_def lock_inv_def locked_def)
  ultimately show ?thesis by (simp add: core_inv_def)
qed

lemma core_inv_unlocked:
  assumes "core_inv s"
  shows "core_inv (unlocked l s)"
  using assms by (auto simp: core_inv_def event_inv_def tpl_inv_def lock_inv_def unlocked_def)

lemma unlocked_simps [simp]:
  "gEfiCurrentTpl (unlocked l s) = gEfiCurrentTpl s" "gEventPending (unlocked l s) = gEventPending s"
  "events (unlocked l s) = events s" "gPendingTimerDuration (unlocked l s) = gPendingTimerDuration s"
  by (simp_all add: unlocked_def)

text \<open>The lock that a critical section on \<open>l\<close> entered from \<open>s\<close> still holds in \<open>u\<close>.\<close>

definition in_section :: "lock_id \<Rightarrow> 'x core_scheme \<Rightarrow> 'x core_scheme \<Rightarrow> bool" where
  "in_section l s u \<longleftrightarrow> core_inv u \<and> gEfiCurrentTpl u = lock_tpl l \<and> locks_kept (locked l s) u"

lemma in_section_locked:
  "core_inv s \<Longrightarrow> gEfiCurrentTpl s \<le> lock_tpl l \<Longrightarrow> in_section l s (locked l s)"
  by (simp add: in_section_def core_inv_locked)

lemma in_sectionD:
  assumes "in_section l s u"
  shows "core_inv u" "gEfiCurrentTpl u = lock_tpl l" "held u l" "OwnerTpl (locks u l) = gEfiCurrentTpl s"
    "k \<noteq> l \<Longrightarrow> held u k \<longleftrightarrow> held s k"
  using assms by (auto simp: in_section_def locks_kept_def locked_def)

lemma in_section_svc: "in_section l s u \<Longrightarrow> svc u u' \<Longrightarrow> in_section l s u'"
  by (auto simp: in_section_def svc_def intro: locks_kept_trans)

lemma locks_kept_section:
  assumes "lock_inv s" and "\<not> held s l" and "in_section l s u" and "locks_kept (unlocked l u) s'"
  shows "locks_kept s s'"
proof -
  have rel: "Lock (locks s l) = EfiLockReleased"
    using assms(1,2) by (auto simp: lock_inv_def intro: lock_state.exhaust)
  show ?thesis
    using assms(3,4) rel
    by (auto simp: locks_kept_def in_section_def locked_def unlocked_def split: if_splits)
qed

text \<open>Entering and leaving a critical section.\<close>

lemma safe_enter:
  assumes "core_inv s" and "\<not> held s l" and "gEfiCurrentTpl s \<le> lock_tpl l"
    and "\<And>u. u = locked l s \<Longrightarrow> in_section l s u \<Longrightarrow> safe P (k u)"
  shows "safe P (bind (CoreAcquireLock l s) k)"
proof -
  have "CoreAcquireLock l s = Ret (locked l s)"
    using assms(1-3) by (auto simp: core_inv_def intro: AcquireLock_eq)
  with assms(4)[OF refl in_section_locked[OF assms(1,3)]] show ?thesis by simp
qed

context tpl_restore begin

lemma safe_leave:
  assumes "core_inv s" and "\<not> held s l" and "gEfiCurrentTpl s \<le> lock_tpl l" and "in_section l s u"
  shows "safe (svc s) (CoreReleaseLock rst l u)"
proof -
  note d = in_sectionD[OF assms(4)]
  have "free_above (gEfiCurrentTpl s) (unlocked l u)"
    using d(5) assms(1) by (auto simp: free_above_def unlocked_def core_inv_def lock_inv_def)
  then have "safe (\<lambda>s'. core_inv s' \<and> gEfiCurrentTpl s' = gEfiCurrentTpl s \<and> locks_kept (unlocked l u) s')
      (rst (gEfiCurrentTpl s) (unlocked l u))"
    using assms(3) d(2) core_inv_unlocked[OF d(1)] by (intro rst_safe) simp_all
  then show ?thesis
    unfolding ReleaseLock_eq[OF d(3)] d(4)
    by (rule safe_mono) (use assms in \<open>auto simp: svc_def core_inv_def intro: locks_kept_section\<close>)
qed

lemma safe_leave_quiet:
  assumes "in_section l s u" and "gEfiCurrentTpl s \<le> lock_tpl l" and "nothing_above (gEfiCurrentTpl s) u"
  shows "safe (\<lambda>s'. s' = (unlocked l u)\<lparr>gEfiCurrentTpl := gEfiCurrentTpl s\<rparr>) (CoreReleaseLock rst l u)"
proof -
  note d = in_sectionD[OF assms(1)]
  show ?thesis
    unfolding ReleaseLock_eq[OF d(3)] d(4)
    using assms(2,3) d(2) core_inv_unlocked[OF d(1), of l]
    by (intro rst_quiet) (simp_all add: core_inv_def nothing_above_def)
qed

end

section \<open>Queueing an event\<close>

definition notify_state :: "nat \<Rightarrow> ievent \<Rightarrow> 'x core_scheme \<Rightarrow> 'x core_scheme" where
  "notify_state e ev s = set_event e (ev\<lparr>NotifyLinked := True\<rparr>)
     (s\<lparr>gEventQueue := (\<lambda>p. remove1 e (gEventQueue s p) @ (if p = NotifyTpl ev then [e] else [])),
        gEventPending := gEventPending s OR tpl_bit (NotifyTpl ev)\<rparr>)"

lemma event_invD:
  assumes "event_inv s"
  shows "events s e = Some v \<Longrightarrow> event_ok v" "events s e = Some v \<Longrightarrow> e < next_event s"
    "listed (queued_at p) (events s) (gEventQueue s p)"
    "listed SignalLinked (events s) (gEventSignalQueue s)"
    "listed TimerLinked (events s) (mEfiTimerList s)"
    "listed RuntimeLinked (events s) (gRuntimeEventHead s)"
    "sorted (map (trigger_of (events s)) (mEfiTimerList s))"
    "mEfiCheckTimerEvent s = Some e \<Longrightarrow> \<exists>v. events s e = Some v"
    "gIdleLoopEvent s = Some e \<Longrightarrow> \<exists>v. events s e = Some v"
  using assms by (auto simp: event_inv_def)

lemma queue_of_unlinked:
  "event_inv s \<Longrightarrow> events s e = Some ev \<Longrightarrow> \<not> NotifyLinked ev \<Longrightarrow> e \<notin> set (gEventQueue s p)"
  using listed_mem[OF event_invD(3)] by blast

lemma NotifyEvent_eq:
  assumes inv: "core_inv s" and "held s gEventQueueLock" and ev: "events s e = Some ev"
    and nt: "is_notify_type (Type ev)"
  shows "CoreNotifyEvent e s = Ret (notify_state e ev s)"
proof -
  have ei: "event_inv s" using inv by (simp add: core_inv_def)
  have t: "NotifyTpl ev < TPL_HIGH_LEVEL"
    using event_invD(1)[OF ei ev] nt by (simp add: event_ok_def)
  show ?thesis
  proof (cases "NotifyLinked ev")
    case True
    then have "e \<in> set (gEventQueue s (NotifyTpl ev))"
      using listed_mem[OF event_invD(3)[OF ei] ev] by simp
    with t have ex: "\<exists>p \<in> set [0..<32]. e \<in> set (gEventQueue s p)" by force
    show ?thesis
      unfolding CoreNotifyEvent_def RemoveNotifyLink_def ASSERT_LOCKED_def
      using assms(2) ev t True ex
      by (simp add: notify_state_def set_event_def fun_eq_iff)
  next
    case False
    then have "remove1 e (gEventQueue s p) = gEventQueue s p" for p
      using queue_of_unlinked[OF ei ev] by (simp add: remove1_idem)
    then show ?thesis
      using assms(2) ev t False
      by (simp add: CoreNotifyEvent_def ASSERT_LOCKED_def notify_state_def set_event_def fun_eq_iff)
  qed
qed

lemma sorted_trigger_same:
  "sorted (map (trigger_of evs) xs) \<Longrightarrow> evs e = Some v \<Longrightarrow> TriggerTime v' = TriggerTime v \<Longrightarrow>
     sorted (map (trigger_of (evs(e \<mapsto> v'))) xs)"
  by (subst map_cong[OF refl, of _ _ "trigger_of evs"]) (auto simp: trigger_of_def)

lemma event_inv_notify:
  assumes ei: "event_inv s" and ev: "events s e = Some ev" and nt: "is_notify_type (Type ev)"
  shows "event_inv (notify_state e ev s)"
proof -
  let ?v = "ev\<lparr>NotifyLinked := True\<rparr>"
  have ok: "event_ok ?v" using event_invD(1)[OF ei ev] nt by (simp add: event_ok_def)
  have q: "listed (queued_at p) ((events s)(e \<mapsto> ?v))
      (remove1 e (gEventQueue s p) @ (if p = NotifyTpl ev then [e] else []))" for p
  proof -
    note l = event_invD(3)[OF ei, of p]
    have d: "distinct (gEventQueue s p)" using l by (rule listed_distinct)
    show ?thesis
    proof (cases "p = NotifyTpl ev")
      case True
      have m: "\<And>x. x \<in> set (gEventQueue s p) \<longleftrightarrow> (\<exists>v. events s x = Some v \<and> queued_at p v)"
        using l by (simp add: listed_def)
      show ?thesis using d m True by (auto simp: listed_def)
    next
      case False
      then show ?thesis using listed_remove[OF l, of ?v e] by simp
    qed
  qed
  have fr: "x = e \<or> events s x = Some v \<Longrightarrow> x < next_event s" for x v
    using event_invD(2)[OF ei] ev by blast
  show ?thesis
    unfolding event_inv_def notify_state_def set_event_def
    using ok q fr ev listed_same[OF event_invD(4)[OF ei] ev, of ?v]
      listed_same[OF event_invD(5)[OF ei] ev, of ?v] listed_same[OF event_invD(6)[OF ei] ev, of ?v]
      sorted_trigger_same[OF event_invD(7)[OF ei] ev, of ?v] event_invD(1,8,9)[OF ei]
    by (simp split: if_splits)
qed

lemma core_inv_notify:
  assumes "core_inv s" and "gEfiCurrentTpl s = TPL_HIGH_LEVEL" and ev: "events s e = Some ev"
    and nt: "is_notify_type (Type ev)"
  shows "core_inv (notify_state e ev s)"
proof -
  have ei: "event_inv s" using assms(1) by (simp add: core_inv_def)
  have t: "NotifyTpl ev \<le> 30"
    using event_invD(1)[OF ei ev] nt by (simp add: event_ok_def)
  have ne: "remove1 e xs \<noteq> [] \<Longrightarrow> xs \<noteq> []" for xs :: "nat list" by auto
  have "tpl_inv (notify_state e ev s)"
    using assms(1,2) t ne
    by (auto simp: core_inv_def tpl_inv_def notify_state_def set_event_def bit_simps split: if_splits)
  moreover have "lock_inv (notify_state e ev s)"
    using assms(1) by (simp add: core_inv_def lock_inv_def notify_state_def set_event_def)
  ultimately show ?thesis using event_inv_notify[OF ei ev nt] by (simp add: core_inv_def)
qed

lemma notify_state_simps [simp]:
  "gEfiCurrentTpl (notify_state e ev s) = gEfiCurrentTpl s" "locks (notify_state e ev s) = locks s"
  "mEfiTimerList (notify_state e ev s) = mEfiTimerList s"
  "gEventSignalQueue (notify_state e ev s) = gEventSignalQueue s"
  "events (notify_state e ev s) = (events s)(e \<mapsto> ev\<lparr>NotifyLinked := True\<rparr>)"
  "gPendingTimerDuration (notify_state e ev s) = gPendingTimerDuration s"
  "gEventPending (notify_state e ev s) = gEventPending s OR tpl_bit (NotifyTpl ev)"
  by (simp_all add: notify_state_def set_event_def)

section \<open>What signalling changes\<close>

text \<open>Signalling changes only signal counts and queue links of events, the queues and their mask.\<close>

definition same_but_signal :: "ievent option \<Rightarrow> ievent option \<Rightarrow> bool" where
  "same_but_signal = rel_option (\<lambda>v v'. \<exists>c l. v' = v\<lparr>SignalCount := c, NotifyLinked := l\<rparr>)"

definition sig_frame :: "'x core_scheme \<Rightarrow> 'x core_scheme \<Rightarrow> bool" where
  "sig_frame s s' \<longleftrightarrow>
     s' = s\<lparr>events := events s', gEventQueue := gEventQueue s', gEventPending := gEventPending s',
            gEfiCurrentTpl := gEfiCurrentTpl s', locks := locks s'\<rparr> \<and>
     (\<forall>e. same_but_signal (events s e) (events s' e))"

lemma same_but_signal_SomeI:
  "same_but_signal (Some v) (Some (v\<lparr>SignalCount := c, NotifyLinked := l\<rparr>))"
  by (auto simp: same_but_signal_def)

lemma same_but_signal_simps [simp]:
  "same_but_signal x x" "same_but_signal (Some v) (Some (v\<lparr>SignalCount := c\<rparr>))"
  "same_but_signal (Some v) (Some (v\<lparr>NotifyLinked := l\<rparr>))"
proof -
  show "same_but_signal x x"
    using same_but_signal_SomeI[where v = "the x" and c = "SignalCount (the x)" and l = "NotifyLinked (the x)"]
    by (cases x) (simp_all add: same_but_signal_def)
  show "same_but_signal (Some v) (Some (v\<lparr>SignalCount := c\<rparr>))"
    using same_but_signal_SomeI[where v = v and c = c and l = "NotifyLinked v"] by simp
  show "same_but_signal (Some v) (Some (v\<lparr>NotifyLinked := l\<rparr>))"
    using same_but_signal_SomeI[where v = v and c = "SignalCount v" and l = l] by simp
qed

lemma same_but_signal_Some:
  "same_but_signal (Some v) y \<longleftrightarrow> (\<exists>c l. y = Some (v\<lparr>SignalCount := c, NotifyLinked := l\<rparr>))"
  by (cases y) (simp_all add: same_but_signal_def)

lemma same_but_signal_None: "same_but_signal None y \<longleftrightarrow> y = None"
  by (cases y) (simp_all add: same_but_signal_def)

lemma same_but_signal_trans:
  assumes "same_but_signal x y" and "same_but_signal y z" shows "same_but_signal x z"
proof (cases x)
  case None
  then show ?thesis using assms by (simp add: same_but_signal_None)
next
  case (Some v)
  then obtain c l where "y = Some (v\<lparr>SignalCount := c, NotifyLinked := l\<rparr>)"
    using assms(1) by (auto simp: same_but_signal_Some)
  then obtain c' l' where
    "z = Some (v\<lparr>SignalCount := c, NotifyLinked := l\<rparr>\<lparr>SignalCount := c', NotifyLinked := l'\<rparr>)"
    using assms(2) by (auto simp: same_but_signal_Some)
  then have "z = Some (v\<lparr>SignalCount := c', NotifyLinked := l'\<rparr>)" by simp
  then show ?thesis using Some same_but_signal_SomeI by simp
qed

lemma sig_frame_refl [simp]: "sig_frame s s"
  by (simp add: sig_frame_def)

lemma sig_frame_trans:
  assumes "sig_frame s t" and "sig_frame t u" shows "sig_frame s u"
proof -
  have "u = s\<lparr>events := events u, gEventQueue := gEventQueue u, gEventPending := gEventPending u,
            gEfiCurrentTpl := gEfiCurrentTpl u, locks := locks u\<rparr>"
    using assms unfolding sig_frame_def by (cases s; cases t; cases u) simp
  then show ?thesis
    using assms same_but_signal_trans unfolding sig_frame_def by blast
qed

lemma sig_frameD:
  assumes "sig_frame s s'"
  shows "mEfiTimerList s' = mEfiTimerList s" "mEfiSystemTime s' = mEfiSystemTime s"
    "mEfiCheckTimerEvent s' = mEfiCheckTimerEvent s" "gPendingTimerDuration s' = gPendingTimerDuration s"
    "gEventSignalQueue s' = gEventSignalQueue s" "next_event s' = next_event s"
    "gIdleLoopEvent s' = gIdleLoopEvent s" "gRuntimeEventHead s' = gRuntimeEventHead s"
    "core.more s' = core.more s" "gTimerHostInitialized s' = gTimerHostInitialized s"
  using assms unfolding sig_frame_def by (cases s; cases s'; simp)+

lemma sig_frame_event:
  assumes "sig_frame s s'" and "events s e = Some v"
  shows "\<exists>c l. events s' e = Some (v\<lparr>SignalCount := c, NotifyLinked := l\<rparr>)"
proof -
  have "same_but_signal (events s e) (events s' e)" using assms(1) by (simp add: sig_frame_def)
  then show ?thesis
    unfolding assms(2) same_but_signal_def by (cases "events s' e") auto
qed

lemma sig_frame_locked [simp]: "sig_frame s (locked l s)"
  by (simp add: sig_frame_def locked_def)

lemma sig_frame_unlocked [simp]: "sig_frame s ((unlocked l s)\<lparr>gEfiCurrentTpl := t\<rparr>)"
  by (simp add: sig_frame_def unlocked_def)

lemma sig_frame_notify [simp]:
  "events s e = Some ev \<Longrightarrow> sig_frame s (notify_state e ev s)"
  by (simp add: sig_frame_def notify_state_def set_event_def)

lemma sig_frame_count:
  "events s e = Some ev \<Longrightarrow> sig_frame s (set_event e (ev\<lparr>SignalCount := c\<rparr>) s)"
  by (simp add: sig_frame_def set_event_def)

text \<open>The count and the flags of an event are outside the invariant.\<close>

lemma core_inv_count_flag:
  assumes "core_inv s" and ev: "events s e = Some ev"
  shows "core_inv (set_event e (ev\<lparr>SignalCount := c, ExFlag := x\<rparr>) s)"
proof -
  let ?v = "ev\<lparr>SignalCount := c, ExFlag := x\<rparr>"
  have ei: "event_inv s" using assms(1) by (simp add: core_inv_def)
  have "event_ok ?v" using event_invD(1)[OF ei ev] by (simp add: event_ok_def)
  then have "event_inv (set_event e ?v s)"
    unfolding event_inv_def set_event_def
    using ev listed_same[OF event_invD(3)[OF ei] ev, of ?v] listed_same[OF event_invD(4)[OF ei] ev, of ?v]
      listed_same[OF event_invD(5)[OF ei] ev, of ?v] listed_same[OF event_invD(6)[OF ei] ev, of ?v]
      sorted_trigger_same[OF event_invD(7)[OF ei] ev, of ?v] event_invD(1,2,8,9)[OF ei]
    by simp
  then show ?thesis
    using assms(1) by (simp add: core_inv_def tpl_inv_def lock_inv_def set_event_def)
qed

lemma core_inv_count:
  assumes "core_inv s" and ev: "events s e = Some ev"
  shows "core_inv (set_event e (ev\<lparr>SignalCount := c\<rparr>) s)"
  using core_inv_count_flag[where c = c and x = "ExFlag ev", OF assms] by simp

lemma core_inv_flag:
  assumes "core_inv s" and ev: "events s e = Some ev"
  shows "core_inv (set_event e (ev\<lparr>ExFlag := x\<rparr>) s)"
  using core_inv_count_flag[where c = "SignalCount ev" and x = x, OF assms] by simp

end
