(* ===== verification/EventSignal.thy ===== *)
theory EventSignal
  imports EventInv
begin

text \<open>
  Signalling events, alone and as a group, keeps the invariant and the locks; near the top of the
  priorities it changes nothing but signal counts and queue links.
\<close>

section \<open>Signalling\<close>

lemma signal_notify_type [intro]: "Ty AND EVT_NOTIFY_SIGNAL \<noteq> 0 \<Longrightarrow> is_notify_type Ty"
  unfolding is_notify_type_def bit.conj_disj_distrib or_eq_0_iff by simp

lemma wait_notify_type [intro]: "Ty AND EVT_NOTIFY_WAIT \<noteq> 0 \<Longrightarrow> is_notify_type Ty"
  unfolding is_notify_type_def bit.conj_disj_distrib or_eq_0_iff by simp

definition svc_sig :: "'x core_scheme \<Rightarrow> 'x core_scheme \<Rightarrow> bool" where
  "svc_sig s s' \<longleftrightarrow> svc s s' \<and> (TPL_HIGH_LEVEL \<le> Suc (gEfiCurrentTpl s) \<longrightarrow> sig_frame s s')"

lemma svc_sig_refl: "core_inv s \<Longrightarrow> svc_sig s s"
  by (simp add: svc_sig_def svc_refl)

lemma svc_sig_trans: "svc_sig s s1 \<Longrightarrow> svc_sig s1 s2 \<Longrightarrow> svc_sig s s2"
  by (auto simp: svc_sig_def svcD(2) intro: svc_trans sig_frame_trans)

lemma svc_sigD: "svc_sig s s' \<Longrightarrow> svc s s'"
  by (simp add: svc_sig_def)

lemma tpl_invD:
  assumes "core_inv s"
  shows "gEfiCurrentTpl s \<le> TPL_HIGH_LEVEL" "bit (gEventPending s) p \<Longrightarrow> p \<le> 30"
    "bit (gEventPending s) p \<Longrightarrow> p \<le> gEfiCurrentTpl s"
    "gEfiCurrentTpl s < TPL_HIGH_LEVEL \<Longrightarrow> gPendingTimerDuration s = 0"
    "held s l \<Longrightarrow> lock_tpl l \<le> gEfiCurrentTpl s"
  using assms by (auto simp: core_inv_def tpl_inv_def lock_inv_def le_less_Suc_eq
      dest!: spec[of "\<lambda>p. bit (gEventPending s) p \<longrightarrow> p < TPL_HIGH_LEVEL \<and> p \<le> gEfiCurrentTpl s" p])

lemma NotifySignalMembers_ok:
  assumes "core_inv s" and "held s gEventQueueLock" and "set es \<subseteq> set (gEventSignalQueue s)"
  shows "\<exists>s'. NotifySignalMembers g es s = Ret s' \<and> core_inv s' \<and> locks s' = locks s \<and>
    gEfiCurrentTpl s' = gEfiCurrentTpl s \<and> sig_frame s s'"
  using assms
proof (induction es arbitrary: s)
  case (Cons e es)
  have ei: "event_inv s" using Cons.prems(1) by (simp add: core_inv_def)
  have h: "gEfiCurrentTpl s = TPL_HIGH_LEVEL"
    using tpl_invD(1)[OF Cons.prems(1)] tpl_invD(5)[OF Cons.prems(1,2)] by simp
  obtain v where v: "events s e = Some v" "SignalLinked v"
    using listedD[OF event_invD(4)[OF ei]] Cons.prems(3) by auto
  have nt: "is_notify_type (Type v)"
    using event_invD(1)[OF ei v(1)] v(2) by (auto simp: event_ok_def)
  show ?case
  proof (cases "EventGroup v = g")
    case True
    let ?s1 = "notify_state e v s"
    have 1: "core_inv ?s1" using core_inv_notify[OF Cons.prems(1) h v(1) nt] .
    have "held ?s1 gEventQueueLock" "set es \<subseteq> set (gEventSignalQueue ?s1)"
      using Cons.prems(2,3) by simp_all
    from Cons.IH[OF 1 this] obtain s' where
      "NotifySignalMembers g es ?s1 = Ret s'" "core_inv s'" "locks s' = locks ?s1"
      "gEfiCurrentTpl s' = gEfiCurrentTpl ?s1" "sig_frame ?s1 s'" by blast
    then show ?thesis
      using v(1) True NotifyEvent_eq[OF Cons.prems(1,2) v(1) nt] sig_frame_trans[OF sig_frame_notify[OF v(1)]]
      by auto
  next
    case False
    with Cons v(1) show ?thesis by simp
  qed
qed simp

lemma nothing_above_same:
  assumes "core_inv s" and "gEventPending u = gEventPending s"
    and "gPendingTimerDuration u = gPendingTimerDuration s"
  shows "nothing_above (gEfiCurrentTpl s) u"
proof (cases "gEfiCurrentTpl s < TPL_HIGH_LEVEL")
  case True
  with tpl_invD(3,4)[OF assms(1)] assms show ?thesis by (simp add: nothing_above_def)
next
  case False
  with tpl_invD(2)[OF assms(1)] assms show ?thesis by (force simp: nothing_above_def)
qed

lemma nothing_above_high:
  assumes "core_inv s" and "core_inv u" and "TPL_HIGH_LEVEL \<le> Suc (gEfiCurrentTpl s)"
    and "gPendingTimerDuration u = gPendingTimerDuration s"
  shows "nothing_above (gEfiCurrentTpl s) u"
proof -
  have "gEfiCurrentTpl s < TPL_HIGH_LEVEL \<longrightarrow> gPendingTimerDuration u = 0"
    using tpl_invD(4)[OF assms(1)] assms(4) by simp
  moreover have "bit (gEventPending u) p \<longrightarrow> p \<le> gEfiCurrentTpl s" for p
    using tpl_invD(2)[OF assms(2)] assms(3) by force
  ultimately show ?thesis by (auto simp: nothing_above_def)
qed

text \<open>Inside a section, with only signalling done when the section was entered near the top.\<close>

definition in_sig :: "lock_id \<Rightarrow> 'x core_scheme \<Rightarrow> 'x core_scheme \<Rightarrow> bool" where
  "in_sig l s u \<longleftrightarrow> in_section l s u \<and> (TPL_HIGH_LEVEL \<le> Suc (gEfiCurrentTpl s) \<longrightarrow> sig_frame s u)"

lemma in_sig_locked:
  "core_inv s \<Longrightarrow> gEfiCurrentTpl s \<le> lock_tpl l \<Longrightarrow> in_sig l s (locked l s)"
  by (simp add: in_sig_def in_section_locked)

lemma in_sig_step: "in_sig l s u \<Longrightarrow> svc u u' \<Longrightarrow> sig_frame u u' \<Longrightarrow> in_sig l s u'"
  by (auto simp: in_sig_def intro: in_section_svc sig_frame_trans)

lemma in_sig_reenter:
  assumes "svc_sig s t" and "in_sig l t u" shows "in_sig l s u"
proof -
  have "locks_kept (locked l s) (locked l t)"
    using assms(1) by (auto simp: svc_sig_def svc_def locks_kept_def locked_def)
  then show ?thesis
    using assms
    by (auto simp: in_sig_def in_section_def svc_sig_def svcD(2) intro: locks_kept_trans sig_frame_trans)
qed

lemma svc_frame:
  "core_inv u' \<Longrightarrow> gEfiCurrentTpl u' = gEfiCurrentTpl u \<Longrightarrow> locks u' = locks u \<Longrightarrow> svc u u'"
  by (simp add: svc_def locks_kept_def)

lemma at_high: "in_section gEventQueueLock s u \<Longrightarrow> gEfiCurrentTpl u = TPL_HIGH_LEVEL"
  using in_sectionD(2) by fastforce

lemma tpl_le_event_lock [simp]: "core_inv s \<Longrightarrow> gEfiCurrentTpl s \<le> lock_tpl gEventQueueLock"
  using tpl_invD(1) by fastforce

lemma NotifyEvent_in_sig:
  assumes "in_sig gEventQueueLock s u" and "events u e = Some ev" and "is_notify_type (Type ev)"
  shows "\<exists>u'. CoreNotifyEvent e u = Ret u' \<and> in_sig gEventQueueLock s u' \<and> u' = notify_state e ev u"
proof -
  have i: "in_section gEventQueueLock s u" using assms(1) by (simp add: in_sig_def)
  have "core_inv (notify_state e ev u)"
    using core_inv_notify[OF in_sectionD(1)[OF i] at_high[OF i] assms(2,3)] .
  then have "in_sig gEventQueueLock s (notify_state e ev u)"
    using assms(1,2) by (intro in_sig_step[OF assms(1)] svc_frame) simp_all
  then show ?thesis
    using NotifyEvent_eq[OF in_sectionD(1)[OF i] in_sectionD(3)[OF i] assms(2,3)] by simp
qed

context tpl_restore begin

lemma leave_sig:
  assumes "core_inv s" and "\<not> held s l" and "gEfiCurrentTpl s \<le> lock_tpl l" and "in_sig l s u"
  shows "safe (svc_sig s) (CoreReleaseLock rst l u)"
proof (cases "TPL_HIGH_LEVEL \<le> Suc (gEfiCurrentTpl s)")
  case True
  then have i: "in_section l s u" and f: "sig_frame s u" using assms(4) by (simp_all add: in_sig_def)
  have "nothing_above (gEfiCurrentTpl s) u"
    using nothing_above_high[OF assms(1) in_sectionD(1)[OF i] True] sig_frameD(4)[OF f] .
  note q = safe_leave_quiet[OF i assms(3) this]
  show ?thesis
    using safe_conj[OF safe_leave[OF assms(1-3) i] q]
    by (rule safe_mono) (auto simp: svc_sig_def intro: sig_frame_trans[OF f])
next
  case False
  have "safe (svc s) (CoreReleaseLock rst l u)"
    using safe_leave[OF assms(1-3)] assms(4) by (simp add: in_sig_def)
  then show ?thesis by (rule safe_mono) (use False in \<open>simp add: svc_sig_def\<close>)
qed

lemma NotifySignalList_safe:
  assumes "core_inv s" and "\<not> held s gEventQueueLock"
  shows "safe (svc_sig s) (CoreNotifySignalList rst g s)"
  unfolding CoreNotifySignalList_def CoreAcquireEventLock_def CoreReleaseEventLock_def
proof (rule safe_enter[OF assms tpl_le_event_lock[OF assms(1)]])
  fix u assume u: "u = locked gEventQueueLock s" and i: "in_section gEventQueueLock s u"
  obtain s' where m: "NotifySignalMembers g (gEventSignalQueue u) u = Ret s'" "core_inv s'"
      "locks s' = locks u" "gEfiCurrentTpl s' = gEfiCurrentTpl u" "sig_frame u s'"
    using NotifySignalMembers_ok[OF in_sectionD(1)[OF i] in_sectionD(3)[OF i] subset_refl] by blast
  have "in_sig gEventQueueLock s s'"
    using in_sig_step[OF in_sig_locked[OF assms(1) tpl_le_event_lock[OF assms(1)]], of s']
      svc_frame[OF m(2,4,3)] m(5) by (simp add: u)
  then show "safe (svc_sig s) (bind (NotifySignalMembers g (gEventSignalQueue u) u)
      (CoreReleaseLock rst gEventQueueLock))"
    using leave_sig[OF assms tpl_le_event_lock[OF assms(1)]] m(1) by simp
qed

lemma Signal_group_safe:
  assumes inv: "core_inv s" and nh: "\<not> held s gEventQueueLock"
    and i: "in_sig gEventQueueLock s u" and ev: "events u e = Some ev"
    and same: "gEventPending u = gEventPending s" "gPendingTimerDuration u = gPendingTimerDuration s"
  shows "safe (in_sig gEventQueueLock s) (Signal_group rst e u)"
proof -
  note h = tpl_le_event_lock[OF inv]
  have "safe (\<lambda>s1. svc_sig s s1 \<and> events s1 e = Some ev) (CoreReleaseLock rst gEventQueueLock u)"
    using safe_conj[OF leave_sig[OF inv nh h i]
        safe_leave_quiet[OF conjunct1[OF i[unfolded in_sig_def]] h nothing_above_same[OF inv same]]]
    by (rule safe_mono) (auto simp: ev)
  then show ?thesis
    unfolding Signal_group_def CoreReleaseEventLock_def CoreAcquireEventLock_def
  proof (rule safe_bind)
    fix s1 assume s1: "svc_sig s s1 \<and> events s1 e = Some ev"
    note d = svcD[OF svc_sigD[OF conjunct1[OF s1]]]
    have "safe (in_sig gEventQueueLock s)
        (bind (CoreNotifySignalList rst (EventGroup ev) s1) (CoreAcquireLock gEventQueueLock))"
    proof (rule safe_bind[OF NotifySignalList_safe[OF d(1)]])
      show "\<not> held s1 gEventQueueLock" using d(3) nh by simp
      fix t assume t: "svc_sig s1 t"
      note dt = svcD[OF svc_sigD[OF t]]
      have "CoreAcquireLock gEventQueueLock t = Ret (locked gEventQueueLock t)"
        using dt(1) tpl_le_event_lock[OF dt(1)] dt(3) d(3) nh
        by (intro AcquireLock_eq) (simp_all add: core_inv_def)
      then show "safe (in_sig gEventQueueLock s) (CoreAcquireLock gEventQueueLock t)"
        using in_sig_reenter[OF svc_sig_trans[OF conjunct1[OF s1] t]
            in_sig_locked[OF dt(1) tpl_le_event_lock[OF dt(1)]]] by simp
    qed
    then show "safe (in_sig gEventQueueLock s) (deref (events s1 e) (\<lambda>ev.
        bind (CoreNotifySignalList rst (EventGroup ev) s1) (CoreAcquireLock gEventQueueLock)))"
      using s1 by simp
  qed
qed

lemma Signal_mark_safe:
  assumes inv: "core_inv s" and nh: "\<not> held s gEventQueueLock" and ev: "events s e = Some ev"
  shows "safe (in_sig gEventQueueLock s) (Signal_mark rst e (locked gEventQueueLock s))"
proof -
  let ?ev1 = "ev\<lparr>SignalCount := SignalCount ev + 1\<rparr>" and ?u = "locked gEventQueueLock s"
  let ?u1 = "set_event e ?ev1 ?u"
  note i = in_sig_locked[OF inv tpl_le_event_lock[OF inv]]
  have evu: "events ?u e = Some ev" using ev by simp
  have "core_inv ?u1"
    using core_inv_count[OF core_inv_locked[OF inv tpl_le_event_lock[OF inv]] evu] by blast
  then have i1: "in_sig gEventQueueLock s ?u1"
    by (intro in_sig_step[OF i] svc_frame sig_frame_count evu) (simp_all add: set_event_def)
  have ev1: "events ?u1 e = Some ?ev1" by (simp add: set_event_def)
  have grp: "safe (in_sig gEventQueueLock s) (Signal_group rst e ?u1)"
    by (rule Signal_group_safe[OF inv nh i1 ev1]) (simp_all add: set_event_def)
  have one: "safe (in_sig gEventQueueLock s) (CoreNotifyEvent e ?u1)" if "Type ev AND EVT_NOTIFY_SIGNAL \<noteq> 0"
    using NotifyEvent_in_sig[OF i1 ev1] signal_notify_type[OF that] by auto
  show ?thesis
    unfolding Signal_mark_def evu deref_simps Let_def
    by (intro safe_if safe_RetI grp one i i1) simp
qed

lemma SignalEvent_safe:
  assumes inv: "core_inv s" and nh: "\<not> held s gEventQueueLock"
    and live: "\<And>e. UserEvent = Some e \<Longrightarrow> events s e \<noteq> None"
  shows "safe (\<lambda>(st, s'). svc_sig s s' \<and>
      st = (if UserEvent = None then EFI_INVALID_PARAMETER else EFI_SUCCESS))
    (CoreSignalEvent rst UserEvent s)"
proof (cases UserEvent)
  case None
  then show ?thesis using inv by (simp add: CoreSignalEvent_def svc_sig_refl)
next
  case (Some e)
  then obtain ev where ev: "events s e = Some ev" using live by blast
  have sg: "Signature ev = EVENT_SIGNATURE"
    using inv event_invD(1)[OF _ ev] by (auto simp: core_inv_def event_ok_def)
  note h = tpl_le_event_lock[OF inv]
  have "CoreAcquireLock gEventQueueLock s = Ret (locked gEventQueueLock s)"
    using inv h nh by (intro AcquireLock_eq) (simp_all add: core_inv_def)
  then show ?thesis
    using safe_bind[OF Signal_mark_safe[OF inv nh ev]
        safe_bind[OF leave_sig[OF inv nh h], of _ "\<lambda>(st, s'). svc_sig s s' \<and> st = EFI_SUCCESS"]]
    by (simp add: CoreSignalEvent_def CoreAcquireEventLock_def CoreReleaseEventLock_def Some ev sg)
qed

end

end
