(* ===== verification/EventTimer.thy ===== *)
theory EventTimer
  imports EventSignal
begin

text \<open>
  The timer list stays sorted and consistent under insertion, removal and expiry, and a tick of the
  clock keeps the invariant.
\<close>

section \<open>Timers\<close>

lemma InsertTimer_walk_eq:
  "(\<forall>x \<in> set xs. evs x \<noteq> None) \<Longrightarrow>
   InsertTimer_walk evs t e xs =
     Ret (takeWhile (\<lambda>x. \<not> trigger_of evs x > t) xs @ e # dropWhile (\<lambda>x. \<not> trigger_of evs x > t) xs)"
  by (induction xs) (auto simp: trigger_of_def)

lemma dropWhile_sorted_gt:
  "sorted (map f xs) \<Longrightarrow> x \<in> set (dropWhile (\<lambda>x. \<not> f x > t) xs) \<Longrightarrow> (t :: 'a :: linorder) < f x"
  by (induction xs) (auto split: if_splits dest: order.strict_trans2)

lemma sorted_insert_between:
  fixes t :: "'a :: linorder"
  shows "sorted (map f as) \<Longrightarrow> sorted (map f bs) \<Longrightarrow> (\<And>x. x \<in> set as \<Longrightarrow> f x \<le> t) \<Longrightarrow>
     (\<And>x. x \<in> set bs \<Longrightarrow> t < f x) \<Longrightarrow> f e = t \<Longrightarrow> sorted (map f (as @ e # bs))"
  by (auto simp: sorted_append intro: less_imp_le) (meson less_imp_le order_trans)

lemma distinct_insert_between:
  "distinct (as @ bs) \<Longrightarrow> e \<notin> set (as @ bs) \<Longrightarrow> distinct (as @ e # bs)"
  by auto

lemma sorted_insert_pos:
  fixes t :: "'a :: linorder"
  assumes "sorted (map f xs)" and "f e = t"
  shows "sorted (map f (takeWhile (\<lambda>x. \<not> f x > t) xs @ e # dropWhile (\<lambda>x. \<not> f x > t) xs))"
proof -
  have "sorted (map f (takeWhile (\<lambda>x. \<not> f x > t) xs @ dropWhile (\<lambda>x. \<not> f x > t) xs))"
    using assms(1) by (simp only: takeWhile_dropWhile_id)
  then have 1: "sorted (map f (takeWhile (\<lambda>x. \<not> f x > t) xs))" "sorted (map f (dropWhile (\<lambda>x. \<not> f x > t) xs))"
    by (simp_all only: map_append sorted_append)
  have 2: "x \<in> set (takeWhile (\<lambda>x. \<not> f x > t) xs) \<Longrightarrow> f x \<le> t" for x
    by (auto dest: set_takeWhileD)
  have 3: "x \<in> set (dropWhile (\<lambda>x. \<not> f x > t) xs) \<Longrightarrow> t < f x" for x
    using dropWhile_sorted_gt[OF assms(1)] .
  show ?thesis by (rule sorted_insert_between[OF 1 2 3 assms(2)])
qed

definition insert_timer_state :: "nat \<Rightarrow> ievent \<Rightarrow> 'x core_scheme \<Rightarrow> 'x core_scheme" where
  "insert_timer_state e ev s = set_event e (ev\<lparr>TimerLinked := True\<rparr>)
     (s\<lparr>mEfiTimerList :=
          takeWhile (\<lambda>x. \<not> trigger_of (events s) x > TriggerTime ev) (mEfiTimerList s) @ e #
          dropWhile (\<lambda>x. \<not> trigger_of (events s) x > TriggerTime ev) (mEfiTimerList s)\<rparr>)"

lemma InsertEventTimer_eq:
  assumes inv: "core_inv s" and "held s mEfiTimerLock" and ev: "events s e = Some ev"
  shows "CoreInsertEventTimer e s = Ret (insert_timer_state e ev s)"
proof -
  have "\<forall>x \<in> set (mEfiTimerList s). events s x \<noteq> None"
    using listedD[OF event_invD(5)] inv by (fastforce simp: core_inv_def)
  then show ?thesis
    using assms(2) ev
    by (simp add: CoreInsertEventTimer_def ASSERT_LOCKED_def InsertTimer_walk_eq insert_timer_state_def)
qed

text \<open>Changes of an event that concern its timer only.\<close>

definition same_but_timer :: "ievent \<Rightarrow> ievent \<Rightarrow> bool" where
  "same_but_timer v v' \<longleftrightarrow> (\<exists>a b l. v' = v\<lparr>TriggerTime := a, Period := b, TimerLinked := l\<rparr>)"

lemma core_inv_timer:
  assumes "core_inv s" and ev: "events s e = Some ev" and sb: "same_but_timer ev v'"
    and ty: "TimerLinked v' \<Longrightarrow> Type ev AND EVT_TIMER \<noteq> 0"
    and "listed TimerLinked ((events s)(e \<mapsto> v')) l"
    and "sorted (map (trigger_of ((events s)(e \<mapsto> v'))) l)"
  shows "core_inv (set_event e v' (s\<lparr>mEfiTimerList := l\<rparr>))"
proof -
  have ei: "event_inv s" using assms(1) by (simp add: core_inv_def)
  have ok: "event_ok v'" and same: "NotifyLinked v' = NotifyLinked ev" "NotifyTpl v' = NotifyTpl ev"
      "SignalLinked v' = SignalLinked ev" "RuntimeLinked v' = RuntimeLinked ev"
    using event_invD(1)[OF ei ev] sb ty by (auto simp: event_ok_def same_but_timer_def)
  have "event_inv (set_event e v' (s\<lparr>mEfiTimerList := l\<rparr>))"
    unfolding event_inv_def set_event_def
    using ok ev same listed_same[OF event_invD(3)[OF ei] ev, of v'] listed_same[OF event_invD(4)[OF ei] ev, of v']
      listed_same[OF event_invD(6)[OF ei] ev, of v'] assms(5,6) event_invD(1,2,8,9)[OF ei]
    by simp
  then show ?thesis
    using assms(1) by (simp add: core_inv_def tpl_inv_def lock_inv_def set_event_def)
qed

lemma trigger_unlisted:
  "e \<notin> set l \<Longrightarrow> map (trigger_of (evs(e \<mapsto> v))) l = map (trigger_of evs) l"
  by (auto simp: trigger_of_def)

lemma core_inv_set_trigger:
  assumes "core_inv s" and ev: "events s e = Some ev" and "\<not> TimerLinked ev"
  shows "core_inv (set_event e (ev\<lparr>TriggerTime := a, Period := b\<rparr>) s)"
proof -
  have ei: "event_inv s" using assms(1) by (simp add: core_inv_def)
  have nl: "e \<notin> set (mEfiTimerList s)" using listed_mem[OF event_invD(5)[OF ei] ev] assms(3) by simp
  let ?v = "ev\<lparr>TriggerTime := a, Period := b\<rparr>"
  have "?v = ev\<lparr>TriggerTime := a, Period := b, TimerLinked := TimerLinked ev\<rparr>" by simp
  then have "same_but_timer ev ?v" unfolding same_but_timer_def by blast
  from core_inv_timer[OF assms(1) ev this _, of "mEfiTimerList s"] show ?thesis
    using listed_same[OF event_invD(5)[OF ei] ev, of ?v] event_invD(7)[OF ei] nl assms(3)
    by (simp add: trigger_unlisted)
qed

lemma core_inv_insert:
  assumes "core_inv s" and ev: "events s e = Some ev" and nl: "\<not> TimerLinked ev"
    and ty: "Type ev AND EVT_TIMER \<noteq> 0"
  shows "core_inv (insert_timer_state e ev s)"
proof -
  have ei: "event_inv s" using assms(1) by (simp add: core_inv_def)
  have nm: "e \<notin> set (mEfiTimerList s)" using listed_mem[OF event_invD(5)[OF ei] ev] nl by simp
  let ?v = "ev\<lparr>TimerLinked := True\<rparr>" and ?P = "\<lambda>x. \<not> trigger_of (events s) x > TriggerTime ev"
  let ?l = "takeWhile ?P (mEfiTimerList s) @ e # dropWhile ?P (mEfiTimerList s)"
  have "?v = ev\<lparr>TriggerTime := TriggerTime ev, Period := Period ev, TimerLinked := True\<rparr>" by simp
  then have sb: "same_but_timer ev ?v" unfolding same_but_timer_def by blast
  have s: "set ?l = insert e (set (mEfiTimerList s))"
    by simp (metis set_append takeWhile_dropWhile_id)
  have "distinct (takeWhile ?P (mEfiTimerList s) @ dropWhile ?P (mEfiTimerList s))"
    using listed_distinct[OF event_invD(5)[OF ei]] by (simp only: takeWhile_dropWhile_id)
  then have d: "distinct ?l"
    by (rule distinct_insert_between) (simp only: takeWhile_dropWhile_id nm not_False_eq_True)
  have "sorted (map (trigger_of (events s)) ?l)"
    using sorted_insert_pos[OF event_invD(7)[OF ei], of e "TriggerTime ev"] ev
    by (simp add: trigger_of_def)
  moreover have "trigger_of ((events s)(e \<mapsto> ?v)) = trigger_of (events s)"
    using ev by (auto simp: trigger_of_def)
  ultimately show ?thesis
    unfolding insert_timer_state_def
    by (intro core_inv_timer[OF assms(1) ev sb ty] listed_add[OF event_invD(5)[OF ei] nm _ s d]) simp_all
qed

definition remove_timer_state :: "nat \<Rightarrow> ievent \<Rightarrow> 'x core_scheme \<Rightarrow> 'x core_scheme" where
  "remove_timer_state e ev s = set_event e (ev\<lparr>TimerLinked := False\<rparr>)
     (s\<lparr>mEfiTimerList := remove1 e (mEfiTimerList s)\<rparr>)"

lemma RemoveTimerLink_eq:
  assumes "core_inv s" and ev: "events s e = Some ev" and "TimerLinked ev"
  shows "RemoveTimerLink e s = Ret (remove_timer_state e ev s)" "core_inv (remove_timer_state e ev s)"
proof -
  have ei: "event_inv s" using assms(1) by (simp add: core_inv_def)
  have "e \<in> set (mEfiTimerList s)" using listed_mem[OF event_invD(5)[OF ei] ev] assms(3) by simp
  then show "RemoveTimerLink e s = Ret (remove_timer_state e ev s)"
    using ev by (simp add: RemoveTimerLink_def remove_timer_state_def)
  let ?v = "ev\<lparr>TimerLinked := False\<rparr>"
  have "?v = ev\<lparr>TriggerTime := TriggerTime ev, Period := Period ev, TimerLinked := False\<rparr>" by simp
  then have sb: "same_but_timer ev ?v" unfolding same_but_timer_def by blast
  have "trigger_of ((events s)(e \<mapsto> ?v)) = trigger_of (events s)"
    using ev by (auto simp: trigger_of_def)
  then show "core_inv (remove_timer_state e ev s)"
    unfolding remove_timer_state_def
    using event_invD(7)[OF ei]
    by (intro core_inv_timer[OF assms(1) ev sb] listed_remove[OF event_invD(5)[OF ei]])
      (simp_all add: sorted_map_remove1)
qed

lemma timer_state_simps [simp]:
  "gEfiCurrentTpl (insert_timer_state e ev s) = gEfiCurrentTpl s"
  "locks (insert_timer_state e ev s) = locks s"
  "gEfiCurrentTpl (remove_timer_state e ev s) = gEfiCurrentTpl s"
  "locks (remove_timer_state e ev s) = locks s"
  "events (remove_timer_state e ev s) = (events s)(e \<mapsto> ev\<lparr>TimerLinked := False\<rparr>)"
  "mEfiTimerList (remove_timer_state e ev s) = remove1 e (mEfiTimerList s)"
  "mEfiCheckTimerEvent (remove_timer_state e ev s) = mEfiCheckTimerEvent s"
  "mEfiCheckTimerEvent (insert_timer_state e ev s) = mEfiCheckTimerEvent s"
  by (simp_all add: insert_timer_state_def remove_timer_state_def set_event_def)

lemma set_event_simps [simp]:
  "gEfiCurrentTpl (set_event e v s) = gEfiCurrentTpl s" "locks (set_event e v s) = locks s"
  "events (set_event e v s) = (events s)(e \<mapsto> v)" "mEfiTimerList (set_event e v s) = mEfiTimerList s"
  "mEfiCheckTimerEvent (set_event e v s) = mEfiCheckTimerEvent s"
  by (simp_all add: set_event_def)

text \<open>Reading the time changes nothing but the lock bookkeeping.\<close>

definition same_state :: "'x core_scheme \<Rightarrow> 'x core_scheme \<Rightarrow> bool" where
  "same_state s s' \<longleftrightarrow> svc s s' \<and> s' = s\<lparr>locks := locks s'\<rparr>"

lemma same_stateD:
  assumes "same_state s s'"
  shows "svc s s'" "events s' = events s" "mEfiSystemTime s' = mEfiSystemTime s"
    "mEfiTimerList s' = mEfiTimerList s" "mEfiCheckTimerEvent s' = mEfiCheckTimerEvent s"
proof -
  have e: "s' = s\<lparr>locks := locks s'\<rparr>" and "svc s s'" using assms by (simp_all add: same_state_def)
  then show "svc s s'" by simp
  show "events s' = events s" "mEfiSystemTime s' = mEfiSystemTime s"
    "mEfiTimerList s' = mEfiTimerList s" "mEfiCheckTimerEvent s' = mEfiCheckTimerEvent s"
    by (subst e, simp)+
qed

context tpl_restore begin

lemma CurrentSystemTime_safe:
  assumes inv: "core_inv s" and nh: "\<not> held s mEfiSystemTimeLock"
  shows "safe (\<lambda>(t, s'). same_state s s' \<and> t = mEfiSystemTime s) (CoreCurrentSystemTime rst s)"
proof -
  have h: "gEfiCurrentTpl s \<le> lock_tpl mEfiSystemTimeLock" using tpl_invD(1)[OF inv] by simp
  have a: "CoreAcquireLock mEfiSystemTimeLock s = Ret (locked mEfiSystemTimeLock s)"
    using inv nh h by (intro AcquireLock_eq) (simp_all add: core_inv_def)
  note i = in_section_locked[OF inv h]
  have na: "nothing_above (gEfiCurrentTpl s) (locked mEfiSystemTimeLock s)"
    by (rule nothing_above_same[OF inv]) simp_all
  have "safe (same_state s) (CoreReleaseLock rst mEfiSystemTimeLock (locked mEfiSystemTimeLock s))"
    using safe_conj[OF safe_leave[OF inv nh h i] safe_leave_quiet[OF i h na]]
    by (rule safe_mono) (auto simp: same_state_def unlocked_def locked_def)
  then show ?thesis
    unfolding CoreCurrentSystemTime_def a bind.simps Let_def
    by (rule safe_bind) simp
qed

lemma SignalEvent_high:
  assumes "in_section mEfiTimerLock s u" and "\<And>e. UserEvent = Some e \<Longrightarrow> events u e \<noteq> None"
  shows "safe (\<lambda>(_, u'). in_section mEfiTimerLock s u' \<and> sig_frame u u') (CoreSignalEvent rst UserEvent u)"
proof -
  note d = in_sectionD[OF assms(1)]
  have "\<not> held u gEventQueueLock" using tpl_invD(5)[OF d(1)] d(2) by fastforce
  from SignalEvent_safe[OF d(1) this assms(2)] show ?thesis
    by (rule safe_mono) (use d(2) in \<open>auto simp: svc_sig_def intro: in_section_svc[OF assms(1)]\<close>)
qed

lemma InsertEventTimer_section:
  assumes "in_section mEfiTimerLock s t" and "events t e = Some w" and "\<not> TimerLinked w"
    and "Type w AND EVT_TIMER \<noteq> 0"
  shows "safe (in_section mEfiTimerLock s) (CoreInsertEventTimer e t)"
  using InsertEventTimer_eq[OF in_sectionD(1)[OF assms(1)] in_sectionD(3)[OF assms(1)] assms(2)]
    in_section_svc[OF assms(1) svc_frame[OF core_inv_insert[OF in_sectionD(1)[OF assms(1)] assms(2-4)]]]
  by simp

lemma CheckTimers_rearm_safe:
  assumes i: "in_section mEfiTimerLock s u" and ev: "events u e = Some ev" and nl: "\<not> TimerLinked ev"
    and ty: "Type ev AND EVT_TIMER \<noteq> 0"
  shows "safe (in_section mEfiTimerLock s) (CheckTimers_rearm rst now e u)"
proof -
  note d = in_sectionD[OF i]
  have st: "in_section mEfiTimerLock s (set_event e (ev\<lparr>TriggerTime := a\<rparr>) u)" for a
    using core_inv_set_trigger[OF d(1) ev nl, where a = a and b = "Period ev"]
    by (intro in_section_svc[OF i] svc_frame) simp_all
  have later: "safe (in_section mEfiTimerLock s) (CoreInsertEventTimer e (set_event e (ev\<lparr>TriggerTime := a\<rparr>) u))" for a
    by (rule InsertEventTimer_section[OF st, where w = "ev\<lparr>TriggerTime := a\<rparr>"]) (use nl ty in simp_all)
  let ?t = "set_event e (ev\<lparr>TriggerTime := now\<rparr>) u"
  have live: "events ?t c \<noteq> None" if "mEfiCheckTimerEvent u = Some c" for c
    using event_invD(8)[of u c] d(1) that by (auto simp: core_inv_def)
  have sgn: "safe (in_section mEfiTimerLock s)
        (bind (bind (CoreSignalEvent rst (mEfiCheckTimerEvent u) ?t) (\<lambda>(_, s3). Ret s3)) (CoreInsertEventTimer e))"
    unfolding bind_assoc
  proof (rule safe_bind[OF SignalEvent_high[OF st live]])
    fix x assume "case x of (_, u') \<Rightarrow> in_section mEfiTimerLock s u' \<and> sig_frame ?t u'"
    then obtain st' s3 where x: "x = (st', s3)" and i3: "in_section mEfiTimerLock s s3"
        and f: "sig_frame ?t s3" by (cases x) auto
    have "events ?t e = Some (ev\<lparr>TriggerTime := now\<rparr>)" by simp
    from sig_frame_event[OF f this] nl ty obtain ev3 where "events s3 e = Some ev3" "\<not> TimerLinked ev3"
        "Type ev3 AND EVT_TIMER \<noteq> 0" by auto
    from InsertEventTimer_section[OF i3 this] show "safe (in_section mEfiTimerLock s)
        (bind (case x of (_, s3) \<Rightarrow> Ret s3) (CoreInsertEventTimer e))" by (simp add: x)
  qed simp
  show ?thesis
    using i sgn later by (simp add: CheckTimers_rearm_def ev Let_def)
qed

lemma CheckTimers_expire_safe:
  assumes i: "in_section mEfiTimerLock s u" and e: "e \<in> set (mEfiTimerList u)"
  shows "safe (in_section mEfiTimerLock s) (CheckTimers_expire rst now e u)"
proof -
  note d = in_sectionD[OF i]
  have ei: "event_inv u" using d(1) by (simp add: core_inv_def)
  obtain ev where ev: "events u e = Some ev" "TimerLinked ev"
    using listedD[OF event_invD(5)[OF ei] e] by blast
  let ?u1 = "remove_timer_state e ev u"
  note r = RemoveTimerLink_eq[OF d(1) ev]
  have i1: "in_section mEfiTimerLock s ?u1"
    using in_section_svc[OF i svc_frame[OF r(2)]] by simp
  have "safe (in_section mEfiTimerLock s) (bind (CoreSignalEvent rst (Some e) ?u1) (\<lambda>(_, s2).
     CheckTimers_rearm rst now e s2))"
  proof (rule safe_bind[OF SignalEvent_high[OF i1]], simp, clarify)
    fix st s2 assume i2: "in_section mEfiTimerLock s s2" and f: "sig_frame ?u1 s2"
    have "events ?u1 e = Some (ev\<lparr>TimerLinked := False\<rparr>)" by simp
    from sig_frame_event[OF f this] event_invD(1)[OF ei ev(1)] ev(2)
    obtain ev2 where "events s2 e = Some ev2" "\<not> TimerLinked ev2" "Type ev2 AND EVT_TIMER \<noteq> 0"
      by (auto simp: event_ok_def)
    from CheckTimers_rearm_safe[OF i2 this]
    show "safe (in_section mEfiTimerLock s) (CheckTimers_rearm rst now e s2)" .
  qed
  then show ?thesis by (simp add: CheckTimers_expire_def r(1))
qed

lemma CheckTimers_loop_safe:
  "in_section mEfiTimerLock s u \<Longrightarrow> safe (in_section mEfiTimerLock s) (CheckTimers_loop rst k now u)"
proof (induction k arbitrary: u)
  case (Suc k)
  show ?case
  proof (cases "mEfiTimerList u")
    case Nil
    with Suc.prems show ?thesis by simp
  next
    case (Cons e l)
    have ei: "event_inv u" using in_sectionD(1)[OF Suc.prems] by (simp add: core_inv_def)
    obtain ev where ev: "events u e = Some ev"
      using listedD[OF event_invD(5)[OF ei], of e] Cons by auto
    have "safe (in_section mEfiTimerLock s) (bind (CheckTimers_expire rst now e u) (CheckTimers_loop rst k now))"
      by (rule safe_bind[OF CheckTimers_expire_safe[OF Suc.prems]]) (use Cons Suc.IH in simp_all)
    with Suc.prems Cons ev show ?thesis by simp
  qed
qed simp

lemma CheckTimers_safe:
  assumes inv: "core_inv s" and nh: "\<not> held s mEfiTimerLock" and h: "gEfiCurrentTpl s \<le> lock_tpl mEfiTimerLock"
  shows "safe (svc s) (CoreCheckTimers rst k s)"
  unfolding CoreCheckTimers_def
proof (rule safe_enter[OF inv nh h])
  fix u assume u: "u = locked mEfiTimerLock s" and i: "in_section mEfiTimerLock s u"
  note d = in_sectionD[OF i]
  have "\<not> held u mEfiSystemTimeLock" using tpl_invD(5)[OF d(1)] d(2) by fastforce
  note c = CurrentSystemTime_safe[OF d(1) this]
  show "safe (svc s) (bind (CoreCurrentSystemTime rst u) (\<lambda>(SystemTime, s2).
     bind (CheckTimers_loop rst k SystemTime s2) (CoreReleaseLock rst mEfiTimerLock)))"
  proof (rule safe_bind[OF c], clarify)
    fix s2 assume "same_state u s2"
    then have "in_section mEfiTimerLock s s2" using in_section_svc[OF i] same_stateD(1) by blast
    from safe_bind[OF CheckTimers_loop_safe[OF this] safe_leave[OF inv nh h]]
    show "safe (svc s) (bind (CheckTimers_loop rst k (mEfiSystemTime u) s2) (CoreReleaseLock rst mEfiTimerLock))" .
  qed
qed

end

section \<open>Ticks\<close>

lemma core_inv_time [simp]: "core_inv (s\<lparr>mEfiSystemTime := t\<rparr>) = core_inv s"
  by (simp add: core_inv_def event_inv_def tpl_inv_def lock_inv_def)

definition tick_state :: "u64 \<Rightarrow> 'x core_scheme \<Rightarrow> 'x core_scheme" where
  "tick_state d s = s\<lparr>mEfiSystemTime := mEfiSystemTime s + d\<rparr>"

lemma tick_state_simps [simp]:
  "core_inv (tick_state d s) = core_inv s" "gEfiCurrentTpl (tick_state d s) = gEfiCurrentTpl s"
  "locks (tick_state d s) = locks s" "events (tick_state d s) = events s"
  "gPendingTimerDuration (tick_state d s) = gPendingTimerDuration s"
  by (simp_all add: tick_state_def)

lemma svc_tick [simp]: "svc (tick_state d s) s' = svc s s'"
  by (simp add: svc_def locks_kept_def)

context tpl_restore begin

lemma TimerTick_sig:
  assumes inv: "core_inv s" and nh: "\<not> held s mEfiSystemTimeLock" "\<not> held s gEventQueueLock"
  shows "safe (svc_sig (tick_state d s)) (CoreTimerTick rst d s)"
proof -
  let ?s = "tick_state d s" and ?u = "locked mEfiSystemTimeLock (tick_state d s)"
  have h: "gEfiCurrentTpl ?s \<le> lock_tpl mEfiSystemTimeLock" using tpl_invD(1)[OF inv] by simp
  have "CoreAcquireLock mEfiSystemTimeLock s = Ret (locked mEfiSystemTimeLock s)"
    using inv nh(1) h by (intro AcquireLock_eq) (simp_all add: core_inv_def)
  moreover have "(locked mEfiSystemTimeLock s)\<lparr>mEfiSystemTime :=
      mEfiSystemTime (locked mEfiSystemTimeLock s) + d\<rparr> = ?u"
    by (simp add: locked_def tick_state_def)
  ultimately have eq: "CoreTimerTick rst d s =
      bind (case mEfiTimerList ?u of [] \<Rightarrow> Ret ?u
              | e # _ \<Rightarrow>
                deref (events ?u e) (\<lambda>ev.
                  if TriggerTime ev \<le> mEfiSystemTime ?u
                  then bind (CoreSignalEvent rst (mEfiCheckTimerEvent ?u) ?u) (\<lambda>(_, s3). Ret s3)
                  else Ret ?u))
          (CoreReleaseLock rst mEfiSystemTimeLock)"
    by (simp only: CoreTimerTick_def bind.simps Let_def)
  have inv': "core_inv ?s" using inv by simp
  have i: "in_sig mEfiSystemTimeLock ?s ?u" using in_sig_locked[OF inv' h] .
  then have isec: "in_section mEfiSystemTimeLock ?s ?u" by (simp add: in_sig_def)
  note d = in_sectionD[OF isec]
  have ei: "event_inv ?u" using d(1) by (simp add: core_inv_def)
  have sg: "safe (in_sig mEfiSystemTimeLock ?s)
      (bind (CoreSignalEvent rst (mEfiCheckTimerEvent ?u) ?u) (\<lambda>(_, s3). Ret s3))"
  proof (rule safe_bind[OF SignalEvent_safe[OF d(1)]])
    show "\<not> held ?u gEventQueueLock" using d(5)[of gEventQueueLock] nh(2) by simp
    show "events ?u e \<noteq> None" if "mEfiCheckTimerEvent ?u = Some e" for e
      using event_invD(8)[OF ei that] by auto
    fix x assume "case x of (st, s') \<Rightarrow> svc_sig ?u s' \<and>
      st = (if mEfiCheckTimerEvent ?u = None then EFI_INVALID_PARAMETER else EFI_SUCCESS)"
    then obtain s3 where "snd x = s3" "svc_sig ?u s3" by (cases x) auto
    then show "safe (in_sig mEfiSystemTimeLock ?s) (case x of (_, s3) \<Rightarrow> Ret s3)"
      using in_sig_step[OF i] d(2) by (cases x) (auto simp: svc_sig_def)
  qed
  have "safe (in_sig mEfiSystemTimeLock ?s) (case mEfiTimerList ?u of [] \<Rightarrow> Ret ?u
              | e # _ \<Rightarrow>
                deref (events ?u e) (\<lambda>ev.
                  if TriggerTime ev \<le> mEfiSystemTime ?u
                  then bind (CoreSignalEvent rst (mEfiCheckTimerEvent ?u) ?u) (\<lambda>(_, s3). Ret s3)
                  else Ret ?u))"
  proof (cases "mEfiTimerList ?u")
    case (Cons e l)
    then obtain ev where "events ?u e = Some ev" using listedD[OF event_invD(5)[OF ei], of e] by auto
    with sg i Cons show ?thesis by (simp only: list.case deref_simps) (intro safe_if safe_RetI)
  qed (use i in simp)
  then show ?thesis
    unfolding eq by (rule safe_bind) (rule leave_sig[OF inv' _ h], use nh(1) in simp)
qed

lemma TimerTick_safe:
  assumes "core_inv s" and "\<not> held s mEfiSystemTimeLock" "\<not> held s gEventQueueLock"
  shows "safe (svc s) (CoreTimerTick rst d s)"
  using TimerTick_sig[OF assms] by (rule safe_mono) (simp add: svc_sig_def)

end

end
