(* ===== verification/EventDispatch.thy ===== *)
theory EventDispatch
  imports EventTimer
begin

text \<open>
  Dispatching the queues and lowering the TPL: \<open>CoreRestoreTpl\<close> satisfies its contract for every
  client that satisfies the contract of notification functions.
\<close>

lemma Dispatch_take_section:
  assumes i: "in_section gEventQueueLock s u" and q: "gEventQueue u p = e # q'"
  shows "\<exists>u' ev. Dispatch_take e u = Ret u' \<and> in_section gEventQueueLock s u' \<and>
    gEventPending u' = gEventPending u \<and> gPendingTimerDuration u' = gPendingTimerDuration u \<and>
    events u' e = Some ev \<and> NotifyFunction ev \<noteq> None"
proof -
  note d = in_sectionD[OF i]
  have ei: "event_inv u" using d(1) by (simp add: core_inv_def)
  obtain ev where ev: "events u e = Some ev" "NotifyLinked ev" "NotifyTpl ev = p"
    using listedD[OF event_invD(3)[OF ei, of p], of e] q by auto
  have ok: "event_ok ev" using event_invD(1)[OF ei ev(1)] .
  have p: "p < 32" "NotifyFunction ev \<noteq> None"
    using ok ev by (auto simp: event_ok_def)
  let ?v = "ev\<lparr>NotifyLinked := False\<rparr>"
  let ?w = "set_event e ?v (u\<lparr>gEventQueue := (\<lambda>p. remove1 e (gEventQueue u p))\<rparr>)"
  have ex: "\<exists>p \<in> set [0..<32]. e \<in> set (gEventQueue u p)"
    using p(1) q by (intro bexI[of _ p]) auto
  have r: "RemoveNotifyLink e u = Ret ?w"
    unfolding RemoveNotifyLink_def ev(1) deref_simps if_P[OF ex] ..
  have "event_inv ?w"
    unfolding event_inv_def set_event_def
    using ok ev(1) listed_remove[OF event_invD(3)[OF ei], where v' = ?v and e = e]
      listed_same[OF event_invD(4)[OF ei] ev(1), of ?v] listed_same[OF event_invD(5)[OF ei] ev(1), of ?v]
      listed_same[OF event_invD(6)[OF ei] ev(1), of ?v] sorted_trigger_same[OF event_invD(7)[OF ei] ev(1), of ?v]
      event_invD(1,2,8,9)[OF ei]
    by (simp add: event_ok_def)
  moreover have "tpl_inv ?w"
  proof -
    have "remove1 e xs \<noteq> [] \<Longrightarrow> xs \<noteq> []" for xs :: "nat list" by auto
    then show ?thesis using d(1) by (auto simp: core_inv_def tpl_inv_def set_event_def)
  qed
  ultimately have cw: "core_inv ?w" using d(1) by (simp add: core_inv_def lock_inv_def)
  then have iw: "in_section gEventQueueLock s ?w"
    using in_section_svc[OF i svc_frame[OF cw]] by simp
  let ?x = "if Type ev AND EVT_NOTIFY_SIGNAL \<noteq> 0 then set_event e (?v\<lparr>SignalCount := 0\<rparr>) ?w else ?w"
  have "Dispatch_take e u = Ret ?x"
    by (simp add: Dispatch_take_def r)
  moreover have "in_section gEventQueueLock s ?x"
    using iw in_section_svc[OF iw svc_frame[OF core_inv_count[OF cw, where e = e and ev = ?v and c = 0]]] by simp
  moreover have "gEventPending ?x = gEventPending u" "gPendingTimerDuration ?x = gPendingTimerDuration u"
    by (simp_all add: set_event_def)
  moreover have "\<exists>w. events ?x e = Some w \<and> NotifyFunction w \<noteq> None" using p(2) by auto
  ultimately show ?thesis by blast
qed

lemma in_section_reenter:
  assumes "svc s t" and "in_section l t u" shows "in_section l s u"
proof -
  have "locks_kept (locked l s) (locked l t)"
    using assms(1) by (auto simp: svc_def locks_kept_def locked_def)
  then show ?thesis using assms(2) by (auto simp: in_section_def intro: locks_kept_trans)
qed

text \<open>The lowered state from which a queue is dispatched: nothing is held at or above level \<open>p\<close>.\<close>

definition dispatchable :: "nat \<Rightarrow> 'x core_scheme \<Rightarrow> bool" where
  "dispatchable p s \<longleftrightarrow> core_inv s \<and> gEfiCurrentTpl s = p \<and> p < TPL_HIGH_LEVEL \<and>
     (\<forall>l. held s l \<longrightarrow> lock_tpl l < p)"

lemma dispatchable_svc: "dispatchable p s \<Longrightarrow> svc s s' \<Longrightarrow> dispatchable p s'"
  by (simp add: dispatchable_def svcD)

lemma dispatchable_free: "dispatchable p s \<Longrightarrow> p \<le> lock_tpl l \<Longrightarrow> \<not> held s l"
  by (auto simp: dispatchable_def)

text \<open>The states between the rounds of the loop in \<open>CoreRestoreTpl\<close>.\<close>

definition lowering :: "nat \<Rightarrow> 'x core_scheme \<Rightarrow> 'x core_scheme \<Rightarrow> bool" where
  "lowering t s0 s \<longleftrightarrow> core_inv s \<and> locks_kept s0 s \<and> t \<le> gEfiCurrentTpl s \<and> free_above t s \<and>
     (t < TPL_HIGH_LEVEL \<longrightarrow> gPendingTimerDuration s = 0)"

lemma Restore_body_eq:
  assumes "t \<le> gEfiCurrentTpl s" and "VALID_TPL t"
  shows "Restore_body cl rst k t s = bind (Restore_interrupt rst t s) (\<lambda>s2.
      bind (Restore_loop cl rst k k t s2) (\<lambda>s3. Ret (s3\<lparr>gEfiCurrentTpl := t\<rparr>)))"
  using assms by (simp add: Restore_body_def Let_def CoreSetInterruptState_def not_less cong: if_cong)

context notify_client begin

lemma call_notify_safe:
  assumes r: "tpl_restore rst" and d: "dispatchable p s"
  shows "safe (svc s) (call_notify cl rst k fn e ctx s)"
proof (cases fn)
  case CoreCheckTimersFn
  have "\<not> held s mEfiTimerLock" "gEfiCurrentTpl s \<le> lock_tpl mEfiTimerLock" "core_inv s"
    using d by (auto simp: dispatchable_def)
  from tpl_restore.CheckTimers_safe[OF r this(3,1,2)] show ?thesis
    by (simp add: CoreCheckTimersFn)
next
  case EfiEventEmptyFunction
  then show ?thesis using d by (simp add: dispatchable_def svc_refl)
next
  case (ClientFn f)
  then show ?thesis
    using client_safe[OF r, of s f e ctx] d by (simp add: dispatchable_def svc_def[abs_def])
qed

lemma Dispatch_loop_safe:
  assumes r: "tpl_restore rst" and d: "dispatchable p s"
  shows "in_section gEventQueueLock s u \<Longrightarrow> nothing_above p u \<Longrightarrow>
    safe (\<lambda>u'. in_section gEventQueueLock s u' \<and> nothing_above p u' \<and> gEventQueue u' p = [])
      (Dispatch_loop cl rst k m p u)"
proof (induction m arbitrary: u)
  case (Suc m)
  have inv: "core_inv s" and tp: "gEfiCurrentTpl s = p" using d by (simp_all add: dispatchable_def)
  have nh: "\<not> held s gEventQueueLock" using d by (auto simp: dispatchable_def)
  note h = tpl_le_event_lock[OF inv]
  show ?case
  proof (cases "gEventQueue u p")
    case Nil
    with Suc.prems show ?thesis by simp
  next
    case (Cons e q')
    obtain u1 ev where t: "Dispatch_take e u = Ret u1" and i1: "in_section gEventQueueLock s u1"
        and same: "gEventPending u1 = gEventPending u" "gPendingTimerDuration u1 = gPendingTimerDuration u"
        and ev: "events u1 e = Some ev" "NotifyFunction ev \<noteq> None"
      using Dispatch_take_section[OF Suc.prems(1) Cons] by blast
    have "nothing_above p u1"
      using Suc.prems(2) same in_sectionD(2)[OF i1] in_sectionD(2)[OF Suc.prems(1)]
      by (simp add: nothing_above_def)
    then have na: "nothing_above (gEfiCurrentTpl s) u1" using tp by simp
    have rel: "safe (\<lambda>s2. svc s s2 \<and> events s2 e = Some ev) (CoreReleaseLock rst gEventQueueLock u1)"
      using safe_conj[OF tpl_restore.safe_leave[OF r inv nh h i1] tpl_restore.safe_leave_quiet[OF r i1 h na]]
      by (rule safe_mono) (auto simp: ev)
    have "safe (\<lambda>u'. in_section gEventQueueLock s u' \<and> nothing_above p u' \<and> gEventQueue u' p = [])
       (bind (CoreReleaseLock rst gEventQueueLock u1) (\<lambda>s2.
        deref (events s2 e) (\<lambda>ev.
        ASSERT (NotifyFunction ev \<noteq> None)
          (bind (call_notify cl rst k (the (NotifyFunction ev)) e (NotifyContext ev) s2) (\<lambda>s3.
           bind (CoreAcquireEventLock s3) (Dispatch_loop cl rst k m p))))))"
    proof (rule safe_bind[OF rel])
      fix s2 assume s2: "svc s s2 \<and> events s2 e = Some ev"
      have d2: "dispatchable p s2" using dispatchable_svc[OF d] s2 by blast
      have "safe (\<lambda>u'. in_section gEventQueueLock s u' \<and> nothing_above p u' \<and> gEventQueue u' p = [])
        (bind (call_notify cl rst k (the (NotifyFunction ev)) e (NotifyContext ev) s2) (\<lambda>s3.
           bind (CoreAcquireEventLock s3) (Dispatch_loop cl rst k m p)))"
      proof (rule safe_bind[OF call_notify_safe[OF r d2]])
        fix s3 assume s3: "svc s2 s3"
        have ss: "svc s s3" using svc_trans s2 s3 by blast
        have d3: "dispatchable p s3" using dispatchable_svc[OF d ss] .
        have inv3: "core_inv s3" using d3 by (simp add: dispatchable_def)
        have a: "CoreAcquireLock gEventQueueLock s3 = Ret (locked gEventQueueLock s3)"
          using d3 inv3 tpl_le_event_lock[OF inv3]
          by (intro AcquireLock_eq) (auto simp: core_inv_def dispatchable_def)
        have "in_section gEventQueueLock s (locked gEventQueueLock s3)"
          using in_section_reenter[OF ss in_section_locked[OF inv3 tpl_le_event_lock[OF inv3]]] .
        moreover have "nothing_above p (locked gEventQueueLock s3)"
          using nothing_above_same[OF inv3, of "locked gEventQueueLock s3"] d3 by (simp add: dispatchable_def)
        ultimately show "safe (\<lambda>u'. in_section gEventQueueLock s u' \<and> nothing_above p u' \<and> gEventQueue u' p = [])
            (bind (CoreAcquireEventLock s3) (Dispatch_loop cl rst k m p))"
          using Suc.IH by (simp add: CoreAcquireEventLock_def a)
      qed
      then show "safe (\<lambda>u'. in_section gEventQueueLock s u' \<and> nothing_above p u' \<and> gEventQueue u' p = [])
        (deref (events s2 e) (\<lambda>ev.
        ASSERT (NotifyFunction ev \<noteq> None)
          (bind (call_notify cl rst k (the (NotifyFunction ev)) e (NotifyContext ev) s2) (\<lambda>s3.
           bind (CoreAcquireEventLock s3) (Dispatch_loop cl rst k m p)))))"
        using s2 ev(2) by simp
    qed
    then show ?thesis by (simp add: Cons t CoreReleaseEventLock_def)
  qed
qed simp

lemma Dispatch_safe:
  assumes r: "tpl_restore rst" and d: "dispatchable p s"
  shows "safe (svc s) (CoreDispatchEventNotifies cl rst k p s)"
proof -
  have inv: "core_inv s" and tp: "gEfiCurrentTpl s = p" using d by (simp_all add: dispatchable_def)
  have nh: "\<not> held s gEventQueueLock" using d by (auto simp: dispatchable_def)
  note h = tpl_le_event_lock[OF inv]
  have a: "CoreAcquireLock gEventQueueLock s = Ret (locked gEventQueueLock s)"
    using inv nh h by (intro AcquireLock_eq) (simp_all add: core_inv_def)
  have na: "nothing_above p (locked gEventQueueLock s)"
    using nothing_above_same[OF inv, of "locked gEventQueueLock s"] tp by simp
  note l = Dispatch_loop_safe[OF r d in_section_locked[OF inv h] na]
  have "safe (svc s) (bind (Dispatch_loop cl rst k k p (locked gEventQueueLock s)) (\<lambda>s2.
        CoreReleaseEventLock rst (s2\<lparr>gEventPending := gEventPending s2 AND NOT (tpl_bit p)\<rparr>)))"
  proof (rule safe_bind[OF l])
    fix u assume u: "in_section gEventQueueLock s u \<and> nothing_above p u \<and> gEventQueue u p = []"
    let ?w = "u\<lparr>gEventPending := gEventPending u AND NOT (tpl_bit p)\<rparr>"
    have cu: "core_inv u" using in_sectionD(1) u by blast
    have p: "p \<le> 30" using d by (simp add: dispatchable_def)
    have "tpl_inv ?w"
      using cu u p by (auto simp: core_inv_def tpl_inv_def bit_simps)
    then have "core_inv ?w"
      using cu by (simp add: core_inv_def event_inv_def lock_inv_def)
    then have "in_section gEventQueueLock s ?w"
      using u by (intro in_section_svc[OF conjunct1[OF u] svc_frame]) simp_all
    then show "safe (svc s) (CoreReleaseEventLock rst ?w)"
      unfolding CoreReleaseEventLock_def by (rule tpl_restore.safe_leave[OF r inv nh h])
  qed
  then show ?thesis
    by (simp add: CoreDispatchEventNotifies_def CoreAcquireEventLock_def a tp)
qed

lemma Restore_loop_safe:
  assumes r: "tpl_restore rst"
  shows "lowering t s0 s \<Longrightarrow>
    safe (\<lambda>s'. lowering t s0 s' \<and> nothing_above t s') (Restore_loop cl rst k m t s)"
proof (induction m arbitrary: s)
  case (Suc m)
  have inv: "core_inv s" using Suc.prems by (simp add: lowering_def)
  show ?case
  proof (cases "gEventPending s = 0")
    case True
    with Suc.prems show ?thesis by (auto simp: lowering_def nothing_above_def)
  next
    case False
    then obtain h where hh: "is_high (gEventPending s) h" using is_high_exists by blast
    have hb: "nat (HighBitSet64 (gEventPending s)) = h" by (simp add: HighBitSet64_high[OF hh])
    show ?thesis
    proof (cases "h \<le> t")
      case True
      then have "nothing_above t s"
        using Suc.prems hh by (auto simp: lowering_def nothing_above_def is_high_def intro: order_trans)
      with Suc.prems True hb False show ?thesis by (simp add: Let_def)
    next
      case h: False
      let ?s1 = "s\<lparr>gEfiCurrentTpl := h\<rparr>"
      have h30: "h \<le> 30" "h \<le> gEfiCurrentTpl s" using hh tpl_invD(2,3)[OF inv] by (auto simp: is_high_def)
      have d: "dispatchable h ?s1"
        using Suc.prems h h30 hh
        by (auto simp: dispatchable_def lowering_def core_inv_def event_inv_def tpl_inv_def lock_inv_def
            free_above_def is_high_def intro: order_trans le_less_trans)
      have "safe (\<lambda>s'. lowering t s0 s' \<and> nothing_above t s')
          (bind (CoreDispatchEventNotifies cl rst k h ?s1) (Restore_loop cl rst k m t))"
      proof (rule safe_bind[OF Dispatch_safe[OF r d]])
        fix s2 assume s2: "svc ?s1 s2"
        have "locks_kept s ?s1" by (simp add: locks_kept_def)
        then have lk: "locks_kept s0 s2"
          using Suc.prems s2 by (auto simp: lowering_def svc_def intro: locks_kept_trans)
        have "free_above t s2" using Suc.prems svcD(3)[OF s2] by (simp add: lowering_def free_above_def)
        then have "lowering t s0 s2"
          using svcD(1,2)[OF s2] lk h h30 tpl_invD(4)[OF svcD(1)[OF s2]] by (simp add: lowering_def)
        then show "safe (\<lambda>s'. lowering t s0 s' \<and> nothing_above t s') (Restore_loop cl rst k m t s2)"
          by (rule Suc.IH)
      qed
      with h hb False show ?thesis by (simp add: Let_def CoreSetInterruptState_def)
    qed
  qed
qed simp

lemma Restore_body_safe:
  assumes r: "tpl_restore rst" and inv: "core_inv s" and t: "t \<le> gEfiCurrentTpl s" and fr: "free_above t s"
  shows "safe (\<lambda>s'. core_inv s' \<and> gEfiCurrentTpl s' = t \<and> locks_kept s s') (Restore_body cl rst k t s)"
proof -
  have v: "VALID_TPL t" using t tpl_invD(1)[OF inv] by (simp add: VALID_TPL_def)
  have start: "safe (lowering t s) (Restore_interrupt rst t s)"
  proof (cases "gEfiCurrentTpl s \<ge> TPL_HIGH_LEVEL \<and> t < TPL_HIGH_LEVEL")
    case True
    let ?s1 = "s\<lparr>gEfiCurrentTpl := TPL_HIGH_LEVEL, gPendingTimerDuration := 0\<rparr>"
    have i1: "core_inv ?s1" and tp: "gEfiCurrentTpl ?s1 = TPL_HIGH_LEVEL"
      using inv True by (auto simp: core_inv_def event_inv_def tpl_inv_def lock_inv_def)
    have lk: "locks_kept s ?s1" by (simp add: locks_kept_def)
    have nh: "\<not> held ?s1 l" if "t < lock_tpl l" for l
      using fr that by (auto simp: free_above_def)
    have l1: "lowering t s ?s1"
      using i1 lk t True fr by (auto simp: lowering_def free_above_def)
    have "safe (lowering t s) (CoreTimerTick rst d ?s1)" for d
    proof -
      have "safe (svc_sig (tick_state d ?s1)) (CoreTimerTick rst d ?s1)"
        using tpl_restore.TimerTick_sig[OF r i1] nh True by simp
      then show ?thesis
      proof (rule safe_mono)
        fix s2 assume s2: "svc_sig (tick_state d ?s1) s2"
        then have sv: "svc ?s1 s2" by (simp add: svc_sig_def)
        have "sig_frame (tick_state d ?s1) s2" using s2 by (simp add: svc_sig_def)
        then have "gPendingTimerDuration s2 = 0" using sig_frameD(4) by fastforce
        moreover have "free_above t s2" using fr svcD(3)[OF sv] by (simp add: free_above_def)
        ultimately show "lowering t s s2"
          using svcD(1,2)[OF sv] True locks_kept_trans[OF lk] sv by (auto simp: lowering_def svc_def)
      qed
    qed
    then show ?thesis
      using True l1 by (simp add: Restore_interrupt_def MockTimerHostConsumePending_def)
  next
    case False
    have "lowering t s s"
      using inv t fr False tpl_invD(4)[OF inv] by (auto simp: lowering_def)
    with False show ?thesis by (auto simp: Restore_interrupt_def)
  qed
  have "safe (\<lambda>s'. core_inv s' \<and> gEfiCurrentTpl s' = t \<and> locks_kept s s')
      (bind (Restore_loop cl rst k k t s2) (\<lambda>s3. Ret (s3\<lparr>gEfiCurrentTpl := t\<rparr>)))" if "lowering t s s2" for s2
  proof (rule safe_bind[OF Restore_loop_safe[OF r that]])
    fix s3 assume s3: "lowering t s s3 \<and> nothing_above t s3"
    then have "core_inv (s3\<lparr>gEfiCurrentTpl := t\<rparr>)"
      using t tpl_invD(1)[OF inv]
      by (auto simp: lowering_def nothing_above_def core_inv_def event_inv_def tpl_inv_def lock_inv_def free_above_def)
    moreover have "locks_kept s (s3\<lparr>gEfiCurrentTpl := t\<rparr>)"
      using s3 by (simp add: lowering_def locks_kept_def)
    ultimately show "safe (\<lambda>s'. core_inv s' \<and> gEfiCurrentTpl s' = t \<and> locks_kept s s')
        (Ret (s3\<lparr>gEfiCurrentTpl := t\<rparr>))" by simp
  qed
  from safe_bind[OF start this] show ?thesis unfolding Restore_body_eq[OF t v] .
qed

lemma Restore_body_quiet:
  assumes "tpl_inv s" and "t \<le> gEfiCurrentTpl s" and na: "nothing_above t s"
  shows "safe (\<lambda>s'. s' = s\<lparr>gEfiCurrentTpl := t\<rparr>) (Restore_body cl rst k t s)"
proof -
  have v: "VALID_TPL t" using assms(1,2) by (simp add: VALID_TPL_def tpl_inv_def)
  have loop: "safe (\<lambda>s'. s' = u) (Restore_loop cl rst k m t u)" if "gEventPending u = gEventPending s" for m u
  proof (cases m)
    case (Suc m')
    show ?thesis
    proof (cases "gEventPending u = 0")
      case False
      then obtain h where h: "is_high (gEventPending u) h" using is_high_exists by blast
      then have "h \<le> t" using na that by (simp add: nothing_above_def is_high_def)
      with False Suc show ?thesis by (simp add: HighBitSet64_high[OF h])
    qed (simp add: Suc)
  qed simp
  have int: "safe (\<lambda>u. gEventPending u = gEventPending s \<and> u\<lparr>gEfiCurrentTpl := t\<rparr> = s\<lparr>gEfiCurrentTpl := t\<rparr>)
      (Restore_interrupt rst t s)"
    using na by (cases s) (auto simp: Restore_interrupt_def MockTimerHostConsumePending_def nothing_above_def)
  show ?thesis
    unfolding Restore_body_eq[OF assms(2) v]
  proof (rule safe_bind[OF int])
    fix u assume u: "gEventPending u = gEventPending s \<and> u\<lparr>gEfiCurrentTpl := t\<rparr> = s\<lparr>gEfiCurrentTpl := t\<rparr>"
    show "safe (\<lambda>s'. s' = s\<lparr>gEfiCurrentTpl := t\<rparr>)
        (bind (Restore_loop cl rst k k t u) (\<lambda>s3. Ret (s3\<lparr>gEfiCurrentTpl := t\<rparr>)))"
      by (rule safe_bind[OF loop[OF conjunct1[OF u]]]) (use u in simp)
  qed
qed

lemma restore_contract: "tpl_restore (CoreRestoreTpl cl n)"
proof (induction n)
  case 0
  show ?case by unfold_locales simp_all
next
  case (Suc n)
  show ?case
    by unfold_locales (use Restore_body_safe[OF Suc] Restore_body_quiet in simp_all)
qed

end

text \<open>\<open>CoreRestoreTpl\<close> keeps its contract for every well-behaved client and every bound.\<close>

sublocale notify_client \<subseteq> core: tpl_restore "CoreRestoreTpl cl n" for n
  by (rule restore_contract)

end
