(* ===== verification/EventServices.thy ===== *)
theory EventServices
  imports EventDispatch
begin

text \<open>
  Setting timers, creating, closing and checking events, the initialisation and the host timer: each
  service keeps the invariant, fails no assertion and touches no freed event.
\<close>

section \<open>Setting a timer\<close>

context tpl_restore begin

lemma SetTimer_arm_safe:
  assumes i: "in_section mEfiTimerLock s u" and ev: "events u e = Some ev" and nl: "\<not> TimerLinked ev"
    and ty: "Type ev AND EVT_TIMER \<noteq> 0"
  shows "safe (in_section mEfiTimerLock s) (SetTimer_arm rst e Ty Trigger u)"
proof -
  note d = in_sectionD[OF i]
  define T where "T = (if Ty = TimerPeriodic \<and> Trigger = 0 then DEFAULT_TIMER_TICK_DURATION else Trigger)"
  have "\<not> held u mEfiSystemTimeLock" using tpl_invD(5)[OF d(1)] d(2) by fastforce
  note now = CurrentSystemTime_safe[OF d(1) this]
  have "safe (in_section mEfiTimerLock s) (bind (CoreCurrentSystemTime rst u) (\<lambda>(now, s1).
         deref (events s1 e) (\<lambda>ev.
         bind (CoreInsertEventTimer e
             (set_event e (ev\<lparr>TriggerTime := now + T,
                Period := (if Ty = TimerPeriodic then T else Period ev)\<rparr>) s1)) (\<lambda>s2.
         if T = 0
         then bind (CoreSignalEvent rst (mEfiCheckTimerEvent s2) s2) (\<lambda>(_, s3). Ret s3)
         else Ret s2))))"
  proof (rule safe_bind[OF now])
    fix x assume "case x of (t, s') \<Rightarrow> same_state u s' \<and> t = mEfiSystemTime u"
    then obtain now s1 where x: "x = (now, s1)" and ss: "same_state u s1" by (cases x) auto
    have i1: "in_section mEfiTimerLock s s1" using in_section_svc[OF i same_stateD(1)[OF ss]] .
    have ev1: "events s1 e = Some ev" using ev same_stateD(2)[OF ss] by simp
    let ?v = "ev\<lparr>TriggerTime := now + T, Period := (if Ty = TimerPeriodic then T else Period ev)\<rparr>"
    let ?s2 = "set_event e ?v s1"
    have "core_inv ?s2" by (rule core_inv_set_trigger[OF in_sectionD(1)[OF i1] ev1 nl])
    then have i2: "in_section mEfiTimerLock s ?s2" by (intro in_section_svc[OF i1 svc_frame]) simp_all
    note ins = InsertEventTimer_section[OF i2, of e ?v]
    have "safe (in_section mEfiTimerLock s) (bind (CoreInsertEventTimer e ?s2) (\<lambda>s2.
         if T = 0
         then bind (CoreSignalEvent rst (mEfiCheckTimerEvent s2) s2) (\<lambda>(_, s3). Ret s3)
         else Ret s2))"
    proof (rule safe_bind[OF ins])
      fix s2 assume i3: "in_section mEfiTimerLock s s2"
      have live: "mEfiCheckTimerEvent s2 = Some c \<Longrightarrow> events s2 c \<noteq> None" for c
        using event_invD(8)[of s2 c] in_sectionD(1)[OF i3] by (auto simp: core_inv_def)
      have "safe (in_section mEfiTimerLock s) (bind (CoreSignalEvent rst (mEfiCheckTimerEvent s2) s2) (\<lambda>(_, s3). Ret s3))"
        by (rule safe_bind[OF SignalEvent_high[OF i3 live]]) auto
      with i3 show "safe (in_section mEfiTimerLock s) (if T = 0
         then bind (CoreSignalEvent rst (mEfiCheckTimerEvent s2) s2) (\<lambda>(_, s3). Ret s3) else Ret s2)"
        by simp
    qed (use nl ty in simp_all)
    then show "safe (in_section mEfiTimerLock s) (case x of (now, s1) \<Rightarrow> deref (events s1 e) (\<lambda>ev.
         bind (CoreInsertEventTimer e
             (set_event e (ev\<lparr>TriggerTime := now + T,
                Period := (if Ty = TimerPeriodic then T else Period ev)\<rparr>) s1)) (\<lambda>s2.
         if T = 0
         then bind (CoreSignalEvent rst (mEfiCheckTimerEvent s2) s2) (\<lambda>(_, s3). Ret s3)
         else Ret s2)))" by (simp add: x ev1)
  qed
  then show ?thesis unfolding SetTimer_arm_def T_def Let_def .
qed

end

text \<open>The state after the timer of \<open>e\<close> has been stopped.\<close>

definition stop_timer :: "nat \<Rightarrow> ievent \<Rightarrow> 'y core_scheme \<Rightarrow> 'y core_scheme" where
  "stop_timer e ev s = set_event e (ev\<lparr>TimerLinked := False, TriggerTime := 0, Period := 0\<rparr>)
     (s\<lparr>mEfiTimerList := remove1 e (mEfiTimerList s)\<rparr>)"

lemma stop_timer_simps [simp]:
  "gEfiCurrentTpl (stop_timer e ev s) = gEfiCurrentTpl s" "locks (stop_timer e ev s) = locks s"
  "events (stop_timer e ev s) = (events s)(e \<mapsto> ev\<lparr>TimerLinked := False, TriggerTime := 0, Period := 0\<rparr>)"
  "gEventPending (stop_timer e ev s) = gEventPending s"
  "gPendingTimerDuration (stop_timer e ev s) = gPendingTimerDuration s"
  by (simp_all add: stop_timer_def set_event_def)

lemma stop_timer_eq:
  assumes inv: "core_inv s" and ev: "events s e = Some ev"
  shows "bind (if TimerLinked ev then RemoveTimerLink e s else Ret s) (\<lambda>s2.
      deref (events s2 e) (\<lambda>ev2. K (set_event e (ev2\<lparr>TriggerTime := 0, Period := 0\<rparr>) s2))) =
      K (stop_timer e ev s)"
    and "core_inv (stop_timer e ev s)"
proof -
  have ei: "event_inv s" using inv by (simp add: core_inv_def)
  let ?v = "ev\<lparr>TimerLinked := False\<rparr>"
  have *: "(if TimerLinked ev then RemoveTimerLink e s else Ret s) =
      Ret (remove_timer_state e ev s) \<and> core_inv (remove_timer_state e ev s)"
  proof (cases "TimerLinked ev")
    case True
    then show ?thesis using RemoveTimerLink_eq[OF inv ev] by simp
  next
    case False
    then have "e \<notin> set (mEfiTimerList s)" using listed_mem[OF event_invD(5)[OF ei] ev] by simp
    moreover have "?v = ev" using False by simp
    moreover have "(events s)(e \<mapsto> ev) = events s" using ev by auto
    ultimately have "remove_timer_state e ev s = s"
      by (simp add: remove_timer_state_def set_event_def remove1_idem)
    then show ?thesis using False inv by simp
  qed
  have st: "set_event e (?v\<lparr>TriggerTime := 0, Period := 0\<rparr>) (remove_timer_state e ev s) = stop_timer e ev s"
    by (simp add: stop_timer_def remove_timer_state_def set_event_def)
  show "bind (if TimerLinked ev then RemoveTimerLink e s else Ret s) (\<lambda>s2.
      deref (events s2 e) (\<lambda>ev2. K (set_event e (ev2\<lparr>TriggerTime := 0, Period := 0\<rparr>) s2))) =
      K (stop_timer e ev s)"
    unfolding conjunct1[OF *] bind.simps timer_state_simps fun_upd_same deref_simps st ..
  have "core_inv (set_event e (?v\<lparr>TriggerTime := 0, Period := 0\<rparr>) (remove_timer_state e ev s))"
    by (rule core_inv_set_trigger[OF conjunct2[OF *]]) simp_all
  then show "core_inv (stop_timer e ev s)" by (simp only: st)
qed

text \<open>The arguments that \<open>SetTimer\<close> accepts.\<close>

definition timer_args_ok :: "'x core_scheme \<Rightarrow> ptr \<Rightarrow> timer_delay \<Rightarrow> bool" where
  "timer_args_ok s UserEvent Ty \<longleftrightarrow> (\<exists>e ev. UserEvent = Some e \<and> events s e = Some ev \<and>
     Type ev AND EVT_TIMER \<noteq> 0 \<and> timer_delay_valid Ty)"

context tpl_restore begin

lemma SetTimer_enter:
  assumes inv: "core_inv s" and nh: "\<not> held s mEfiTimerLock" and h: "gEfiCurrentTpl s < TPL_HIGH_LEVEL"
    and ev: "events s e = Some ev" and ok: "timer_args_ok s (Some e) Ty"
  shows "CoreSetTimer rst (Some e) Ty Trigger s =
    bind (if Ty \<noteq> TimerCancel then SetTimer_arm rst e Ty Trigger (stop_timer e ev (locked mEfiTimerLock s))
          else Ret (stop_timer e ev (locked mEfiTimerLock s)))
      (\<lambda>s4. bind (CoreReleaseLock rst mEfiTimerLock s4) (\<lambda>s5. Ret (EFI_SUCCESS, s5)))"
    and "in_section mEfiTimerLock s (stop_timer e ev (locked mEfiTimerLock s))"
proof -
  have h': "gEfiCurrentTpl s \<le> lock_tpl mEfiTimerLock" using h by simp
  have a: "CoreAcquireLock mEfiTimerLock s = Ret (locked mEfiTimerLock s)"
    using inv nh h' by (intro AcquireLock_eq) (simp_all add: core_inv_def)
  have sg: "Signature ev = EVENT_SIGNATURE"
    using inv event_invD(1)[OF _ ev] by (auto simp: core_inv_def event_ok_def)
  have ty: "timer_delay_valid Ty" "Type ev AND EVT_TIMER \<noteq> 0"
    using ok ev by (auto simp: timer_args_ok_def)
  note i = in_section_locked[OF inv h']
  have ev': "events (locked mEfiTimerLock s) e = Some ev" using ev by simp
  note st = stop_timer_eq[OF in_sectionD(1)[OF i] ev']
  show "CoreSetTimer rst (Some e) Ty Trigger s =
    bind (if Ty \<noteq> TimerCancel then SetTimer_arm rst e Ty Trigger (stop_timer e ev (locked mEfiTimerLock s))
          else Ret (stop_timer e ev (locked mEfiTimerLock s)))
      (\<lambda>s4. bind (CoreReleaseLock rst mEfiTimerLock s4) (\<lambda>s5. Ret (EFI_SUCCESS, s5)))"
    using sg ty st(1)[where K = "\<lambda>s3. bind (if Ty \<noteq> TimerCancel then SetTimer_arm rst e Ty Trigger s3
        else Ret s3) (\<lambda>s4. bind (CoreReleaseLock rst mEfiTimerLock s4) (\<lambda>s5. Ret (EFI_SUCCESS, s5)))"]
    by (simp only: CoreSetTimer_def option.case ev deref_simps a bind.simps Let_def if_False simp_thms)
  show "in_section mEfiTimerLock s (stop_timer e ev (locked mEfiTimerLock s))"
    by (intro in_section_svc[OF i svc_frame] st(2)) simp_all
qed

lemma SetTimer_reject:
  assumes "core_inv s" and "\<And>e. UserEvent = Some e \<Longrightarrow> events s e \<noteq> None"
    and "\<not> timer_args_ok s UserEvent Ty"
  shows "CoreSetTimer rst UserEvent Ty Trigger s = Ret (EFI_INVALID_PARAMETER, s)"
proof (cases UserEvent)
  case None
  then show ?thesis by (simp add: CoreSetTimer_def)
next
  case (Some e)
  then obtain ev where ev: "events s e = Some ev" using assms(2) by blast
  then have "Signature ev = EVENT_SIGNATURE"
    using assms(1) event_invD(1) by (auto simp: core_inv_def event_ok_def)
  then show ?thesis using Some ev assms(3) by (auto simp: CoreSetTimer_def timer_args_ok_def)
qed

lemma SetTimer_safe:
  assumes inv: "core_inv s" and nh: "\<not> held s mEfiTimerLock" and h: "gEfiCurrentTpl s < TPL_HIGH_LEVEL"
    and live: "\<And>e. UserEvent = Some e \<Longrightarrow> events s e \<noteq> None"
  shows "safe (\<lambda>(st, s'). svc s s' \<and>
      st = (if timer_args_ok s UserEvent Ty then EFI_SUCCESS else EFI_INVALID_PARAMETER))
    (CoreSetTimer rst UserEvent Ty Trigger s)"
proof (cases "timer_args_ok s UserEvent Ty")
  case False
  with SetTimer_reject[OF inv live False] inv show ?thesis by (simp add: svc_refl)
next
  case True
  then obtain e ev where e: "UserEvent = Some e" "events s e = Some ev" by (auto simp: timer_args_ok_def)
  note ent = SetTimer_enter[OF inv nh h e(2) True[unfolded e(1)]]
  have h': "gEfiCurrentTpl s \<le> lock_tpl mEfiTimerLock" using h by simp
  have body: "safe (in_section mEfiTimerLock s)
      (if Ty \<noteq> TimerCancel then SetTimer_arm rst e Ty Trigger (stop_timer e ev (locked mEfiTimerLock s))
          else Ret (stop_timer e ev (locked mEfiTimerLock s)))"
  proof -
    have "safe (in_section mEfiTimerLock s) (SetTimer_arm rst e Ty Trigger (stop_timer e ev (locked mEfiTimerLock s)))"
      by (rule SetTimer_arm_safe[OF ent(2), where ev = "ev\<lparr>TimerLinked := False, TriggerTime := 0, Period := 0\<rparr>"])
        (use True e in \<open>simp_all add: timer_args_ok_def\<close>)
    with ent(2) show ?thesis by simp
  qed
  have "safe (\<lambda>(st, s'). svc s s' \<and> st = EFI_SUCCESS) (CoreSetTimer rst (Some e) Ty Trigger s)"
    unfolding ent(1)
    by (rule safe_bind[OF body], rule safe_bind[OF safe_leave[OF inv nh h']]) simp_all
  with True e(1) show ?thesis by simp
qed

text \<open>Cancelling runs no notification at all.\<close>

lemma SetTimer_cancel:
  assumes inv: "core_inv s" and nh: "\<not> held s mEfiTimerLock" and h: "gEfiCurrentTpl s < TPL_HIGH_LEVEL"
    and ev: "events s e = Some ev" and ok: "timer_args_ok s (Some e) TimerCancel"
  shows "safe (\<lambda>(st, s'). st = EFI_SUCCESS \<and> svc s s' \<and>
      s' = (unlocked mEfiTimerLock (stop_timer e ev (locked mEfiTimerLock s)))\<lparr>gEfiCurrentTpl := gEfiCurrentTpl s\<rparr>)
    (CoreSetTimer rst (Some e) TimerCancel 0 s)"
proof -
  note ent = SetTimer_enter[OF inv nh h ev ok]
  have h': "gEfiCurrentTpl s \<le> lock_tpl mEfiTimerLock" using h by simp
  have na: "nothing_above (gEfiCurrentTpl s) (stop_timer e ev (locked mEfiTimerLock s))"
    by (rule nothing_above_same[OF inv]) simp_all
  from safe_conj[OF safe_leave[OF inv nh h' ent(2)] safe_leave_quiet[OF ent(2) h' na]]
  show ?thesis unfolding ent(1) by (auto elim!: safe_bind)
qed

end

section \<open>Creating events\<close>

text \<open>The arguments that event creation accepts.\<close>

definition create_accepts :: "u32 \<Rightarrow> nat \<Rightarrow> notify_fn option \<Rightarrow> guid option \<Rightarrow> bool" where
  "create_accepts Ty NTpl Fn Group \<longleftrightarrow> Ty \<in> set mEventTable \<and>
     (Group \<noteq> None \<longrightarrow> Ty \<noteq> EVT_SIGNAL_EXIT_BOOT_SERVICES \<and> Ty \<noteq> EVT_SIGNAL_VIRTUAL_ADDRESS_CHANGE) \<and>
     (is_notify_type (fst (convert_group Ty Group)) \<longrightarrow>
        Fn \<noteq> None \<and> TPL_APPLICATION < NTpl \<and> NTpl < TPL_HIGH_LEVEL)"

definition created_event :: "u32 \<Rightarrow> nat \<Rightarrow> notify_fn option \<Rightarrow> ptr \<Rightarrow> guid option \<Rightarrow> ievent" where
  "created_event Ty NTpl Fn Ctx Group =
     (case convert_group Ty Group of (Ty1, Group1) \<Rightarrow>
        if is_notify_type Ty1 then new_event Ty1 NTpl Fn Ctx Group1 else new_event Ty1 0 None None Group1)"

lemma new_event_simps [simp]:
  "Signature (new_event Ty NTpl Fn Ctx G) = EVENT_SIGNATURE" "Type (new_event Ty NTpl Fn Ctx G) = Ty"
  "NotifyTpl (new_event Ty NTpl Fn Ctx G) = NTpl" "NotifyFunction (new_event Ty NTpl Fn Ctx G) = Fn"
  "\<not> NotifyLinked (new_event Ty NTpl Fn Ctx G)" "\<not> SignalLinked (new_event Ty NTpl Fn Ctx G)"
  "\<not> TimerLinked (new_event Ty NTpl Fn Ctx G)" "\<not> RuntimeLinked (new_event Ty NTpl Fn Ctx G)"
  "SignalCount (new_event Ty NTpl Fn Ctx G) = 0"
  by (simp_all add: new_event_def zero_event_def)

lemma trigger_fresh:
  "listed TimerLinked evs l \<Longrightarrow> evs e = None \<Longrightarrow> map (trigger_of (evs(e \<mapsto> v))) l = map (trigger_of evs) l"
  by (rule trigger_unlisted) (auto simp: listed_def)

lemma core_inv_alloc:
  assumes inv: "core_inv s" and ok: "event_ok ev"
    and un: "\<not> NotifyLinked ev" "\<not> SignalLinked ev" "\<not> TimerLinked ev" "\<not> RuntimeLinked ev"
  shows "core_inv (CreateEvent_alloc ev s)"
proof -
  have ei: "event_inv s" using inv by (simp add: core_inv_def)
  let ?e = "next_event s"
  have fresh: "events s ?e = None" using event_invD(2)[OF ei] by (metis less_irrefl not_None_eq)
  have le: "events s x = Some v \<Longrightarrow> x < Suc ?e" for x v using event_invD(2)[OF ei] less_SucI by blast
  have ne: "mEfiCheckTimerEvent s \<noteq> Some ?e" "gIdleLoopEvent s \<noteq> Some ?e"
    using event_invD(8,9)[OF ei] fresh by auto
  have nr: "?e \<notin> set (gRuntimeEventHead s)" using listedD[OF event_invD(6)[OF ei]] fresh by fastforce
  have okr: "event_ok (ev\<lparr>RuntimeLinked := True\<rparr>)" using ok by (simp add: event_ok_def)
  have rt: "listed RuntimeLinked ((events s)(?e \<mapsto> ev\<lparr>RuntimeLinked := True\<rparr>)) (gRuntimeEventHead s @ [?e])"
    using listed_distinct[OF event_invD(6)[OF ei]] nr
    by (intro listed_add[OF event_invD(6)[OF ei] nr]) simp_all
  have q: "listed (queued_at p) ((events s)(?e \<mapsto> v)) (gEventQueue s p)" if "\<not> NotifyLinked v" for p v
    using listed_new[OF event_invD(3)[OF ei] fresh] that by simp
  have srt: "sorted (map (trigger_of ((events s)(?e \<mapsto> v))) (mEfiTimerList s))" for v
    unfolding trigger_fresh[OF event_invD(5)[OF ei] fresh] by (rule event_invD(7)[OF ei])
  have "event_inv (CreateEvent_alloc ev s)"
    unfolding event_inv_def CreateEvent_alloc_def set_event_def
    using ok okr rt un q fresh le event_invD(1,8,9)[OF ei] ne
      listed_new[OF event_invD(4)[OF ei] fresh] listed_new[OF event_invD(5)[OF ei] fresh]
      listed_new[OF event_invD(6)[OF ei] fresh] srt
    by (simp add: Let_def)
  moreover have "tpl_inv (CreateEvent_alloc ev s)" "lock_inv (CreateEvent_alloc ev s)"
    using inv by (simp_all add: core_inv_def tpl_inv_def lock_inv_def CreateEvent_alloc_def set_event_def Let_def)
  ultimately show ?thesis by (simp add: core_inv_def)
qed

lemma alloc_simps [simp]:
  "gEfiCurrentTpl (CreateEvent_alloc ev s) = gEfiCurrentTpl s" "locks (CreateEvent_alloc ev s) = locks s"
  "gEventPending (CreateEvent_alloc ev s) = gEventPending s"
  "gPendingTimerDuration (CreateEvent_alloc ev s) = gPendingTimerDuration s"
  "events (CreateEvent_alloc ev s) (next_event s) =
     Some (if Type ev AND EVT_RUNTIME \<noteq> 0 then ev\<lparr>RuntimeLinked := True\<rparr> else ev)"
  "x \<noteq> next_event s \<Longrightarrow> events (CreateEvent_alloc ev s) x = events s x"
  "mEfiCheckTimerEvent (CreateEvent_alloc ev s) = mEfiCheckTimerEvent s"
  "gIdleLoopEvent (CreateEvent_alloc ev s) = gIdleLoopEvent s"
  "gEventQueue (CreateEvent_alloc ev s) = gEventQueue s"
  "mEfiTimerList (CreateEvent_alloc ev s) = mEfiTimerList s"
  "gEventSignalQueue (CreateEvent_alloc ev s) = gEventSignalQueue s"
  "core.more (CreateEvent_alloc ev s) = core.more s" "mEfiSystemTime (CreateEvent_alloc ev s) = mEfiSystemTime s"
  "next_event (CreateEvent_alloc ev s) = Suc (next_event s)"
  by (simp_all add: CreateEvent_alloc_def set_event_def Let_def)

lemma core_inv_link_signal:
  assumes inv: "core_inv s" and ev: "events s e = Some ev" and "\<not> SignalLinked ev"
    and ty: "Type ev AND EVT_NOTIFY_SIGNAL \<noteq> 0"
  shows "core_inv (set_event e (ev\<lparr>SignalLinked := True\<rparr>) (s\<lparr>gEventSignalQueue := e # gEventSignalQueue s\<rparr>))"
    (is "core_inv ?s")
proof -
  let ?v = "ev\<lparr>SignalLinked := True\<rparr>"
  have ei: "event_inv s" using inv by (simp add: core_inv_def)
  have nm: "e \<notin> set (gEventSignalQueue s)" using listed_mem[OF event_invD(4)[OF ei] ev] assms(3) by simp
  have sq: "listed SignalLinked ((events s)(e \<mapsto> ?v)) (e # gEventSignalQueue s)"
    using listed_distinct[OF event_invD(4)[OF ei]] nm
    by (intro listed_add[OF event_invD(4)[OF ei] nm]) simp_all
  have "event_ok ?v" using event_invD(1)[OF ei ev] ty by (simp add: event_ok_def)
  then have "event_inv ?s"
    unfolding event_inv_def set_event_def
    using ev sq listed_same[OF event_invD(3)[OF ei] ev, of ?v] listed_same[OF event_invD(5)[OF ei] ev, of ?v]
      listed_same[OF event_invD(6)[OF ei] ev, of ?v]
      sorted_trigger_same[OF event_invD(7)[OF ei] ev, of ?v] event_invD(1,2,8,9)[OF ei]
    by simp
  then show ?thesis
    using inv by (simp add: core_inv_def tpl_inv_def lock_inv_def set_event_def)
qed

lemma created_event_ok:
  assumes "create_accepts Ty NTpl Fn Group"
  shows "event_ok (created_event Ty NTpl Fn Ctx Group)"
  using assms
  by (auto simp: created_event_def create_accepts_def event_ok_def split: prod.splits)

lemma created_event_unlinked [simp]:
  "\<not> NotifyLinked (created_event Ty NTpl Fn Ctx G)" "\<not> SignalLinked (created_event Ty NTpl Fn Ctx G)"
  "\<not> TimerLinked (created_event Ty NTpl Fn Ctx G)" "\<not> RuntimeLinked (created_event Ty NTpl Fn Ctx G)"
  "Type (created_event Ty NTpl Fn Ctx G) = fst (convert_group Ty G)"
  by (simp_all add: created_event_def split: prod.splits)

context tpl_restore begin

lemma CreateEvent_reject:
  assumes "\<not> (out \<and> create_accepts Ty NTpl Fn Group \<and> mem)"
  shows "CoreCreateEventInternal rst mem out Ty NTpl Fn Ctx Group s =
    Ret (if out \<and> create_accepts Ty NTpl Fn Group then EFI_OUT_OF_RESOURCES else EFI_INVALID_PARAMETER, None, s)"
  using assms
  by (cases "convert_group Ty Group")
    (auto simp: CoreCreateEventInternal_def create_accepts_def not_le not_less)

lemma CreateEvent_safe:
  assumes inv: "core_inv s" and nh: "\<not> held s gEventQueueLock" and acc: "create_accepts Ty NTpl Fn Group"
  shows "safe (\<lambda>(st, p, s'). st = EFI_SUCCESS \<and> p = Some (next_event s) \<and> svc s s' \<and>
      events s (next_event s) = None \<and>
      (\<exists>r l. events s' (next_event s) =
         Some ((created_event Ty NTpl Fn Ctx Group)\<lparr>RuntimeLinked := r, SignalLinked := l\<rparr>)) \<and>
      (\<forall>x. x \<noteq> next_event s \<longrightarrow> events s' x = events s x) \<and>
      mEfiCheckTimerEvent s' = mEfiCheckTimerEvent s \<and> gIdleLoopEvent s' = gIdleLoopEvent s \<and>
      core.more s' = core.more s \<and> mEfiSystemTime s' = mEfiSystemTime s \<and> next_event s' = Suc (next_event s))
    (CoreCreateEventInternal rst True True Ty NTpl Fn Ctx Group s)"
proof -
  obtain Ty1 G1 where cg: "convert_group Ty Group = (Ty1, G1)" by fastforce
  define ev where "ev = created_event Ty NTpl Fn Ctx Group"
  let ?e = "next_event s" and ?s1 = "CreateEvent_alloc ev s"
  have fresh: "events s ?e = None"
    using inv event_invD(2) by (metis core_inv_def less_irrefl not_None_eq)
  have inv1: "core_inv ?s1"
    unfolding ev_def by (rule core_inv_alloc[OF inv created_event_ok[OF acc]]) simp_all
  have sv1: "svc s ?s1" using inv1 by (simp add: svc_def locks_kept_def)
  obtain ev1 r where ev1: "events ?s1 ?e = Some ev1" "ev1 = ev\<lparr>RuntimeLinked := r\<rparr>"
    by (cases "Type ev AND EVT_RUNTIME \<noteq> 0")
      (auto intro: that[of _ True] that[of _ False] simp: ev_def)
  have ty: "Type ev = Ty1" by (simp add: ev_def cg)
  have eq: "CoreCreateEventInternal rst True True Ty NTpl Fn Ctx Group s =
      bind (if Ty1 AND EVT_NOTIFY_SIGNAL \<noteq> 0 then
                        bind (CoreAcquireEventLock ?s1) (\<lambda>s2.
                        deref (events s2 ?e) (\<lambda>ev2.
                        CoreReleaseEventLock rst
                          (set_event ?e (ev2\<lparr>SignalLinked := True\<rparr>)
                            (s2\<lparr>gEventSignalQueue := ?e # gEventSignalQueue s2\<rparr>))))
                      else Ret ?s1)
                  (\<lambda>s3. Ret (EFI_SUCCESS, Some ?e, s3))"
    using acc cg
    by (auto simp: CoreCreateEventInternal_def create_accepts_def ev_def created_event_def Let_def)
  let ?Q = "\<lambda>s'. svc s s' \<and> (\<exists>r l. events s' ?e = Some (ev\<lparr>RuntimeLinked := r, SignalLinked := l\<rparr>)) \<and>
      (\<forall>x. x \<noteq> ?e \<longrightarrow> events s' x = events s x) \<and>
      mEfiCheckTimerEvent s' = mEfiCheckTimerEvent s \<and> gIdleLoopEvent s' = gIdleLoopEvent s \<and>
      core.more s' = core.more s \<and> mEfiSystemTime s' = mEfiSystemTime s \<and> next_event s' = Suc (next_event s)"
  have plain: "?Q ?s1"
  proof -
    have "ev1 = ev\<lparr>RuntimeLinked := r, SignalLinked := False\<rparr>" using ev1(2) by (simp add: ev_def)
    with ev1(1) sv1 show ?thesis by auto
  qed
  have sig: "safe ?Q (bind (CoreAcquireLock gEventQueueLock ?s1) (\<lambda>s2.
                        deref (events s2 ?e) (\<lambda>ev2.
                        CoreReleaseLock rst gEventQueueLock
                          (set_event ?e (ev2\<lparr>SignalLinked := True\<rparr>)
                            (s2\<lparr>gEventSignalQueue := ?e # gEventSignalQueue s2\<rparr>)))))"
    if "Ty1 AND EVT_NOTIFY_SIGNAL \<noteq> 0"
  proof (rule safe_enter[OF inv1])
    show nh1: "\<not> held ?s1 gEventQueueLock" using nh by simp
    note h = tpl_le_event_lock[OF inv1]
    show "gEfiCurrentTpl ?s1 \<le> lock_tpl gEventQueueLock" by (rule h)
    fix u assume u: "u = locked gEventQueueLock ?s1" and i: "in_section gEventQueueLock ?s1 u"
    have evu: "events u ?e = Some ev1" using ev1(1) u by simp
    let ?w = "set_event ?e (ev1\<lparr>SignalLinked := True\<rparr>) (u\<lparr>gEventSignalQueue := ?e # gEventSignalQueue u\<rparr>)"
    have "core_inv ?w"
      by (rule core_inv_link_signal[OF in_sectionD(1)[OF i] evu])
        (use that ty in \<open>simp_all add: ev1(2), simp add: ev_def\<close>)
    then have iw: "in_section gEventQueueLock ?s1 ?w"
      by (intro in_section_svc[OF i svc_frame]) simp_all
    have na: "nothing_above (gEfiCurrentTpl ?s1) ?w"
      by (rule nothing_above_same[OF inv1]) (simp_all add: u set_event_def)
    have "safe ?Q (CoreReleaseLock rst gEventQueueLock ?w)"
      using safe_conj[OF safe_leave[OF inv1 nh1 h iw] safe_leave_quiet[OF iw h na]]
      by (rule safe_mono) (use sv1 in \<open>auto simp: ev1(2) u set_event_def unlocked_def locked_def intro: svc_trans\<close>)
    then show "safe ?Q (deref (events u ?e) (\<lambda>ev2. CoreReleaseLock rst gEventQueueLock
                          (set_event ?e (ev2\<lparr>SignalLinked := True\<rparr>)
                            (u\<lparr>gEventSignalQueue := ?e # gEventSignalQueue u\<rparr>))))"
      by (simp add: evu)
  qed
  have "safe ?Q (if Ty1 AND EVT_NOTIFY_SIGNAL \<noteq> 0 then
                        bind (CoreAcquireEventLock ?s1) (\<lambda>s2.
                        deref (events s2 ?e) (\<lambda>ev2.
                        CoreReleaseEventLock rst
                          (set_event ?e (ev2\<lparr>SignalLinked := True\<rparr>)
                            (s2\<lparr>gEventSignalQueue := ?e # gEventSignalQueue s2\<rparr>))))
                      else Ret ?s1)"
    unfolding CoreAcquireEventLock_def CoreReleaseEventLock_def
    by (intro safe_if safe_RetI sig plain)
  then show ?thesis
    unfolding eq by (rule safe_bind) (simp add: fresh ev_def)
qed

end

section \<open>Closing an event\<close>

definition drop_event :: "nat \<Rightarrow> 'x core_scheme \<Rightarrow> 'x core_scheme" where
  "drop_event e s = s\<lparr>events := (events s)(e := None),
     gEventQueue := (\<lambda>p. remove1 e (gEventQueue s p)), gEventSignalQueue := remove1 e (gEventSignalQueue s),
     mEfiTimerList := remove1 e (mEfiTimerList s), gRuntimeEventHead := remove1 e (gRuntimeEventHead s)\<rparr>"

lemma listed_drop: "listed flag evs xs \<Longrightarrow> listed flag (evs(e := None)) (remove1 e xs)"
  by (auto simp: listed_def)

lemma core_inv_drop:
  assumes inv: "core_inv s" and "mEfiCheckTimerEvent s \<noteq> Some e" and "gIdleLoopEvent s \<noteq> Some e"
  shows "core_inv (drop_event e s)"
proof -
  have ei: "event_inv s" using inv by (simp add: core_inv_def)
  have meq: "map (trigger_of ((events s)(e := None))) (remove1 e (mEfiTimerList s)) =
      map (trigger_of (events s)) (remove1 e (mEfiTimerList s))"
    using listed_distinct[OF event_invD(5)[OF ei]] by (auto simp: trigger_of_def)
  have srt: "sorted (map (trigger_of ((events s)(e := None))) (remove1 e (mEfiTimerList s)))"
    unfolding meq by (rule sorted_map_remove1[OF event_invD(7)[OF ei]])
  have "event_inv (drop_event e s)"
    unfolding event_inv_def drop_event_def
    using srt listed_drop[OF event_invD(3)[OF ei]] listed_drop[OF event_invD(4)[OF ei]]
      listed_drop[OF event_invD(5)[OF ei]] listed_drop[OF event_invD(6)[OF ei]]
      event_invD(1,2,8,9)[OF ei] assms(2,3)
    by (auto split: if_splits)
  moreover have "tpl_inv (drop_event e s)"
  proof -
    have "remove1 e xs \<noteq> [] \<Longrightarrow> xs \<noteq> []" for xs :: "nat list" by auto
    then show ?thesis using inv by (auto simp: core_inv_def tpl_inv_def drop_event_def)
  qed
  ultimately show ?thesis using inv by (simp add: core_inv_def lock_inv_def drop_event_def)
qed

text \<open>What closing needs of the protocol database: it may only take and release locks and change its
  own state.\<close>

definition same_core :: "'x core_scheme \<Rightarrow> 'x core_scheme \<Rightarrow> bool" where
  "same_core s s' \<longleftrightarrow> core.truncate s' = (core.truncate s)\<lparr>locks := locks s'\<rparr>"

definition unregisters :: "(nat \<Rightarrow> 'x core_scheme \<Rightarrow> 'x core_scheme outcome) \<Rightarrow> bool" where
  "unregisters unreg \<longleftrightarrow> (\<forall>e s. tpl_inv s \<and> lock_inv s \<and> gEfiCurrentTpl s \<le> TPL_NOTIFY \<and>
     \<not> held s gProtocolDatabaseLock \<longrightarrow>
     safe (\<lambda>s'. same_core s s' \<and> locks_kept s s' \<and> lock_inv s') (unreg e s))"

text \<open>The three unlinking steps, from a state that satisfies the invariant.\<close>

lemma unlink_steps:
  assumes inv: "core_inv s" and ev: "events s e = Some ev" and tl: "\<not> TimerLinked ev"
  shows "\<exists>u. bind (if RuntimeLinked ev then unlink_runtime e s else Ret s) (\<lambda>s4.
      bind (if NotifyLinked ev then RemoveNotifyLink e s4 else Ret s4) (\<lambda>s5.
      (if SignalLinked ev then unlink_signal e s5 else Ret s5))) = Ret u \<and>
    u\<lparr>events := (events u)(e := None)\<rparr> = drop_event e s \<and> locks u = locks s \<and>
    (\<exists>l. events u e = Some (ev\<lparr>NotifyLinked := l\<rparr>))"
proof -
  have ei: "event_inv s" using inv by (simp add: core_inv_def)
  let ?s4 = "s\<lparr>gRuntimeEventHead := remove1 e (gRuntimeEventHead s)\<rparr>"
  have 4: "(if RuntimeLinked ev then unlink_runtime e s else Ret s) = Ret ?s4"
    using listed_mem[OF event_invD(6)[OF ei] ev] by (simp add: unlink_runtime_def remove1_idem)
  let ?v = "if NotifyLinked ev then ev\<lparr>NotifyLinked := False\<rparr> else ev"
  let ?s5 = "set_event e ?v (?s4\<lparr>gEventQueue := (\<lambda>p. remove1 e (gEventQueue s p))\<rparr>)"
  have 5: "(if NotifyLinked ev then RemoveNotifyLink e ?s4 else Ret ?s4) = Ret ?s5"
  proof (cases "NotifyLinked ev")
    case True
    have ok: "NotifyTpl ev < 32"
      using event_invD(1)[OF ei ev] True by (auto simp: event_ok_def)
    have "e \<in> set (gEventQueue s (NotifyTpl ev))"
      using listed_mem[OF event_invD(3)[OF ei] ev] True by simp
    then have "\<exists>p \<in> set [0..<32]. e \<in> set (gEventQueue ?s4 p)"
      using ok by (intro bexI[of _ "NotifyTpl ev"]) auto
    then show ?thesis using True ev by (simp add: RemoveNotifyLink_def del: set_upt)
  next
    case False
    have "remove1 e (gEventQueue s p) = gEventQueue s p" for p
      using queue_of_unlinked[OF ei ev False] by (simp add: remove1_idem)
    moreover have "(events s)(e \<mapsto> ev) = events s" using ev by auto
    ultimately show ?thesis using False by (simp add: set_event_def)
  qed
  let ?s6 = "?s5\<lparr>gEventSignalQueue := remove1 e (gEventSignalQueue s)\<rparr>"
  have 6: "(if SignalLinked ev then unlink_signal e ?s5 else Ret ?s5) = Ret ?s6"
    using listed_mem[OF event_invD(4)[OF ei] ev]
    by (simp add: unlink_signal_def set_event_def remove1_idem)
  have "e \<notin> set (mEfiTimerList s)" using listed_mem[OF event_invD(5)[OF ei] ev] tl by simp
  then have "?s6\<lparr>events := (events ?s6)(e := None)\<rparr> = drop_event e s"
    by (simp add: drop_event_def set_event_def remove1_idem)
  moreover have "?v = ev\<lparr>NotifyLinked := False\<rparr>" by (cases ev) simp
  then have "events ?s6 e = Some (ev\<lparr>NotifyLinked := False\<rparr>)" by (simp add: set_event_def)
  moreover have "locks ?s6 = locks s" by (simp add: set_event_def)
  ultimately show ?thesis
    unfolding 4 bind.simps 5 6 by (intro exI[of _ ?s6]) blast
qed


lemma same_core_fields:
  assumes "same_core s s'"
  shows "events s' = events s" "gEfiCurrentTpl s' = gEfiCurrentTpl s"
    "gEventQueue s' = gEventQueue s" "gEventPending s' = gEventPending s"
    "gEventSignalQueue s' = gEventSignalQueue s" "mEfiTimerList s' = mEfiTimerList s"
    "gRuntimeEventHead s' = gRuntimeEventHead s" "next_event s' = next_event s"
    "mEfiCheckTimerEvent s' = mEfiCheckTimerEvent s" "gIdleLoopEvent s' = gIdleLoopEvent s"
    "gPendingTimerDuration s' = gPendingTimerDuration s"
  using assms unfolding same_core_def core.truncate_def by simp_all

lemma same_core_refl [simp]: "same_core s s"
  by (simp add: same_core_def core.truncate_def)

lemma core_inv_same_core:
  assumes "same_core s s'" and "core_inv s" and "lock_inv s'"
  shows "core_inv s'"
  using assms(2,3) by (simp add: core_inv_def event_inv_def tpl_inv_def same_core_fields[OF assms(1)])

text \<open>The close of an event runs no notification, even when it cancels a timer; only the protocol database
  may change beyond the event itself.\<close>

definition closed :: "ievent \<Rightarrow> nat \<Rightarrow> 'x core_scheme \<Rightarrow> 'x core_scheme \<Rightarrow> bool" where
  "closed ev e s s' \<longleftrightarrow> same_core (drop_event e s) s' \<and>
     (ExFlag ev AND EVT_EXFLAG_EVENT_PROTOCOL_NOTIFICATION = 0 \<longrightarrow> core.more s' = core.more s)"

lemma closed_relinked [simp]:
  "closed (ev\<lparr>NotifyLinked := l\<rparr>) = closed ev"
  "closed (ev\<lparr>TimerLinked := k, TriggerTime := a, Period := b\<rparr>) = closed ev"
  by (simp_all add: closed_def fun_eq_iff)

text \<open>The unlinking part of a close up to the release of the lock, which runs nothing.\<close>

definition Close_finish ::
  "(nat \<Rightarrow> 'y core_scheme \<Rightarrow> 'y core_scheme outcome) \<Rightarrow> nat \<Rightarrow> 'y core_scheme \<Rightarrow> (efi_status \<times> 'y core_scheme) outcome" where
  "Close_finish unreg e s5 = deref (events s5 e) (\<lambda>ev5.
     bind (if ExFlag ev5 AND EVT_EXFLAG_EVENT_PROTOCOL_NOTIFICATION \<noteq> 0
           then unreg e s5 else Ret s5) (\<lambda>s6.
     Ret (EFI_SUCCESS, s6\<lparr>events := (events s6)(e := None)\<rparr>)))"

lemma unlocked_kept:
  assumes "lock_inv s" and "\<not> held s l" and "locks u = locks (locked l s)"
  shows "locks_kept s ((unlocked l u)\<lparr>gEfiCurrentTpl := t\<rparr>)"
proof -
  have "Lock (locks s l) = EfiLockReleased"
    using assms(1,2) by (auto simp: lock_inv_def intro: lock_state.exhaust)
  then show ?thesis using assms(3) by (simp add: locks_kept_def unlocked_def locked_def)
qed

context tpl_restore begin

lemma CloseEvent_finish_safe:
  assumes inv: "core_inv s" and nh: "\<not> held s gEventQueueLock"
    and ne: "mEfiCheckTimerEvent s \<noteq> Some e" "gIdleLoopEvent s \<noteq> Some e"
    and un: "ExFlag ev AND EVT_EXFLAG_EVENT_PROTOCOL_NOTIFICATION \<noteq> 0 \<Longrightarrow> unregisters unreg \<and>
      gEfiCurrentTpl s \<le> TPL_NOTIFY \<and> \<not> held s gProtocolDatabaseLock"
    and s5: "s5 = (unlocked gEventQueueLock u)\<lparr>gEfiCurrentTpl := gEfiCurrentTpl s\<rparr>"
    and ud: "u\<lparr>events := (events u)(e := None)\<rparr> = drop_event e (locked gEventQueueLock s)"
    and lk: "locks u = locks (locked gEventQueueLock s)" and ti: "tpl_inv s5"
  shows "safe (\<lambda>(st, s'). st = EFI_SUCCESS \<and> svc s s' \<and> closed ev e s s')
       (bind (if ExFlag ev AND EVT_EXFLAG_EVENT_PROTOCOL_NOTIFICATION \<noteq> 0
           then unreg e s5 else Ret s5) (\<lambda>s6. Ret (EFI_SUCCESS, s6\<lparr>events := (events s6)(e := None)\<rparr>)))"
proof -
  have li: "lock_inv s5"
    using inv lk by (auto simp: core_inv_def lock_inv_def unlocked_def locked_def s5)
  have k5: "locks_kept s s5"
    using unlocked_kept[OF _ nh lk] inv by (simp add: core_inv_def s5)
  have d5: "same_core (drop_event e s) (s5\<lparr>events := (events s5)(e := None)\<rparr>)"
    using ud unfolding s5 by (cases u; cases s) (simp add: same_core_def core.truncate_def drop_event_def unlocked_def locked_def)
  have m5: "core.more s5 = core.more s"
    using arg_cong[OF ud, of core.more] by (simp add: s5 unlocked_def drop_event_def locked_def)
  have fin: "svc s t \<and> closed ev e s t"
    if "same_core s5 s6" "locks_kept s5 s6" "lock_inv s6" "t = s6\<lparr>events := (events s6)(e := None)\<rparr>"
      "ExFlag ev AND EVT_EXFLAG_EVENT_PROTOCOL_NOTIFICATION = 0 \<longrightarrow> s6 = s5" for s6 t
  proof -
    have sc: "same_core (drop_event e s) t"
      using d5 that(1,4) by (simp add: same_core_def core.truncate_def)
    moreover have "lock_inv t" using that(3,4) by (simp add: lock_inv_def)
    ultimately have "core_inv t" using core_inv_same_core[OF sc core_inv_drop[OF inv ne]] by simp
    moreover have "locks_kept s t" using locks_kept_trans[OF k5 that(2)] that(4) by (simp add: locks_kept_def)
    moreover have "gEfiCurrentTpl t = gEfiCurrentTpl s"
      using same_core_fields(2)[OF sc] by (simp add: drop_event_def)
    ultimately show ?thesis using sc that(4,5) m5 by (auto simp: svc_def closed_def)
  qed
  have "safe (\<lambda>s6. same_core s5 s6 \<and> locks_kept s5 s6 \<and> lock_inv s6 \<and>
        (ExFlag ev AND EVT_EXFLAG_EVENT_PROTOCOL_NOTIFICATION = 0 \<longrightarrow> s6 = s5))
      (if ExFlag ev AND EVT_EXFLAG_EVENT_PROTOCOL_NOTIFICATION \<noteq> 0 then unreg e s5 else Ret s5)"
  proof (rule safe_if)
    assume "ExFlag ev AND EVT_EXFLAG_EVENT_PROTOCOL_NOTIFICATION \<noteq> 0"
    note u' = un[OF this]
    have "\<not> held s5 gProtocolDatabaseLock" using u' k5 by (simp add: locks_kept_def)
    then have "safe (\<lambda>s'. same_core s5 s' \<and> locks_kept s5 s' \<and> lock_inv s') (unreg e s5)"
      using u' ti li unfolding unregisters_def by (simp add: s5)
    then show "safe (\<lambda>s6. same_core s5 s6 \<and> locks_kept s5 s6 \<and> lock_inv s6 \<and>
        (ExFlag ev AND EVT_EXFLAG_EVENT_PROTOCOL_NOTIFICATION = 0 \<longrightarrow> s6 = s5)) (unreg e s5)"
      by (rule safe_mono) (use \<open>ExFlag ev AND EVT_EXFLAG_EVENT_PROTOCOL_NOTIFICATION \<noteq> 0\<close> in blast)
  qed (simp add: li)
  then show ?thesis by (rule safe_bind) (use fin in simp)
qed

lemma CloseEvent_unlink_eq:
  assumes inv: "core_inv s" and nh: "\<not> held s gEventQueueLock"
    and ev: "events s e = Some ev" and tl: "\<not> TimerLinked ev"
  shows "\<exists>u l. CloseEvent_unlink unreg rst e s =
      bind (rst (gEfiCurrentTpl s) (unlocked gEventQueueLock u)) (Close_finish unreg e) \<and>
    u\<lparr>events := (events u)(e := None)\<rparr> = drop_event e (locked gEventQueueLock s) \<and>
    locks u = locks (locked gEventQueueLock s) \<and> events u e = Some (ev\<lparr>NotifyLinked := l\<rparr>) \<and>
    tpl_inv (unlocked gEventQueueLock u) \<and> nothing_above (gEfiCurrentTpl s) (unlocked gEventQueueLock u) \<and>
    gEfiCurrentTpl s \<le> gEfiCurrentTpl (unlocked gEventQueueLock u) \<and>
    tpl_inv ((unlocked gEventQueueLock u)\<lparr>gEfiCurrentTpl := gEfiCurrentTpl s\<rparr>)"
proof -
  note h = tpl_le_event_lock[OF inv]
  have a: "CoreAcquireLock gEventQueueLock s = Ret (locked gEventQueueLock s)"
    using inv nh h by (intro AcquireLock_eq) (simp_all add: core_inv_def)
  let ?s1 = "locked gEventQueueLock s"
  have i: "core_inv ?s1" by (rule core_inv_locked[OF inv h])
  have ev1: "events ?s1 e = Some ev" using ev by simp
  obtain u l where u: "bind (if RuntimeLinked ev then unlink_runtime e ?s1 else Ret ?s1) (\<lambda>s4.
      bind (if NotifyLinked ev then RemoveNotifyLink e s4 else Ret s4) (\<lambda>s5.
      (if SignalLinked ev then unlink_signal e s5 else Ret s5))) = Ret u"
    and ud: "u\<lparr>events := (events u)(e := None)\<rparr> = drop_event e ?s1" and lk: "locks u = locks ?s1"
    and eu: "events u e = Some (ev\<lparr>NotifyLinked := l\<rparr>)"
    using unlink_steps[OF i ev1 tl] by blast
  let ?K = "\<lambda>s4. bind (CoreReleaseEventLock rst s4) (Close_finish unreg e)"
  have hd: "held u gEventQueueLock" "OwnerTpl (locks u gEventQueueLock) = gEfiCurrentTpl s" by (simp_all add: lk)
  have "CloseEvent_unlink unreg rst e s = bind (bind (if RuntimeLinked ev then unlink_runtime e ?s1 else Ret ?s1) (\<lambda>s4.
      bind (if NotifyLinked ev then RemoveNotifyLink e s4 else Ret s4) (\<lambda>s5.
      (if SignalLinked ev then unlink_signal e s5 else Ret s5)))) ?K"
    unfolding CloseEvent_unlink_def CoreAcquireEventLock_def a bind.simps ev1 deref_simps bind_assoc Close_finish_def ..
  then have eq: "CloseEvent_unlink unreg rst e s = bind (rst (gEfiCurrentTpl s) (unlocked gEventQueueLock u)) (Close_finish unreg e)"
    unfolding u bind.simps CoreReleaseEventLock_def ReleaseLock_eq[OF hd(1)] hd(2) .
  have g: "gEfiCurrentTpl u = gEfiCurrentTpl ?s1" "gEventPending u = gEventPending ?s1"
      "gPendingTimerDuration u = gPendingTimerDuration ?s1" "gEventQueue u = (\<lambda>p. remove1 e (gEventQueue ?s1 p))"
    using arg_cong[OF ud, of gEfiCurrentTpl] arg_cong[OF ud, of gEventPending]
      arg_cong[OF ud, of gPendingTimerDuration] arg_cong[OF ud, of gEventQueue]
    by (simp_all add: drop_event_def)
  have ti: "tpl_inv (unlocked gEventQueueLock u)"
  proof -
    have "remove1 e xs \<noteq> [] \<Longrightarrow> xs \<noteq> []" for xs :: "nat list" by auto
    then show ?thesis using i g by (auto simp: core_inv_def tpl_inv_def unlocked_def)
  qed
  have na: "nothing_above (gEfiCurrentTpl s) (unlocked gEventQueueLock u)"
    using nothing_above_same[OF inv, of "unlocked gEventQueueLock u"] g by simp
  have ti5: "tpl_inv ((unlocked gEventQueueLock u)\<lparr>gEfiCurrentTpl := gEfiCurrentTpl s\<rparr>)"
    using ti na tpl_invD(1,4)[OF inv] g by (auto simp: tpl_inv_def nothing_above_def unlocked_def)
  have "gEfiCurrentTpl s \<le> gEfiCurrentTpl (unlocked gEventQueueLock u)" using g h by simp
  with eq ud lk eu ti na ti5 show ?thesis by blast
qed

lemma CloseEvent_unlink_safe:
  assumes inv: "core_inv s" and nh: "\<not> held s gEventQueueLock"
    and ev: "events s e = Some ev" and tl: "\<not> TimerLinked ev"
    and ne: "mEfiCheckTimerEvent s \<noteq> Some e" "gIdleLoopEvent s \<noteq> Some e"
    and un: "ExFlag ev AND EVT_EXFLAG_EVENT_PROTOCOL_NOTIFICATION \<noteq> 0 \<Longrightarrow> unregisters unreg \<and>
      gEfiCurrentTpl s \<le> TPL_NOTIFY \<and> \<not> held s gProtocolDatabaseLock"
  shows "safe (\<lambda>(st, s'). st = EFI_SUCCESS \<and> svc s s' \<and> closed ev e s s')
    (CloseEvent_unlink unreg rst e s)"
proof -
  obtain u l where u: "CloseEvent_unlink unreg rst e s =
      bind (rst (gEfiCurrentTpl s) (unlocked gEventQueueLock u)) (Close_finish unreg e)"
    "u\<lparr>events := (events u)(e := None)\<rparr> = drop_event e (locked gEventQueueLock s)"
    "locks u = locks (locked gEventQueueLock s)" "events u e = Some (ev\<lparr>NotifyLinked := l\<rparr>)"
    "tpl_inv (unlocked gEventQueueLock u)" "nothing_above (gEfiCurrentTpl s) (unlocked gEventQueueLock u)"
    "gEfiCurrentTpl s \<le> gEfiCurrentTpl (unlocked gEventQueueLock u)"
    "tpl_inv ((unlocked gEventQueueLock u)\<lparr>gEfiCurrentTpl := gEfiCurrentTpl s\<rparr>)"
    using CloseEvent_unlink_eq[OF inv nh ev tl] by blast
  let ?s5 = "(unlocked gEventQueueLock u)\<lparr>gEfiCurrentTpl := gEfiCurrentTpl s\<rparr>"
  have e5: "events ?s5 e = Some (ev\<lparr>NotifyLinked := l\<rparr>)" using u(4) by simp
  show ?thesis
    unfolding u(1)
  proof (rule safe_bind[OF rst_quiet[OF u(5,7,6)]])
    fix s5 assume s5: "s5 = ?s5"
    show "safe (\<lambda>(st, s'). st = EFI_SUCCESS \<and> svc s s' \<and> closed ev e s s') (Close_finish unreg e s5)"
      unfolding s5 Close_finish_def e5 deref_simps
      using CloseEvent_finish_safe[OF inv nh ne _ refl u(2,3,8), of "ev\<lparr>NotifyLinked := l\<rparr>" unreg] un by simp
  qed
qed

lemma CloseEvent_safe:
  assumes inv: "core_inv s" and nh: "\<not> held s gEventQueueLock" "\<not> held s mEfiTimerLock"
    and h: "gEfiCurrentTpl s < TPL_HIGH_LEVEL" and ev: "events s e = Some ev"
    and ne: "mEfiCheckTimerEvent s \<noteq> Some e" "gIdleLoopEvent s \<noteq> Some e"
    and un: "ExFlag ev AND EVT_EXFLAG_EVENT_PROTOCOL_NOTIFICATION \<noteq> 0 \<Longrightarrow> unregisters unreg \<and>
      gEfiCurrentTpl s \<le> TPL_NOTIFY \<and> \<not> held s gProtocolDatabaseLock"
  shows "safe (\<lambda>(st, s'). st = EFI_SUCCESS \<and> svc s s' \<and> closed ev e s s')
    (CoreCloseEvent unreg rst (Some e) s)"
proof -
  have ok: "event_ok ev" using inv event_invD(1)[OF _ ev] by (simp add: core_inv_def)
  then have eq: "CoreCloseEvent unreg rst (Some e) s =
      bind (if Type ev AND EVT_TIMER \<noteq> 0
                  then bind (CoreSetTimer rst (Some e) TimerCancel 0 s) (\<lambda>(_, s1). Ret s1)
                  else Ret s) (CloseEvent_unlink unreg rst e)"
    by (simp add: CoreCloseEvent_def ev event_ok_def)
  show ?thesis
  proof (cases "Type ev AND EVT_TIMER = 0")
    case True
    then have "\<not> TimerLinked ev" using ok by (auto simp: event_ok_def)
    from CloseEvent_unlink_safe[OF inv nh(1) ev this ne un] True show ?thesis unfolding eq by simp
  next
    case False
    then have ta: "timer_args_ok s (Some e) TimerCancel" using ev by (simp add: timer_args_ok_def)
    have "safe (\<lambda>(st, s'). st = EFI_SUCCESS \<and> svc s s' \<and> closed ev e s s')
      (bind (CoreSetTimer rst (Some e) TimerCancel 0 s) (\<lambda>(_, s1). CloseEvent_unlink unreg rst e s1))"
    proof (rule safe_bind[OF SetTimer_cancel[OF inv nh(2) h ev ta]])
      fix x assume x: "case x of (st, s') \<Rightarrow> st = EFI_SUCCESS \<and> svc s s' \<and>
      s' = (unlocked mEfiTimerLock (stop_timer e ev (locked mEfiTimerLock s)))\<lparr>gEfiCurrentTpl := gEfiCurrentTpl s\<rparr>"
      define s1 where "s1 = (unlocked mEfiTimerLock (stop_timer e ev (locked mEfiTimerLock s)))\<lparr>gEfiCurrentTpl := gEfiCurrentTpl s\<rparr>"
      obtain st where xx: "x = (st, s1)" and sv: "svc s s1" using x unfolding s1_def by (cases x) auto
      note d = svcD[OF sv]
      have "distinct (mEfiTimerList s)"
        using inv listed_distinct[OF event_invD(5)] by (auto simp: core_inv_def)
      then have twice: "remove1 e (remove1 e (mEfiTimerList s)) = remove1 e (mEfiTimerList s)"
        by (simp add: remove1_idem)
      let ?v = "ev\<lparr>TimerLinked := False, TriggerTime := 0, Period := 0\<rparr>"
      have "safe (\<lambda>(st, s'). st = EFI_SUCCESS \<and> svc s1 s' \<and> closed ?v e s1 s')
          (CloseEvent_unlink unreg rst e s1)"
      proof (rule CloseEvent_unlink_safe[OF d(1)])
        show "events s1 e = Some ?v" by (simp add: s1_def)
        show "mEfiCheckTimerEvent s1 \<noteq> Some e" "gIdleLoopEvent s1 \<noteq> Some e"
          using ne by (simp_all add: s1_def unlocked_def stop_timer_def set_event_def locked_def)
        show "\<not> held s1 gEventQueueLock" using d(3) nh(1) by simp
        show "unregisters unreg \<and> gEfiCurrentTpl s1 \<le> TPL_NOTIFY \<and> \<not> held s1 gProtocolDatabaseLock"
          if "ExFlag ?v AND EVT_EXFLAG_EVENT_PROTOCOL_NOTIFICATION \<noteq> 0"
          using un that d(2,3) by simp
      qed simp
      moreover have "same_core (drop_event e s) s'" if "same_core (drop_event e s1) s'" for s'
        using that twice by (cases s)
          (simp add: same_core_def core.truncate_def drop_event_def s1_def unlocked_def stop_timer_def set_event_def locked_def)
      moreover have "core.more s1 = core.more s" by (simp add: s1_def unlocked_def stop_timer_def set_event_def locked_def)
      ultimately have "safe (\<lambda>(st, s'). st = EFI_SUCCESS \<and> svc s s' \<and> closed ev e s s')
          (CloseEvent_unlink unreg rst e s1)"
        by (elim safe_mono) (use svc_trans[OF sv] in \<open>auto simp: closed_def\<close>)
      then show "safe (\<lambda>(st, s'). st = EFI_SUCCESS \<and> svc s s' \<and> closed ev e s s')
        (case x of (_, s1) \<Rightarrow> CloseEvent_unlink unreg rst e s1)" by (simp add: xx)
    qed
    then show ?thesis using False unfolding eq by (simp add: bind_snd)
  qed
qed

end

end
