(* ===== verification/EventInit.thy ===== *)
theory EventInit
  imports EventServices
begin

text \<open>
  Checking an event, starting and resetting the event services, and the host clock: safety of each.
\<close>

section \<open>Checking an event\<close>

definition keeps_alive :: "'x core_scheme restore \<Rightarrow> nat \<Rightarrow> bool" where
  "keeps_alive rst e \<longleftrightarrow> (\<forall>s t. core_inv s \<and> events s e \<noteq> None \<and> t \<le> gEfiCurrentTpl s \<and> free_above t s \<longrightarrow>
     safe (\<lambda>s'. events s' e \<noteq> None) (rst t s))"

context tpl_restore begin

lemma leave_alive:
  assumes "core_inv s" and "gEfiCurrentTpl s \<le> lock_tpl l" and i: "in_section l s u"
    and "events u e \<noteq> None" and k: "keeps_alive rst e"
  shows "safe (\<lambda>s'. events s' e \<noteq> None) (CoreReleaseLock rst l u)"
proof -
  note d = in_sectionD[OF i]
  have "free_above (gEfiCurrentTpl s) (unlocked l u)"
    using d(5) assms(1) by (auto simp: free_above_def unlocked_def core_inv_def lock_inv_def)
  then show ?thesis
    unfolding ReleaseLock_eq[OF d(3)] d(4)
    using k assms(2,4) d(2) core_inv_unlocked[OF d(1)] by (simp add: keeps_alive_def)
qed

text \<open>Queueing the wait notification may run it before the event is looked at.\<close>

lemma CheckEvent_notify_safe:
  assumes inv: "core_inv s" and nh: "\<not> held s gEventQueueLock" and ev: "events s e = Some ev"
    and ty: "Type ev AND EVT_NOTIFY_WAIT \<noteq> 0" and k: "keeps_alive rst e"
  shows "safe (\<lambda>s'. svc s s' \<and> events s' e \<noteq> None)
    (bind (CoreAcquireEventLock s) (\<lambda>s1. bind (CoreNotifyEvent e s1) (CoreReleaseEventLock rst)))"
  unfolding CoreAcquireEventLock_def CoreReleaseEventLock_def
proof (rule safe_enter[OF inv nh])
  note h = tpl_le_event_lock[OF inv]
  show "gEfiCurrentTpl s \<le> lock_tpl gEventQueueLock" by (rule h)
  fix u assume u: "u = locked gEventQueueLock s" and i: "in_section gEventQueueLock s u"
  have "events u e = Some ev" using ev u by simp
  from NotifyEvent_in_sig[OF in_sig_locked[OF inv h, folded u] this wait_notify_type[OF ty]]
  obtain u' where u': "CoreNotifyEvent e u = Ret u'" "in_section gEventQueueLock s u'" "events u' e \<noteq> None"
    by (auto simp: in_sig_def)
  show "safe (\<lambda>s'. svc s s' \<and> events s' e \<noteq> None)
    (bind (CoreNotifyEvent e u) (CoreReleaseLock rst gEventQueueLock))"
    using safe_conj[OF safe_leave[OF inv nh h u'(2)] leave_alive[OF inv h u'(2,3) k]] u'(1) by simp
qed

text \<open>Clearing the signalled state runs nothing.\<close>

lemma CheckEvent_clear_safe:
  assumes inv: "core_inv s" and nh: "\<not> held s gEventQueueLock" and ev: "events s e = Some ev"
  shows "safe (\<lambda>s'. svc s s' \<and> events s' e = Some (ev\<lparr>SignalCount := 0\<rparr>))
    (bind (CoreAcquireEventLock s) (\<lambda>s1. CoreReleaseEventLock rst (set_event e (ev\<lparr>SignalCount := 0\<rparr>) s1)))"
  unfolding CoreAcquireEventLock_def CoreReleaseEventLock_def
proof (rule safe_enter[OF inv nh])
  note h = tpl_le_event_lock[OF inv]
  show "gEfiCurrentTpl s \<le> lock_tpl gEventQueueLock" by (rule h)
  fix u assume u: "u = locked gEventQueueLock s" and i: "in_section gEventQueueLock s u"
  let ?w = "set_event e (ev\<lparr>SignalCount := 0\<rparr>) u"
  have "events u e = Some ev" using ev u by simp
  then have "core_inv ?w" by (rule core_inv_count[OF in_sectionD(1)[OF i]])
  then have iw: "in_section gEventQueueLock s ?w" by (intro in_section_svc[OF i svc_frame]) simp_all
  have na: "nothing_above (gEfiCurrentTpl s) ?w"
    by (rule nothing_above_same[OF inv]) (simp_all add: u set_event_def)
  show "safe (\<lambda>s'. svc s s' \<and> events s' e = Some (ev\<lparr>SignalCount := 0\<rparr>)) (CoreReleaseLock rst gEventQueueLock ?w)"
    using safe_conj[OF safe_leave[OF inv nh h iw] safe_leave_quiet[OF iw h na]]
    by (rule safe_mono) auto
qed

lemma CheckEvent_safe:
  assumes inv: "core_inv s" and nh: "\<not> held s gEventQueueLock" "\<not> held s mEfiSystemTimeLock"
    and ev: "events s e = Some ev"
    and k: "Type ev AND EVT_NOTIFY_WAIT \<noteq> 0 \<Longrightarrow> keeps_alive rst e"
  shows "safe (\<lambda>(st, s'). svc s s' \<and> (if Type ev AND EVT_NOTIFY_SIGNAL \<noteq> 0 then st = EFI_INVALID_PARAMETER
      else st = EFI_SUCCESS \<or> st = EFI_NOT_READY) \<and>
      (Type ev AND EVT_NOTIFY_SIGNAL = 0 \<and> SignalCount ev \<noteq> 0 \<longrightarrow>
         st = EFI_SUCCESS \<and> events s' e = Some (ev\<lparr>SignalCount := 0\<rparr>)))
    (CoreCheckEvent rst (Some e) s)"
proof (cases "Type ev AND EVT_NOTIFY_SIGNAL = 0")
  case False
  have "Signature ev = EVENT_SIGNATURE" using inv event_invD(1)[OF _ ev] by (auto simp: core_inv_def event_ok_def)
  with False inv show ?thesis by (simp add: CoreCheckEvent_def ev svc_refl)
next
  case True
  have sg: "Signature ev = EVENT_SIGNATURE" using inv event_invD(1)[OF _ ev] by (auto simp: core_inv_def event_ok_def)
  define K where "K = (\<lambda>s2. deref (events s2 e) (\<lambda>ev2.
            bind (if SignalCount ev2 \<noteq> 0 then
                    bind (CoreAcquireEventLock s2) (\<lambda>s3.
                    bind (CoreReleaseEventLock rst
                        (set_event e (ev2\<lparr>SignalCount := 0\<rparr>) s3)) (\<lambda>s4. Ret (EFI_SUCCESS, s4)))
                  else Ret (EFI_NOT_READY, s2)) (\<lambda>(Status, s5).
            if Status = EFI_NOT_READY then
              deref (events s5 e) (\<lambda>ev5.
                if Type ev5 AND EVT_TIMER \<noteq> 0
                then bind (CoreTimerTick rst 10000 s5) (\<lambda>s6. Ret (Status, s6))
                else Ret (Status, s5))
            else Ret (Status, s5))))"
  have eq: "CoreCheckEvent rst (Some e) s =
      bind (if SignalCount ev = 0 \<and> Type ev AND EVT_NOTIFY_WAIT \<noteq> 0 then
                    bind (CoreAcquireEventLock s) (\<lambda>s1. bind (CoreNotifyEvent e s1) (CoreReleaseEventLock rst))
                  else Ret s) K"
    unfolding CoreCheckEvent_def K_def using ev sg True by (simp cong: if_cong)
  have Kok: "safe (\<lambda>(st, s'). svc s s' \<and> (st = EFI_SUCCESS \<or> st = EFI_NOT_READY) \<and>
      (SignalCount ev2 \<noteq> 0 \<longrightarrow> st = EFI_SUCCESS \<and> events s' e = Some (ev2\<lparr>SignalCount := 0\<rparr>))) (K s2)"
    if s2: "svc s s2" and ev2: "events s2 e = Some ev2" for s2 ev2
  proof -
    note d = svcD[OF s2]
    have n: "\<not> held s2 gEventQueueLock" "\<not> held s2 mEfiSystemTimeLock" using d(3) nh by simp_all
    show ?thesis
    proof (cases "SignalCount ev2 = 0")
      case c: True
      have "safe (svc s) (CoreTimerTick rst 10000 s2)"
        using TimerTick_safe[OF d(1) n(2,1)] by (rule safe_mono) (rule svc_trans[OF s2])
      then have "safe (\<lambda>(st, s'). svc s s' \<and> st = EFI_NOT_READY) (bind (CoreTimerTick rst 10000 s2) (\<lambda>s6. Ret (EFI_NOT_READY, s6)))"
        by (rule safe_bind) simp
      then have "safe (\<lambda>(st, s'). svc s s' \<and> (st = EFI_SUCCESS \<or> st = EFI_NOT_READY))
          (bind (CoreTimerTick rst 10000 s2) (\<lambda>s6. Ret (EFI_NOT_READY, s6)))"
        by (rule safe_mono) auto
      then show ?thesis using s2 c ev2 by (simp add: K_def)
    next
      case c: False
      have "safe (\<lambda>s'. svc s s' \<and> events s' e = Some (ev2\<lparr>SignalCount := 0\<rparr>))
          (bind (CoreAcquireEventLock s2) (\<lambda>s1. CoreReleaseEventLock rst (set_event e (ev2\<lparr>SignalCount := 0\<rparr>) s1)))"
        using CheckEvent_clear_safe[OF d(1) n(1) ev2] by (rule safe_mono) (auto intro: svc_trans[OF s2])
      then have "safe (\<lambda>(st, s'). svc s s' \<and> st = EFI_SUCCESS \<and> events s' e = Some (ev2\<lparr>SignalCount := 0\<rparr>))
          (bind (bind (CoreAcquireEventLock s2) (\<lambda>s1. CoreReleaseEventLock rst (set_event e (ev2\<lparr>SignalCount := 0\<rparr>) s1)))
             (\<lambda>s4. Ret (EFI_SUCCESS, s4)))"
        by (rule safe_bind) simp
      then show ?thesis using c ev2 by (auto simp: K_def bind_assoc elim!: safe_mono)
    qed
  qed
  show ?thesis
  proof (cases "SignalCount ev = 0 \<and> Type ev AND EVT_NOTIFY_WAIT \<noteq> 0")
    case w: True
    have "safe (\<lambda>(st, s'). svc s s' \<and> (st = EFI_SUCCESS \<or> st = EFI_NOT_READY)) (CoreCheckEvent rst (Some e) s)"
      unfolding eq if_P[OF w]
    proof (rule safe_bind[OF CheckEvent_notify_safe[OF inv nh(1) ev]])
      fix s2 assume "svc s s2 \<and> events s2 e \<noteq> None"
      then obtain ev2 where "svc s s2" "events s2 e = Some ev2" by blast
      from Kok[OF this] show "safe (\<lambda>(st, s'). svc s s' \<and> (st = EFI_SUCCESS \<or> st = EFI_NOT_READY)) (K s2)"
        by (rule safe_mono) auto
    qed (use w k in simp_all)
    then show ?thesis using w True by simp
  next
    case w: False
    show ?thesis
      unfolding eq if_not_P[OF w] bind.simps
      using Kok[OF svc_refl[OF inv] ev] True by simp
  qed
qed

end

section \<open>Initialisation, reset and the passing of time\<close>

text \<open>States in which the lists of the core may be started afresh: all locks are free and no
  surviving event is linked anywhere.\<close>

definition resettable :: "'x core_scheme \<Rightarrow> bool" where
  "resettable s \<longleftrightarrow>
     (\<forall>l. Tpl (locks s l) = lock_tpl l \<and> Lock (locks s l) = EfiLockReleased) \<and>
     (\<forall>e v. events s e = Some v \<longrightarrow> event_ok v \<and> e < next_event s \<and> \<not> SignalLinked v \<and>
        \<not> NotifyLinked v \<and> \<not> RuntimeLinked v \<and> \<not> TimerLinked v)"

lemma core_inv_reset:
  assumes "resettable s"
  shows "core_inv (HostShimInitRuntime (s\<lparr>gEventPending := 0, gEventQueue := (\<lambda>_. []), gEventSignalQueue := [],
           mEfiTimerList := [], mEfiSystemTime := 0, gPendingTimerDuration := 0,
           gEfiCurrentTpl := TPL_APPLICATION, gIdleLoopEvent := None,
           mEfiCheckTimerEvent := None\<rparr>))"
  using assms
  by (auto simp: core_inv_def event_inv_def tpl_inv_def lock_inv_def resettable_def listed_Nil HostShimInitRuntime_def)

lemma create_accepts_core:
  "create_accepts EVT_NOTIFY_SIGNAL (TPL_HIGH_LEVEL - 1) (Some CoreCheckTimersFn) None"
  "create_accepts EVT_NOTIFY_SIGNAL TPL_NOTIFY (Some EfiEventEmptyFunction) (Some gIdleLoopEventGuid)"
  by (simp_all add: create_accepts_def mEventTable_def convert_group_def is_notify_type_def)

lemma core_inv_check:
  "core_inv s \<Longrightarrow> events s e \<noteq> None \<Longrightarrow> core_inv (s\<lparr>mEfiCheckTimerEvent := Some e\<rparr>)"
  "core_inv s \<Longrightarrow> events s e \<noteq> None \<Longrightarrow> core_inv (s\<lparr>gIdleLoopEvent := Some e\<rparr>)"
  by (auto simp: core_inv_def event_inv_def tpl_inv_def lock_inv_def)

context tpl_restore begin

text \<open>The services come up with the two core events, both alive and distinct.\<close>

lemma InitializeEventServices_safe:
  assumes inv: "core_inv s" and q: "gEventQueue s = (\<lambda>_. [])" and nh: "\<not> held s gEventQueueLock"
  shows "safe (\<lambda>(st, s'). st = EFI_SUCCESS \<and> svc s s' \<and>
      mEfiCheckTimerEvent s' = Some (next_event s) \<and>
      (\<exists>v. events s' (next_event s) = Some v \<and> NotifyFunction v = Some CoreCheckTimersFn \<and>
         NotifyTpl v = TPL_HIGH_LEVEL - 1 \<and> Type v = EVT_NOTIFY_SIGNAL) \<and>
      (\<exists>i. gIdleLoopEvent s' = Some i \<and> i \<noteq> next_event s \<and> events s' i \<noteq> None))
    (CoreInitializeEventServices rst True True s)"
proof -
  let ?c = "next_event s"
  have s0: "s\<lparr>gEventQueue := (\<lambda>_. [])\<rparr> = s" using q by (cases s) simp
  have c1: "created_event EVT_NOTIFY_SIGNAL (TPL_HIGH_LEVEL - 1) (Some CoreCheckTimersFn) None None =
      new_event EVT_NOTIFY_SIGNAL (TPL_HIGH_LEVEL - 1) (Some CoreCheckTimersFn) None None"
    by (simp add: created_event_def convert_group_def is_notify_type_def)
  let ?P = "\<lambda>s1. svc s s1 \<and> mEfiCheckTimerEvent s1 = Some ?c \<and>
      (\<exists>v. events s1 ?c = Some v \<and> NotifyFunction v = Some CoreCheckTimersFn \<and>
         NotifyTpl v = TPL_HIGH_LEVEL - 1 \<and> Type v = EVT_NOTIFY_SIGNAL)"
  have t: "safe ?P (CoreInitializeTimer rst True s)"
    unfolding CoreInitializeTimer_def
  proof (rule safe_bind[OF CreateEvent_safe[OF inv nh create_accepts_core(1)]])
    fix x assume "case x of (st, p, s') \<Rightarrow> st = EFI_SUCCESS \<and> p = Some ?c \<and> svc s s' \<and> events s ?c = None \<and>
      (\<exists>r l. events s' ?c = Some ((created_event EVT_NOTIFY_SIGNAL (TPL_HIGH_LEVEL - 1) (Some CoreCheckTimersFn)
         None None)\<lparr>RuntimeLinked := r, SignalLinked := l\<rparr>)) \<and>
      (\<forall>x. x \<noteq> ?c \<longrightarrow> events s' x = events s x) \<and>
      mEfiCheckTimerEvent s' = mEfiCheckTimerEvent s \<and> gIdleLoopEvent s' = gIdleLoopEvent s \<and>
      core.more s' = core.more s \<and> mEfiSystemTime s' = mEfiSystemTime s \<and> next_event s' = Suc (next_event s)"
    then obtain s' r l where x: "x = (EFI_SUCCESS, Some ?c, s')" and sv: "svc s s'"
      and e: "events s' ?c = Some ((new_event EVT_NOTIFY_SIGNAL (TPL_HIGH_LEVEL - 1) (Some CoreCheckTimersFn)
         None None)\<lparr>RuntimeLinked := r, SignalLinked := l\<rparr>)"
      unfolding c1 by (cases x) auto
    have "svc s (s'\<lparr>mEfiCheckTimerEvent := Some ?c\<rparr>)"
      using sv core_inv_check(1)[of s' ?c] e by (simp add: svc_def locks_kept_def)
    then show "safe ?P (case x of (Status, e, s1) \<Rightarrow> ASSERT (\<not> EFI_ERROR Status)
       (Ret (case e of None \<Rightarrow> s1 | Some _ \<Rightarrow> s1\<lparr>mEfiCheckTimerEvent := e\<rparr>)))"
      using e by (simp add: x)
  qed
  show ?thesis
    unfolding CoreInitializeEventServices_def s0
  proof (rule safe_bind[OF t])
    fix s1 assume s1: "?P s1"
    then have sv: "svc s s1" by blast
    note d = svcD[OF sv]
    have n1: "\<not> held s1 gEventQueueLock" using d(3) nh by simp
    have ex: "CoreCreateEventEx rst True True EVT_NOTIFY_SIGNAL TPL_NOTIFY (Some EfiEventEmptyFunction) None
        (Some gIdleLoopEventGuid) s1 = CoreCreateEventInternal rst True True EVT_NOTIFY_SIGNAL TPL_NOTIFY
        (Some EfiEventEmptyFunction) None (Some gIdleLoopEventGuid) s1"
      by (simp add: CoreCreateEventEx_def)
    have ne: "?c \<noteq> next_event s1" using s1 event_invD(2)[of s1 ?c] d(1) by (auto simp: core_inv_def)
    show "safe (\<lambda>(st, s'). st = EFI_SUCCESS \<and> svc s s' \<and>
      mEfiCheckTimerEvent s' = Some (next_event s) \<and>
      (\<exists>v. events s' (next_event s) = Some v \<and> NotifyFunction v = Some CoreCheckTimersFn \<and>
         NotifyTpl v = TPL_HIGH_LEVEL - 1 \<and> Type v = EVT_NOTIFY_SIGNAL) \<and>
      (\<exists>i. gIdleLoopEvent s' = Some i \<and> i \<noteq> next_event s \<and> events s' i \<noteq> None))
     (bind (CoreCreateEventEx rst True True EVT_NOTIFY_SIGNAL TPL_NOTIFY (Some EfiEventEmptyFunction)
        None (Some gIdleLoopEventGuid) s1) (\<lambda>(_, e, s2).
     Ret (EFI_SUCCESS, case e of None \<Rightarrow> s2 | Some _ \<Rightarrow> s2\<lparr>gIdleLoopEvent := e\<rparr>)))"
      unfolding ex
      by (rule safe_bind[OF CreateEvent_safe[OF d(1) n1 create_accepts_core(2)]])
        (use s1 ne in \<open>auto simp: svc_def locks_kept_def intro!: core_inv_check(2)\<close>)
  qed
qed

lemma MockEventResetState_safe:
  assumes r: "resettable s"
  shows "safe (\<lambda>s'. core_inv s' \<and> gEfiCurrentTpl s' = TPL_APPLICATION \<and> (\<forall>l. \<not> held s' l) \<and>
      mEfiCheckTimerEvent s' = Some (next_event s) \<and>
      (\<exists>v. events s' (next_event s) = Some v \<and> NotifyFunction v = Some CoreCheckTimersFn \<and>
         NotifyTpl v = TPL_HIGH_LEVEL - 1) \<and>
      (\<exists>i. gIdleLoopEvent s' = Some i \<and> i \<noteq> next_event s \<and> events s' i \<noteq> None))
    (MockEventResetState rst True True s)"
proof -
  let ?s0 = "HostShimInitRuntime (s\<lparr>gEventPending := 0, gEventQueue := (\<lambda>_. []), gEventSignalQueue := [],
           mEfiTimerList := [], mEfiSystemTime := 0, gPendingTimerDuration := 0,
           gEfiCurrentTpl := TPL_APPLICATION, gIdleLoopEvent := None,
           mEfiCheckTimerEvent := None\<rparr>)"
  have n: "\<not> held ?s0 l" for l using r by (simp add: resettable_def HostShimInitRuntime_def)
  have q: "gEventQueue ?s0 = (\<lambda>_. [])" "next_event ?s0 = next_event s" "gEfiCurrentTpl ?s0 = TPL_APPLICATION"
    by (simp_all add: HostShimInitRuntime_def)
  show ?thesis
    unfolding MockEventResetState_def
    by (rule safe_bind[OF InitializeEventServices_safe[OF core_inv_reset[OF r] q(1) n]])
      (use n q in \<open>auto simp: svc_def locks_kept_def\<close>)
qed

text \<open>The host's clock.\<close>

lemma MockTimerAdvance100ns_safe:
  assumes inv: "core_inv s" and nh: "\<not> held s mEfiSystemTimeLock" "\<not> held s gEventQueueLock"
  shows "safe (svc s) (MockTimerAdvance100ns rst d s)"
proof (cases "\<not> gTimerHostInitialized s \<or> d = 0")
  case True
  then show ?thesis using inv by (auto simp: MockTimerAdvance100ns_def svc_refl)
next
  case ini: False
  show ?thesis
  proof (cases "gEfiCurrentTpl s \<ge> TPL_HIGH_LEVEL")
    case True
    then have "core_inv (s\<lparr>gPendingTimerDuration := gPendingTimerDuration s + d\<rparr>)"
      using inv True by (auto simp: core_inv_def event_inv_def tpl_inv_def lock_inv_def)
    then show ?thesis using True ini by (simp add: MockTimerAdvance100ns_def svc_def locks_kept_def)
  next
    case low: False
    have "safe (svc s) (bind (CoreTimerTick rst d s) (\<lambda>s1. if gEventPending s1 \<noteq> 0
        then bind (CoreRaiseTpl TPL_HIGH_LEVEL s1) (\<lambda>(SavedTpl, s2). rst SavedTpl s2) else Ret s1))"
    proof (rule safe_bind[OF TimerTick_safe[OF inv nh]])
      fix s1 assume s1: "svc s s1"
      note d1 = svcD[OF s1]
      let ?s2 = "s1\<lparr>gEfiCurrentTpl := TPL_HIGH_LEVEL\<rparr>"
      have i2: "core_inv ?s2"
        using d1(1) by (auto simp: core_inv_def event_inv_def tpl_inv_def lock_inv_def)
      have f2: "free_above (gEfiCurrentTpl s1) ?s2"
        using d1(1) by (simp add: free_above_def core_inv_def lock_inv_def)
      have ra: "CoreRaiseTpl TPL_HIGH_LEVEL s1 = Ret (gEfiCurrentTpl s1, ?s2)"
        using tpl_invD(1)[OF d1(1)] by (simp add: CoreRaiseTpl_def VALID_TPL_def Let_def CoreSetInterruptState_def)
      have "safe (\<lambda>s'. core_inv s' \<and> gEfiCurrentTpl s' = gEfiCurrentTpl s1 \<and> locks_kept ?s2 s')
          (rst (gEfiCurrentTpl s1) ?s2)"
        by (rule rst_safe[OF i2 _ f2]) (use tpl_invD(1)[OF d1(1)] in simp)
      then have "safe (svc s) (rst (gEfiCurrentTpl s1) ?s2)"
        by (rule safe_mono) (use s1 in \<open>auto simp: svc_def locks_kept_def\<close>)
      then show "safe (svc s) (if gEventPending s1 \<noteq> 0
        then bind (CoreRaiseTpl TPL_HIGH_LEVEL s1) (\<lambda>(SavedTpl, s2). rst SavedTpl s2) else Ret s1)"
        using s1 ra by simp
    qed
    then show ?thesis using ini low by (simp add: MockTimerAdvance100ns_def)
  qed
qed

end

end
