(* ===== verification/EventOrder.thy ===== *)
theory EventOrder
  imports EventInit
begin

text \<open>
  The order in which \<open>CoreRestoreTpl\<close> and \<open>CoreDispatchEventNotifies\<close> deliver notifications, for
  clients that react in their own part of the state: all queues above the new level, highest level
  first, first come first served inside a level, each queued event once, and with a bound on the fuel.
\<close>

section \<open>Delivery order\<close>

text \<open>
  A passive client reacts to a notification in its own part of the state only; \<open>g\<close> says how, given
  the number of the function, the event and the level it runs at.
\<close>

definition passive_client :: "(nat \<Rightarrow> nat \<Rightarrow> nat \<Rightarrow> 'x \<Rightarrow> 'x) \<Rightarrow> 'x core_scheme client" where
  "passive_client g rst f e ctx s = Ret (s\<lparr>core.more := g f e (gEfiCurrentTpl s) (core.more s)\<rparr>)"

definition deliver :: "(nat \<Rightarrow> nat \<Rightarrow> nat \<Rightarrow> 'x \<Rightarrow> 'x) \<Rightarrow> (nat \<Rightarrow> ievent option) \<Rightarrow> nat \<Rightarrow> nat \<Rightarrow> 'x \<Rightarrow> 'x" where
  "deliver g evs p e x =
     (case NotifyFunction (the (evs e)) of Some (ClientFn f) \<Rightarrow> g f e p x | _ \<Rightarrow> x)"

lemma core_inv_more [simp]: "core_inv (s\<lparr>core.more := m\<rparr>) = core_inv s"
  by (simp add: core_inv_def event_inv_def tpl_inv_def lock_inv_def)

lemma Restore_loop_done:
  assumes "\<forall>p. bit (gEventPending u) p \<longrightarrow> p \<le> t" and "0 < m"
  shows "Restore_loop cl rst k m t u = Ret u"
proof -
  obtain m' where m: "m = Suc m'" using assms(2) by (cases m) auto
  show ?thesis
  proof (cases "gEventPending u = 0")
    case False
    then obtain h where h: "is_high (gEventPending u) h" using is_high_exists by blast
    then have "h \<le> t" using assms(1) by (simp add: is_high_def)
    then have le: "nat (HighBitSet64 (gEventPending u)) \<le> t" by (simp add: HighBitSet64_high[OF h])
    show ?thesis unfolding m Restore_loop.simps(2) Let_def if_not_P[OF False] if_P[OF le] ..
  qed (simp add: m)
qed

text \<open>With nothing pending above, lowering the TPL needs two units of fuel and is exact.\<close>

lemma Restore_quiet_eq:
  assumes "tpl_inv s" and "t \<le> gEfiCurrentTpl s" and na: "nothing_above t s" and "2 \<le> n"
  shows "CoreRestoreTpl cl n t s = Ret (s\<lparr>gEfiCurrentTpl := t\<rparr>)"
proof -
  define k where "k = n - 2"
  have n: "n = Suc (Suc k)" using assms(4) by (simp add: k_def)
  have v: "VALID_TPL t" using assms(1,2) by (simp add: VALID_TPL_def tpl_inv_def)
  have loop: "Restore_loop cl rst' k' (Suc k) t u = Ret u" if "gEventPending u = gEventPending s" for u rst' k'
    by (rule Restore_loop_done) (use na that in \<open>simp_all add: nothing_above_def\<close>)
  have "\<exists>u. Restore_interrupt (CoreRestoreTpl cl (Suc k)) t s = Ret u \<and> gEventPending u = gEventPending s \<and>
      u\<lparr>gEfiCurrentTpl := t\<rparr> = s\<lparr>gEfiCurrentTpl := t\<rparr>"
    using na by (cases s) (auto simp: Restore_interrupt_def MockTimerHostConsumePending_def nothing_above_def)
  then show ?thesis using loop by (auto simp: n Restore_body_eq[OF assms(2) v])
qed

text \<open>An event that has been dispatched: out of the queue and, for a signal event, unsignalled.\<close>

definition cleared :: "ievent \<Rightarrow> ievent" where
  "cleared v = v\<lparr>NotifyLinked := False,
     SignalCount := (if Type v AND EVT_NOTIFY_SIGNAL \<noteq> 0 then 0 else SignalCount v)\<rparr>"

definition clear_queued :: "nat set \<Rightarrow> (nat \<Rightarrow> ievent option) \<Rightarrow> nat \<Rightarrow> ievent option" where
  "clear_queued E evs = (\<lambda>e. if e \<in> E then map_option cleared (evs e) else evs e)"

lemma cleared_simps [simp]:
  "NotifyFunction (cleared v) = NotifyFunction v" "NotifyContext (cleared v) = NotifyContext v"
  "Type (cleared v) = Type v" "cleared (cleared v) = cleared v"
  by (simp_all add: cleared_def)

lemma clear_queued_simps [simp]:
  "clear_queued {} evs = evs"
  "clear_queued A (clear_queued B evs) = clear_queued (A \<union> B) evs"
  by (auto simp: clear_queued_def fun_eq_iff option.map_comp comp_def)

lemma clear_queued_one:
  "evs e = Some ev \<Longrightarrow> evs(e \<mapsto> cleared ev) = clear_queued {e} evs"
  by (auto simp: clear_queued_def)

lemma notify_clear_queued [simp]:
  "evs e = Some v \<Longrightarrow> NotifyFunction (the (clear_queued E evs e)) = NotifyFunction v"
  by (simp add: clear_queued_def)

lemma deliver_clear_queued [simp]: "deliver g (clear_queued E evs) = deliver g evs"
proof -
  have "NotifyFunction (the (clear_queued E evs e)) = NotifyFunction (the (evs e))" if "evs e \<noteq> None" for e
    using that by auto
  moreover have "evs e = None \<Longrightarrow> clear_queued E evs e = evs e" for e by (simp add: clear_queued_def)
  ultimately show ?thesis unfolding deliver_def fun_eq_iff by metis
qed

text \<open>The head of a queue is taken and everything else about the events is kept.\<close>

definition taken :: "nat \<Rightarrow> ievent \<Rightarrow> nat list \<Rightarrow> nat \<Rightarrow> 'x core_scheme \<Rightarrow> 'x core_scheme" where
  "taken e ev q p s = set_event e (cleared ev) (s\<lparr>gEventQueue := (gEventQueue s)(p := q)\<rparr>)"

lemma Dispatch_take_eq:
  assumes inv: "core_inv u" and q: "gEventQueue u p = e # q'" and ev: "events u e = Some ev"
  shows "Dispatch_take e u = Ret (taken e ev q' p u)" "p \<le> 30" "NotifyFunction ev \<noteq> None"
proof -
  have ei: "event_inv u" using inv by (simp add: core_inv_def)
  have ql: "NotifyLinked ev" "NotifyTpl ev = p"
    using listedD[OF event_invD(3)[OF ei, of p], of e] q ev by auto
  show p: "p \<le> 30" "NotifyFunction ev \<noteq> None"
    using event_invD(1)[OF ei ev] ql by (auto simp: event_ok_def)
  have other: "e \<notin> set (gEventQueue u r)" if "r \<noteq> p" for r
    using listed_mem[OF event_invD(3)[OF ei, of r] ev] ql that by simp
  have "e \<notin> set q'" using listed_distinct[OF event_invD(3)[OF ei, of p]] q by simp
  then have rq: "(\<lambda>r. remove1 e (gEventQueue u r)) = (gEventQueue u)(p := q')"
    using other q by (auto simp: fun_eq_iff remove1_idem)
  have ex: "\<exists>p \<in> set [0..<32]. e \<in> set (gEventQueue u p)"
    using p(1) q by (intro bexI[of _ p]) auto
  have r: "RemoveNotifyLink e u = Ret (set_event e (ev\<lparr>NotifyLinked := False\<rparr>)
      (u\<lparr>gEventQueue := (gEventQueue u)(p := q')\<rparr>))"
    unfolding RemoveNotifyLink_def ev deref_simps if_P[OF ex] rq ..
  show "Dispatch_take e u = Ret (taken e ev q' p u)"
    unfolding Dispatch_take_def r by (auto simp: taken_def set_event_def cleared_def)
qed

lemma core_inv_taken:
  assumes i: "in_section gEventQueueLock s u" and q: "gEventQueue u p = e # q'" and ev: "events u e = Some ev"
  shows "in_section gEventQueueLock s (taken e ev q' p u)"
  using Dispatch_take_section[OF i q] Dispatch_take_eq(1)[OF in_sectionD(1)[OF i] q ev] by auto

lemma taken_simps [simp]:
  "gEventQueue (taken e ev q p s) = (gEventQueue s)(p := q)" "gEventPending (taken e ev q p s) = gEventPending s"
  "gPendingTimerDuration (taken e ev q p s) = gPendingTimerDuration s"
  "locks (taken e ev q p s) = locks s" "gEfiCurrentTpl (taken e ev q p s) = gEfiCurrentTpl s"
  "core.more (taken e ev q p s) = core.more s"
  "events (taken e ev q p s) = (events s)(e \<mapsto> cleared ev)"
  by (simp_all add: taken_def set_event_def)

text \<open>The lock is dropped around the notification and taken again from the same level.\<close>

lemma relock_eq:
  assumes "held u gEventQueueLock" and "OwnerTpl (locks u gEventQueueLock) = p"
    and "gEfiCurrentTpl u = TPL_HIGH_LEVEL" and "lock_inv u" and "p < TPL_HIGH_LEVEL"
  shows "CoreAcquireLock gEventQueueLock ((unlocked gEventQueueLock u)\<lparr>gEfiCurrentTpl := p, core.more := m\<rparr>) =
    Ret (u\<lparr>core.more := m\<rparr>)"
proof -
  let ?l = "locks u gEventQueueLock"
  have tp: "Tpl ?l = TPL_HIGH_LEVEL" using assms(4) by (simp add: lock_inv_def)
  have "?l\<lparr>OwnerTpl := p, Lock := EfiLockAcquired\<rparr> = ?l" using assms(1,2) by (cases ?l) simp
  then have "(locks u)(gEventQueueLock := ?l\<lparr>OwnerTpl := p, Lock := EfiLockAcquired\<rparr>) = locks u"
    by (simp add: fun_upd_idem)
  then show ?thesis
    using tp assms(3,5)
    by (cases u) (simp add: CoreAcquireLock_def CoreRaiseTpl_def unlocked_def VALID_TPL_def Let_def CoreSetInterruptState_def)
qed

text \<open>A queue of passive notifications is delivered from head to tail.\<close>

lemma Dispatch_loop_passive:
  assumes inv: "core_inv s" and tp: "gEfiCurrentTpl s = p" "p < TPL_HIGH_LEVEL" and n: "2 \<le> n"
  shows "in_section gEventQueueLock s u \<Longrightarrow> nothing_above p u \<Longrightarrow> length (gEventQueue u p) < m \<Longrightarrow>
    (\<forall>e \<in> set (gEventQueue u p). NotifyFunction (the (events u e)) \<noteq> Some CoreCheckTimersFn) \<Longrightarrow>
    \<exists>u'. Dispatch_loop (passive_client g) (CoreRestoreTpl (passive_client g) n) k m p u = Ret u' \<and>
      in_section gEventQueueLock s u' \<and> nothing_above p u' \<and>
      gEventPending u' = gEventPending u \<and> gPendingTimerDuration u' = gPendingTimerDuration u \<and>
      gEventQueue u' = (gEventQueue u)(p := []) \<and>
      core.more u' = fold (deliver g (events u) p) (gEventQueue u p) (core.more u) \<and>
      events u' = clear_queued (set (gEventQueue u p)) (events u)"
proof (induction "gEventQueue u p" arbitrary: u m)
  case Nil
  then obtain m' where "m = Suc m'" by (cases m) auto
  moreover have "(gEventQueue u)(p := []) = gEventQueue u" using Nil.hyps by (auto simp: fun_eq_iff)
  ultimately show ?case using Nil by auto
next
  case (Cons e q')
  then obtain m' where m: "m = Suc m'" by (cases m) auto
  note q = Cons.hyps(2)[symmetric] and i = Cons.prems(1)
  note d = in_sectionD[OF i]
  obtain ev where ev: "events u e = Some ev"
    using listedD[OF event_invD(3), of u e p] d(1) q by (auto simp: core_inv_def)
  note t = Dispatch_take_eq[OF d(1) q ev]
  let ?u1 = "taken e ev q' p u"
  have i1: "in_section gEventQueueLock s ?u1" by (rule core_inv_taken[OF i q ev])
  note d1 = in_sectionD[OF i1]
  have na1: "nothing_above p ?u1" using Cons.prems(2) by (simp add: nothing_above_def)
  let ?s2 = "(unlocked gEventQueueLock ?u1)\<lparr>gEfiCurrentTpl := p\<rparr>"
  have rel: "CoreReleaseEventLock (CoreRestoreTpl (passive_client g) n) ?u1 = Ret ?s2"
    unfolding CoreReleaseEventLock_def ReleaseLock_eq[OF d1(3)] d1(4) tp(1)
    by (rule Restore_quiet_eq[OF _ _ _ n])
      (use core_inv_unlocked[OF d1(1)] na1 d1(2) tp in \<open>simp_all add: core_inv_def nothing_above_def\<close>)
  let ?m2 = "deliver g (events u) p e (core.more u)"
  have call: "call_notify (passive_client g) (CoreRestoreTpl (passive_client g) n) k (the (NotifyFunction ev)) e
      (NotifyContext ev) ?s2 = Ret (?s2\<lparr>core.more := ?m2\<rparr>)"
  proof -
    have nc: "NotifyFunction ev \<noteq> Some CoreCheckTimersFn" using Cons.prems(4) q ev by auto
    obtain fn where fn: "NotifyFunction ev = Some fn" using t(3) by blast
    have more: "core.more ?s2 = core.more u" by (simp add: unlocked_def)
    have "(s :: 'a core_scheme)\<lparr>core.more := core.more s\<rparr> = s" for s by (cases s) simp
    then have same: "?s2\<lparr>core.more := core.more u\<rparr> = ?s2" using more by metis
    show ?thesis
    proof (cases fn)
      case (ClientFn f)
      have "deliver g (events u) p e (core.more u) = g f e p (core.more u)"
        by (simp add: deliver_def ev fn ClientFn)
      moreover have "NotifyFunction ev = Some (ClientFn f)" using fn ClientFn by simp
      ultimately show ?thesis
        by (simp only: option.sel call_notify.simps passive_client_def more) simp
    next
      case EfiEventEmptyFunction
      have "deliver g (events u) p e (core.more u) = core.more u"
        by (simp add: deliver_def ev fn EfiEventEmptyFunction)
      moreover have "NotifyFunction ev = Some EfiEventEmptyFunction" using fn EfiEventEmptyFunction by simp
      ultimately show ?thesis
        by (simp only: option.sel call_notify.simps same)
    qed (use nc fn in simp)
  qed
  let ?u3 = "?u1\<lparr>core.more := ?m2\<rparr>"
  have acq: "CoreAcquireEventLock (?s2\<lparr>core.more := ?m2\<rparr>) = Ret ?u3"
    unfolding CoreAcquireEventLock_def
    by (rule relock_eq) (use d1 tp in \<open>simp_all add: core_inv_def\<close>)
  have i3: "in_section gEventQueueLock s ?u3"
    using i1 by (simp add: in_section_def locks_kept_def)
  have q3: "q' = gEventQueue ?u3 p" by simp
  have "e \<notin> set q'"
    using listed_distinct[OF event_invD(3), of u p] d(1) q by (simp add: core_inv_def)
  then have c3: "\<forall>e \<in> set (gEventQueue ?u3 p). NotifyFunction (the (events ?u3 e)) \<noteq> Some CoreCheckTimersFn"
    using Cons.prems(4) q by (auto simp: ev)
  from Cons.hyps(1)[OF q3 i3 _ _ c3, of m'] na1 Cons.prems(3) m q
  obtain u' where u': "Dispatch_loop (passive_client g) (CoreRestoreTpl (passive_client g) n) k m' p ?u3 = Ret u'"
      "in_section gEventQueueLock s u'" "nothing_above p u'" "gEventPending u' = gEventPending u"
      "gPendingTimerDuration u' = gPendingTimerDuration u"
      "gEventQueue u' = (gEventQueue ?u3)(p := [])"
      "core.more u' = fold (deliver g (events ?u3) p) q' ?m2"
      "events u' = clear_queued (set q') (events ?u3)"
    by (auto simp: nothing_above_def)
  have "Dispatch_loop (passive_client g) (CoreRestoreTpl (passive_client g) n) k m p u = Ret u'"
    using t(3) by (simp add: m q t(1) rel call acq u'(1))
  moreover have e3: "events ?u3 = clear_queued {e} (events u)" using clear_queued_one[of "events u" e ev] ev by simp
  have "core.more u' = fold (deliver g (events u) p) (gEventQueue u p) (core.more u)"
    unfolding u'(7) e3 deliver_clear_queued q by simp
  moreover have "events u' = clear_queued (set (gEventQueue u p)) (events u)"
    unfolding u'(8) e3 clear_queued_simps q by simp
  ultimately show ?case using u'(2-6) by (intro exI[of _ u']) auto
qed

abbreviation deliver_all where
  "deliver_all g evs qs ps x \<equiv> fold (\<lambda>p. fold (deliver g evs p) (qs p)) ps x"

definition no_timer_check :: "nat \<Rightarrow> 'x core_scheme \<Rightarrow> bool" where
  "no_timer_check t s \<longleftrightarrow> (\<forall>p > t. \<forall>e \<in> set (gEventQueue s p). NotifyFunction (the (events s e)) \<noteq> Some CoreCheckTimersFn)"

text \<open>The queues \<open>ps\<close> have been delivered, in this order, and nothing else has changed.\<close>

definition delivered :: "(nat \<Rightarrow> nat \<Rightarrow> nat \<Rightarrow> 'x \<Rightarrow> 'x) \<Rightarrow> nat list \<Rightarrow> 'x core_scheme \<Rightarrow> 'x core_scheme \<Rightarrow> bool" where
  "delivered g ps s s' \<longleftrightarrow> core_inv s' \<and> locks_kept s s' \<and>
     gPendingTimerDuration s' = gPendingTimerDuration s \<and>
     gEventQueue s' = (\<lambda>p. if p \<in> set ps then [] else gEventQueue s p) \<and>
     events s' = clear_queued (\<Union>p \<in> set ps. set (gEventQueue s p)) (events s) \<and>
     core.more s' = deliver_all g (events s) (gEventQueue s) ps (core.more s)"

lemma delivered_Nil: "core_inv s \<Longrightarrow> delivered g [] s s"
  by (simp add: delivered_def)

lemma delivered_trans:
  assumes "delivered g ps s s1" and "delivered g ps' s1 s2" and "set ps \<inter> set ps' = {}"
  shows "delivered g (ps @ ps') s s2"
proof -
  have q1: "gEventQueue s1 = (\<lambda>p. if p \<in> set ps then [] else gEventQueue s p)"
    and e1: "events s1 = clear_queued (\<Union>p \<in> set ps. set (gEventQueue s p)) (events s)"
    using assms(1) by (simp_all add: delivered_def)
  have qs: "gEventQueue s1 p = gEventQueue s p" if "p \<in> set ps'" for p
    using that assms(3) q1 by auto
  have "deliver_all g (events s1) (gEventQueue s1) ps' y = deliver_all g (events s) (gEventQueue s) ps' y" for y
    by (intro fold_cong) (simp_all add: qs e1)
  moreover have "(\<Union>p \<in> set ps'. set (gEventQueue s1 p)) = (\<Union>p \<in> set ps'. set (gEventQueue s p))"
    using qs by simp
  moreover have "events s2 = clear_queued (\<Union>p \<in> set (ps @ ps'). set (gEventQueue s p)) (events s)"
    using assms(2) qs by (simp add: delivered_def e1 UN_Un Un_commute)
  moreover have "gEventQueue s2 = (\<lambda>p. if p \<in> set (ps @ ps') then [] else gEventQueue s p)"
    using assms(2) by (auto simp: delivered_def q1 fun_eq_iff)
  ultimately show ?thesis
    using assms(1,2) locks_kept_trans[of s s1 s2] by (simp add: delivered_def)
qed

lemma Dispatch_passive:
  assumes d: "dispatchable p s" and n: "2 \<le> n" and k: "length (gEventQueue s p) < k" and nt: "no_timer_check t s" and tp: "t < p"
  shows "\<exists>s'. CoreDispatchEventNotifies (passive_client g) (CoreRestoreTpl (passive_client g) n) k p s = Ret s' \<and>
    delivered g [p] s s' \<and> gEfiCurrentTpl s' = p \<and> gEventPending s' = gEventPending s AND NOT (tpl_bit p)"
proof -
  have inv: "core_inv s" and tps: "gEfiCurrentTpl s = p" "p < TPL_HIGH_LEVEL" using d by (simp_all add: dispatchable_def)
  have nh: "\<not> held s gEventQueueLock" using d by (auto simp: dispatchable_def)
  note h = tpl_le_event_lock[OF inv]
  let ?u = "locked gEventQueueLock s"
  have a: "CoreAcquireLock gEventQueueLock s = Ret ?u"
    using inv nh h by (intro AcquireLock_eq) (simp_all add: core_inv_def)
  have na: "nothing_above p ?u"
    using nothing_above_same[OF inv, of ?u] tps by simp
  have nt': "\<forall>e \<in> set (gEventQueue ?u p). NotifyFunction (the (events ?u e)) \<noteq> Some CoreCheckTimersFn"
    using nt tp by (auto simp: no_timer_check_def)
  obtain u' where u': "Dispatch_loop (passive_client g) (CoreRestoreTpl (passive_client g) n) k k p ?u = Ret u'"
      "in_section gEventQueueLock s u'" "nothing_above p u'" "gEventPending u' = gEventPending ?u"
      "gPendingTimerDuration u' = gPendingTimerDuration ?u"
      "gEventQueue u' = (gEventQueue ?u)(p := [])"
      "core.more u' = fold (deliver g (events ?u) p) (gEventQueue ?u p) (core.more ?u)"
      "events u' = clear_queued (set (gEventQueue ?u p)) (events ?u)"
    using Dispatch_loop_passive[OF inv tps n in_section_locked[OF inv h] na _ nt', of k g k] k by auto
  let ?w = "u'\<lparr>gEventPending := gEventPending u' AND NOT (tpl_bit p)\<rparr>"
  note d' = in_sectionD[OF u'(2)]
  have p30: "p \<le> 30" using tps by simp
  have lt: "q < 64" if "gEventQueue u' q \<noteq> []" for q
    using tpl_invD(2)[OF d'(1), of q] d'(1) that by (auto simp: core_inv_def tpl_inv_def)
  have "gEventQueue u' q \<noteq> [] \<Longrightarrow> q \<noteq> p" for q using u'(6) by auto
  then have "tpl_inv ?w"
    using d'(1) p30 lt by (auto simp: core_inv_def tpl_inv_def bit_simps)
  then have cw: "core_inv ?w" using d'(1) by (simp add: core_inv_def event_inv_def lock_inv_def)
  then have iw: "in_section gEventQueueLock s ?w"
    by (intro in_section_svc[OF u'(2) svc_frame]) simp_all
  note dw = in_sectionD[OF iw]
  have naw: "nothing_above p ?w" using u'(3) p30 by (auto simp: nothing_above_def bit_simps)
  let ?s' = "(unlocked gEventQueueLock ?w)\<lparr>gEfiCurrentTpl := p\<rparr>"
  have rel: "CoreReleaseEventLock (CoreRestoreTpl (passive_client g) n) ?w = Ret ?s'"
    unfolding CoreReleaseEventLock_def ReleaseLock_eq[OF dw(3)] dw(4) tps(1)
    by (rule Restore_quiet_eq[OF _ _ _ n])
      (use core_inv_unlocked[OF cw] naw dw(2) tps in \<open>simp_all add: core_inv_def nothing_above_def\<close>)
  have sv: "core_inv ?s'"
  proof -
    have cu: "core_inv (unlocked gEventQueueLock ?w)" by (rule core_inv_unlocked[OF cw])
    have li: "lock_inv ?s'" 
      using cw inv d dw(5) by (auto simp: core_inv_def lock_inv_def unlocked_def dispatchable_def intro: less_imp_le)
    have dur: "gPendingTimerDuration ?s' = 0"
      using u'(5) tpl_invD(4)[OF inv] tps by simp
    show ?thesis
      using cu li dur naw tps by (auto simp: core_inv_def event_inv_def tpl_inv_def nothing_above_def)
  qed
  have lk: "locks_kept s ?s'"
    using locks_kept_section[OF _ nh iw, of ?s'] inv by (simp add: core_inv_def locks_kept_def)
  have sf: "events ?u = events s" "gEventQueue ?u = gEventQueue s" "core.more ?u = core.more s"
      "gPendingTimerDuration ?u = gPendingTimerDuration s" "gEventPending ?u = gEventPending s"
    by (simp_all add: locked_def)
  have "delivered g [p] s ?s'"
    using sv lk u'(5-8) unfolding delivered_def sf by (auto simp: unlocked_def fun_eq_iff)
  moreover have "gEventPending ?s' = gEventPending s AND NOT (tpl_bit p)"
    using u'(4) by (simp add: sf)
  ultimately show ?thesis
    using rel u'(1) tps by (auto simp: CoreDispatchEventNotifies_def CoreAcquireEventLock_def a)
qed


text \<open>The levels above \<open>t\<close> up to \<open>h\<close>, highest first.\<close>

definition levels :: "nat \<Rightarrow> nat \<Rightarrow> nat list" where
  "levels t h = rev [Suc t..<Suc h]"

lemma levels_simps: "h \<le> t \<Longrightarrow> levels t h = []" "t < Suc h \<Longrightarrow> levels t (Suc h) = Suc h # levels t h"
  by (simp_all add: levels_def)

lemma set_levels [simp]: "set (levels t h) = {t <.. h}"
  by (auto simp: levels_def)

lemma no_timer_check_delivered:
  assumes "no_timer_check t s" and "delivered g ps s s'" shows "no_timer_check t s'"
  unfolding no_timer_check_def
proof (intro allI ballI impI)
  fix p e assume p: "t < p" and e: "e \<in> set (gEventQueue s' p)"
  then have e': "e \<in> set (gEventQueue s p)" "events s' e = events s e \<or> events s' e = map_option cleared (events s e)"
    using assms(2) by (auto simp: delivered_def clear_queued_def split: if_splits)
  moreover have "events s' e \<noteq> None"
    using assms(2) e listedD[OF event_invD(3), of s' e p] by (auto simp: delivered_def core_inv_def)
  ultimately have "NotifyFunction (the (events s' e)) = NotifyFunction (the (events s e))"
    by auto
  with assms(1) p e'(1) show "NotifyFunction (the (events s' e)) \<noteq> Some CoreCheckTimersFn"
    by (simp add: no_timer_check_def)
qed

lemma Restore_loop_passive:
  assumes n: "2 \<le> n"
  shows "core_inv s \<Longrightarrow> free_above t s \<Longrightarrow> no_timer_check t s \<Longrightarrow> gPendingTimerDuration s = 0 \<Longrightarrow>
    (\<forall>p. bit (gEventPending s) p \<longrightarrow> p \<le> h) \<Longrightarrow> (\<forall>p. length (gEventQueue s p) < k) \<Longrightarrow> h - t < m \<Longrightarrow>
    \<exists>s'. Restore_loop (passive_client g) (CoreRestoreTpl (passive_client g) n) k m t s = Ret s' \<and>
      delivered g (levels t h) s s' \<and> nothing_above t s'"
proof (induction h arbitrary: s m)
  case 0
  have "Restore_loop (passive_client g) (CoreRestoreTpl (passive_client g) n) k m t s = Ret s"
    using 0 by (intro Restore_loop_done) auto
  moreover have "nothing_above t s" using 0 by (auto simp: nothing_above_def)
  ultimately show ?case using 0 delivered_Nil by (auto simp: levels_simps)
next
  case (Suc h)
  consider (low) "Suc h \<le> t" | (skip) "t < Suc h" "\<not> bit (gEventPending s) (Suc h)" | (hit) "t < Suc h" "bit (gEventPending s) (Suc h)"
    by linarith
  then show ?case
  proof cases
    case low
    then have "nothing_above t s" using Suc.prems by (auto simp: nothing_above_def intro: order_trans)
    have "Restore_loop (passive_client g) (CoreRestoreTpl (passive_client g) n) k m t s = Ret s"
      using Suc.prems(7) \<open>nothing_above t s\<close> by (intro Restore_loop_done) (auto simp: nothing_above_def)
    then show ?thesis using Suc.prems low delivered_Nil \<open>nothing_above t s\<close> by (auto simp: levels_simps)
  next
    case skip
    have b: "\<forall>p. bit (gEventPending s) p \<longrightarrow> p \<le> h" using skip Suc.prems(5) by (metis le_SucE)
    have "gEventQueue s (Suc h) = []" using skip(2) Suc.prems(1) by (auto simp: core_inv_def tpl_inv_def)
    then have "delivered g (levels t (Suc h)) s s' = delivered g (levels t h) s s'" for s'
      using skip(1) by (auto simp: delivered_def levels_simps fun_eq_iff greaterThanAtMost_def le_Suc_eq
          intro!: arg_cong2[of _ _ _ _ clear_queued])
    then show ?thesis using Suc.IH[OF Suc.prems(1-4) b Suc.prems(6), of m] Suc.prems(7) skip(1) by simp
  next
    case hit
    obtain m' where m: "m = Suc m'" using Suc.prems by (cases m) auto
    have hh: "is_high (gEventPending s) (Suc h)" using hit(2) Suc.prems(5) by (simp add: is_high_def)
    have ne: "gEventPending s \<noteq> 0" using hit(2) by auto
    have h30: "Suc h \<le> 30" "Suc h \<le> gEfiCurrentTpl s" using tpl_invD(2,3)[OF Suc.prems(1) hit(2)] by auto
    let ?s1 = "s\<lparr>gEfiCurrentTpl := Suc h\<rparr>"
    have d: "dispatchable (Suc h) ?s1"
      using Suc.prems(1-5) hit h30
      by (auto simp: dispatchable_def core_inv_def event_inv_def tpl_inv_def lock_inv_def
            free_above_def intro: order_trans le_less_trans)
    have nt1: "no_timer_check t ?s1" using Suc.prems(3) by (simp add: no_timer_check_def)
    obtain s2 where s2: "CoreDispatchEventNotifies (passive_client g) (CoreRestoreTpl (passive_client g) n) k (Suc h) ?s1 = Ret s2"
        "delivered g [Suc h] ?s1 s2" "gEfiCurrentTpl s2 = Suc h"
        "gEventPending s2 = gEventPending s AND NOT (tpl_bit (Suc h))"
      using Dispatch_passive[OF d n _ nt1 hit(1), of k g] Suc.prems(6) by auto
    have d12: "delivered g [Suc h] s s2" using s2(2) by (simp add: delivered_def locks_kept_def fun_eq_iff)
    have b2: "\<forall>p. bit (gEventPending s2) p \<longrightarrow> p \<le> h"
      using Suc.prems(5) h30(1) by (auto simp: s2(4) bit_simps le_Suc_eq)
    have p2: "core_inv s2" "free_above t s2" "gPendingTimerDuration s2 = 0" "\<forall>p. length (gEventQueue s2 p) < k"
      using d12 Suc.prems(2,4,6) by (auto simp: delivered_def free_above_def locks_kept_def) 
    have fuel: "h - t < m'" using Suc.prems(7) m hit(1) by linarith
    obtain s' where s': "Restore_loop (passive_client g) (CoreRestoreTpl (passive_client g) n) k m' t s2 = Ret s'"
        "delivered g (levels t h) s2 s'" "nothing_above t s'"
      using Suc.IH[OF p2(1,2) no_timer_check_delivered[OF Suc.prems(3) d12] p2(3) b2 p2(4) fuel] by blast
    have "delivered g (levels t (Suc h)) s s'"
      using delivered_trans[OF d12 s'(2)] hit(1) by (simp add: levels_simps)
    moreover have "Restore_loop (passive_client g) (CoreRestoreTpl (passive_client g) n) k m t s = Ret s'"
    proof -
      have hb: "nat (HighBitSet64 (gEventPending s)) = Suc h" by (simp only: HighBitSet64_high[OF hh] nat_int)
      show ?thesis
        using hit(1) ne s2(1) s'(1) by (simp add: m hb Let_def CoreSetInterruptState_def)
    qed
    ultimately show ?thesis using s'(3) by blast
  qed
qed


interpretation pcl: notify_client "passive_client g" for g
  by unfold_locales (simp add: passive_client_def locks_kept_def)

lemma RestoreTpl_passive:
  assumes inv: "core_inv s" and t: "t \<le> gEfiCurrentTpl s" and fr: "free_above t s"
    and nt: "no_timer_check t s" and dur: "gPendingTimerDuration s = 0"
    and n: "\<forall>p. length (gEventQueue s p) + 33 \<le> n"
  shows "\<exists>s'. CoreRestoreTpl (passive_client g) n t s = Ret s' \<and> gEfiCurrentTpl s' = t \<and>
    delivered g (levels t 30) s s'"
proof -
  obtain k where k: "n = Suc k" using n by (cases n) auto
  have v: "VALID_TPL t" using t tpl_invD(1)[OF inv] by (simp add: VALID_TPL_def)
  let ?rst = "CoreRestoreTpl (passive_client g) k"
  obtain s1 where s1: "Restore_interrupt ?rst t s = Ret s1"
      "s1 = (if gEfiCurrentTpl s \<ge> TPL_HIGH_LEVEL \<and> t < TPL_HIGH_LEVEL
         then s\<lparr>gEfiCurrentTpl := TPL_HIGH_LEVEL, gPendingTimerDuration := 0\<rparr> else s)"
    using dur by (auto simp: Restore_interrupt_def MockTimerHostConsumePending_def)
  have i1: "core_inv s1" "free_above t s1" "no_timer_check t s1" "gPendingTimerDuration s1 = 0"
      "\<forall>p. bit (gEventPending s1) p \<longrightarrow> p \<le> 30"
    using inv fr nt dur tpl_invD(2)[OF inv] unfolding s1(2)
    by (auto simp: core_inv_def event_inv_def tpl_inv_def lock_inv_def free_above_def no_timer_check_def)
  have "length (gEventQueue s1 p) < k" for p using spec[OF n, of p] by (simp add: s1(2) k)
  then have lk: "\<forall>p. length (gEventQueue s1 p) < k" by blast
  have k2: "2 \<le> k" "30 - t < k" using spec[OF n, of 0] by (simp_all add: k)
  obtain s2 where s2: "Restore_loop (passive_client g) ?rst k k t s1 = Ret s2"
      "delivered g (levels t 30) s1 s2" "nothing_above t s2"
    using Restore_loop_passive[OF k2(1) i1 lk k2(2)] by blast
  let ?s' = "s2\<lparr>gEfiCurrentTpl := t\<rparr>"
  have run: "CoreRestoreTpl (passive_client g) n t s = Ret ?s'"
    using s1(1) s2(1) by (simp add: k Restore_body_eq[OF t v])
  have "core_inv ?s'"
    using pcl.core.rst_safe[where n = n and g = g, OF inv t fr] by (simp add: run)
  moreover have "locks_kept s s2" using s2(2) by (auto simp: delivered_def s1(2) locks_kept_def split: if_splits)
  ultimately have "delivered g (levels t 30) s ?s'"
    using s2(2) dur by (auto simp: delivered_def s1(2) locks_kept_def split: if_splits)
  then show ?thesis using run by auto
qed

end
