(* ===== verification/EventExpiry.thy ===== *)
theory EventExpiry
  imports EventInit
begin

text \<open>
  What \<open>CoreCheckTimers\<close> does to the timers: the exact effect of one expiry, the effect of the whole
  loop, and its termination when no period wraps past the present.
\<close>

section \<open>Timers and signal counts of events\<close>

definition timer_view :: "'x core_scheme \<Rightarrow> nat \<Rightarrow> (u64 \<times> u64 \<times> bool) option" where
  "timer_view s x = map_option (\<lambda>v. (TriggerTime v, Period v, TimerLinked v)) (events s x)"

definition count_of :: "'x core_scheme \<Rightarrow> nat \<Rightarrow> u32 option" where
  "count_of s x = map_option SignalCount (events s x)"

lemma sig_frame_timer_view:
  assumes "sig_frame s s'" shows "timer_view s' = timer_view s"
proof
  fix x
  have "same_but_signal (events s x) (events s' x)" using assms by (simp add: sig_frame_def)
  then show "timer_view s' x = timer_view s x"
    by (cases "events s x") (auto simp: timer_view_def same_but_signal_Some same_but_signal_None)
qed

lemma count_notify [simp]:
  "events s e = Some ev \<Longrightarrow> count_of (notify_state e ev s) = count_of s"
  by (auto simp: count_of_def fun_eq_iff)

lemma count_locked [simp]:
  "count_of (locked l s) = count_of s" "count_of ((unlocked l s)\<lparr>gEfiCurrentTpl := t\<rparr>) = count_of s"
  by (auto simp: count_of_def fun_eq_iff)

lemma NotifySignalMembers_count:
  assumes "core_inv s" and "held s gEventQueueLock" and "set es \<subseteq> set (gEventSignalQueue s)"
    and "NotifySignalMembers g es s = Ret s'"
  shows "count_of s' = count_of s"
  using assms
proof (induction es arbitrary: s)
  case (Cons e es)
  have ei: "event_inv s" using Cons.prems(1) by (simp add: core_inv_def)
  have h: "gEfiCurrentTpl s = TPL_HIGH_LEVEL"
    using tpl_invD(1)[OF Cons.prems(1)] tpl_invD(5)[OF Cons.prems(1,2)] by simp
  obtain v where v: "events s e = Some v" "SignalLinked v"
    using listedD[OF event_invD(4)[OF ei]] Cons.prems(3) by auto
  have nt: "is_notify_type (Type v)"
    using event_invD(1)[OF ei v(1)] v(2) by (auto simp: event_ok_def)
  note n = NotifyEvent_eq[OF Cons.prems(1,2) v(1) nt] core_inv_notify[OF Cons.prems(1) h v(1) nt]
  show ?case
    using Cons.IH[OF n(2)] Cons.IH[OF Cons.prems(1)] Cons.prems v n(1)
    by (auto split: if_splits)
qed simp

text \<open>Near the top of the priorities a signal counts once, for the signalled event only.\<close>

definition counted :: "nat \<Rightarrow> 'x core_scheme \<Rightarrow> 'x core_scheme \<Rightarrow> bool" where
  "counted e s s' \<longleftrightarrow> count_of s' = (\<lambda>x. if x = e then map_option (\<lambda>c. if c = 0 then 1 else c) (count_of s x)
     else count_of s x)"

context tpl_restore begin

lemma leave_count:
  assumes "core_inv s" and "gEfiCurrentTpl s \<le> lock_tpl l" and "in_sig l s u"
    and hi: "TPL_HIGH_LEVEL \<le> Suc (gEfiCurrentTpl s)"
  shows "safe (\<lambda>s'. count_of s' = count_of u) (CoreReleaseLock rst l u)"
proof -
  have i: "in_section l s u" and f: "sig_frame s u" using assms(3) hi by (simp_all add: in_sig_def)
  have "nothing_above (gEfiCurrentTpl s) u"
    using nothing_above_high[OF assms(1) in_sectionD(1)[OF i] hi] sig_frameD(4)[OF f] .
  from safe_leave_quiet[OF i assms(2) this] show ?thesis by (rule safe_mono) simp
qed

lemma NotifySignalList_count:
  assumes inv: "core_inv s" and nh: "\<not> held s gEventQueueLock" and hi: "TPL_HIGH_LEVEL \<le> Suc (gEfiCurrentTpl s)"
  shows "safe (\<lambda>s'. svc_sig s s' \<and> count_of s' = count_of s) (CoreNotifySignalList rst g s)"
proof -
  have "safe (\<lambda>s'. count_of s' = count_of s) (CoreNotifySignalList rst g s)"
    unfolding CoreNotifySignalList_def CoreAcquireEventLock_def CoreReleaseEventLock_def
  proof (rule safe_enter[OF inv nh tpl_le_event_lock[OF inv]])
    fix u assume u: "u = locked gEventQueueLock s" and i: "in_section gEventQueueLock s u"
    obtain s' where m: "NotifySignalMembers g (gEventSignalQueue u) u = Ret s'" "core_inv s'"
        "locks s' = locks u" "gEfiCurrentTpl s' = gEfiCurrentTpl u" "sig_frame u s'"
      using NotifySignalMembers_ok[OF in_sectionD(1)[OF i] in_sectionD(3)[OF i] subset_refl] by blast
    have "in_sig gEventQueueLock s s'"
      using in_sig_step[OF in_sig_locked[OF inv tpl_le_event_lock[OF inv]], of s']
        svc_frame[OF m(2,4,3)] m(5) by (simp add: u)
    from leave_count[OF inv tpl_le_event_lock[OF inv] this hi]
    show "safe (\<lambda>s'. count_of s' = count_of s) (bind (NotifySignalMembers g (gEventSignalQueue u) u)
      (CoreReleaseLock rst gEventQueueLock))"
      using m(1) NotifySignalMembers_count[OF in_sectionD(1)[OF i] in_sectionD(3)[OF i] subset_refl m(1)]
      by (simp add: u)
  qed
  then show ?thesis by (rule safe_conj[OF NotifySignalList_safe[OF inv nh]])
qed

lemma Signal_mark_count:
  assumes inv: "core_inv s" and nh: "\<not> held s gEventQueueLock" and ev: "events s e = Some ev"
    and hi: "TPL_HIGH_LEVEL \<le> Suc (gEfiCurrentTpl s)"
  shows "safe (counted e s) (Signal_mark rst e (locked gEventQueueLock s))"
proof -
  let ?ev1 = "ev\<lparr>SignalCount := SignalCount ev + 1\<rparr>" and ?u = "locked gEventQueueLock s"
  let ?u1 = "set_event e ?ev1 ?u"
  note h = tpl_le_event_lock[OF inv]
  note i = in_sig_locked[OF inv h]
  have evu: "events ?u e = Some ev" using ev by simp
  have "core_inv ?u1"
    using core_inv_count[OF core_inv_locked[OF inv h] evu] by blast
  then have i1: "in_sig gEventQueueLock s ?u1"
    by (intro in_sig_step[OF i] svc_frame sig_frame_count evu) (simp_all add: set_event_def)
  have ev1: "events ?u1 e = Some ?ev1" by (simp add: set_event_def)
  have c1: "counted e s ?u1" if "SignalCount ev = 0"
    using that ev by (auto simp: counted_def count_of_def set_event_def fun_eq_iff)
  have c0: "counted e s ?u" if "SignalCount ev \<noteq> 0"
    using that ev by (auto simp: counted_def count_of_def fun_eq_iff)
  have one: "safe (counted e s) (CoreNotifyEvent e ?u1)" if "Type ev AND EVT_NOTIFY_SIGNAL \<noteq> 0" "SignalCount ev = 0"
    using NotifyEvent_in_sig[OF i1 ev1] signal_notify_type[OF that(1)] c1[OF that(2)] ev1
    by (auto simp: counted_def)
  have isec: "in_section gEventQueueLock s ?u1" using i1 by (simp add: in_sig_def)
  have na: "nothing_above (gEfiCurrentTpl s) ?u1"
    by (rule nothing_above_same[OF inv]) (simp_all add: set_event_def)
  have grp: "safe (counted e s) (Signal_group rst e ?u1)" if c: "SignalCount ev = 0"
    unfolding Signal_group_def CoreReleaseEventLock_def CoreAcquireEventLock_def
  proof (rule safe_bind[OF safe_conj[OF safe_leave[OF inv nh h isec] safe_leave_quiet[OF isec h na]]])
    fix s1 assume s1: "svc s s1 \<and> s1 = (unlocked gEventQueueLock ?u1)\<lparr>gEfiCurrentTpl := gEfiCurrentTpl s\<rparr>"
    note d = svcD[OF conjunct1[OF s1]]
    have n1: "\<not> held s1 gEventQueueLock" using d(3) nh by simp
    have cs: "count_of s1 = count_of ?u1" using s1 by simp
    have es: "events s1 e = Some ?ev1" using s1 ev1 by simp
    have "safe (counted e s) (bind (CoreNotifySignalList rst (EventGroup ?ev1) s1) (CoreAcquireLock gEventQueueLock))"
    proof (rule safe_bind[OF NotifySignalList_count[OF d(1) n1]])
      show "TPL_HIGH_LEVEL \<le> Suc (gEfiCurrentTpl s1)" using d(2) hi by simp
      fix t assume t: "svc_sig s1 t \<and> count_of t = count_of s1"
      note dt = svcD[OF svc_sigD[OF conjunct1[OF t]]]
      have "CoreAcquireLock gEventQueueLock t = Ret (locked gEventQueueLock t)"
        using dt(1) tpl_le_event_lock[OF dt(1)] dt(3) n1
        by (intro AcquireLock_eq) (simp_all add: core_inv_def)
      then show "safe (counted e s) (CoreAcquireLock gEventQueueLock t)"
        using t cs c1[OF c] by (simp add: counted_def)
    qed
    then show "safe (counted e s) (deref (events s1 e) (\<lambda>ev.
        bind (CoreNotifySignalList rst (EventGroup ev) s1) (CoreAcquireLock gEventQueueLock)))"
      unfolding es deref_simps .
  qed
  show ?thesis
    unfolding Signal_mark_def evu deref_simps Let_def
    by (intro safe_if safe_RetI grp one c1 c0) simp_all
qed

lemma SignalEvent_count:
  assumes inv: "core_inv s" and nh: "\<not> held s gEventQueueLock" and ev: "events s e = Some ev"
    and hi: "TPL_HIGH_LEVEL \<le> Suc (gEfiCurrentTpl s)"
  shows "safe (\<lambda>(st, s'). svc_sig s s' \<and> counted e s s') (CoreSignalEvent rst (Some e) s)"
proof -
  have sg: "Signature ev = EVENT_SIGNATURE"
    using inv event_invD(1)[OF _ ev] by (auto simp: core_inv_def event_ok_def)
  note h = tpl_le_event_lock[OF inv]
  have a: "CoreAcquireLock gEventQueueLock s = Ret (locked gEventQueueLock s)"
    using inv h nh by (intro AcquireLock_eq) (simp_all add: core_inv_def)
  have "safe (\<lambda>(st, s'). svc_sig s s' \<and> counted e s s')
      (bind (Signal_mark rst e (locked gEventQueueLock s)) (\<lambda>s2.
         bind (CoreReleaseLock rst gEventQueueLock s2) (\<lambda>s3. Ret (EFI_SUCCESS, s3))))"
  proof (rule safe_bind[OF safe_conj[OF Signal_mark_safe[OF inv nh ev] Signal_mark_count[OF inv nh ev hi]]])
    fix s2 assume s2: "in_sig gEventQueueLock s s2 \<and> counted e s s2"
    show "safe (\<lambda>(st, s'). svc_sig s s' \<and> counted e s s')
        (bind (CoreReleaseLock rst gEventQueueLock s2) (\<lambda>s3. Ret (EFI_SUCCESS, s3)))"
      by (rule safe_bind[OF safe_conj[OF leave_sig[OF inv nh h conjunct1[OF s2]] leave_count[OF inv h conjunct1[OF s2] hi]]])
        (use s2 in \<open>simp add: counted_def\<close>)
  qed
  then show ?thesis
    by (simp add: CoreSignalEvent_def CoreAcquireEventLock_def CoreReleaseEventLock_def ev sg a)
qed

end

section \<open>Expiry\<close>

definition next_trigger :: "u64 \<Rightarrow> u64 \<Rightarrow> u64 \<Rightarrow> u64" where
  "next_trigger now T P = (if T + P \<le> now then now else T + P)"

definition expired_view :: "u64 \<Rightarrow> u64 \<times> u64 \<times> bool \<Rightarrow> u64 \<times> u64 \<times> bool" where
  "expired_view now = (\<lambda>(T, P, l). if P = 0 then (T, 0, False) else (next_trigger now T P, P, True))"

lemma timer_view_event:
  "events s e = Some v \<Longrightarrow> timer_view s e = Some (TriggerTime v, Period v, TimerLinked v)"
  by (simp add: timer_view_def)

lemma timer_view_state [simp]:
  "events s e = Some v \<Longrightarrow> timer_view (set_event e v' s) = (timer_view s)(e \<mapsto> (TriggerTime v', Period v', TimerLinked v'))"
  "events s e = Some v \<Longrightarrow> timer_view (remove_timer_state e v s) = (timer_view s)(e \<mapsto> (TriggerTime v, Period v, False))"
  "events s e = Some v \<Longrightarrow> timer_view (insert_timer_state e v s) = (timer_view s)(e \<mapsto> (TriggerTime v, Period v, True))"
  by (auto simp: timer_view_def fun_eq_iff remove_timer_state_def insert_timer_state_def set_event_def)

lemma count_state [simp]:
  "events s e = Some v \<Longrightarrow> SignalCount v' = SignalCount v \<Longrightarrow> count_of (set_event e v' s) = count_of s"
  "events s e = Some v \<Longrightarrow> count_of (remove_timer_state e v s) = count_of s"
  "events s e = Some v \<Longrightarrow> count_of (insert_timer_state e v s) = count_of s"
  by (auto simp: count_of_def fun_eq_iff remove_timer_state_def insert_timer_state_def set_event_def)

text \<open>Signal counts only go up from zero, and only for the events of \<open>E\<close>.\<close>

definition counts_up :: "nat set \<Rightarrow> 'x core_scheme \<Rightarrow> 'x core_scheme \<Rightarrow> bool" where
  "counts_up E s s' \<longleftrightarrow> (\<forall>x. count_of s' x = (if x \<in> E then map_option (\<lambda>c. if c = 0 then 1 else c) (count_of s x)
     else count_of s x))"

lemma counted_up: "counted e s s' = counts_up {e} s s'"
  by (auto simp: counted_def counts_up_def fun_eq_iff)

lemma counts_up_refl [simp]: "counts_up {} s s"
  by (simp add: counts_up_def)

lemma counts_up_cong: "count_of s1 = count_of s \<Longrightarrow> counts_up E s1 s' = counts_up E s s'"
  "count_of s1 = count_of s' \<Longrightarrow> counts_up E s s1 = counts_up E s s'"
  by (simp_all add: counts_up_def)

lemma counts_up_trans:
  assumes "counts_up A s s1" and "counts_up B s1 s2" shows "counts_up (A \<union> B) s s2"
proof -
  have idem: "map_option (\<lambda>c. if c = 0 then 1 else c) (map_option (\<lambda>c. if c = 0 then 1 else c) y) =
      map_option (\<lambda>c. if c = 0 then 1 else c :: u32) y" for y
    by (cases y) simp_all
  show ?thesis using assms by (auto simp: counts_up_def idem)
qed

text \<open>The events that one expiry signals: the timer, and the check event when a period has already
  passed again.\<close>

definition expire_signals :: "u64 \<Rightarrow> nat \<Rightarrow> u64 \<times> u64 \<times> bool \<Rightarrow> ptr \<Rightarrow> nat set" where
  "expire_signals now e = (\<lambda>(T, P, l) c. {e} \<union> (if P \<noteq> 0 \<and> T + P \<le> now then set_option c else {}))"

context tpl_restore begin

lemma SignalEvent_high_count:
  assumes i: "in_section mEfiTimerLock s u" and ev: "events u e = Some ev"
  shows "safe (\<lambda>(_, u'). in_section mEfiTimerLock s u' \<and> sig_frame u u' \<and> counts_up {e} u u') (CoreSignalEvent rst (Some e) u)"
proof -
  note d = in_sectionD[OF i]
  have "\<not> held u gEventQueueLock" using tpl_invD(5)[OF d(1)] d(2) by fastforce
  moreover have "TPL_HIGH_LEVEL \<le> Suc (gEfiCurrentTpl u)" using d(2) by simp
  ultimately have "safe (\<lambda>(_, u'). svc_sig u u' \<and> counted e u u') (CoreSignalEvent rst (Some e) u)"
    using SignalEvent_count[OF d(1) _ ev] by (auto elim: safe_mono)
  then show ?thesis
    by (rule safe_mono) (use d(2) in \<open>auto simp: svc_sig_def counted_up intro: in_section_svc[OF i]\<close>)
qed

lemma insert_section_view:
  assumes "in_section mEfiTimerLock s t" and "events t e = Some w" and "\<not> TimerLinked w" and "Type w AND EVT_TIMER \<noteq> 0"
  shows "safe (\<lambda>u'. in_section mEfiTimerLock s u' \<and> timer_view u' = (timer_view t)(e \<mapsto> (TriggerTime w, Period w, True)) \<and>
      count_of u' = count_of t \<and> mEfiCheckTimerEvent u' = mEfiCheckTimerEvent t) (CoreInsertEventTimer e t)"
  using InsertEventTimer_section[OF assms]
    InsertEventTimer_eq[OF in_sectionD(1)[OF assms(1)] in_sectionD(3)[OF assms(1)] assms(2)] assms(2) by simp

lemma rearm_view:
  assumes i: "in_section mEfiTimerLock s u" and ev: "events u e = Some ev" and nl: "\<not> TimerLinked ev"
    and ty: "Type ev AND EVT_TIMER \<noteq> 0"
  shows "safe (\<lambda>u'. in_section mEfiTimerLock s u' \<and> mEfiCheckTimerEvent u' = mEfiCheckTimerEvent u \<and>
      timer_view u' = (timer_view u)(e \<mapsto> expired_view now (TriggerTime ev, Period ev, True)) \<and>
      counts_up (if Period ev \<noteq> 0 \<and> TriggerTime ev + Period ev \<le> now then set_option (mEfiCheckTimerEvent u) else {}) u u')
    (CheckTimers_rearm rst now e u)"
proof -
  note d = in_sectionD[OF i]
  let ?set = "\<lambda>a. set_event e (ev\<lparr>TriggerTime := a\<rparr>) u"
  have st: "in_section mEfiTimerLock s (?set a)" for a
    using core_inv_set_trigger[OF d(1) ev nl, where a = a and b = "Period ev"]
    by (intro in_section_svc[OF i] svc_frame) simp_all
  consider (one) "Period ev = 0" | (later) "Period ev \<noteq> 0" "\<not> TriggerTime ev + Period ev \<le> now"
    | (again) "Period ev \<noteq> 0" "TriggerTime ev + Period ev \<le> now" by blast
  then show ?thesis
  proof cases
    case one
    have "timer_view u = (timer_view u)(e \<mapsto> (TriggerTime ev, 0, False))"
      using ev one nl by (auto simp: timer_view_def fun_eq_iff)
    then show ?thesis using one ev i by (simp add: CheckTimers_rearm_def expired_view_def)
  next
    case later
    have "safe (\<lambda>u'. in_section mEfiTimerLock s u' \<and>
       timer_view u' = (timer_view (?set (TriggerTime ev + Period ev)))(e \<mapsto> (TriggerTime ev + Period ev, Period ev, True)) \<and>
       count_of u' = count_of u \<and> mEfiCheckTimerEvent u' = mEfiCheckTimerEvent u)
      (CoreInsertEventTimer e (?set (TriggerTime ev + Period ev)))"
      using insert_section_view[OF st, of "TriggerTime ev + Period ev" e "ev\<lparr>TriggerTime := TriggerTime ev + Period ev\<rparr>"] nl ty ev
      by simp
    then have "safe (\<lambda>u'. in_section mEfiTimerLock s u' \<and> mEfiCheckTimerEvent u' = mEfiCheckTimerEvent u \<and>
      timer_view u' = (timer_view u)(e \<mapsto> expired_view now (TriggerTime ev, Period ev, True)) \<and>
      counts_up {} u u') (CoreInsertEventTimer e (?set (TriggerTime ev + Period ev)))"
      by (rule safe_mono) (use later ev in \<open>auto simp: expired_view_def next_trigger_def counts_up_def\<close>)
    then show ?thesis using later by (simp add: CheckTimers_rearm_def ev Let_def)
  next
    case again
    let ?t = "?set now"
    have evt: "events ?t e = Some (ev\<lparr>TriggerTime := now\<rparr>)" by simp
    have live: "events ?t c \<noteq> None" if "mEfiCheckTimerEvent u = Some c" for c
      using event_invD(8)[of u c] d(1) that by (auto simp: core_inv_def)
    have sg: "safe (\<lambda>(_, u'). in_section mEfiTimerLock s u' \<and> sig_frame ?t u' \<and>
        counts_up (set_option (mEfiCheckTimerEvent u)) ?t u') (CoreSignalEvent rst (mEfiCheckTimerEvent u) ?t)"
    proof (cases "mEfiCheckTimerEvent u")
      case None
      then show ?thesis using st by (simp add: CoreSignalEvent_def)
    next
      case (Some c)
      then obtain cv where "events ?t c = Some cv" using live by blast
      from SignalEvent_high_count[OF st this] Some show ?thesis by simp
    qed
    have "safe (\<lambda>u'. in_section mEfiTimerLock s u' \<and> mEfiCheckTimerEvent u' = mEfiCheckTimerEvent u \<and>
      timer_view u' = (timer_view u)(e \<mapsto> expired_view now (TriggerTime ev, Period ev, True)) \<and>
      counts_up (set_option (mEfiCheckTimerEvent u)) u u')
      (bind (bind (CoreSignalEvent rst (mEfiCheckTimerEvent u) ?t) (\<lambda>(_, s3). Ret s3)) (CoreInsertEventTimer e))"
      unfolding bind_snd
    proof (rule safe_bind[OF sg])
      fix x assume "case x of (_, u') \<Rightarrow> in_section mEfiTimerLock s u' \<and> sig_frame ?t u' \<and>
        counts_up (set_option (mEfiCheckTimerEvent u)) ?t u'"
      then obtain st' s3 where x: "x = (st', s3)" and i3: "in_section mEfiTimerLock s s3" and f: "sig_frame ?t s3"
        and c: "counts_up (set_option (mEfiCheckTimerEvent u)) ?t s3" by (cases x) auto
      from sig_frame_event[OF f evt] obtain ev3 where e3: "events s3 e = Some ev3" "TriggerTime ev3 = now"
          "Period ev3 = Period ev" "\<not> TimerLinked ev3" "Type ev3 AND EVT_TIMER \<noteq> 0" using nl ty by auto
      have tv: "timer_view s3 = timer_view ?t" by (rule sig_frame_timer_view[OF f])
      have ct: "count_of ?t = count_of u" using ev by simp
      from insert_section_view[OF i3 e3(1,4,5)]
      show "safe (\<lambda>u'. in_section mEfiTimerLock s u' \<and> mEfiCheckTimerEvent u' = mEfiCheckTimerEvent u \<and>
         timer_view u' = (timer_view u)(e \<mapsto> expired_view now (TriggerTime ev, Period ev, True)) \<and>
         counts_up (set_option (mEfiCheckTimerEvent u)) u u') (case x of (_, s1) \<Rightarrow> CoreInsertEventTimer e s1)"
        unfolding x prod.case
        by (rule safe_mono)
          (use again ev c[unfolded counts_up_def] e3 tv sig_frameD(3)[OF f] ct
            in \<open>auto simp: expired_view_def next_trigger_def counts_up_def\<close>)
    qed
    then show ?thesis using again by (simp add: CheckTimers_rearm_def ev Let_def)
  qed
qed

lemma expire_view:
  assumes i: "in_section mEfiTimerLock s u" and e: "e \<in> set (mEfiTimerList u)" and v: "timer_view u e = Some (T, P, l)"
  shows "safe (\<lambda>u'. in_section mEfiTimerLock s u' \<and> mEfiCheckTimerEvent u' = mEfiCheckTimerEvent u \<and>
      timer_view u' = (timer_view u)(e \<mapsto> expired_view now (T, P, True)) \<and>
      counts_up (expire_signals now e (T, P, True) (mEfiCheckTimerEvent u)) u u')
    (CheckTimers_expire rst now e u)"
proof -
  note d = in_sectionD[OF i]
  have ei: "event_inv u" using d(1) by (simp add: core_inv_def)
  obtain ev where ev: "events u e = Some ev" "TimerLinked ev"
    using listedD[OF event_invD(5)[OF ei] e] by blast
  have tp: "TriggerTime ev = T" "Period ev = P" using v ev(1) by (simp_all add: timer_view_def)
  let ?u1 = "remove_timer_state e ev u"
  note r = RemoveTimerLink_eq[OF d(1) ev]
  have i1: "in_section mEfiTimerLock s ?u1"
    using in_section_svc[OF i svc_frame[OF r(2)]] by simp
  have e1: "events ?u1 e = Some (ev\<lparr>TimerLinked := False\<rparr>)" by simp
  have "safe (\<lambda>u'. in_section mEfiTimerLock s u' \<and> mEfiCheckTimerEvent u' = mEfiCheckTimerEvent u \<and>
      timer_view u' = (timer_view u)(e \<mapsto> expired_view now (T, P, True)) \<and>
      counts_up (expire_signals now e (T, P, True) (mEfiCheckTimerEvent u)) u u')
    (bind (CoreSignalEvent rst (Some e) ?u1) (\<lambda>(_, s2). CheckTimers_rearm rst now e s2))"
  proof (rule safe_bind[OF SignalEvent_high_count[OF i1 e1]])
    fix x assume "case x of (_, u') \<Rightarrow> in_section mEfiTimerLock s u' \<and> sig_frame ?u1 u' \<and> counts_up {e} ?u1 u'"
    then obtain st s2 where x: "x = (st, s2)" and i2: "in_section mEfiTimerLock s s2" and f: "sig_frame ?u1 s2"
      and c: "counts_up {e} ?u1 s2" by (cases x) auto
    from sig_frame_event[OF f e1] event_invD(1)[OF ei ev(1)] ev(2)
    obtain ev2 where e2: "events s2 e = Some ev2" "\<not> TimerLinked ev2" "Type ev2 AND EVT_TIMER \<noteq> 0"
      "TriggerTime ev2 = T" "Period ev2 = P"
      using tp by (auto simp: event_ok_def)
    have tv: "timer_view s2 = (timer_view u)(e \<mapsto> (T, P, False))"
      using sig_frame_timer_view[OF f] ev(1) tp by simp
    have chk: "mEfiCheckTimerEvent s2 = mEfiCheckTimerEvent u" using sig_frameD(3)[OF f] by simp
    have cu: "counts_up {e} u s2" using c counts_up_cong(1)[of ?u1 u] ev(1) by simp
    show "safe (\<lambda>u'. in_section mEfiTimerLock s u' \<and> mEfiCheckTimerEvent u' = mEfiCheckTimerEvent u \<and>
      timer_view u' = (timer_view u)(e \<mapsto> expired_view now (T, P, True)) \<and>
      counts_up (expire_signals now e (T, P, True) (mEfiCheckTimerEvent u)) u u')
      (case x of (_, s2) \<Rightarrow> CheckTimers_rearm rst now e s2)"
      unfolding x prod.case
      by (rule safe_mono[OF rearm_view[OF i2 e2(1-3)]])
        (use tv chk counts_up_trans[OF cu] e2(4,5) in \<open>auto simp: expire_signals_def\<close>)
  qed
  then show ?thesis by (simp add: CheckTimers_expire_def r(1))
qed

end

section \<open>Services near the top of the priorities return\<close>

lemma nf_bind: "safe Q m \<Longrightarrow> m \<noteq> NoFuel \<Longrightarrow> (\<And>x. Q x \<Longrightarrow> f x \<noteq> NoFuel) \<Longrightarrow> bind m f \<noteq> NoFuel"
  by (cases m) simp_all

lemma nf_bind_Ret: "m \<noteq> NoFuel \<Longrightarrow> bind m (\<lambda>x. Ret (h x)) \<noteq> NoFuel"
  by (cases m) simp_all

lemma nf_ASSERT [simp]: "ASSERT b k = NoFuel \<longleftrightarrow> b \<and> k = NoFuel"
  by (simp add: ASSERT_def)

lemma nf_deref [simp]: "deref p f = NoFuel \<longleftrightarrow> (\<exists>x. p = Some x \<and> f x = NoFuel)"
  by (cases p) simp_all

lemma nf_bind_eq [simp]: "bind m f = NoFuel \<longleftrightarrow> m = NoFuel \<or> (\<exists>x. m = Ret x \<and> f x = NoFuel)"
  by (cases m) simp_all

lemma nf_walk [simp]: "InsertTimer_walk evs T e xs \<noteq> NoFuel"
  by (induction xs) auto

lemma nf_RemoveNotifyLink [simp]: "RemoveNotifyLink e s \<noteq> NoFuel"
  by (auto simp: RemoveNotifyLink_def)

lemma nf_NotifyEvent [simp]: "CoreNotifyEvent e s \<noteq> NoFuel"
  by (auto simp: CoreNotifyEvent_def ASSERT_LOCKED_def)

lemma nf_SignalMembers [simp]: "NotifySignalMembers g es s \<noteq> NoFuel"
  by (induction es arbitrary: s) auto

lemma nf_steps [simp]:
  "CoreAcquireLock l s \<noteq> NoFuel" "CoreInsertEventTimer e s \<noteq> NoFuel" "RemoveTimerLink e s \<noteq> NoFuel"
  by (auto simp: CoreAcquireLock_def CoreRaiseTpl_def Let_def CoreInsertEventTimer_def ASSERT_LOCKED_def RemoveTimerLink_def)

locale tpl_restore_total = tpl_restore +
  assumes rst_total: "tpl_inv s \<Longrightarrow> t \<le> gEfiCurrentTpl s \<Longrightarrow> nothing_above t s \<Longrightarrow> rst t s \<noteq> NoFuel"
begin

lemma nf_leave:
  assumes "in_section l s u" and "gEfiCurrentTpl s \<le> lock_tpl l" and "nothing_above (gEfiCurrentTpl s) u"
  shows "CoreReleaseLock rst l u \<noteq> NoFuel"
proof -
  note d = in_sectionD[OF assms(1)]
  show ?thesis
    unfolding ReleaseLock_eq[OF d(3)] d(4)
    using assms(2,3) d(2) core_inv_unlocked[OF d(1), of l]
    by (intro rst_total) (simp_all add: core_inv_def nothing_above_def)
qed

lemma nf_leave_sig:
  assumes inv: "core_inv s" and "gEfiCurrentTpl s \<le> lock_tpl l" and "in_sig l s u" and hi: "TPL_HIGH_LEVEL \<le> Suc (gEfiCurrentTpl s)"
  shows "CoreReleaseLock rst l u \<noteq> NoFuel"
proof -
  have i: "in_section l s u" and f: "sig_frame s u" using assms(3) hi by (simp_all add: in_sig_def)
  have "nothing_above (gEfiCurrentTpl s) u"
    using nothing_above_high[OF inv in_sectionD(1)[OF i] hi] sig_frameD(4)[OF f] .
  from nf_leave[OF i assms(2) this] show ?thesis .
qed

lemma nf_NotifySignalList:
  assumes inv: "core_inv s" and nh: "\<not> held s gEventQueueLock" and hi: "TPL_HIGH_LEVEL \<le> Suc (gEfiCurrentTpl s)"
  shows "CoreNotifySignalList rst g s \<noteq> NoFuel"
proof -
  note h = tpl_le_event_lock[OF inv]
  have a: "CoreAcquireLock gEventQueueLock s = Ret (locked gEventQueueLock s)"
    using inv h nh by (intro AcquireLock_eq) (simp_all add: core_inv_def)
  let ?u = "locked gEventQueueLock s"
  note i = in_section_locked[OF inv h]
  obtain s' where m: "NotifySignalMembers g (gEventSignalQueue ?u) ?u = Ret s'" "core_inv s'"
      "locks s' = locks ?u" "gEfiCurrentTpl s' = gEfiCurrentTpl ?u" "sig_frame ?u s'"
    using NotifySignalMembers_ok[OF in_sectionD(1)[OF i] in_sectionD(3)[OF i] subset_refl] by blast
  have "in_sig gEventQueueLock s s'"
    using in_sig_step[OF in_sig_locked[OF inv h], of s'] svc_frame[OF m(2,4,3)] m(5) by simp
  from nf_leave_sig[OF inv h this hi] show ?thesis
    unfolding CoreNotifySignalList_def CoreAcquireEventLock_def CoreReleaseEventLock_def a bind.simps m(1) .
qed

lemma nf_Signal_group:
  assumes inv: "core_inv s" and nh: "\<not> held s gEventQueueLock" and hi: "TPL_HIGH_LEVEL \<le> Suc (gEfiCurrentTpl s)"
    and i: "in_section gEventQueueLock s u" and na: "nothing_above (gEfiCurrentTpl s) u"
  shows "Signal_group rst e u \<noteq> NoFuel"
  unfolding Signal_group_def CoreReleaseEventLock_def CoreAcquireEventLock_def
proof (rule nf_bind[OF safe_leave[OF inv nh tpl_le_event_lock[OF inv] i] nf_leave[OF i tpl_le_event_lock[OF inv] na]])
  fix s1 assume s1: "svc s s1"
  note d = svcD[OF s1]
  have n1: "\<not> held s1 gEventQueueLock" using d(3) nh by simp
  have h1: "TPL_HIGH_LEVEL \<le> Suc (gEfiCurrentTpl s1)" using d(2) hi by simp
  have "bind (CoreNotifySignalList rst g s1) (CoreAcquireLock gEventQueueLock) \<noteq> NoFuel" for g
    by (rule nf_bind[OF NotifySignalList_safe[OF d(1) n1] nf_NotifySignalList[OF d(1) n1 h1]]) simp
  then show "deref (events s1 e) (\<lambda>ev. bind (CoreNotifySignalList rst (EventGroup ev) s1)
      (CoreAcquireLock gEventQueueLock)) \<noteq> NoFuel"
    by (cases "events s1 e") simp_all
qed

lemma nf_SignalEvent:
  assumes inv: "core_inv s" and nh: "\<not> held s gEventQueueLock" and ev: "events s e = Some ev"
    and hi: "TPL_HIGH_LEVEL \<le> Suc (gEfiCurrentTpl s)"
  shows "CoreSignalEvent rst (Some e) s \<noteq> NoFuel"
proof -
  note h = tpl_le_event_lock[OF inv]
  have a: "CoreAcquireLock gEventQueueLock s = Ret (locked gEventQueueLock s)"
    using inv h nh by (intro AcquireLock_eq) (simp_all add: core_inv_def)
  let ?ev1 = "ev\<lparr>SignalCount := SignalCount ev + 1\<rparr>" and ?u = "locked gEventQueueLock s"
  let ?u1 = "set_event e ?ev1 ?u"
  have "core_inv ?u1" using core_inv_count[OF core_inv_locked[OF inv h], of e ev] ev by simp
  then have i1: "in_sig gEventQueueLock s ?u1"
    using ev by (intro in_sig_step[OF in_sig_locked[OF inv h]] svc_frame sig_frame_count) (simp_all add: set_event_def)
  then have i2: "in_section gEventQueueLock s ?u1" by (simp add: in_sig_def)
  have na: "nothing_above (gEfiCurrentTpl s) ?u1"
    by (rule nothing_above_same[OF inv]) (simp_all add: set_event_def)
  have mark: "Signal_mark rst e ?u \<noteq> NoFuel"
    using nf_Signal_group[OF inv nh hi i2 na] ev by (auto simp: Signal_mark_def Let_def)
  have "bind (Signal_mark rst e ?u) (\<lambda>s2. bind (CoreReleaseLock rst gEventQueueLock s2) (\<lambda>s3. Ret (EFI_SUCCESS, s3))) \<noteq> NoFuel"
    by (rule nf_bind[OF Signal_mark_safe[OF inv nh ev] mark]) (rule nf_bind_Ret, rule nf_leave_sig[OF inv h _ hi])
  then show ?thesis
    using ev by (simp add: CoreSignalEvent_def a CoreAcquireEventLock_def CoreReleaseEventLock_def)
qed

lemma nf_SignalEvent_section:
  assumes i: "in_section mEfiTimerLock s u" and live: "\<And>e. p = Some e \<Longrightarrow> events u e \<noteq> None"
  shows "CoreSignalEvent rst p u \<noteq> NoFuel"
proof (cases p)
  case (Some e)
  note d = in_sectionD[OF i]
  have "\<not> held u gEventQueueLock" using tpl_invD(5)[OF d(1)] d(2) by fastforce
  moreover have "TPL_HIGH_LEVEL \<le> Suc (gEfiCurrentTpl u)" using d(2) by simp
  ultimately show ?thesis using nf_SignalEvent[OF d(1)] live[OF Some] Some by blast
qed (simp add: CoreSignalEvent_def)

lemma nf_expire:
  assumes i: "in_section mEfiTimerLock s u" and e: "e \<in> set (mEfiTimerList u)"
  shows "CheckTimers_expire rst now e u \<noteq> NoFuel"
proof -
  note d = in_sectionD[OF i]
  have ei: "event_inv u" using d(1) by (simp add: core_inv_def)
  obtain ev where ev: "events u e = Some ev" "TimerLinked ev"
    using listedD[OF event_invD(5)[OF ei] e] by blast
  let ?u1 = "remove_timer_state e ev u"
  note r = RemoveTimerLink_eq[OF d(1) ev]
  have i1: "in_section mEfiTimerLock s ?u1"
    using in_section_svc[OF i svc_frame[OF r(2)]] by simp
  have e1: "events ?u1 e = Some (ev\<lparr>TimerLinked := False\<rparr>)" by simp
  have "bind (CoreSignalEvent rst (Some e) ?u1) (\<lambda>(_, s2). CheckTimers_rearm rst now e s2) \<noteq> NoFuel"
  proof (rule nf_bind[OF SignalEvent_high_count[OF i1 e1] nf_SignalEvent_section[OF i1]])
    fix x assume "case x of (_, u') \<Rightarrow> in_section mEfiTimerLock s u' \<and> sig_frame ?u1 u' \<and> counts_up {e} ?u1 u'"
    then obtain st s2 where x: "x = (st, s2)" and i2: "in_section mEfiTimerLock s s2" and f: "sig_frame ?u1 s2"
      by (cases x) auto
    from sig_frame_event[OF f e1] obtain ev2 where e2: "events s2 e = Some ev2" "\<not> TimerLinked ev2" by auto
    let ?t = "set_event e (ev2\<lparr>TriggerTime := now\<rparr>) s2"
    have it: "in_section mEfiTimerLock s ?t"
      using core_inv_set_trigger[OF in_sectionD(1)[OF i2] e2, where a = now and b = "Period ev2"]
      by (intro in_section_svc[OF i2] svc_frame) simp_all
    have live: "events ?t c \<noteq> None" if "mEfiCheckTimerEvent s2 = Some c" for c
      using event_invD(8)[of s2 c] in_sectionD(1)[OF i2] that by (auto simp: core_inv_def)
    have "bind (CoreSignalEvent rst (mEfiCheckTimerEvent s2) ?t) (\<lambda>(_, s1). Ret s1) \<noteq> NoFuel"
      using nf_SignalEvent_section[OF it live] by (simp add: split_def nf_bind_Ret)
    then have "CheckTimers_rearm rst now e s2 \<noteq> NoFuel"
      using e2(1) by (cases "CoreSignalEvent rst (mEfiCheckTimerEvent s2) ?t") (auto simp: CheckTimers_rearm_def Let_def)
    then show "(case x of (_, s2) \<Rightarrow> CheckTimers_rearm rst now e s2) \<noteq> NoFuel" by (simp add: x)
  qed (use ev in auto)
  then show ?thesis by (simp add: CheckTimers_expire_def r(1))
qed

end

section \<open>The loop of CoreCheckTimers\<close>

text \<open>Where a timer is when no timer is due any more.\<close>

definition settled_view :: "u64 \<Rightarrow> u64 \<times> u64 \<times> bool \<Rightarrow> u64 \<times> u64 \<times> bool" where
  "settled_view now = (\<lambda>(T, P, l).
     if \<not> l \<or> T > now then (T, P, l) else if P = 0 then (T, 0, False)
     else (if T + P \<le> now then now + P else T + P, P, True))"

definition due :: "u64 \<Rightarrow> (nat \<Rightarrow> (u64 \<times> u64 \<times> bool) option) \<Rightarrow> nat set" where
  "due now tv = {x. \<exists>T P. tv x = Some (T, P, True) \<and> T \<le> now}"

text \<open>A period has passed again since the timer was due: the check event is signalled too.\<close>

definition due_again :: "u64 \<Rightarrow> (nat \<Rightarrow> (u64 \<times> u64 \<times> bool) option) \<Rightarrow> bool" where
  "due_again now tv \<longleftrightarrow> (\<exists>x T P. tv x = Some (T, P, True) \<and> T \<le> now \<and> P \<noteq> 0 \<and> T + P \<le> now)"

definition no_wrap :: "u64 \<Rightarrow> (nat \<Rightarrow> (u64 \<times> u64 \<times> bool) option) \<Rightarrow> bool" where
  "no_wrap now tv \<longleftrightarrow> (\<forall>x T P. tv x = Some (T, P, True) \<longrightarrow> P \<noteq> 0 \<longrightarrow> now < now + P)"

definition weight :: "u64 \<Rightarrow> (u64 \<times> u64 \<times> bool) option \<Rightarrow> nat" where
  "weight now v = (case v of Some (T, P, True) \<Rightarrow>
     if T \<le> now then (if P \<noteq> 0 \<and> T + P \<le> now then 2 else 1) else 0 | _ \<Rightarrow> 0)"

definition work :: "u64 \<Rightarrow> nat \<Rightarrow> (nat \<Rightarrow> (u64 \<times> u64 \<times> bool) option) \<Rightarrow> nat" where
  "work now N tv = (\<Sum>x < N. weight now (tv x))"

lemma weight_expired:
  "T \<le> now \<Longrightarrow> (P \<noteq> 0 \<Longrightarrow> now < now + P) \<Longrightarrow>
     weight now (Some (expired_view now (T, P, True))) < weight now (Some (T, P, True))"
  by (auto simp: weight_def expired_view_def next_trigger_def not_le split: if_splits)

lemma work_expired:
  assumes "tv e = Some (T, P, True)" and "T \<le> now" and "e < N" and "no_wrap now tv"
  shows "work now N (tv(e \<mapsto> expired_view now (T, P, True))) < work now N tv"
  unfolding work_def
proof (rule sum_strict_mono_ex1)
  have "weight now (Some (expired_view now (T, P, True))) < weight now (Some (T, P, True))"
    using weight_expired assms(1,2,4) by (auto simp: no_wrap_def)
  then show "\<forall>x\<in>{..<N}. weight now ((tv(e \<mapsto> expired_view now (T, P, True))) x) \<le> weight now (tv x)"
    and "\<exists>x\<in>{..<N}. weight now ((tv(e \<mapsto> expired_view now (T, P, True))) x) < weight now (tv x)"
    using assms(1,3) by auto
qed simp

lemma settled_expired:
  assumes "T \<le> now" and "P \<noteq> 0 \<longrightarrow> now < now + P"
  shows "settled_view now (expired_view now (T, P, True)) = settled_view now (T, P, True)"
  using assms by (auto simp: settled_view_def expired_view_def next_trigger_def not_le not_less)

lemma no_wrap_expired:
  "tv e = Some (T, P, True) \<Longrightarrow> no_wrap now tv \<Longrightarrow> no_wrap now (tv(e \<mapsto> expired_view now (T, P, True)))"
  by (auto simp: no_wrap_def expired_view_def split: if_splits)

definition loop_signals :: "u64 \<Rightarrow> (nat \<Rightarrow> (u64 \<times> u64 \<times> bool) option) \<Rightarrow> ptr \<Rightarrow> nat set" where
  "loop_signals now tv c = due now tv \<union> (if due_again now tv then set_option c else {})"

lemma loop_signals_expired:
  assumes "tv e = Some (T, P, True)" and "T \<le> now" and "no_wrap now tv"
  shows "expire_signals now e (T, P, True) c \<union> loop_signals now (tv(e \<mapsto> expired_view now (T, P, True))) c =
    loop_signals now tv c"
proof -
  let ?tv = "tv(e \<mapsto> expired_view now (T, P, True))"
  have w: "P \<noteq> 0 \<longrightarrow> now < now + P" using assms(1,3) by (auto simp: no_wrap_def)
  have d: "insert e (due now ?tv) = due now tv"
    using assms(1,2) by (auto simp: due_def expired_view_def next_trigger_def split: if_splits)
  have "due_again now tv \<longleftrightarrow> P \<noteq> 0 \<and> T + P \<le> now \<or> due_again now ?tv"
  proof -
    have "\<not> (\<exists>T' P'. expired_view now (T, P, True) = (T', P', True) \<and> T' \<le> now \<and> P' \<noteq> 0 \<and> T' + P' \<le> now)"
      using w by (auto simp: expired_view_def next_trigger_def split: if_splits)
    then have 2: "due_again now ?tv \<longleftrightarrow> (\<exists>x T P. x \<noteq> e \<and> tv x = Some (T, P, True) \<and> T \<le> now \<and> P \<noteq> 0 \<and> T + P \<le> now)"
      by (auto simp: due_again_def)
    have "due_again now tv \<longleftrightarrow> P \<noteq> 0 \<and> T + P \<le> now \<or>
        (\<exists>x T P. x \<noteq> e \<and> tv x = Some (T, P, True) \<and> T \<le> now \<and> P \<noteq> 0 \<and> T + P \<le> now)" (is "?l \<longleftrightarrow> ?a \<or> ?b")
    proof
      assume ?l
      then obtain x T' P' where x: "tv x = Some (T', P', True)" "T' \<le> now" "P' \<noteq> 0" "T' + P' \<le> now"
        by (auto simp: due_again_def)
      show "?a \<or> ?b" using x assms(1) by (cases "x = e") auto
    qed (use assms(1,2) in \<open>auto simp: due_again_def\<close>)
    then show ?thesis unfolding 2 .
  qed
  then show ?thesis using d by (auto simp: expire_signals_def loop_signals_def)
qed

lemma nothing_due:
  assumes ei: "event_inv u" and h: "mEfiTimerList u = [] \<or> now < trigger_of (events u) (hd (mEfiTimerList u))"
  shows "due now (timer_view u) = {}" "\<not> due_again now (timer_view u)"
    "timer_view u x = Some v \<Longrightarrow> settled_view now v = v"
proof -
  have *: "now < T" if v: "timer_view u x = Some (T, P, True)" for x T P
  proof -
    obtain ev where ev: "events u x = Some ev" "TriggerTime ev = T" "TimerLinked ev"
      using v by (auto simp: timer_view_def)
    then have m: "x \<in> set (mEfiTimerList u)" using listed_mem[OF event_invD(5)[OF ei] ev(1)] by simp
    then obtain e l where l: "mEfiTimerList u = e # l" by (cases "mEfiTimerList u") auto
    have "trigger_of (events u) e \<le> trigger_of (events u) x"
      using event_invD(7)[OF ei] m by (auto simp: l)
    then show ?thesis using h ev by (auto simp: l trigger_of_def)
  qed
  show "due now (timer_view u) = {}" using * by (force simp: due_def)
  show "\<not> due_again now (timer_view u)" using * by (force simp: due_again_def)
  show "timer_view u x = Some v \<Longrightarrow> settled_view now v = v"
    using * by (cases v) (fastforce simp: settled_view_def)
qed

context tpl_restore_total begin

lemma CheckTimers_loop_total:
  assumes "in_section mEfiTimerLock s u" and "no_wrap now (timer_view u)" and "\<forall>x. events u x \<noteq> None \<longrightarrow> x < N"
    and "work now N (timer_view u) < k"
  shows "\<exists>u'. CheckTimers_loop rst k now u = Ret u' \<and> in_section mEfiTimerLock s u' \<and>
    timer_view u' = map_option (settled_view now) \<circ> timer_view u \<and>
    counts_up (loop_signals now (timer_view u) (mEfiCheckTimerEvent u)) u u'"
  using assms
proof (induction k arbitrary: u)
  case (Suc k)
  note i = Suc.prems(1)
  have ei: "event_inv u" using in_sectionD(1)[OF i] by (simp add: core_inv_def)
  show ?case
  proof (cases "mEfiTimerList u = [] \<or> now < trigger_of (events u) (hd (mEfiTimerList u))")
    case True
    note n = nothing_due[OF ei True]
    have "timer_view u = map_option (settled_view now) \<circ> timer_view u"
      using n(3) by (auto simp: fun_eq_iff comp_def map_option_case split: option.splits)
    moreover have "CheckTimers_loop rst (Suc k) now u = Ret u"
    proof (cases "mEfiTimerList u")
      case (Cons e l)
      then show ?thesis using True listedD[OF event_invD(5)[OF ei], of e] by (auto simp: trigger_of_def)
    qed simp
    ultimately show ?thesis using i n(1,2) by (simp add: loop_signals_def)
  next
    case False
    then obtain e l where l: "mEfiTimerList u = e # l" by (cases "mEfiTimerList u") auto
    obtain ev where ev: "events u e = Some ev" "TimerLinked ev"
      using listedD[OF event_invD(5)[OF ei], of e] l by auto
    have T: "TriggerTime ev \<le> now" using False l ev(1) by (simp add: trigger_of_def not_less)
    let ?T = "TriggerTime ev" and ?P = "Period ev" and ?tv = "timer_view u" and ?c = "mEfiCheckTimerEvent u"
    have v: "?tv e = Some (?T, ?P, True)" using ev by (simp add: timer_view_event)
    have m: "e \<in> set (mEfiTimerList u)" by (simp add: l)
    obtain u1 where u1: "CheckTimers_expire rst now e u = Ret u1" "in_section mEfiTimerLock s u1"
        "mEfiCheckTimerEvent u1 = ?c" "timer_view u1 = ?tv(e \<mapsto> expired_view now (?T, ?P, True))"
        "counts_up (expire_signals now e (?T, ?P, True) ?c) u u1"
      using expire_view[OF i m v, of now] nf_expire[OF i m, of now] by (cases "CheckTimers_expire rst now e u") auto
    have "\<forall>x. events u1 x \<noteq> None \<longrightarrow> x < N"
    proof (intro allI impI)
      fix x assume "events u1 x \<noteq> None"
      then have "timer_view u1 x \<noteq> None" by (simp add: timer_view_def)
      then have "events u x \<noteq> None" using u1(4) ev(1) by (auto simp: timer_view_def split: if_splits)
      then show "x < N" using Suc.prems(3) by blast
    qed
    moreover have "e < N" using Suc.prems(3) ev(1) by auto
    then have "work now N (timer_view u1) < k"
      using work_expired[OF v T _ Suc.prems(2)] Suc.prems(4) u1(4) by fastforce
    moreover have "no_wrap now (timer_view u1)" using no_wrap_expired[OF v Suc.prems(2)] u1(4) by simp
    ultimately obtain u' where u': "CheckTimers_loop rst k now u1 = Ret u'" "in_section mEfiTimerLock s u'"
        "timer_view u' = map_option (settled_view now) \<circ> timer_view u1"
        "counts_up (loop_signals now (timer_view u1) ?c) u1 u'"
      using Suc.IH[OF u1(2)] unfolding u1(3) by blast
    have w: "?P \<noteq> 0 \<longrightarrow> now < now + ?P" using v Suc.prems(2) by (auto simp: no_wrap_def)
    have "timer_view u' = map_option (settled_view now) \<circ> ?tv"
      using u'(3) u1(4) v settled_expired[OF T w] by (auto simp: fun_eq_iff)
    moreover have "counts_up (loop_signals now ?tv ?c) u u'"
      using counts_up_trans[OF u1(5) u'(4)] loop_signals_expired[OF v T Suc.prems(2)] u1(4) by simp
    ultimately show ?thesis using u'(1,2) u1(1) T ev(1) by (auto simp: l not_less comp_def)
  qed
qed simp

end

section \<open>Programming a timer\<close>

text \<open>What \<open>SetTimer\<close> makes of its arguments at the system time \<open>now\<close>.\<close>

definition timer_programmed :: "u64 \<Rightarrow> timer_delay \<Rightarrow> u64 \<Rightarrow> u64 \<times> u64 \<times> bool" where
  "timer_programmed now Ty Trigger =
     (let T = (if Ty = TimerPeriodic \<and> Trigger = 0 then DEFAULT_TIMER_TICK_DURATION else Trigger)
      in (now + T, if Ty = TimerPeriodic then T else 0, True))"

definition armed_event :: "u64 \<Rightarrow> timer_delay \<Rightarrow> u64 \<Rightarrow> ievent \<Rightarrow> ievent" where
  "armed_event now Ty Trigger ev = (case timer_programmed now Ty Trigger of (T, P, l) \<Rightarrow>
     ev\<lparr>TriggerTime := T, Period := P, TimerLinked := l\<rparr>)"

context tpl_restore begin

lemma SetTimer_arm_view:
  assumes i: "in_section mEfiTimerLock s u" and ev: "events u e = Some ev" and nl: "\<not> TimerLinked ev"
    and p0: "Period ev = 0" and d: "Ty = TimerPeriodic \<or> Trigger \<noteq> 0"
  shows "safe (\<lambda>u'. timer_view u' = (timer_view u)(e \<mapsto> timer_programmed (mEfiSystemTime u) Ty Trigger) \<and>
      count_of u' = count_of u \<and> gEventPending u' = gEventPending u \<and> gPendingTimerDuration u' = gPendingTimerDuration u \<and>
      gEfiCurrentTpl u' = gEfiCurrentTpl u \<and> mEfiSystemTime u' = mEfiSystemTime u \<and> core.more u' = core.more u \<and>
      events u' = (events u)(e \<mapsto> armed_event (mEfiSystemTime u) Ty Trigger ev) \<and>
      mEfiCheckTimerEvent u' = mEfiCheckTimerEvent u \<and> gIdleLoopEvent u' = gIdleLoopEvent u)
    (SetTimer_arm rst e Ty Trigger u)"
proof -
  note du = in_sectionD[OF i]
  define T where "T = (if Ty = TimerPeriodic \<and> Trigger = 0 then DEFAULT_TIMER_TICK_DURATION else Trigger)"
  have T0: "T \<noteq> 0" using d by (auto simp: T_def)
  have tp: "timer_programmed now Ty Trigger = (now + T, if Ty = TimerPeriodic then T else 0, True)" for now
    by (simp add: timer_programmed_def T_def)
  have ae: "armed_event now Ty Trigger ev = ev\<lparr>TriggerTime := now + T, Period := (if Ty = TimerPeriodic then T else 0),
      TimerLinked := True\<rparr>" for now by (simp add: armed_event_def tp)
  have "\<not> held u mEfiSystemTimeLock" using tpl_invD(5)[OF du(1)] du(2) by fastforce
  note now = CurrentSystemTime_safe[OF du(1) this]
  show ?thesis
    unfolding SetTimer_arm_def T_def[symmetric] Let_def if_not_P[OF T0]
  proof (rule safe_bind[OF now])
    fix x assume "case x of (t, s') \<Rightarrow> same_state u s' \<and> t = mEfiSystemTime u"
    then obtain s1 where x: "x = (mEfiSystemTime u, s1)" and ss: "same_state u s1" by (cases x) auto
    have i1: "in_section mEfiTimerLock s s1" using in_section_svc[OF i same_stateD(1)[OF ss]] .
    have eq: "s1 = u\<lparr>locks := locks s1\<rparr>" using ss by (simp add: same_state_def)
    have ev1: "events s1 e = Some ev" using ev same_stateD(2)[OF ss] by simp
    let ?v = "ev\<lparr>TriggerTime := mEfiSystemTime u + T, Period := (if Ty = TimerPeriodic then T else Period ev)\<rparr>"
    let ?s2 = "set_event e ?v s1"
    have "core_inv ?s2" by (rule core_inv_set_trigger[OF in_sectionD(1)[OF i1] ev1 nl])
    then have i2: "in_section mEfiTimerLock s ?s2" by (intro in_section_svc[OF i1 svc_frame]) simp_all
    have ins: "CoreInsertEventTimer e ?s2 = Ret (insert_timer_state e ?v ?s2)"
      by (rule InsertEventTimer_eq[OF in_sectionD(1)[OF i2] in_sectionD(3)[OF i2]]) simp
    have "timer_view s1 = timer_view u" "count_of s1 = count_of u" using ss by (simp_all add: timer_view_def count_of_def same_stateD(2) fun_eq_iff)
    moreover have "gEventPending s1 = gEventPending u" "gPendingTimerDuration s1 = gPendingTimerDuration u"
        "gEfiCurrentTpl s1 = gEfiCurrentTpl u" "mEfiSystemTime s1 = mEfiSystemTime u" "core.more s1 = core.more u"
        "mEfiCheckTimerEvent s1 = mEfiCheckTimerEvent u" "gIdleLoopEvent s1 = gIdleLoopEvent u" "events s1 = events u"
      by (subst eq, simp)+
    ultimately show "safe (\<lambda>u'. timer_view u' = (timer_view u)(e \<mapsto> timer_programmed (mEfiSystemTime u) Ty Trigger) \<and>
        count_of u' = count_of u \<and> gEventPending u' = gEventPending u \<and> gPendingTimerDuration u' = gPendingTimerDuration u \<and>
        gEfiCurrentTpl u' = gEfiCurrentTpl u \<and> mEfiSystemTime u' = mEfiSystemTime u \<and> core.more u' = core.more u \<and>
      events u' = (events u)(e \<mapsto> armed_event (mEfiSystemTime u) Ty Trigger ev) \<and>
      mEfiCheckTimerEvent u' = mEfiCheckTimerEvent u \<and> gIdleLoopEvent u' = gIdleLoopEvent u)
      (case x of (now, s1) \<Rightarrow> deref (events s1 e) (\<lambda>ev. bind (CoreInsertEventTimer e (set_event e
          (ev\<lparr>TriggerTime := now + T, Period := if Ty = TimerPeriodic then T else Period ev\<rparr>) s1)) Ret))"
      using ev1 p0 by (simp add: x ins tp ae) (simp add: insert_timer_state_def set_event_def)
  qed
qed

lemma SetTimer_exact:
  assumes inv: "core_inv s" and nh: "\<not> held s mEfiTimerLock" and h: "gEfiCurrentTpl s < TPL_HIGH_LEVEL"
    and ev: "events s e = Some ev" and ty: "Type ev AND EVT_TIMER \<noteq> 0"
    and d: "Ty = TimerPeriodic \<or> Ty = TimerRelative \<and> Trigger \<noteq> 0"
  shows "safe (\<lambda>(st, s'). st = EFI_SUCCESS \<and> svc s s' \<and>
      timer_view s' = (timer_view s)(e \<mapsto> timer_programmed (mEfiSystemTime s) Ty Trigger) \<and> count_of s' = count_of s \<and>
      core.more s' = core.more s \<and> events s' = (events s)(e \<mapsto> armed_event (mEfiSystemTime s) Ty Trigger ev) \<and>
      mEfiCheckTimerEvent s' = mEfiCheckTimerEvent s \<and> gIdleLoopEvent s' = gIdleLoopEvent s)
    (CoreSetTimer rst (Some e) Ty Trigger s)"
proof -
  have ok: "timer_args_ok s (Some e) Ty" using ev ty d by (auto simp: timer_args_ok_def)
  have nc: "Ty \<noteq> TimerCancel" and d': "Ty = TimerPeriodic \<or> Trigger \<noteq> 0" using d by auto
  note en = SetTimer_enter[OF inv nh h ev ok]
  let ?l = mEfiTimerLock
  let ?u = "stop_timer e ev (locked ?l s)"
  note i = en(2)
  have h': "gEfiCurrentTpl s \<le> lock_tpl ?l" using h by simp
  let ?v = "ev\<lparr>TimerLinked := False, TriggerTime := 0, Period := 0\<rparr>"
  have evu: "events ?u e = Some ?v" by simp
  have tu: "(timer_view ?u)(e \<mapsto> w) = (timer_view s)(e \<mapsto> w)" "count_of ?u = count_of s" for w
    using ev by (auto simp: timer_view_def count_of_def fun_eq_iff locked_def)
  have us: "mEfiSystemTime ?u = mEfiSystemTime s" "gEventPending ?u = gEventPending s"
    "gPendingTimerDuration ?u = gPendingTimerDuration s" "core.more ?u = core.more s" "mEfiCheckTimerEvent ?u = mEfiCheckTimerEvent s" "gIdleLoopEvent ?u = gIdleLoopEvent s"
    "(events ?u)(e \<mapsto> armed_event now Ty Trigger ?v) = (events s)(e \<mapsto> armed_event now Ty Trigger ev)" for now
    by (simp_all add: stop_timer_def set_event_def locked_def armed_event_def split: prod.split)
  have "safe (\<lambda>(st, s'). st = EFI_SUCCESS \<and> svc s s' \<and>
      timer_view s' = (timer_view s)(e \<mapsto> timer_programmed (mEfiSystemTime s) Ty Trigger) \<and> count_of s' = count_of s \<and>
      core.more s' = core.more s \<and> events s' = (events s)(e \<mapsto> armed_event (mEfiSystemTime s) Ty Trigger ev) \<and>
      mEfiCheckTimerEvent s' = mEfiCheckTimerEvent s \<and> gIdleLoopEvent s' = gIdleLoopEvent s)
    (bind (SetTimer_arm rst e Ty Trigger ?u) (\<lambda>s4. bind (CoreReleaseLock rst ?l s4) (\<lambda>s5. Ret (EFI_SUCCESS, s5))))"
  proof (rule safe_bind[OF safe_conj[OF SetTimer_arm_safe[OF i evu] SetTimer_arm_view[OF i evu _ _ d']]])
    fix s4 assume s4: "in_section ?l s s4 \<and> (timer_view s4 = (timer_view ?u)(e \<mapsto> timer_programmed (mEfiSystemTime ?u) Ty Trigger) \<and>
      count_of s4 = count_of ?u \<and> gEventPending s4 = gEventPending ?u \<and> gPendingTimerDuration s4 = gPendingTimerDuration ?u \<and>
      gEfiCurrentTpl s4 = gEfiCurrentTpl ?u \<and> mEfiSystemTime s4 = mEfiSystemTime ?u \<and> core.more s4 = core.more ?u \<and>
      events s4 = (events ?u)(e \<mapsto> armed_event (mEfiSystemTime ?u) Ty Trigger ?v) \<and>
      mEfiCheckTimerEvent s4 = mEfiCheckTimerEvent ?u \<and> gIdleLoopEvent s4 = gIdleLoopEvent ?u)"
    have i4: "in_section ?l s s4" using s4 by blast
    have na: "nothing_above (gEfiCurrentTpl s) s4"
      by (rule nothing_above_same[OF inv]) (use s4 us in simp_all)
    show "safe (\<lambda>(st, s'). st = EFI_SUCCESS \<and> svc s s' \<and>
        timer_view s' = (timer_view s)(e \<mapsto> timer_programmed (mEfiSystemTime s) Ty Trigger) \<and> count_of s' = count_of s \<and>
      core.more s' = core.more s \<and> events s' = (events s)(e \<mapsto> armed_event (mEfiSystemTime s) Ty Trigger ev) \<and>
      mEfiCheckTimerEvent s' = mEfiCheckTimerEvent s \<and> gIdleLoopEvent s' = gIdleLoopEvent s)
      (bind (CoreReleaseLock rst ?l s4) (\<lambda>s5. Ret (EFI_SUCCESS, s5)))"
    proof (rule safe_bind[OF safe_conj[OF safe_leave[OF inv nh h' i4] safe_leave_quiet[OF i4 h' na]]])
      fix s5 assume s5: "svc s s5 \<and> s5 = (unlocked ?l s4)\<lparr>gEfiCurrentTpl := gEfiCurrentTpl s\<rparr>"
      have "timer_view s5 = timer_view s4" "count_of s5 = count_of s4" "core.more s5 = core.more s4"
          "events s5 = events s4" "mEfiCheckTimerEvent s5 = mEfiCheckTimerEvent s4" "gIdleLoopEvent s5 = gIdleLoopEvent s4"
        using conjunct2[OF s5] by (simp_all add: timer_view_def count_of_def unlocked_def fun_eq_iff)
      then show "safe (\<lambda>(st, s'). st = EFI_SUCCESS \<and> svc s s' \<and>
        timer_view s' = (timer_view s)(e \<mapsto> timer_programmed (mEfiSystemTime s) Ty Trigger) \<and> count_of s' = count_of s \<and>
      core.more s' = core.more s \<and> events s' = (events s)(e \<mapsto> armed_event (mEfiSystemTime s) Ty Trigger ev) \<and>
      mEfiCheckTimerEvent s' = mEfiCheckTimerEvent s \<and> gIdleLoopEvent s' = gIdleLoopEvent s)
        (Ret (EFI_SUCCESS, s5))" using s4 conjunct1[OF s5] us by (simp add: tu)
    qed
  qed (use ty in simp_all)
  then show ?thesis unfolding en(1) using nc by simp
qed

end

end
