(* ===== verification/EventClient.thy ===== *)
theory EventClient
  imports EventOrder EventExpiry
begin

text \<open>
  The notification functions of the harness as an instance of \<open>notify_client\<close>, and the two sides of
  \<open>CoreCheckTimers\<close>: it settles every expired timer when no period wraps, and never returns when a
  due timer's period does.
\<close>

section \<open>The notification functions of the harness\<close>

text \<open>
  A notification function of the harness is the empty function (number 0, \<open>DummyDhcp6Notify\<close> of
  the test driver) or a mock's callback that lets time pass (number \<open>f\<close>: \<open>f\<close> microseconds).
\<close>

definition harness_notify :: "'x core_scheme client" where
  "harness_notify rst f e ctx s = (if f = 0 then Ret s else MockTimerAdvance rst (of_nat f) s)"

lemma harness_client: "notify_client (harness_notify :: 'x core_scheme client)"
proof
  fix rst :: "'x core_scheme restore" and s :: "'x core_scheme" and f e ctx
  assume r: "tpl_restore rst" and inv: "core_inv s" and t: "gEfiCurrentTpl s < TPL_HIGH_LEVEL"
    and h: "\<forall>l. held s l \<longrightarrow> lock_tpl l < gEfiCurrentTpl s"
  have "\<not> held s mEfiSystemTimeLock" "\<not> held s gEventQueueLock"
    using spec[OF h, of mEfiSystemTimeLock] spec[OF h, of gEventQueueLock] t by simp_all
  then have "safe (svc s) (MockTimerAdvance rst d s)" for d
    using tpl_restore.MockTimerAdvance100ns_safe[OF r inv] by (simp add: MockTimerAdvance_def)
  then have "safe (\<lambda>s'. core_inv s' \<and> gEfiCurrentTpl s' = gEfiCurrentTpl s \<and> locks_kept s s') (MockTimerAdvance rst d s)" for d
    unfolding svc_def .
  moreover have "locks_kept s s" by (simp add: locks_kept_def)
  ultimately show "safe (\<lambda>s'. core_inv s' \<and> gEfiCurrentTpl s' = gEfiCurrentTpl s \<and> locks_kept s s') (harness_notify rst f e ctx s)"
    using inv unfolding harness_notify_def by simp
qed

interpretation harness: notify_client harness_notify
  by (rule harness_client)

context notify_client begin

lemma restore_total: "tpl_restore_total (CoreRestoreTpl cl (Suc (Suc n)))"
  by (intro tpl_restore_total.intro restore_contract tpl_restore_total_axioms.intro)
    (simp add: Restore_quiet_eq del: CoreRestoreTpl.simps)

end

sublocale notify_client \<subseteq> total: tpl_restore_total "CoreRestoreTpl cl (Suc (Suc n))" for n
  by (rule restore_total)

section \<open>All expired timers are handled\<close>

lemma work_le: 
  assumes "event_inv s"
  shows "work now (next_event s) (timer_view s) \<le> 2 * length (mEfiTimerList s)"
proof -
  have 0: "weight now (timer_view s x) = 0" if "x \<notin> set (mEfiTimerList s)" for x
    using listed_mem[OF event_invD(5)[OF assms]] that
    by (auto simp: weight_def timer_view_def split: option.splits bool.splits)
  have "work now (next_event s) (timer_view s) = (\<Sum>x\<in>{..<next_event s} \<inter> set (mEfiTimerList s). weight now (timer_view s x))"
    unfolding work_def using 0 by (intro sum.mono_neutral_right) auto
  also have "\<dots> \<le> (\<Sum>x\<in>{..<next_event s} \<inter> set (mEfiTimerList s). 2)"
    by (intro sum_mono) (auto simp: weight_def split: option.splits bool.splits)
  also have "\<dots> \<le> 2 * card (set (mEfiTimerList s))"
    by (auto intro!: card_mono)
  also have "\<dots> \<le> 2 * length (mEfiTimerList s)" by (simp add: card_length)
  finally show ?thesis .
qed

lemma settled_not_due:
  assumes ei: "event_inv s'" and tv: "timer_view s' = map_option (settled_view now) \<circ> tv" and nw: "no_wrap now tv"
    and e: "e \<in> set (mEfiTimerList s')"
  shows "now < trigger_of (events s') e"
proof -
  obtain v where v: "events s' e = Some v" "TimerLinked v" using listedD[OF event_invD(5)[OF ei] e] by blast
  then obtain T P l where o: "tv e = Some (T, P, l)" "settled_view now (T, P, l) = (TriggerTime v, Period v, True)"
    using fun_cong[OF tv, of e] by (cases "tv e") (auto simp: timer_view_def)
  then show ?thesis
    using nw v
    by (auto simp: settled_view_def no_wrap_def trigger_of_def not_less not_le split: if_splits)
      metis
qed

context tpl_restore_total begin

lemma CheckTimers_total:
  assumes inv: "core_inv s" and t: "gEfiCurrentTpl s = TPL_HIGH_LEVEL - 1" and nh: "\<not> held s mEfiTimerLock"
    and nw: "no_wrap (mEfiSystemTime s) (timer_view s)" and k: "2 * length (mEfiTimerList s) < k"
  shows "\<exists>s'. CoreCheckTimers rst k s = Ret s' \<and> svc s s' \<and>
    timer_view s' = map_option (settled_view (mEfiSystemTime s)) \<circ> timer_view s \<and>
    counts_up (loop_signals (mEfiSystemTime s) (timer_view s) (mEfiCheckTimerEvent s)) s s'"
proof -
  let ?l = mEfiTimerLock and ?now = "mEfiSystemTime s"
  have h: "gEfiCurrentTpl s \<le> lock_tpl ?l" using t by simp
  note i = in_section_locked[OF inv h]
  let ?u = "locked ?l s"
  have a: "CoreAcquireLock ?l s = Ret ?u"
    using inv h nh by (intro AcquireLock_eq) (simp_all add: core_inv_def)
  note d = in_sectionD[OF i]
  have nt: "\<not> held ?u mEfiSystemTimeLock" using tpl_invD(5)[OF d(1)] d(2) by fastforce
  have "CoreCurrentSystemTime rst ?u \<noteq> NoFuel"
  proof -
    have ht: "gEfiCurrentTpl ?u \<le> lock_tpl mEfiSystemTimeLock" using tpl_invD(1)[OF d(1)] by simp
    have "CoreAcquireLock mEfiSystemTimeLock ?u = Ret (locked mEfiSystemTimeLock ?u)"
      using d(1) nt ht by (intro AcquireLock_eq) (simp_all add: core_inv_def)
    moreover have "nothing_above (gEfiCurrentTpl ?u) (locked mEfiSystemTimeLock ?u)"
      by (rule nothing_above_same[OF d(1)]) simp_all
    ultimately show ?thesis
      using nf_leave[OF in_section_locked[OF d(1) ht] ht] by (simp add: CoreCurrentSystemTime_def Let_def)
  qed
  then obtain s2 where s2: "CoreCurrentSystemTime rst ?u = Ret (?now, s2)" "same_state ?u s2"
    using CurrentSystemTime_safe[OF d(1) nt] by (cases "CoreCurrentSystemTime rst ?u") (auto simp: locked_def)
  have i2: "in_section ?l s s2" using in_section_svc[OF i] same_stateD(1)[OF s2(2)] by blast
  have ev: "events s2 = events s" "mEfiTimerList s2 = mEfiTimerList s" "mEfiCheckTimerEvent s2 = mEfiCheckTimerEvent s"
    "next_event s2 = next_event s" "gPendingTimerDuration s2 = gPendingTimerDuration s"
    using same_stateD[OF s2(2)] s2(2) by (simp_all add: locked_def) (auto simp: same_state_def dest: arg_cong[of _ _ next_event] arg_cong[of _ _ gPendingTimerDuration])
  have tv: "timer_view s2 = timer_view s" "count_of s2 = count_of s" by (auto simp: timer_view_def count_of_def ev)
  have e2: "event_inv s2" using in_sectionD(1)[OF i2] by (simp add: core_inv_def)
  have wk: "work ?now (next_event s) (timer_view s2) < k" using work_le[OF e2, of ?now] k by (simp add: ev)
  have bd: "\<forall>x. events s2 x \<noteq> None \<longrightarrow> x < next_event s" using event_invD(2)[OF e2] by (auto simp: ev)
  obtain u' where u': "CheckTimers_loop rst k ?now s2 = Ret u'" "in_section ?l s u'"
      "timer_view u' = map_option (settled_view ?now) \<circ> timer_view s"
      "counts_up (loop_signals ?now (timer_view s) (mEfiCheckTimerEvent s)) s2 u'"
    using CheckTimers_loop_total[OF i2 _ bd wk] nw by (auto simp: tv ev)
  have na: "nothing_above (gEfiCurrentTpl s) u'"
    using tpl_invD(2)[OF in_sectionD(1)[OF u'(2)]] in_sectionD(2)[OF u'(2)] t by (force simp: nothing_above_def)
  obtain s' where s': "CoreReleaseLock rst ?l u' = Ret s'" "svc s s'" "s' = (unlocked ?l u')\<lparr>gEfiCurrentTpl := gEfiCurrentTpl s\<rparr>"
    using safe_leave[OF inv nh h u'(2)] safe_leave_quiet[OF u'(2) h na] nf_leave[OF u'(2) h na]
    by (cases "CoreReleaseLock rst ?l u'") auto
  have vw: "timer_view s' = timer_view u'" "count_of s' = count_of u'"
    by (simp_all add: s'(3) timer_view_def count_of_def unlocked_def fun_eq_iff)
  have "CoreCheckTimers rst k s = Ret s'"
    by (simp add: CoreCheckTimers_def a s2(1) u'(1) s'(1))
  moreover have "counts_up (loop_signals ?now (timer_view s) (mEfiCheckTimerEvent s)) s s'"
    using u'(4) vw(2) tv(2) by (simp add: counts_up_def)
  ultimately show ?thesis using s'(2) u'(3) vw(1) by simp
qed

end

text \<open>With a period that wraps past the present, a due timer is due again at once, for ever.\<close>

definition wraps :: "u64 \<Rightarrow> (u64 \<times> u64 \<times> bool) option \<Rightarrow> bool" where
  "wraps now v = (case v of Some (T, P, True) \<Rightarrow> T \<le> now \<and> P \<noteq> 0 \<and> T + P \<le> now \<and> now + P \<le> now | _ \<Rightarrow> False)"

lemma wraps_expired: "wraps now (Some (T, P, True)) \<Longrightarrow> wraps now (Some (expired_view now (T, P, True)))"
  by (simp add: wraps_def expired_view_def next_trigger_def)

context tpl_restore begin

lemma CheckTimers_loop_diverges:
  assumes "in_section mEfiTimerLock s u" and "wraps now (timer_view u x)"
  shows "CheckTimers_loop rst k now u = NoFuel"
  using assms
proof (induction k arbitrary: u)
  case (Suc k)
  note i = Suc.prems(1)
  have ei: "event_inv u" using in_sectionD(1)[OF i] by (simp add: core_inv_def)
  obtain xv where xv: "events u x = Some xv" "TimerLinked xv" "TriggerTime xv \<le> now"
    using Suc.prems(2) by (auto simp: wraps_def timer_view_def split: option.splits bool.splits)
  have "x \<in> set (mEfiTimerList u)" using listed_mem[OF event_invD(5)[OF ei] xv(1)] xv(2) by simp
  then obtain e l where l: "mEfiTimerList u = e # l" and le: "trigger_of (events u) e \<le> trigger_of (events u) x"
    using event_invD(7)[OF ei] by (cases "mEfiTimerList u") auto
  obtain ev where ev: "events u e = Some ev" "TimerLinked ev"
    using listedD[OF event_invD(5)[OF ei], of e] l by auto
  have T: "TriggerTime ev \<le> now" using le xv ev(1) by (simp add: trigger_of_def)
  have v: "timer_view u e = Some (TriggerTime ev, Period ev, True)" using ev by (simp add: timer_view_event)
  have m: "e \<in> set (mEfiTimerList u)" by (simp add: l)
  have "bind (CheckTimers_expire rst now e u) (CheckTimers_loop rst k now) = NoFuel"
  proof (cases "CheckTimers_expire rst now e u")
    case (Ret u1)
    have u1: "in_section mEfiTimerLock s u1"
        "timer_view u1 = (timer_view u)(e \<mapsto> expired_view now (TriggerTime ev, Period ev, True))"
      using expire_view[OF i m v, of now] Ret by auto
    have "wraps now (timer_view u1 x)"
      using wraps_expired Suc.prems(2) v u1(2) by (cases "x = e") auto
    then show ?thesis using Suc.IH[OF u1(1)] Ret by simp
  qed (use expire_view[OF i m v, of now] in auto)
  then show ?case using T ev(1) by (simp add: l not_less)
qed simp

lemma CheckTimers_wrap:
  assumes inv: "core_inv s" and h: "gEfiCurrentTpl s \<le> lock_tpl mEfiTimerLock" and nh: "\<not> held s mEfiTimerLock"
    and w: "wraps (mEfiSystemTime s) (timer_view s x)"
  shows "CoreCheckTimers rst k s = NoFuel"
proof -
  note i = in_section_locked[OF inv h]
  let ?u = "locked mEfiTimerLock s"
  have a: "CoreAcquireLock mEfiTimerLock s = Ret ?u"
    using inv h nh by (intro AcquireLock_eq) (simp_all add: core_inv_def)
  note d = in_sectionD[OF i]
  have nt: "\<not> held ?u mEfiSystemTimeLock" using tpl_invD(5)[OF d(1)] d(2) by fastforce
  show ?thesis
  proof (cases "CoreCurrentSystemTime rst ?u")
    case (Ret y)
    then obtain s2 where s2: "CoreCurrentSystemTime rst ?u = Ret (mEfiSystemTime s, s2)" "same_state ?u s2"
      using CurrentSystemTime_safe[OF d(1) nt] by (cases y) (auto simp: locked_def)
    have i2: "in_section mEfiTimerLock s s2" using in_section_svc[OF i] same_stateD(1)[OF s2(2)] by blast
    have "timer_view s2 = timer_view s"
      using same_stateD(2)[OF s2(2)] by (simp add: timer_view_def locked_def fun_eq_iff)
    then show ?thesis
      using CheckTimers_loop_diverges[OF i2] w by (simp add: CoreCheckTimers_def a s2(1))
  qed (use CurrentSystemTime_safe[OF d(1) nt] in \<open>simp_all add: CoreCheckTimers_def a\<close>)
qed

end

end
