(* ===== verification/EventRuns.thy ===== *)
theory EventRuns
  imports EventClient
begin

text \<open>
  Runs of the harness: the boot of the event services followed by any sequence of service calls made
  under the rules of the UEFI specification. Every such run keeps the invariant of the core and
  leaves no lock behind.
\<close>

section \<open>Sequences of service calls\<close>

datatype service = SvcRaiseTPL nat | SvcRestoreTPL nat
  | SvcCreateEvent u32 nat "notify_fn option" ptr "guid option"
  | SvcCloseEvent nat | SvcSignalEvent ptr | SvcSetTimer ptr timer_delay u64 | SvcCheckEvent nat
  | SvcTimerAdvance u64

fun call_service :: "(nat \<Rightarrow> 'x core_scheme \<Rightarrow> 'x core_scheme outcome) \<Rightarrow> 'x core_scheme restore \<Rightarrow> service \<Rightarrow>
    'x core_scheme \<Rightarrow> 'x core_scheme outcome" where
  "call_service unreg rst (SvcRaiseTPL t) s = bind (CoreRaiseTpl t s) (\<lambda>(_, s'). Ret s')"
| "call_service unreg rst (SvcRestoreTPL t) s = rst t s"
| "call_service unreg rst (SvcCreateEvent Ty t f c g) s =
     bind (CoreCreateEventEx rst True True Ty t f c g s) (\<lambda>(_, _, s'). Ret s')"
| "call_service unreg rst (SvcCloseEvent e) s = bind (CoreCloseEvent unreg rst (Some e) s) (\<lambda>(_, s'). Ret s')"
| "call_service unreg rst (SvcSignalEvent p) s = bind (CoreSignalEvent rst p s) (\<lambda>(_, s'). Ret s')"
| "call_service unreg rst (SvcSetTimer p d t) s = bind (CoreSetTimer rst p d t s) (\<lambda>(_, s'). Ret s')"
| "call_service unreg rst (SvcCheckEvent e) s = bind (CoreCheckEvent rst (Some e) s) (\<lambda>(_, s'). Ret s')"
| "call_service unreg rst (SvcTimerAdvance t) s = MockTimerAdvance rst t s"

text \<open>The rules of the UEFI specification for callers: handles are live, the TPL is raised and
  restored in the right direction and is not too high for the service.\<close>

fun caller_ok :: "service \<Rightarrow> 'x core_scheme \<Rightarrow> bool" where
  "caller_ok (SvcRaiseTPL t) s \<longleftrightarrow> gEfiCurrentTpl s \<le> t \<and> t \<le> TPL_HIGH_LEVEL"
| "caller_ok (SvcRestoreTPL t) s \<longleftrightarrow> t \<le> gEfiCurrentTpl s"
| "caller_ok (SvcCreateEvent Ty t f c g) s \<longleftrightarrow> True"
| "caller_ok (SvcCloseEvent e) s \<longleftrightarrow> gEfiCurrentTpl s \<le> TPL_NOTIFY \<and> events s e \<noteq> None \<and>
     mEfiCheckTimerEvent s \<noteq> Some e \<and> gIdleLoopEvent s \<noteq> Some e"
| "caller_ok (SvcSignalEvent p) s \<longleftrightarrow> (case p of None \<Rightarrow> True | Some e \<Rightarrow> events s e \<noteq> None)"
| "caller_ok (SvcSetTimer p d t) s \<longleftrightarrow> gEfiCurrentTpl s < TPL_HIGH_LEVEL \<and>
     (case p of None \<Rightarrow> True | Some e \<Rightarrow> events s e \<noteq> None)"
| "caller_ok (SvcCheckEvent e) s \<longleftrightarrow> (case events s e of None \<Rightarrow> False | Some ev \<Rightarrow> Type ev AND EVT_NOTIFY_WAIT = 0)"
| "caller_ok (SvcTimerAdvance t) s \<longleftrightarrow> True"

fun run_services :: "(nat \<Rightarrow> 'x core_scheme \<Rightarrow> 'x core_scheme outcome) \<Rightarrow> 'x core_scheme restore \<Rightarrow> service list \<Rightarrow>
    'x core_scheme \<Rightarrow> 'x core_scheme outcome" where
  "run_services unreg rst [] s = Ret s"
| "run_services unreg rst (c # cs) s = bind (call_service unreg rst c s) (run_services unreg rst cs)"

fun callers_ok :: "(nat \<Rightarrow> 'x core_scheme \<Rightarrow> 'x core_scheme outcome) \<Rightarrow> 'x core_scheme restore \<Rightarrow> service list \<Rightarrow>
    'x core_scheme \<Rightarrow> bool" where
  "callers_ok unreg rst [] s \<longleftrightarrow> True"
| "callers_ok unreg rst (c # cs) s \<longleftrightarrow> caller_ok c s \<and>
     (case call_service unreg rst c s of Ret s' \<Rightarrow> callers_ok unreg rst cs s' | _ \<Rightarrow> True)"

definition idle_inv :: "'x core_scheme \<Rightarrow> bool" where
  "idle_inv s \<longleftrightarrow> core_inv s \<and> (\<forall>l. \<not> held s l)"

lemma idle_svc: "idle_inv s \<Longrightarrow> svc s s' \<Longrightarrow> idle_inv s'"
  by (auto simp: idle_inv_def svc_def locks_kept_def)

lemma idle_free: "idle_inv s \<Longrightarrow> free_above t s"
  by (simp add: idle_inv_def free_above_def)

lemma core_inv_raise: "core_inv s \<Longrightarrow> gEfiCurrentTpl s \<le> t \<Longrightarrow> t \<le> TPL_HIGH_LEVEL \<Longrightarrow>
    (\<And>l. held s l \<Longrightarrow> lock_tpl l \<le> t) \<Longrightarrow> core_inv (s\<lparr>gEfiCurrentTpl := t\<rparr>)"
  by (fastforce simp: core_inv_def event_inv_def tpl_inv_def lock_inv_def)

context tpl_restore begin

lemma call_service_idle:
  assumes i: "idle_inv s" and ok: "caller_ok c s" and u: "unregisters unreg"
  shows "safe idle_inv (call_service unreg rst c s)"
proof -
  have inv: "core_inv s" and nh: "\<not> held s l" for l using i by (simp_all add: idle_inv_def)
  show ?thesis
  proof (cases c)
    case (SvcRaiseTPL t)
    have "idle_inv (s\<lparr>gEfiCurrentTpl := t\<rparr>)"
      using core_inv_raise[OF inv, of t] ok nh by (simp add: idle_inv_def SvcRaiseTPL)
    then show ?thesis using ok by (simp add: SvcRaiseTPL CoreRaiseTpl_def CoreSetInterruptState_def VALID_TPL_def Let_def)
  next
    case (SvcRestoreTPL t)
    have "safe idle_inv (rst t s)"
      by (rule safe_mono[OF rst_safe[OF inv _ idle_free[OF i]]])
        (use ok i in \<open>auto simp: SvcRestoreTPL idle_inv_def locks_kept_def\<close>)
    then show ?thesis by (simp add: SvcRestoreTPL)
  next
    case (SvcCreateEvent Ty t f cx g)
    have "safe (\<lambda>(_, _, s'). svc s s') (CoreCreateEventInternal rst True True Ty t f cx g s)"
    proof (cases "create_accepts Ty t f g")
      case True
      show ?thesis by (rule safe_mono[OF CreateEvent_safe[OF inv nh True]]) auto
    next
      case False
      then show ?thesis using CreateEvent_reject[of True Ty t f g True] inv by (simp add: svc_refl)
    qed
    then have "safe (\<lambda>(_, _, s'). svc s s') (CoreCreateEventEx rst True True Ty t f cx g s)"
      using inv by (simp add: CoreCreateEventEx_def svc_refl)
    then show ?thesis
      unfolding SvcCreateEvent call_service.simps by (rule safe_bind) (use idle_svc[OF i] in auto)
  next
    case (SvcCloseEvent e)
    then obtain ev where ev: "events s e = Some ev" using ok by auto
    have "safe (\<lambda>(_, s'). svc s s') (CoreCloseEvent unreg rst (Some e) s)"
      by (rule safe_mono[OF CloseEvent_safe[OF inv nh nh _ ev]]) (use ok u nh SvcCloseEvent in auto)
    then show ?thesis
      unfolding SvcCloseEvent call_service.simps by (rule safe_bind) (use idle_svc[OF i] in auto)
  next
    case (SvcSignalEvent p)
    have "safe (\<lambda>(_, s'). svc s s') (CoreSignalEvent rst p s)"
      by (rule safe_mono[OF SignalEvent_safe[OF inv nh]]) (use ok SvcSignalEvent in \<open>auto simp: svc_sig_def\<close>)
    then show ?thesis
      unfolding SvcSignalEvent call_service.simps by (rule safe_bind) (use idle_svc[OF i] in auto)
  next
    case (SvcSetTimer p d t)
    have "safe (\<lambda>(_, s'). svc s s') (CoreSetTimer rst p d t s)"
      by (rule safe_mono[OF SetTimer_safe[OF inv nh]]) (use ok SvcSetTimer in auto)
    then show ?thesis
      unfolding SvcSetTimer call_service.simps by (rule safe_bind) (use idle_svc[OF i] in auto)
  next
    case (SvcCheckEvent e)
    then obtain ev where ev: "events s e = Some ev" "Type ev AND EVT_NOTIFY_WAIT = 0" using ok by (auto split: option.splits)
    have "safe (\<lambda>(_, s'). svc s s') (CoreCheckEvent rst (Some e) s)"
      by (rule safe_mono[OF CheckEvent_safe[OF inv nh nh ev(1)]]) (use ev in auto)
    then show ?thesis
      unfolding SvcCheckEvent call_service.simps by (rule safe_bind) (use idle_svc[OF i] in auto)
  next
    case (SvcTimerAdvance t)
    have "safe (svc s) (MockTimerAdvance rst t s)"
      unfolding MockTimerAdvance_def by (rule MockTimerAdvance100ns_safe[OF inv nh nh])
    then show ?thesis unfolding SvcTimerAdvance call_service.simps by (rule safe_mono) (rule idle_svc[OF i])
  qed
qed

lemma run_services_idle:
  assumes "idle_inv s" and "callers_ok unreg rst cs s" and "unregisters unreg"
  shows "safe idle_inv (run_services unreg rst cs s)"
  using assms
proof (induction cs arbitrary: s)
  case (Cons c cs)
  from call_service_idle[OF Cons.prems(1) _ Cons.prems(3)] Cons.prems(2)
  have "safe idle_inv (call_service unreg rst c s)" by simp
  then show ?case using Cons by (cases "call_service unreg rst c s") auto
qed simp

end

section \<open>The start of the harness\<close>

definition boot :: "core restore \<Rightarrow> core outcome" where
  "boot rst = MockTimerInit rst True True initial_core"

lemma core_inv_initial: "core_inv (HostShimInitRuntime initial_core)"
proof -
  have "resettable initial_core" by (simp add: resettable_def initial_core_def)
  from core_inv_reset[OF this] show ?thesis by (simp add: initial_core_def HostShimInitRuntime_def)
qed

lemma boot_idle:
  assumes "tpl_restore rst" shows "safe (\<lambda>s. idle_inv s \<and> gTimerHostInitialized s) (boot rst)"
proof -
  let ?s = "HostShimInitRuntime initial_core"
  have e: "gEventQueue ?s = (\<lambda>_. [])" "\<not> held ?s l" for l by (simp_all add: HostShimInitRuntime_def initial_core_def)
  have ni: "\<not> gTimerHostInitialized initial_core" by (simp add: initial_core_def)
  have up: "core_inv (s\<lparr>gTimerHostInitialized := True\<rparr>) = core_inv s" for s :: core
    by (simp add: core_inv_def event_inv_def tpl_inv_def lock_inv_def)
  show ?thesis unfolding boot_def MockTimerInit_def if_not_P[OF ni]
    by (rule safe_bind[OF tpl_restore.InitializeEventServices_safe[OF assms core_inv_initial e]])
      (use e(2) up in \<open>auto simp: idle_inv_def svc_def locks_kept_def\<close>)
qed

end
