(* ===== verification/EventQuiet.thy ===== *)
theory EventQuiet
  imports EventExpiry
begin

text \<open>
  Services that run no notification: what they return exactly, and that they return, whatever
  \<open>CoreRestoreTpl\<close> would do with pending events.
\<close>

section \<open>Quiet services return\<close>

context tpl_restore begin

text \<open>Signalling an event whose notification waits at or below the present level runs nothing; only
  the level of the event becomes pending.\<close>

lemma SignalEvent_quiet_section:
  assumes inv: "core_inv s" and ev: "events s e = Some ev"
    and ng: "ExFlag ev AND EVT_EXFLAG_EVENT_GROUP = 0"
    and q: "Type ev AND EVT_NOTIFY_SIGNAL \<noteq> 0 \<longrightarrow> NotifyTpl ev \<le> gEfiCurrentTpl s"
  shows "\<exists>u. Signal_mark rst e (locked gEventQueueLock s) = Ret u \<and> in_section gEventQueueLock s u \<and>
    nothing_above (gEfiCurrentTpl s) u \<and> sig_frame s u \<and>
    (\<forall>p. bit (gEventPending u) p \<longrightarrow> bit (gEventPending s) p \<or> Type ev AND EVT_NOTIFY_SIGNAL \<noteq> 0 \<and> p = NotifyTpl ev)"
proof -
  let ?ev1 = "ev\<lparr>SignalCount := SignalCount ev + 1\<rparr>" and ?u = "locked gEventQueueLock s"
  let ?u1 = "set_event e ?ev1 ?u"
  note h = tpl_le_event_lock[OF inv]
  note i0 = in_section_locked[OF inv h]
  have f0: "sig_frame s ?u" by simp
  have na0: "nothing_above (gEfiCurrentTpl s) ?u" by (rule nothing_above_same[OF inv]) simp_all
  have evu: "events ?u e = Some ev" using ev by simp
  have i1: "core_inv ?u1" using core_inv_count[OF core_inv_locked[OF inv h] evu] by blast
  have s1: "in_section gEventQueueLock s ?u1" by (intro in_section_svc[OF i0] svc_frame i1) simp_all
  have f1: "sig_frame s ?u1"
    using sig_frame_trans[OF f0 sig_frame_count[OF evu]] by simp
  have na1: "nothing_above (gEfiCurrentTpl s) ?u1"
    by (rule nothing_above_same[OF inv]) (simp_all add: set_event_def)
  have ev1: "events ?u1 e = Some ?ev1" by simp
  consider (no) "SignalCount ev \<noteq> 0" | (plain) "SignalCount ev = 0" "Type ev AND EVT_NOTIFY_SIGNAL = 0"
    | (queue) "SignalCount ev = 0" "Type ev AND EVT_NOTIFY_SIGNAL \<noteq> 0" by blast
  moreover have b0: "gEventPending ?u = gEventPending s" "gEventPending ?u1 = gEventPending s" by (simp_all add: set_event_def)
  ultimately show ?thesis
  proof cases
    case no
    then show ?thesis using evu i0 f0 na0 b0 by (simp add: Signal_mark_def)
  next
    case plain
    then show ?thesis using evu s1 f1 na1 b0 by (simp add: Signal_mark_def Let_def)
  next
    case queue
    have nt: "is_notify_type (Type ?ev1)" using signal_notify_type[OF queue(2)] by simp
    note n = NotifyEvent_eq[OF i1 in_sectionD(3)[OF s1] ev1 nt]
    let ?w = "notify_state e ?ev1 ?u1"
    have iw: "core_inv ?w" by (rule core_inv_notify[OF i1 _ ev1 nt]) (use in_sectionD(2)[OF s1] in simp)
    have sw: "in_section gEventQueueLock s ?w"
      by (intro in_section_svc[OF s1] svc_frame iw) (simp_all add: notify_state_def set_event_def)
    have fw: "sig_frame s ?w" using sig_frame_trans[OF f1 sig_frame_notify[OF ev1]] by simp
    have t30: "NotifyTpl ev \<le> 30" using event_invD(1)[OF _ ev] inv nt by (auto simp: core_inv_def event_ok_def)
    then have "nothing_above (gEfiCurrentTpl s) ?w"
      using na1 q queue(2) by (auto simp: nothing_above_def notify_state_def bit_simps set_event_def)
    moreover have "bit (gEventPending ?w) p \<longrightarrow> bit (gEventPending s) p \<or> p = NotifyTpl ev" for p
      using b0(2) t30 by (auto simp: notify_state_def bit_simps set_event_def)
    ultimately show ?thesis using queue evu n ng sw fw by (simp add: Signal_mark_def Let_def)
  qed
qed

end

context tpl_restore_total begin

lemma SignalEvent_quiet:
  assumes inv: "core_inv s" and nh: "\<not> held s gEventQueueLock" and ev: "events s e = Some ev"
    and ng: "ExFlag ev AND EVT_EXFLAG_EVENT_GROUP = 0"
    and q: "Type ev AND EVT_NOTIFY_SIGNAL \<noteq> 0 \<longrightarrow> NotifyTpl ev \<le> gEfiCurrentTpl s"
  shows "\<exists>s'. CoreSignalEvent rst (Some e) s = Ret (EFI_SUCCESS, s') \<and> svc s s' \<and> sig_frame s s' \<and>
    (\<forall>p. bit (gEventPending s') p \<longrightarrow> bit (gEventPending s) p \<or> Type ev AND EVT_NOTIFY_SIGNAL \<noteq> 0 \<and> p = NotifyTpl ev)"
proof -
  note h = tpl_le_event_lock[OF inv]
  have a: "CoreAcquireLock gEventQueueLock s = Ret (locked gEventQueueLock s)"
    using inv h nh by (intro AcquireLock_eq) (simp_all add: core_inv_def)
  have sg: "Signature ev = EVENT_SIGNATURE"
    using inv event_invD(1)[OF _ ev] by (auto simp: core_inv_def event_ok_def)
  obtain u where u: "Signal_mark rst e (locked gEventQueueLock s) = Ret u" "in_section gEventQueueLock s u"
    "nothing_above (gEfiCurrentTpl s) u" "sig_frame s u"
    "\<forall>p. bit (gEventPending u) p \<longrightarrow> bit (gEventPending s) p \<or> Type ev AND EVT_NOTIFY_SIGNAL \<noteq> 0 \<and> p = NotifyTpl ev"
    using SignalEvent_quiet_section[OF inv ev ng q] by blast
  obtain s' where s': "CoreReleaseLock rst gEventQueueLock u = Ret s'" "svc s s'"
    "s' = (unlocked gEventQueueLock u)\<lparr>gEfiCurrentTpl := gEfiCurrentTpl s\<rparr>"
    using safe_leave[OF inv nh h u(2)] safe_leave_quiet[OF u(2) h u(3)] nf_leave[OF u(2) h u(3)]
    by (cases "CoreReleaseLock rst gEventQueueLock u") auto
  have "sig_frame s s'" using sig_frame_trans[OF u(4) sig_frame_unlocked] s'(3) by simp
  moreover have "gEventPending s' = gEventPending u" using s'(3) by (simp add: unlocked_def)
  ultimately show ?thesis using s'(1,2) ev u(5)
    by (simp add: CoreSignalEvent_def sg a u(1) CoreAcquireEventLock_def CoreReleaseEventLock_def)
qed

lemma SetTimer_cancel_total:
  assumes inv: "core_inv s" and nh: "\<not> held s mEfiTimerLock" and h: "gEfiCurrentTpl s < TPL_HIGH_LEVEL"
    and ev: "events s e = Some ev" and ok: "timer_args_ok s (Some e) TimerCancel"
  shows "CoreSetTimer rst (Some e) TimerCancel 0 s \<noteq> NoFuel"
proof -
  note ent = SetTimer_enter[OF inv nh h ev ok]
  have h': "gEfiCurrentTpl s \<le> lock_tpl mEfiTimerLock" using h by simp
  have na: "nothing_above (gEfiCurrentTpl s) (stop_timer e ev (locked mEfiTimerLock s))"
    by (rule nothing_above_same[OF inv]) simp_all
  from nf_leave[OF ent(2) h' na] show ?thesis unfolding ent(1) by simp
qed

lemma CloseEvent_unlink_total:
  assumes inv: "core_inv s" and nh: "\<not> held s gEventQueueLock"
    and ev: "events s e = Some ev" and tl: "\<not> TimerLinked ev"
    and fl: "ExFlag ev AND EVT_EXFLAG_EVENT_PROTOCOL_NOTIFICATION = 0"
  shows "CloseEvent_unlink unreg rst e s \<noteq> NoFuel"
proof -
  obtain u l where u: "CloseEvent_unlink unreg rst e s =
      bind (rst (gEfiCurrentTpl s) (unlocked gEventQueueLock u)) (Close_finish unreg e)"
    "events u e = Some (ev\<lparr>NotifyLinked := l\<rparr>)"
    "tpl_inv (unlocked gEventQueueLock u)" "nothing_above (gEfiCurrentTpl s) (unlocked gEventQueueLock u)"
    "gEfiCurrentTpl s \<le> gEfiCurrentTpl (unlocked gEventQueueLock u)"
    using CloseEvent_unlink_eq[OF inv nh ev tl] by blast
  have "Close_finish unreg e ((unlocked gEventQueueLock u)\<lparr>gEfiCurrentTpl := gEfiCurrentTpl s\<rparr>) \<noteq> NoFuel"
    using u(2) fl by (simp add: Close_finish_def)
  then show ?thesis
    unfolding u(1) by (intro nf_bind[OF rst_quiet[OF u(3,5,4)] rst_total[OF u(3,5,4)]]) simp
qed

lemma CloseEvent_total:
  assumes inv: "core_inv s" and nh: "\<not> held s gEventQueueLock" "\<not> held s mEfiTimerLock"
    and h: "gEfiCurrentTpl s < TPL_HIGH_LEVEL" and ev: "events s e = Some ev"
    and fl: "ExFlag ev AND EVT_EXFLAG_EVENT_PROTOCOL_NOTIFICATION = 0"
  shows "CoreCloseEvent unreg rst (Some e) s \<noteq> NoFuel"
proof -
  have ok: "event_ok ev" using inv event_invD(1)[OF _ ev] by (simp add: core_inv_def)
  then have eq: "CoreCloseEvent unreg rst (Some e) s =
      bind (if Type ev AND EVT_TIMER \<noteq> 0
                  then bind (CoreSetTimer rst (Some e) TimerCancel 0 s) (\<lambda>(_, s1). Ret s1)
                  else Ret s) (CloseEvent_unlink unreg rst e)"
    by (simp add: CoreCloseEvent_def ev event_ok_def)
  show ?thesis
  proof (cases "Type ev AND EVT_TIMER = 0")
    case True
    then have "\<not> TimerLinked ev" using ok by (auto simp: event_ok_def)
    from CloseEvent_unlink_total[OF inv nh(1) ev this fl] True show ?thesis unfolding eq by simp
  next
    case False
    then have ta: "timer_args_ok s (Some e) TimerCancel" using ev by (simp add: timer_args_ok_def)
    have "bind (CoreSetTimer rst (Some e) TimerCancel 0 s) (\<lambda>(_, s1). CloseEvent_unlink unreg rst e s1) \<noteq> NoFuel"
    proof (rule nf_bind[OF SetTimer_cancel[OF inv nh(2) h ev ta] SetTimer_cancel_total[OF inv nh(2) h ev ta]])
      fix x assume x: "case x of (st, s') \<Rightarrow> st = EFI_SUCCESS \<and> svc s s' \<and>
      s' = (unlocked mEfiTimerLock (stop_timer e ev (locked mEfiTimerLock s)))\<lparr>gEfiCurrentTpl := gEfiCurrentTpl s\<rparr>"
      define s1 where "s1 = (unlocked mEfiTimerLock (stop_timer e ev (locked mEfiTimerLock s)))\<lparr>gEfiCurrentTpl := gEfiCurrentTpl s\<rparr>"
      obtain st where xx: "x = (st, s1)" and sv: "svc s s1" using x unfolding s1_def by (cases x) auto
      note d = svcD[OF sv]
      have "events s1 e = Some (ev\<lparr>TimerLinked := False, TriggerTime := 0, Period := 0\<rparr>)" by (simp add: s1_def)
      moreover have "\<not> held s1 gEventQueueLock" using d(3) nh(1) by simp
      ultimately have "CloseEvent_unlink unreg rst e s1 \<noteq> NoFuel"
        using CloseEvent_unlink_total[OF d(1)] fl by simp
      then show "(case x of (_, s1) \<Rightarrow> CloseEvent_unlink unreg rst e s1) \<noteq> NoFuel" by (simp add: xx)
    qed
    then show ?thesis using False unfolding eq by (simp add: bind_snd del: nf_bind_eq)
  qed
qed

lemma CurrentSystemTime_total:
  assumes inv: "core_inv s" and nh: "\<not> held s mEfiSystemTimeLock" and h: "gEfiCurrentTpl s \<le> TPL_HIGH_LEVEL"
  shows "CoreCurrentSystemTime rst s \<noteq> NoFuel"
proof -
  let ?l = mEfiSystemTimeLock
  have h': "gEfiCurrentTpl s \<le> lock_tpl ?l" using h by simp
  have a: "CoreAcquireLock ?l s = Ret (locked ?l s)"
    using inv nh h' by (intro AcquireLock_eq) (simp_all add: core_inv_def)
  have na: "nothing_above (gEfiCurrentTpl s) (locked ?l s)" by (rule nothing_above_same[OF inv]) simp_all
  show ?thesis using nf_leave[OF in_section_locked[OF inv h'] h' na] by (simp add: CoreCurrentSystemTime_def a)
qed

lemma SetTimer_total:
  assumes inv: "core_inv s" and nh: "\<not> held s mEfiTimerLock" "\<not> held s mEfiSystemTimeLock" and h: "gEfiCurrentTpl s < TPL_HIGH_LEVEL"
    and ev: "events s e = Some ev" and ty: "Type ev AND EVT_TIMER \<noteq> 0"
    and d: "Ty = TimerPeriodic \<or> Ty = TimerRelative \<and> Trigger \<noteq> 0"
  shows "CoreSetTimer rst (Some e) Ty Trigger s \<noteq> NoFuel"
proof -
  have ok: "timer_args_ok s (Some e) Ty" using ev ty d by (auto simp: timer_args_ok_def)
  have nc: "Ty \<noteq> TimerCancel" and d': "Ty = TimerPeriodic \<or> Trigger \<noteq> 0" using d by auto
  note en = SetTimer_enter[OF inv nh(1) h ev ok]
  let ?l = mEfiTimerLock
  let ?u = "stop_timer e ev (locked ?l s)"
  note i = en(2) and di = in_sectionD[OF en(2)]
  have h': "gEfiCurrentTpl s \<le> lock_tpl ?l" using h by simp
  have evu: "events ?u e = Some (ev\<lparr>TimerLinked := False, TriggerTime := 0, Period := 0\<rparr>)" by simp
  have us: "gEventPending ?u = gEventPending s" "gPendingTimerDuration ?u = gPendingTimerDuration s"
    by (simp_all add: stop_timer_def set_event_def locked_def split: prod.split)
  have arm: "SetTimer_arm rst e Ty Trigger ?u \<noteq> NoFuel"
  proof -
    have "\<not> held ?u mEfiSystemTimeLock" using nh(2) by (simp add: locked_def)
    then have "CoreCurrentSystemTime rst ?u \<noteq> NoFuel"
      using CurrentSystemTime_total[OF di(1)] by simp
    then show ?thesis using d' by (auto simp: SetTimer_arm_def Let_def)
  qed
  have "bind (SetTimer_arm rst e Ty Trigger ?u) (\<lambda>s4. bind (CoreReleaseLock rst ?l s4) (\<lambda>s5. Ret (EFI_SUCCESS, s5))) \<noteq> NoFuel"
  proof (rule nf_bind[OF safe_conj[OF SetTimer_arm_safe[OF i evu] SetTimer_arm_view[OF i evu _ _ d']] arm])
    fix s4 assume s4: "in_section ?l s s4 \<and> (timer_view s4 = (timer_view ?u)(e \<mapsto> timer_programmed (mEfiSystemTime ?u) Ty Trigger) \<and>
      count_of s4 = count_of ?u \<and> gEventPending s4 = gEventPending ?u \<and> gPendingTimerDuration s4 = gPendingTimerDuration ?u \<and>
      gEfiCurrentTpl s4 = gEfiCurrentTpl ?u \<and> mEfiSystemTime s4 = mEfiSystemTime ?u \<and> core.more s4 = core.more ?u \<and>
      events s4 = (events ?u)(e \<mapsto> armed_event (mEfiSystemTime ?u) Ty Trigger (ev\<lparr>TimerLinked := False, TriggerTime := 0, Period := 0\<rparr>)) \<and>
      mEfiCheckTimerEvent s4 = mEfiCheckTimerEvent ?u \<and> gIdleLoopEvent s4 = gIdleLoopEvent ?u)"
    have "nothing_above (gEfiCurrentTpl s) s4" by (rule nothing_above_same[OF inv]) (use s4 us in simp_all)
    then show "bind (CoreReleaseLock rst ?l s4) (\<lambda>s5. Ret (EFI_SUCCESS, s5)) \<noteq> NoFuel"
      using nf_leave[OF conjunct1[OF s4] h'] by simp
  qed (use ty in simp_all)
  then show ?thesis unfolding en(1) using nc by simp
qed

lemma CreateEvent_total:
  assumes inv: "core_inv s" and nh: "\<not> held s gEventQueueLock" and acc: "create_accepts Ty NTpl Fn Group"
  shows "CoreCreateEventInternal rst True True Ty NTpl Fn Ctx Group s \<noteq> NoFuel"
proof -
  obtain Ty1 G1 where cg: "convert_group Ty Group = (Ty1, G1)" by fastforce
  define ev where "ev = created_event Ty NTpl Fn Ctx Group"
  let ?e = "next_event s" and ?s1 = "CreateEvent_alloc ev s" and ?l = gEventQueueLock
  have inv1: "core_inv ?s1"
    unfolding ev_def by (rule core_inv_alloc[OF inv created_event_ok[OF acc]]) simp_all
  obtain ev1 r where ev1: "events ?s1 ?e = Some ev1" "ev1 = ev\<lparr>RuntimeLinked := r\<rparr>"
    by (cases "Type ev AND EVT_RUNTIME \<noteq> 0")
      (auto intro: that[of _ True] that[of _ False] simp: ev_def)
  have ty: "Type ev = Ty1" by (simp add: ev_def cg)
  have eq: "CoreCreateEventInternal rst True True Ty NTpl Fn Ctx Group s =
      bind (if Ty1 AND EVT_NOTIFY_SIGNAL \<noteq> 0 then
                        bind (CoreAcquireEventLock ?s1) (\<lambda>s2.
                        deref (events s2 ?e) (\<lambda>ev2.
                        CoreReleaseEventLock rst
                          (set_event ?e (ev2\<lparr>SignalLinked := True\<rparr>)
                            (s2\<lparr>gEventSignalQueue := ?e # gEventSignalQueue s2\<rparr>))))
                      else Ret ?s1)
                  (\<lambda>s3. Ret (EFI_SUCCESS, Some ?e, s3))"
    using acc cg
    by (auto simp: CoreCreateEventInternal_def create_accepts_def ev_def created_event_def Let_def)
  let ?u = "locked ?l ?s1"
  let ?w = "set_event ?e (ev1\<lparr>SignalLinked := True\<rparr>) (?u\<lparr>gEventSignalQueue := ?e # gEventSignalQueue ?u\<rparr>)"
  note h = tpl_le_event_lock[OF inv1]
  have i: "in_section ?l ?s1 ?u" by (rule in_section_locked[OF inv1 h])
  have evu: "events ?u ?e = Some ev1" using ev1(1) by simp
  have rel: "CoreReleaseLock rst ?l ?w \<noteq> NoFuel" if nt: "Ty1 AND EVT_NOTIFY_SIGNAL \<noteq> 0"
  proof -
    have "core_inv ?w"
      by (rule core_inv_link_signal[OF in_sectionD(1)[OF i] evu])
        (use nt ty in \<open>simp_all add: ev1(2), simp add: ev_def\<close>)
    then have iw: "in_section ?l ?s1 ?w" by (intro in_section_svc[OF i svc_frame]) simp_all
    have na: "nothing_above (gEfiCurrentTpl ?s1) ?w"
      by (rule nothing_above_same[OF inv1]) (simp_all add: set_event_def)
    show ?thesis by (rule nf_leave[OF iw h na])
  qed
  have acq: "CoreAcquireLock ?l ?s1 = Ret ?u"
    using inv1 nh h by (intro AcquireLock_eq) (simp_all add: core_inv_def)
  show ?thesis unfolding eq CoreAcquireEventLock_def CoreReleaseEventLock_def
    by (intro nf_bind_Ret) (simp only: acq bind.simps evu deref_simps split: if_split, use rel in blast)
qed

lemma TimerTick_total:
  assumes inv: "core_inv s" and nh: "\<not> held s mEfiSystemTimeLock" "\<not> held s gEventQueueLock"
    and hi: "TPL_HIGH_LEVEL \<le> Suc (gEfiCurrentTpl s)"
  shows "CoreTimerTick rst d s \<noteq> NoFuel"
proof -
  let ?s = "tick_state d s" and ?u = "locked mEfiSystemTimeLock (tick_state d s)"
  have h: "gEfiCurrentTpl ?s \<le> lock_tpl mEfiSystemTimeLock" using tpl_invD(1)[OF inv] by simp
  have "CoreAcquireLock mEfiSystemTimeLock s = Ret (locked mEfiSystemTimeLock s)"
    using inv nh(1) h by (intro AcquireLock_eq) (simp_all add: core_inv_def)
  moreover have "(locked mEfiSystemTimeLock s)\<lparr>mEfiSystemTime :=
      mEfiSystemTime (locked mEfiSystemTimeLock s) + d\<rparr> = ?u"
    by (simp add: locked_def tick_state_def)
  ultimately have eq: "CoreTimerTick rst d s =
      bind (case mEfiTimerList ?u of [] \<Rightarrow> Ret ?u
              | e # _ \<Rightarrow>
                deref (events ?u e) (\<lambda>ev.
                  if TriggerTime ev \<le> mEfiSystemTime ?u
                  then bind (CoreSignalEvent rst (mEfiCheckTimerEvent ?u) ?u) (\<lambda>(_, s3). Ret s3)
                  else Ret ?u))
          (CoreReleaseLock rst mEfiSystemTimeLock)"
    by (simp only: CoreTimerTick_def bind.simps Let_def)
  have inv': "core_inv ?s" using inv by simp
  have i: "in_sig mEfiSystemTimeLock ?s ?u" using in_sig_locked[OF inv' h] .
  then have isec: "in_section mEfiSystemTimeLock ?s ?u" by (simp add: in_sig_def)
  note d = in_sectionD[OF isec]
  have ei: "event_inv ?u" using d(1) by (simp add: core_inv_def)
  have q: "\<not> held ?u gEventQueueLock" using d(5)[of gEventQueueLock] nh(2) by simp
  have live: "events ?u e \<noteq> None" if "mEfiCheckTimerEvent ?u = Some e" for e
    using event_invD(8)[OF ei that] by auto
  have hu: "TPL_HIGH_LEVEL \<le> Suc (gEfiCurrentTpl ?u)" using d(2) by simp
  let ?m = "bind (CoreSignalEvent rst (mEfiCheckTimerEvent ?u) ?u) (\<lambda>(_, s3). Ret s3)"
  let ?l = "mEfiSystemTimeLock"
  have "CoreSignalEvent rst (mEfiCheckTimerEvent ?u) ?u \<noteq> NoFuel"
  proof (cases "mEfiCheckTimerEvent ?u")
    case (Some e)
    then obtain ev where "events ?u e = Some ev" using live by blast
    then show ?thesis using nf_SignalEvent[OF d(1) q _ hu] Some by simp
  qed (simp add: CoreSignalEvent_def)
  then have nf: "?m \<noteq> NoFuel" by (cases "CoreSignalEvent rst (mEfiCheckTimerEvent ?u) ?u") auto
  have sg: "safe (in_sig ?l ?s) ?m"
  proof (rule safe_bind[OF SignalEvent_safe[OF d(1) q live]])
    fix x assume "case x of (st, s') \<Rightarrow> svc_sig ?u s' \<and>
      st = (if mEfiCheckTimerEvent ?u = None then EFI_INVALID_PARAMETER else EFI_SUCCESS)"
    then show "safe (in_sig ?l ?s) (case x of (_, s3) \<Rightarrow> Ret s3)"
      using in_sig_step[OF i] d(2) by (cases x) (auto simp: svc_sig_def)
  qed
  have leave: "CoreReleaseLock rst ?l w \<noteq> NoFuel" if "in_sig ?l ?s w" for w
    by (rule nf_leave_sig[OF inv' h that]) (use hi in simp)
  have fin: "bind ?m (CoreReleaseLock rst ?l) \<noteq> NoFuel" by (rule nf_bind[OF sg nf leave])
  show ?thesis
  proof (cases "mEfiTimerList ?u")
    case Nil
    then show ?thesis unfolding eq using leave[OF i] by simp
  next
    case (Cons e l)
    then obtain ev where "events ?u e = Some ev" using listedD[OF event_invD(5)[OF ei], of e] by auto
    then show ?thesis unfolding eq using Cons leave[OF i] fin by (simp only: list.case deref_simps bind.simps split: if_split) simp
  qed
qed

lemma CheckEvent_clear_total:
  assumes inv: "core_inv s" and nh: "\<not> held s gEventQueueLock" and ev: "events s e = Some ev"
  shows "bind (CoreAcquireEventLock s) (\<lambda>s1. CoreReleaseEventLock rst (set_event e (ev\<lparr>SignalCount := 0\<rparr>) s1)) \<noteq> NoFuel"
proof -
  note h = tpl_le_event_lock[OF inv]
  let ?u = "locked gEventQueueLock s"
  have a: "CoreAcquireLock gEventQueueLock s = Ret ?u"
    using inv h nh by (intro AcquireLock_eq) (simp_all add: core_inv_def)
  have i: "in_section gEventQueueLock s ?u" by (rule in_section_locked[OF inv h])
  let ?w = "set_event e (ev\<lparr>SignalCount := 0\<rparr>) ?u"
  have "events ?u e = Some ev" using ev by simp
  then have "core_inv ?w" by (rule core_inv_count[OF in_sectionD(1)[OF i]])
  then have iw: "in_section gEventQueueLock s ?w" by (intro in_section_svc[OF i svc_frame]) simp_all
  have na: "nothing_above (gEfiCurrentTpl s) ?w" by (rule nothing_above_same[OF inv]) (simp_all add: set_event_def)
  from nf_leave[OF iw h na] show ?thesis by (simp add: CoreAcquireEventLock_def CoreReleaseEventLock_def a)
qed

text \<open>Checking a timer event that is not signalled lets time pass, which may run notifications; below \<open>TPL_HIGH_LEVEL - 1\<close>
  nothing is known about how long these take.\<close>

lemma CheckEvent_total:
  assumes inv: "core_inv s" and nh: "\<not> held s gEventQueueLock" "\<not> held s mEfiSystemTimeLock"
    and ev: "events s e = Some ev" and w: "Type ev AND EVT_NOTIFY_WAIT = 0"
    and t: "SignalCount ev \<noteq> 0 \<or> Type ev AND EVT_TIMER = 0 \<or> TPL_HIGH_LEVEL \<le> Suc (gEfiCurrentTpl s)"
  shows "CoreCheckEvent rst (Some e) s \<noteq> NoFuel"
proof (cases "SignalCount ev = 0")
  case True
  then show ?thesis using ev w t TimerTick_total[OF inv nh(2,1)] by (auto simp: CoreCheckEvent_def)
next
  case False
  let ?c = "bind (CoreAcquireEventLock s) (\<lambda>s3. bind (CoreReleaseEventLock rst (set_event e (ev\<lparr>SignalCount := 0\<rparr>) s3)) (\<lambda>s4. Ret (EFI_SUCCESS, s4)))"
  have "?c \<noteq> NoFuel" using CheckEvent_clear_total[OF inv nh(1) ev] by (simp flip: bind_assoc)
  moreover have "st \<noteq> EFI_NOT_READY" if "?c = Ret (st, b)" for st b using that by (auto simp: bind_eq_Ret)
  ultimately have "bind ?c (\<lambda>(Status, s5). if Status = EFI_NOT_READY then K Status s5 else Ret (Status, s5)) \<noteq> NoFuel" for K
    by (cases ?c) auto
  then show ?thesis using ev w False by (auto simp: CoreCheckEvent_def simp del: nf_bind_eq)
qed

end

end
