(* ===== verification/Deferred.thy ===== *)
theory Deferred
  imports EventRuns EventQuiet
begin

text \<open>
  \<open>MockDeferredSignal.c\<close>: a completion token that a mock protocol would signal is signalled by a
  one-shot timer instead, one tick later. The pending deliveries are heap entries in a list; the
  delivery timer's notification context is its entry. The state extends the state of the core, so
  the calls into the event services are those of \<open>EventCore\<close>.
\<close>

section \<open>State and operations\<close>

record deferred_entry =
  TokenEvent :: ptr
  DeliveryTimer :: ptr

text \<open>One \<open>MOCK_DEFERRED_STATE\<close>, the heap of its entries, and whether
  \<open>gMockEventAdvanceContext\<close> is set.\<close>

record deferred = core +
  entries :: "nat \<Rightarrow> deferred_entry option"
  next_entry :: nat
  PendingList :: "nat list"
  Initialized :: bool
  gMockEventAdvanceContext :: bool

text \<open>The number under which \<open>DeliverCallback\<close> is registered as a notification function.\<close>

definition DELIVER :: nat where
  "DELIVER = 0"

text \<open>\<open>RemoveEntryList (&Entry->Link); FreePool (Entry)\<close>\<close>

definition drop_entry :: "nat \<Rightarrow> 'x deferred_scheme \<Rightarrow> 'x deferred_scheme outcome" where
  "drop_entry en s = deref (entries s en) (\<lambda>_.
     if en \<in> set (PendingList s)
     then Ret (s\<lparr>PendingList := remove1 en (PendingList s), entries := (entries s)(en := None)\<rparr>)
     else Fault)"

type_synonym 'x unregister = "nat \<Rightarrow> 'x deferred_scheme \<Rightarrow> 'x deferred_scheme outcome"

text \<open>\<open>drain\<close> is \<open>DrainDpcQueue\<close>: the DPC protocol that it locates is not part of this file.\<close>

definition DeliverCallback ::
  "('x deferred_scheme \<Rightarrow> 'x deferred_scheme outcome) \<Rightarrow> 'x unregister \<Rightarrow> 'x deferred_ext core_scheme restore \<Rightarrow>
     nat \<Rightarrow> ptr \<Rightarrow> 'x deferred_scheme \<Rightarrow> 'x deferred_scheme outcome" where
  "DeliverCallback drain unreg rst Event Context s =
     (case Context of None \<Rightarrow> Ret s
      | Some en \<Rightarrow>
        deref (entries s en) (\<lambda>Entry.
        bind (if TokenEvent Entry \<noteq> None
              then bind (CoreSignalEvent rst (TokenEvent Entry) s) (\<lambda>(_, s1). Ret s1) else Ret s) (\<lambda>s1.
        bind (drain s1) (\<lambda>s2.
        bind (drop_entry en s2) (\<lambda>s3.
        bind (CoreCloseEvent unreg rst (Some Event) s3) (\<lambda>(_, s4). Ret s4))))))"

definition MockDeferredInit :: "bool \<Rightarrow> 'x deferred_scheme \<Rightarrow> 'x deferred_scheme" where
  "MockDeferredInit State s =
     (if \<not> State then s
      else if \<not> Initialized s then s\<lparr>PendingList := [], Initialized := True\<rparr> else s)"

definition MockDeferredSchedule ::
  "('x deferred_scheme \<Rightarrow> 'x deferred_scheme outcome) \<Rightarrow> 'x unregister \<Rightarrow> 'x deferred_ext core_scheme restore \<Rightarrow>
     bool \<Rightarrow> bool \<Rightarrow> bool \<Rightarrow> ptr \<Rightarrow> 'x deferred_scheme \<Rightarrow> (efi_status \<times> 'x deferred_scheme) outcome" where
  "MockDeferredSchedule drain unreg rst mem1 mem2 State Token s =
     (if \<not> State \<or> Token = None then Ret (EFI_INVALID_PARAMETER, s)
      else
        let s0 = MockDeferredInit State s
        in if \<not> gMockEventAdvanceContext s0 then
             bind (CoreSignalEvent rst Token s0) (\<lambda>(_, s1).
             bind (drain s1) (\<lambda>s2. Ret (EFI_SUCCESS, s2)))
           else if \<not> mem1 then Ret (EFI_OUT_OF_RESOURCES, s0)
           else
             let en = next_entry s0;
                 s1 = s0\<lparr>entries := (entries s0)(en \<mapsto> \<lparr>TokenEvent = Token, DeliveryTimer = None\<rparr>),
                         next_entry := en + 1\<rparr>
             in bind (CoreCreateEvent rst mem2 True (EVT_TIMER OR EVT_NOTIFY_SIGNAL) TPL_CALLBACK
                        (Some (ClientFn DELIVER)) (Some en) s1) (\<lambda>(Status, timer, s2).
                if EFI_ERROR Status
                then Ret (Status, s2\<lparr>entries := (entries s2)(en := None)\<rparr>)
                else
                  let s3 = s2\<lparr>entries := (entries s2)(en \<mapsto> \<lparr>TokenEvent = Token, DeliveryTimer = timer\<rparr>)\<rparr>
                  in bind (CoreSetTimer rst timer TimerRelative 1 s3) (\<lambda>(Status, s4).
                     if EFI_ERROR Status
                     then bind (CoreCloseEvent unreg rst timer s4) (\<lambda>(_, s5).
                          Ret (Status, s5\<lparr>entries := (entries s5)(en := None)\<rparr>))
                     else Ret (EFI_SUCCESS, s4\<lparr>PendingList := PendingList s4 @ [en]\<rparr>))))"

text \<open>Stop the timer of an entry, close it, unlink and free the entry.\<close>

definition cancel_entry ::
  "'x unregister \<Rightarrow> 'x deferred_ext core_scheme restore \<Rightarrow> nat \<Rightarrow> 'x deferred_scheme \<Rightarrow> 'x deferred_scheme outcome" where
  "cancel_entry unreg rst en s =
     deref (entries s en) (\<lambda>Entry.
     bind (CoreSetTimer rst (DeliveryTimer Entry) TimerCancel 0 s) (\<lambda>(_, s1).
     deref (entries s1 en) (\<lambda>Entry.
     bind (CoreCloseEvent unreg rst (DeliveryTimer Entry) s1) (\<lambda>(_, s2).
     drop_entry en s2))))"

fun Cancel_find :: "(nat \<Rightarrow> deferred_entry option) \<Rightarrow> ptr \<Rightarrow> nat list \<Rightarrow> ptr outcome" where
  "Cancel_find ents Token [] = Ret None"
| "Cancel_find ents Token (en # es) =
     deref (ents en) (\<lambda>Entry. if TokenEvent Entry = Token then Ret (Some en) else Cancel_find ents Token es)"

definition MockDeferredCancel ::
  "'x unregister \<Rightarrow> 'x deferred_ext core_scheme restore \<Rightarrow> bool \<Rightarrow> ptr \<Rightarrow> 'x deferred_scheme \<Rightarrow>
     (efi_status \<times> 'x deferred_scheme) outcome" where
  "MockDeferredCancel unreg rst State Token s =
     (if \<not> State \<or> Token = None then Ret (EFI_NOT_FOUND, s)
      else if \<not> Initialized s \<or> PendingList s = [] then Ret (EFI_NOT_FOUND, s)
      else bind (Cancel_find (entries s) Token (PendingList s)) (\<lambda>found.
        case found of None \<Rightarrow> Ret (EFI_NOT_FOUND, s)
        | Some en \<Rightarrow> bind (cancel_entry unreg rst en s) (\<lambda>s1. Ret (EFI_SUCCESS, s1))))"

text \<open>\<open>GetNextNode\<close>: the entry after \<open>en\<close>, none at the end of the list.\<close>

definition next_node :: "nat \<Rightarrow> nat list \<Rightarrow> ptr outcome" where
  "next_node en xs =
     (case dropWhile (\<lambda>x. x \<noteq> en) xs of [] \<Rightarrow> Fault | _ # ys \<Rightarrow> Ret (case ys of [] \<Rightarrow> None | y # _ \<Rightarrow> Some y))"

fun CancelAll_loop ::
  "'x unregister \<Rightarrow> 'x deferred_ext core_scheme restore \<Rightarrow> nat \<Rightarrow> ptr \<Rightarrow> 'x deferred_scheme \<Rightarrow>
     'x deferred_scheme outcome" where
  "CancelAll_loop unreg rst 0 Link s = NoFuel"
| "CancelAll_loop unreg rst (Suc k) Link s =
     (case Link of None \<Rightarrow> Ret s
      | Some en \<Rightarrow>
        bind (next_node en (PendingList s)) (\<lambda>Next.
        bind (cancel_entry unreg rst en s) (CancelAll_loop unreg rst k Next)))"

definition MockDeferredCancelAll ::
  "'x unregister \<Rightarrow> 'x deferred_ext core_scheme restore \<Rightarrow> nat \<Rightarrow> bool \<Rightarrow> 'x deferred_scheme \<Rightarrow>
     'x deferred_scheme outcome" where
  "MockDeferredCancelAll unreg rst k State s =
     (if \<not> State \<or> \<not> Initialized s then Ret s
      else CancelAll_loop unreg rst k (case PendingList s of [] \<Rightarrow> None | en # _ \<Rightarrow> Some en) s)"

definition MockDeferredReset ::
  "'x unregister \<Rightarrow> 'x deferred_ext core_scheme restore \<Rightarrow> nat \<Rightarrow> bool \<Rightarrow> 'x deferred_scheme \<Rightarrow>
     'x deferred_scheme outcome" where
  "MockDeferredReset unreg rst k State s =
     (if \<not> State then Ret s
      else bind (if Initialized s then MockDeferredCancelAll unreg rst k State s else Ret s) (\<lambda>s1.
           Ret (s1\<lparr>PendingList := [], Initialized := True\<rparr>)))"

section \<open>The pending deliveries\<close>

definition delivery_timer :: "nat \<Rightarrow> ievent \<Rightarrow> bool" where
  "delivery_timer en ev \<longleftrightarrow> Type ev = EVT_TIMER OR EVT_NOTIFY_SIGNAL \<and> NotifyFunction ev = Some (ClientFn DELIVER) \<and>
     NotifyContext ev = Some en \<and> ExFlag ev AND EVT_EXFLAG_EVENT_PROTOCOL_NOTIFICATION = 0"

definition entry_ok :: "'x deferred_scheme \<Rightarrow> nat \<Rightarrow> deferred_entry \<Rightarrow> bool" where
  "entry_ok s en E \<longleftrightarrow> en < next_entry s \<and> TokenEvent E \<noteq> None \<and>
     (\<exists>t ev. DeliveryTimer E = Some t \<and> events s t = Some ev \<and> delivery_timer en ev \<and>
        mEfiCheckTimerEvent s \<noteq> Some t \<and> gIdleLoopEvent s \<noteq> Some t)"

text \<open>Every live entry is pending and owns a live timer; nothing leaks and nothing dangles.\<close>

definition deferred_inv :: "'x deferred_scheme \<Rightarrow> bool" where
  "deferred_inv s \<longleftrightarrow> distinct (PendingList s) \<and> (Initialized s \<or> PendingList s = []) \<and>
     (\<forall>en. en \<in> set (PendingList s) \<longleftrightarrow> entries s en \<noteq> None) \<and>
     (\<forall>en E. entries s en = Some E \<longrightarrow> entry_ok s en E)"

lemma deferred_more:
  fixes s s' :: "'x deferred_scheme"
  assumes "core.more s' = core.more s"
  shows "entries s' = entries s" "PendingList s' = PendingList s" "next_entry s' = next_entry s"
    "Initialized s' = Initialized s" "gMockEventAdvanceContext s' = gMockEventAdvanceContext s"
    "deferred.more s' = deferred.more s"
  using assms by (cases s; cases s'; simp)+

lemma core_inv_deferred [simp]:
  fixes s :: "'x deferred_scheme"
  shows "core_inv (s\<lparr>PendingList := l\<rparr>) = core_inv s" "core_inv (s\<lparr>entries := m\<rparr>) = core_inv s"
    "core_inv (s\<lparr>next_entry := k\<rparr>) = core_inv s" "core_inv (s\<lparr>Initialized := b\<rparr>) = core_inv s"
  by (simp_all add: core_inv_def event_inv_def tpl_inv_def lock_inv_def)

definition idle :: "'x deferred_scheme \<Rightarrow> bool" where
  "idle s \<longleftrightarrow> idle_inv s \<and> deferred_inv s"

text \<open>What cancelling the entry \<open>en\<close> with timer \<open>t\<close> does.\<close>

definition cancelled :: "nat \<Rightarrow> nat \<Rightarrow> 'x deferred_scheme \<Rightarrow> 'x deferred_scheme \<Rightarrow> bool" where
  "cancelled en t s s' \<longleftrightarrow> svc s s' \<and> events s' = (events s)(t := None) \<and>
     mEfiCheckTimerEvent s' = mEfiCheckTimerEvent s \<and> gIdleLoopEvent s' = gIdleLoopEvent s \<and>
     PendingList s' = remove1 en (PendingList s) \<and> entries s' = (entries s)(en := None) \<and>
     next_entry s' = next_entry s \<and> Initialized s' = Initialized s \<and> deferred.more s' = deferred.more s"

lemma deferred_inv_cancelled:
  assumes "deferred_inv s" and "entries s en = Some E" and "DeliveryTimer E = Some t" and c: "cancelled en t s s'"
  shows "deferred_inv s'"
proof -
  have ok: "entry_ok s x F" if "entries s x = Some F" for x F using assms(1) that by (simp add: deferred_inv_def)
  obtain ev where ev: "events s t = Some ev" "delivery_timer en ev"
    using ok[OF assms(2)] assms(3) by (auto simp: entry_ok_def)
  have "entry_ok s' x F" if x: "entries s x = Some F" "x \<noteq> en" for x F
  proof -
    obtain t' ev' where t': "DeliveryTimer F = Some t'" "events s t' = Some ev'" "delivery_timer x ev'"
      using ok[OF x(1)] by (auto simp: entry_ok_def)
    have "t' \<noteq> t" using t'(2,3) ev x(2) by (auto simp: delivery_timer_def)
    then show ?thesis using ok[OF x(1)] c t' by (auto simp: entry_ok_def cancelled_def)
  qed
  then show ?thesis using assms(1) c by (auto simp: deferred_inv_def cancelled_def)
qed

lemma idle_cancelled:
  "idle s \<Longrightarrow> entries s en = Some E \<Longrightarrow> DeliveryTimer E = Some t \<Longrightarrow> cancelled en t s s' \<Longrightarrow> idle s'"
  using idle_svc deferred_inv_cancelled unfolding idle_def by (metis cancelled_def)

context tpl_restore begin

lemma CloseEvent_more:
  assumes inv: "core_inv s" and nh: "\<not> held s gEventQueueLock" "\<not> held s mEfiTimerLock"
    and h: "gEfiCurrentTpl s < TPL_HIGH_LEVEL" and ev: "events s e = Some ev"
    and ne: "mEfiCheckTimerEvent s \<noteq> Some e" "gIdleLoopEvent s \<noteq> Some e"
    and fl: "ExFlag ev AND EVT_EXFLAG_EVENT_PROTOCOL_NOTIFICATION = 0"
  shows "safe (\<lambda>(st, s'). st = EFI_SUCCESS \<and> svc s s' \<and> events s' = (events s)(e := None) \<and>
      mEfiCheckTimerEvent s' = mEfiCheckTimerEvent s \<and> gIdleLoopEvent s' = gIdleLoopEvent s \<and>
      core.more s' = core.more s) (CoreCloseEvent unreg rst (Some e) s)"
  by (rule safe_mono[OF CloseEvent_safe[OF inv nh h ev ne]])
    (use fl in \<open>auto simp: closed_def drop_event_def same_core_fields dest: same_core_fields(1,9,10)\<close>)

end

lemma deferred_invD:
  assumes "deferred_inv s"
  shows "distinct (PendingList s)" "en \<in> set (PendingList s) \<longleftrightarrow> entries s en \<noteq> None"
    "entries s en = Some E \<Longrightarrow> entry_ok s en E"
  using assms by (simp_all add: deferred_inv_def)

lemma cancel_entry_safe:
  assumes r: "tpl_restore rst" and i: "idle s" and h: "gEfiCurrentTpl s < TPL_HIGH_LEVEL" and en: "entries s en = Some E" and t: "DeliveryTimer E = Some t"
  shows "safe (cancelled en t s) (cancel_entry unreg rst en s)"
proof -
  have inv: "core_inv s" and nh: "\<not> held s l" and d: "deferred_inv s" for l using i by (simp_all add: idle_def idle_inv_def)
  obtain ev where ev: "events s t = Some ev" "delivery_timer en ev" "mEfiCheckTimerEvent s \<noteq> Some t" "gIdleLoopEvent s \<noteq> Some t"
    using deferred_invD(3)[OF d en] t by (auto simp: entry_ok_def)
  have ty: "Type ev AND EVT_TIMER \<noteq> 0" and fl: "ExFlag ev AND EVT_EXFLAG_EVENT_PROTOCOL_NOTIFICATION = 0"
    using ev(2) by (simp_all add: delivery_timer_def)
  have pl: "en \<in> set (PendingList s)" using d en by (auto simp: deferred_inv_def)
  have ok: "timer_args_ok s (Some t) TimerCancel" using ev(1) ty by (simp add: timer_args_ok_def)
  let ?s1 = "(unlocked mEfiTimerLock (stop_timer t ev (locked mEfiTimerLock s)))\<lparr>gEfiCurrentTpl := gEfiCurrentTpl s\<rparr>"
  let ?v = "ev\<lparr>TimerLinked := False, TriggerTime := 0, Period := 0\<rparr>"
  have f: "events ?s1 = (events s)(t \<mapsto> ?v)" "core.more ?s1 = core.more s" "mEfiCheckTimerEvent ?s1 = mEfiCheckTimerEvent s"
    "gIdleLoopEvent ?s1 = gIdleLoopEvent s"
    by (simp_all add: unlocked_def stop_timer_def set_event_def locked_def)
  note m = deferred_more[OF f(2)]
  have "safe (cancelled en t s) (bind (CoreSetTimer rst (Some t) TimerCancel 0 s) (\<lambda>(_, s1).
     deref (entries s1 en) (\<lambda>E. bind (CoreCloseEvent unreg rst (DeliveryTimer E) s1) (\<lambda>(_, s2). drop_entry en s2))))"
  proof (rule safe_bind[OF tpl_restore.SetTimer_cancel[OF r inv nh h ev(1) ok]])
    fix x assume "case x of (st, s') \<Rightarrow> st = EFI_SUCCESS \<and> svc s s' \<and> s' = ?s1"
    then have x: "snd x = ?s1" and sv: "svc s ?s1" by auto
    note ds = svcD[OF sv]
    have e1: "entries ?s1 en = Some E" using en m(1) by simp
    have nh1: "\<not> held ?s1 l" for l using ds(3) nh by simp
    have "safe (cancelled en t s) (bind (CoreCloseEvent unreg rst (Some t) ?s1) (\<lambda>(_, s2). drop_entry en s2))"
    proof (rule safe_bind[OF tpl_restore.CloseEvent_more[OF r ds(1) nh1 nh1 _ _ _ _]])
      show "events ?s1 t = Some ?v" unfolding f(1) by simp
      fix y assume y: "case y of (st, s') \<Rightarrow> st = EFI_SUCCESS \<and> svc ?s1 s' \<and> events s' = (events ?s1)(t := None) \<and>
        mEfiCheckTimerEvent s' = mEfiCheckTimerEvent ?s1 \<and> gIdleLoopEvent s' = gIdleLoopEvent ?s1 \<and> core.more s' = core.more ?s1"
      then obtain s2 where s2: "snd y = s2" "svc ?s1 s2" "events s2 = (events ?s1)(t := None)"
        "mEfiCheckTimerEvent s2 = mEfiCheckTimerEvent s" "gIdleLoopEvent s2 = gIdleLoopEvent s" "core.more s2 = core.more s"
        unfolding f(2-4) by auto
      note m2 = deferred_more[OF s2(6)]
      have "drop_entry en s2 = Ret (s2\<lparr>PendingList := remove1 en (PendingList s), entries := (entries s)(en := None)\<rparr>)"
        using en pl m2 by (simp add: drop_entry_def)
      moreover have "svc s (s2\<lparr>PendingList := remove1 en (PendingList s), entries := (entries s)(en := None)\<rparr>)"
        using svc_trans[OF sv s2(2)] by (simp add: svc_def locks_kept_def)
      ultimately show "safe (cancelled en t s) (case y of (_, s2) \<Rightarrow> drop_entry en s2)"
        using s2(1,3-5) m2 f(1) by (auto simp: cancelled_def split: prod.split)
    qed (use ev(3,4) fl h f in simp_all)
    then show "safe (cancelled en t s) (case x of (_, s1) \<Rightarrow> deref (entries s1 en)
       (\<lambda>E. bind (CoreCloseEvent unreg rst (DeliveryTimer E) s1) (\<lambda>(_, s2). drop_entry en s2)))"
      using x e1 t by (cases x) simp
  qed
  then show ?thesis using en t by (simp add: cancel_entry_def)
qed

lemma next_node_hd: "next_node en (en # es) = Ret (case es of [] \<Rightarrow> None | y # _ \<Rightarrow> Some y)"
  by (simp add: next_node_def)

definition list_head :: "nat list \<Rightarrow> ptr" where
  "list_head xs = (case xs of [] \<Rightarrow> None | x # _ \<Rightarrow> Some x)"

text \<open>Cancelling everything closes the delivery timers and nothing else.\<close>

definition owned :: "(nat \<Rightarrow> deferred_entry option) \<Rightarrow> nat \<Rightarrow> bool" where
  "owned ents x \<longleftrightarrow> (\<exists>en E. ents en = Some E \<and> DeliveryTimer E = Some x)"

lemma owned_remove:
  assumes "ents en = Some E" and "DeliveryTimer E = Some t"
  shows "owned (ents(en := None)) x \<or> x = t \<longleftrightarrow> owned ents x"
proof
  assume "owned ents x"
  then obtain en' E' where "ents en' = Some E'" "DeliveryTimer E' = Some x" by (auto simp: owned_def)
  then show "owned (ents(en := None)) x \<or> x = t" using assms by (cases "en' = en") (auto simp: owned_def)
qed (use assms in \<open>auto simp: owned_def split: if_splits\<close>)

definition all_cancelled :: "'x deferred_scheme \<Rightarrow> 'x deferred_scheme \<Rightarrow> bool" where
  "all_cancelled s s' \<longleftrightarrow> idle s' \<and> gEfiCurrentTpl s' = gEfiCurrentTpl s \<and> PendingList s' = [] \<and> entries s' = Map.empty \<and>
     Initialized s' = Initialized s \<and> deferred.more s' = deferred.more s \<and>
     events s' = (\<lambda>x. if owned (entries s) x then None else events s x)"

lemma CancelAll_loop_safe:
  assumes r: "tpl_restore rst" and "idle s" and "gEfiCurrentTpl s < TPL_HIGH_LEVEL"
  shows "safe (all_cancelled s) (CancelAll_loop unreg rst k (list_head (PendingList s)) s)"
  using assms(2,3)
proof (induction k arbitrary: s)
  case (Suc k)
  have d: "deferred_inv s" using Suc.prems(1) by (simp add: idle_def)
  show ?case
  proof (cases "PendingList s")
    case Nil
    then have "entries s en = None" for en using deferred_invD(2)[OF d, of en] by simp
    then have "entries s = Map.empty" by auto
    then show ?thesis using Nil Suc.prems by (simp add: list_head_def all_cancelled_def owned_def)
  next
    case (Cons en es)
    then obtain E where E: "entries s en = Some E" using deferred_invD(2)[OF d, of en] by auto
    then obtain t where t: "DeliveryTimer E = Some t" using deferred_invD(3)[OF d E] by (auto simp: entry_ok_def)
    have "safe (all_cancelled s) (bind (cancel_entry unreg rst en s) (CancelAll_loop unreg rst k (list_head es)))"
    proof (rule safe_bind[OF cancel_entry_safe[OF r Suc.prems E t]])
      fix s1 assume c: "cancelled en t s s1"
      have i1: "idle s1" by (rule idle_cancelled[OF Suc.prems(1) E t c])
      have pl: "PendingList s1 = es" and tp: "gEfiCurrentTpl s1 = gEfiCurrentTpl s"
        using c Cons by (simp_all add: cancelled_def svc_def)
      have "safe (all_cancelled s1) (CancelAll_loop unreg rst k (list_head es) s1)"
        using Suc.IH[OF i1] Suc.prems(2) by (simp add: pl tp)
      then show "safe (all_cancelled s) (CancelAll_loop unreg rst k (list_head es) s1)"
      proof (rule safe_mono)
        fix s2 assume a: "all_cancelled s1 s2"
        have "events s2 x = (if owned (entries s) x then None else events s x)" for x
          using a c owned_remove[of "entries s" en E t x, OF E t]
          by (cases "x = t") (auto simp: all_cancelled_def cancelled_def)
        then show "all_cancelled s s2" using a c tp by (auto simp: all_cancelled_def cancelled_def)
      qed
    qed
    then show ?thesis using Cons by (simp add: list_head_def next_node_hd)
  qed
qed simp

lemma convert_plain: "Ty \<noteq> EVT_SIGNAL_EXIT_BOOT_SERVICES \<Longrightarrow> Ty \<noteq> EVT_SIGNAL_VIRTUAL_ADDRESS_CHANGE \<Longrightarrow>
    convert_group Ty None = (Ty, None)"
  by (simp add: convert_group_def)

definition scheduled :: "nat \<Rightarrow> 'x deferred_scheme \<Rightarrow> 'x deferred_scheme \<Rightarrow> bool" where
  "scheduled tok s s' \<longleftrightarrow> idle s' \<and> gEfiCurrentTpl s' = gEfiCurrentTpl s \<and>
     PendingList s' = PendingList s @ [next_entry s] \<and>
     entries s' = (entries s)(next_entry s \<mapsto> \<lparr>TokenEvent = Some tok, DeliveryTimer = Some (next_event s)\<rparr>) \<and>
     timer_view s' = (timer_view s)(next_event s \<mapsto> (mEfiSystemTime s + 1, 0, True)) \<and>
     (\<forall>x. x \<noteq> next_event s \<longrightarrow> count_of s' x = count_of s x) \<and> deferred.more s' = deferred.more s"

lemma Schedule_safe:
  fixes s :: "'x deferred_scheme"
  assumes r: "tpl_restore rst" and i: "idle s" and h: "gEfiCurrentTpl s < TPL_HIGH_LEVEL"
    and g: "gMockEventAdvanceContext s"
  shows "safe (\<lambda>(st, s'). st = EFI_SUCCESS \<and> scheduled tok s s')
    (MockDeferredSchedule drain unreg rst True True True (Some tok) s)"
proof -
  let ?en = "next_entry s" and ?t = "next_event s"
  let ?s0 = "MockDeferredInit True s"
  have ini: "PendingList s = []" if "\<not> Initialized s" using i that by (auto simp: idle_def deferred_inv_def)
  have s0: "?s0 = s\<lparr>Initialized := True\<rparr>"
    using ini by (cases s) (simp add: MockDeferredInit_def)
  let ?s1 = "s\<lparr>Initialized := True, entries := (entries s)(?en \<mapsto> \<lparr>TokenEvent = Some tok, DeliveryTimer = None\<rparr>),
     next_entry := ?en + 1\<rparr>"
  have d: "deferred_inv s" and c: "core_inv s" and nh: "\<not> held s l" for l using i by (simp_all add: idle_def idle_inv_def)
  have inv1: "core_inv ?s1" using c by simp
  have nh1: "\<not> held ?s1 l" for l using nh by simp
  have fresh: "entries s ?en = None" using deferred_invD(3)[OF d, of ?en] by (cases "entries s ?en") (auto simp: entry_ok_def)
  have acc: "create_accepts (EVT_TIMER OR EVT_NOTIFY_SIGNAL) TPL_CALLBACK (Some (ClientFn DELIVER)) None"
    by (simp add: create_accepts_def mEventTable_def convert_group_def is_notify_type_def)
  have ce: "created_event (EVT_TIMER OR EVT_NOTIFY_SIGNAL) TPL_CALLBACK (Some (ClientFn DELIVER)) (Some ?en) None =
      new_event (EVT_TIMER OR EVT_NOTIFY_SIGNAL) TPL_CALLBACK (Some (ClientFn DELIVER)) (Some ?en) None"
    by (simp add: created_event_def convert_group_def is_notify_type_def)
  have cr: "CoreCreateEvent rst True True (EVT_TIMER OR EVT_NOTIFY_SIGNAL) TPL_CALLBACK (Some (ClientFn DELIVER)) (Some ?en) ?s1 =
      CoreCreateEventInternal rst True True (EVT_TIMER OR EVT_NOTIFY_SIGNAL) TPL_CALLBACK (Some (ClientFn DELIVER)) (Some ?en) None ?s1"
    by (simp add: CoreCreateEvent_def CoreCreateEventEx_def)
  let ?mk = "\<lambda>s2. s2\<lparr>entries := (entries s2)(?en \<mapsto> \<lparr>TokenEvent = Some tok, DeliveryTimer = Some ?t\<rparr>)\<rparr>"
  let ?fin = "\<lambda>s4. s4\<lparr>PendingList := PendingList s4 @ [?en]\<rparr>"
  have arm: "safe (\<lambda>(st, s'). st = EFI_SUCCESS \<and> scheduled tok s s')
      (bind (CoreSetTimer rst (Some ?t) TimerRelative 1 (?mk s2)) (\<lambda>(Status, s4).
                     if EFI_ERROR Status
                     then bind (CoreCloseEvent unreg rst (Some ?t) s4) (\<lambda>(_, s5).
                          Ret (Status, s5\<lparr>entries := (entries s5)(?en := None)\<rparr>))
                     else Ret (EFI_SUCCESS, ?fin s4)))"
    if sv: "svc ?s1 s2" and ev: "events s2 ?t = Some ev" and dt: "delivery_timer ?en ev" and cnt: "SignalCount ev = 0"
      and oth: "\<forall>x. x \<noteq> ?t \<longrightarrow> events s2 x = events s x"
      and ch: "mEfiCheckTimerEvent s2 = mEfiCheckTimerEvent s" "gIdleLoopEvent s2 = gIdleLoopEvent s"
      and m: "core.more s2 = core.more ?s1" and tm: "mEfiSystemTime s2 = mEfiSystemTime s" and fr: "events s ?t = None" for s2 ev
  proof -
    note ds = svcD[OF sv] and mm = deferred_more[OF m]
    have nh3: "\<not> held (?mk s2) l" for l using ds(3) nh by simp
    have ty: "Type ev AND EVT_TIMER \<noteq> 0" using dt by (simp add: delivery_timer_def)
    have ne: "mEfiCheckTimerEvent s \<noteq> Some ?t" "gIdleLoopEvent s \<noteq> Some ?t"
      using event_invD(8,9)[of s ?t] c fr by (auto simp: core_inv_def)
    show ?thesis
    proof (rule safe_bind[OF tpl_restore.SetTimer_exact[OF r _ nh3 _ _ ty, where Ty = TimerRelative]])
      fix x assume x: "case x of (st, s') \<Rightarrow> st = EFI_SUCCESS \<and> svc (?mk s2) s' \<and>
        timer_view s' = (timer_view (?mk s2))(?t \<mapsto> timer_programmed (mEfiSystemTime (?mk s2)) TimerRelative 1) \<and>
        count_of s' = count_of (?mk s2) \<and> core.more s' = core.more (?mk s2) \<and>
        events s' = (events (?mk s2))(?t \<mapsto> armed_event (mEfiSystemTime (?mk s2)) TimerRelative 1 ev) \<and>
        mEfiCheckTimerEvent s' = mEfiCheckTimerEvent (?mk s2) \<and> gIdleLoopEvent s' = gIdleLoopEvent (?mk s2)"
      obtain st s4 where xx: "x = (st, s4)" by (cases x)
      note y = x[unfolded xx prod.case]
      have s4: "x = (EFI_SUCCESS, s4)" "svc (?mk s2) s4"
        "timer_view s4 = (timer_view (?mk s2))(?t \<mapsto> timer_programmed (mEfiSystemTime (?mk s2)) TimerRelative 1)"
        "core.more s4 = core.more (?mk s2)" "mEfiCheckTimerEvent s4 = mEfiCheckTimerEvent s" "gIdleLoopEvent s4 = gIdleLoopEvent s"
        using y ch xx by simp_all
      have "events s2 = (events s)(?t \<mapsto> ev)" using oth ev by (auto simp: fun_eq_iff)
      then have e4: "events s4 = (events s)(?t \<mapsto> armed_event (mEfiSystemTime s) TimerRelative 1 ev)"
        using y tm by simp
      show "safe (\<lambda>(st, s'). st = EFI_SUCCESS \<and> scheduled tok s s') (case x of (Status, s4) \<Rightarrow>
                     if EFI_ERROR Status
                     then bind (CoreCloseEvent unreg rst (Some ?t) s4) (\<lambda>(_, s5).
                          Ret (Status, s5\<lparr>entries := (entries s5)(?en := None)\<rparr>))
                     else Ret (EFI_SUCCESS, ?fin s4))"
      proof -
        note m4 = deferred_more[OF s4(4)]
        let ?s' = "?fin s4"
        have ae: "delivery_timer ?en (armed_event (mEfiSystemTime s) TimerRelative 1 ev)"
          using dt by (simp add: armed_event_def timer_programmed_def delivery_timer_def)
        have sv4: "svc s ?s'"
          using sv s4(2) by (simp add: svc_def locks_kept_def)
        have en: "entries ?s' = (entries s)(?en \<mapsto> \<lparr>TokenEvent = Some tok, DeliveryTimer = Some ?t\<rparr>)"
          and pl: "PendingList ?s' = PendingList s @ [?en]" and nx: "next_entry ?s' = Suc ?en" and il: "Initialized ?s'"
          using m4 mm by (simp_all add: fun_eq_iff)
        have ok: "entry_ok ?s' z F" if z: "entries ?s' z = Some F" for z F
        proof (cases "z = ?en")
          case True
          then show ?thesis using z s4(5,6) e4 ne ae unfolding en by (auto simp: entry_ok_def nx)
        next
          case False
          then have "entry_ok s z F" using z deferred_invD(3)[OF d] unfolding en by simp
          then show ?thesis using s4(5,6) e4 fr nx unfolding entry_ok_def by fastforce
        qed
        have "deferred_inv ?s'"
          unfolding deferred_inv_def pl
          using ok il deferred_invD(1,2)[OF d] fresh by (auto simp: en)
        then have "idle ?s'" using idle_svc[OF _ sv4] i by (simp add: idle_def)
        moreover have "timer_view ?s' = (timer_view s)(?t \<mapsto> (mEfiSystemTime s + 1, 0, True))"
          using e4 by (auto simp: timer_view_def fun_eq_iff armed_event_def timer_programmed_def)
        moreover have "\<forall>x. x \<noteq> ?t \<longrightarrow> count_of ?s' x = count_of s x"
          using e4 by (simp add: count_of_def)
        moreover have "deferred.more ?s' = deferred.more s" using m4(6) mm(6) by simp
        ultimately have "scheduled tok s ?s'" using en pl sv4 by (simp add: scheduled_def svc_def)
        then show ?thesis unfolding s4(1) by simp
      qed
    qed (use ds(1,2) ev h in simp_all)
  qed
  have "safe (\<lambda>(st, s'). st = EFI_SUCCESS \<and> scheduled tok s s')
    (bind (CoreCreateEventInternal rst True True (EVT_TIMER OR EVT_NOTIFY_SIGNAL) TPL_CALLBACK (Some (ClientFn DELIVER)) (Some ?en) None ?s1)
      (\<lambda>(Status, timer, s2).
                if EFI_ERROR Status
                then Ret (Status, s2\<lparr>entries := (entries s2)(?en := None)\<rparr>)
                else
                  let s3 = s2\<lparr>entries := (entries s2)(?en \<mapsto> \<lparr>TokenEvent = Some tok, DeliveryTimer = timer\<rparr>)\<rparr>
                  in bind (CoreSetTimer rst timer TimerRelative 1 s3) (\<lambda>(Status, s4).
                     if EFI_ERROR Status
                     then bind (CoreCloseEvent unreg rst timer s4) (\<lambda>(_, s5).
                          Ret (Status, s5\<lparr>entries := (entries s5)(?en := None)\<rparr>))
                     else Ret (EFI_SUCCESS, s4\<lparr>PendingList := PendingList s4 @ [?en]\<rparr>))))"
  proof (rule safe_bind[OF tpl_restore.CreateEvent_safe[OF r inv1 nh1 acc]])
    fix x assume x: "case x of (st, p, s') \<Rightarrow> st = EFI_SUCCESS \<and> p = Some (next_event ?s1) \<and> svc ?s1 s' \<and>
      events ?s1 (next_event ?s1) = None \<and>
      (\<exists>r l. events s' (next_event ?s1) =
         Some ((created_event (EVT_TIMER OR EVT_NOTIFY_SIGNAL) TPL_CALLBACK (Some (ClientFn DELIVER)) (Some ?en) None)
           \<lparr>RuntimeLinked := r, SignalLinked := l\<rparr>)) \<and>
      (\<forall>x. x \<noteq> next_event ?s1 \<longrightarrow> events s' x = events ?s1 x) \<and>
      mEfiCheckTimerEvent s' = mEfiCheckTimerEvent ?s1 \<and> gIdleLoopEvent s' = gIdleLoopEvent ?s1 \<and>
      core.more s' = core.more ?s1 \<and> mEfiSystemTime s' = mEfiSystemTime ?s1 \<and> next_event s' = Suc (next_event ?s1)"
    then obtain s2 rr ll where s2: "x = (EFI_SUCCESS, Some ?t, s2)" "svc ?s1 s2" "events s ?t = None"
      "events s2 ?t = Some ((new_event (EVT_TIMER OR EVT_NOTIFY_SIGNAL) TPL_CALLBACK (Some (ClientFn DELIVER)) (Some ?en) None)
           \<lparr>RuntimeLinked := rr, SignalLinked := ll\<rparr>)"
      "\<forall>x. x \<noteq> ?t \<longrightarrow> events s2 x = events s x"
      "mEfiCheckTimerEvent s2 = mEfiCheckTimerEvent s" "gIdleLoopEvent s2 = gIdleLoopEvent s"
      "core.more s2 = core.more ?s1" "mEfiSystemTime s2 = mEfiSystemTime s"
      unfolding ce by (cases x) auto
    have "entries s2 ?en = Some \<lparr>TokenEvent = Some tok, DeliveryTimer = None\<rparr>" using deferred_more(1)[OF s2(8)] by simp
    then show "safe (\<lambda>(st, s'). st = EFI_SUCCESS \<and> scheduled tok s s') (case x of (Status, timer, s2) \<Rightarrow>
                if EFI_ERROR Status
                then Ret (Status, s2\<lparr>entries := (entries s2)(?en := None)\<rparr>)
                else
                  let s3 = s2\<lparr>entries := (entries s2)(?en \<mapsto> \<lparr>TokenEvent = Some tok, DeliveryTimer = timer\<rparr>)\<rparr>
                  in bind (CoreSetTimer rst timer TimerRelative 1 s3) (\<lambda>(Status, s4).
                     if EFI_ERROR Status
                     then bind (CoreCloseEvent unreg rst timer s4) (\<lambda>(_, s5).
                          Ret (Status, s5\<lparr>entries := (entries s5)(?en := None)\<rparr>))
                     else Ret (EFI_SUCCESS, s4\<lparr>PendingList := PendingList s4 @ [?en]\<rparr>)))"
      unfolding s2(1) prod.case
      using arm[OF s2(2,4) _ _ s2(5-9,3)] by (simp add: delivery_timer_def new_event_def zero_event_def)
  qed
  then show ?thesis using g by (simp add: MockDeferredSchedule_def s0 Let_def cr[simplified])
qed

lemma Schedule_ret:
  fixes s :: "'x deferred_scheme"
  assumes r: "tpl_restore_total rst" and i: "idle s" and h: "gEfiCurrentTpl s < TPL_HIGH_LEVEL"
    and g: "gMockEventAdvanceContext s"
  shows "\<exists>s'. MockDeferredSchedule drain unreg rst True True True (Some tok) s = Ret (EFI_SUCCESS, s') \<and> scheduled tok s s'"
proof -
  have r0: "tpl_restore rst" using r by (simp add: tpl_restore_total_def)
  let ?en = "next_entry s" and ?t = "next_event s"
  let ?s0 = "MockDeferredInit True s"
  have ini: "PendingList s = []" if "\<not> Initialized s" using i that by (auto simp: idle_def deferred_inv_def)
  have s0: "?s0 = s\<lparr>Initialized := True\<rparr>"
    using ini by (cases s) (simp add: MockDeferredInit_def)
  let ?s1 = "s\<lparr>Initialized := True, entries := (entries s)(?en \<mapsto> \<lparr>TokenEvent = Some tok, DeliveryTimer = None\<rparr>),
     next_entry := ?en + 1\<rparr>"
  have c: "core_inv s" and nh: "\<not> held s l" for l using i by (simp_all add: idle_def idle_inv_def)
  have inv1: "core_inv ?s1" using c by simp
  have nh1: "\<not> held ?s1 l" for l using nh by simp
  let ?Ty = "EVT_TIMER OR EVT_NOTIFY_SIGNAL" and ?fn = "Some (ClientFn DELIVER)"
  have acc: "create_accepts ?Ty TPL_CALLBACK ?fn None"
    by (simp add: create_accepts_def mEventTable_def convert_group_def is_notify_type_def)
  have ce: "Type (created_event ?Ty TPL_CALLBACK ?fn (Some ?en) None) = ?Ty"
    by (simp add: created_event_def convert_group_def is_notify_type_def)
  have cr: "CoreCreateEvent rst True True ?Ty TPL_CALLBACK ?fn (Some ?en) ?s1 =
      CoreCreateEventInternal rst True True ?Ty TPL_CALLBACK ?fn (Some ?en) None ?s1"
    by (simp add: CoreCreateEvent_def CoreCreateEventEx_def)
  have "bind (CoreCreateEventInternal rst True True ?Ty TPL_CALLBACK ?fn (Some ?en) None ?s1)
      (\<lambda>(Status, timer, s2).
                if EFI_ERROR Status
                then Ret (Status, s2\<lparr>entries := (entries s2)(?en := None)\<rparr>)
                else
                  let s3 = s2\<lparr>entries := (entries s2)(?en \<mapsto> \<lparr>TokenEvent = Some tok, DeliveryTimer = timer\<rparr>)\<rparr>
                  in bind (CoreSetTimer rst timer TimerRelative 1 s3) (\<lambda>(Status, s4).
                     if EFI_ERROR Status
                     then bind (CoreCloseEvent unreg rst timer s4) (\<lambda>(_, s5).
                          Ret (Status, s5\<lparr>entries := (entries s5)(?en := None)\<rparr>))
                     else Ret (EFI_SUCCESS, s4\<lparr>PendingList := PendingList s4 @ [?en]\<rparr>))) \<noteq> NoFuel"
  proof (rule nf_bind[OF tpl_restore.CreateEvent_safe[OF r0 inv1 nh1 acc] tpl_restore_total.CreateEvent_total[OF r inv1 nh1 acc]])
    fix x assume x: "case x of (st, p, s') \<Rightarrow> st = EFI_SUCCESS \<and> p = Some (next_event ?s1) \<and> svc ?s1 s' \<and>
      events ?s1 (next_event ?s1) = None \<and>
      (\<exists>r l. events s' (next_event ?s1) =
         Some ((created_event ?Ty TPL_CALLBACK ?fn (Some ?en) None)\<lparr>RuntimeLinked := r, SignalLinked := l\<rparr>)) \<and>
      (\<forall>x. x \<noteq> next_event ?s1 \<longrightarrow> events s' x = events ?s1 x) \<and>
      mEfiCheckTimerEvent s' = mEfiCheckTimerEvent ?s1 \<and> gIdleLoopEvent s' = gIdleLoopEvent ?s1 \<and>
      core.more s' = core.more ?s1 \<and> mEfiSystemTime s' = mEfiSystemTime ?s1 \<and> next_event s' = Suc (next_event ?s1)"
    then obtain s2 ev where s2: "x = (EFI_SUCCESS, Some ?t, s2)" "svc ?s1 s2" "events s2 ?t = Some ev" "Type ev = ?Ty"
      using ce by (cases x) auto
    let ?s3 = "s2\<lparr>entries := (entries s2)(?en \<mapsto> \<lparr>TokenEvent = Some tok, DeliveryTimer = Some ?t\<rparr>)\<rparr>"
    note ds = svcD[OF s2(2)]
    have ev: "core_inv ?s3" "\<not> held ?s3 l" "gEfiCurrentTpl ?s3 < TPL_HIGH_LEVEL" "events ?s3 ?t = Some ev" "Type ev AND EVT_TIMER \<noteq> 0" for l
      using ds nh h s2(3,4) by simp_all
    have "bind (CoreSetTimer rst (Some ?t) TimerRelative 1 ?s3) (\<lambda>(Status, s4).
                     if EFI_ERROR Status
                     then bind (CoreCloseEvent unreg rst (Some ?t) s4) (\<lambda>(_, s5).
                          Ret (Status, s5\<lparr>entries := (entries s5)(?en := None)\<rparr>))
                     else Ret (EFI_SUCCESS, s4\<lparr>PendingList := PendingList s4 @ [?en]\<rparr>)) \<noteq> NoFuel"
      by (rule nf_bind[OF tpl_restore.SetTimer_exact[OF r0 ev(1,2,3,4,5)] tpl_restore_total.SetTimer_total[OF r ev(1,2,2,3,4,5)]]) auto
    then show "(case x of (Status, timer, s2) \<Rightarrow>
                if EFI_ERROR Status
                then Ret (Status, s2\<lparr>entries := (entries s2)(?en := None)\<rparr>)
                else
                  let s3 = s2\<lparr>entries := (entries s2)(?en \<mapsto> \<lparr>TokenEvent = Some tok, DeliveryTimer = timer\<rparr>)\<rparr>
                  in bind (CoreSetTimer rst timer TimerRelative 1 s3) (\<lambda>(Status, s4).
                     if EFI_ERROR Status
                     then bind (CoreCloseEvent unreg rst timer s4) (\<lambda>(_, s5).
                          Ret (Status, s5\<lparr>entries := (entries s5)(?en := None)\<rparr>))
                     else Ret (EFI_SUCCESS, s4\<lparr>PendingList := PendingList s4 @ [?en]\<rparr>))) \<noteq> NoFuel"
      by (simp add: s2(1) del: nf_bind_eq)
  qed
  then have "MockDeferredSchedule drain unreg rst True True True (Some tok) s \<noteq> NoFuel"
    using g by (simp add: MockDeferredSchedule_def s0 Let_def cr[simplified] del: nf_bind_eq)
  with Schedule_safe[OF r0 i h g, of tok drain unreg] show ?thesis
    by (cases "MockDeferredSchedule drain unreg rst True True True (Some tok) s") auto
qed


lemma nf_drop_entry [simp]: "drop_entry en s \<noteq> NoFuel"
  by (auto simp: drop_entry_def)

lemma cancel_entry_total:
  assumes r: "tpl_restore_total rst" and i: "idle s" and h: "gEfiCurrentTpl s < TPL_HIGH_LEVEL" and en: "entries s en = Some E"
    and t: "DeliveryTimer E = Some t"
  shows "cancel_entry unreg rst en s \<noteq> NoFuel"
proof -
  have r0: "tpl_restore rst" using r by (simp add: tpl_restore_total_def)
  have inv: "core_inv s" and nh: "\<not> held s l" and d: "deferred_inv s" for l using i by (simp_all add: idle_def idle_inv_def)
  obtain ev where ev: "events s t = Some ev" "delivery_timer en ev" "mEfiCheckTimerEvent s \<noteq> Some t" "gIdleLoopEvent s \<noteq> Some t"
    using deferred_invD(3)[OF d en] t by (auto simp: entry_ok_def)
  have ty: "Type ev AND EVT_TIMER \<noteq> 0" and fl: "ExFlag ev AND EVT_EXFLAG_EVENT_PROTOCOL_NOTIFICATION = 0"
    using ev(2) by (simp_all add: delivery_timer_def)
  have ok: "timer_args_ok s (Some t) TimerCancel" using ev(1) ty by (simp add: timer_args_ok_def)
  let ?s1 = "(unlocked mEfiTimerLock (stop_timer t ev (locked mEfiTimerLock s)))\<lparr>gEfiCurrentTpl := gEfiCurrentTpl s\<rparr>"
  have f: "events ?s1 = (events s)(t \<mapsto> ev\<lparr>TimerLinked := False, TriggerTime := 0, Period := 0\<rparr>)" "core.more ?s1 = core.more s"
    by (simp_all add: unlocked_def stop_timer_def set_event_def locked_def)
  have "bind (CoreSetTimer rst (Some t) TimerCancel 0 s) (\<lambda>(_, s1).
     deref (entries s1 en) (\<lambda>E. bind (CoreCloseEvent unreg rst (DeliveryTimer E) s1) (\<lambda>(_, s2). drop_entry en s2))) \<noteq> NoFuel"
  proof (rule nf_bind[OF tpl_restore.SetTimer_cancel[OF r0 inv nh h ev(1) ok]
        tpl_restore_total.SetTimer_cancel_total[OF r inv nh h ev(1) ok]])
    fix x assume "case x of (st, s') \<Rightarrow> st = EFI_SUCCESS \<and> svc s s' \<and> s' = ?s1"
    then have x: "snd x = ?s1" and sv: "svc s ?s1" by auto
    note ds = svcD[OF sv]
    have e1: "entries ?s1 en = Some E" using en deferred_more(1)[OF f(2)] by simp
    have nh1: "\<not> held ?s1 l" for l using ds(3) nh by simp
    have "CoreCloseEvent unreg rst (Some t) ?s1 \<noteq> NoFuel"
      by (rule tpl_restore_total.CloseEvent_total[OF r ds(1) nh1 nh1, of t "ev\<lparr>TimerLinked := False, TriggerTime := 0, Period := 0\<rparr>"])
        (use h fl f(1) in simp_all)
    then show "(case x of (_, s1) \<Rightarrow> deref (entries s1 en)
       (\<lambda>E. bind (CoreCloseEvent unreg rst (DeliveryTimer E) s1) (\<lambda>(_, s2). drop_entry en s2))) \<noteq> NoFuel"
      using x e1 t by (cases x) (auto split: prod.splits)
  qed
  then show ?thesis using en t by (simp add: cancel_entry_def)
qed

lemma CancelAll_loop_total:
  assumes r: "tpl_restore_total rst" and "idle s" and "gEfiCurrentTpl s < TPL_HIGH_LEVEL" and "length (PendingList s) < k"
  shows "CancelAll_loop unreg rst k (list_head (PendingList s)) s \<noteq> NoFuel"
  using assms(2-)
proof (induction k arbitrary: s)
  case (Suc k)
  have r0: "tpl_restore rst" using r by (simp add: tpl_restore_total_def)
  have d: "deferred_inv s" using Suc.prems(1) by (simp add: idle_def)
  show ?case
  proof (cases "PendingList s")
    case (Cons en es)
    then obtain E where E: "entries s en = Some E" using deferred_invD(2)[OF d, of en] by auto
    then obtain t where t: "DeliveryTimer E = Some t" using deferred_invD(3)[OF d E] by (auto simp: entry_ok_def)
    have "bind (cancel_entry unreg rst en s) (CancelAll_loop unreg rst k (list_head es)) \<noteq> NoFuel"
    proof (rule nf_bind[OF cancel_entry_safe[OF r0 Suc.prems(1,2) E t] cancel_entry_total[OF r Suc.prems(1,2) E t]])
      fix s1 assume c: "cancelled en t s s1"
      have i1: "idle s1" by (rule idle_cancelled[OF Suc.prems(1) E t c])
      have "PendingList s1 = es" "gEfiCurrentTpl s1 = gEfiCurrentTpl s"
        using c Cons by (simp_all add: cancelled_def svc_def)
      then show "CancelAll_loop unreg rst k (list_head es) s1 \<noteq> NoFuel"
        using Suc.IH[OF i1] Suc.prems(2,3) Cons by simp
    qed
    then show ?thesis using Cons by (simp add: list_head_def next_node_hd del: nf_bind_eq)
  qed (simp add: list_head_def)
qed simp

lemma CancelAll_ret:
  assumes r: "tpl_restore_total rst" and i: "idle s" "gEfiCurrentTpl s < TPL_HIGH_LEVEL" "length (PendingList s) < k"
  shows "\<exists>s'. MockDeferredCancelAll unreg rst k True s = Ret s' \<and> all_cancelled s s'"
proof (cases "Initialized s")
  case True
  have r0: "tpl_restore rst" using r by (simp add: tpl_restore_total_def)
  have "MockDeferredCancelAll unreg rst k True s = CancelAll_loop unreg rst k (list_head (PendingList s)) s"
    using True by (simp add: MockDeferredCancelAll_def list_head_def)
  then show ?thesis
    using CancelAll_loop_safe[OF r0 i(1,2), of unreg k] CancelAll_loop_total[OF r i, of unreg]
    by (cases "CancelAll_loop unreg rst k (list_head (PendingList s)) s") auto
next
  case False
  have d: "deferred_inv s" using i(1) by (simp add: idle_def)
  have pl: "PendingList s = []" using d False by (simp add: deferred_inv_def)
  then have "entries s = Map.empty" using deferred_invD(2)[OF d] by auto
  then show ?thesis using False pl i by (simp add: MockDeferredCancelAll_def all_cancelled_def owned_def)
qed

lemma idle_signalled:
  fixes s s' :: "'x deferred_scheme"
  assumes i: "idle s" and sv: "svc s s'" and f: "sig_frame s s'"
  shows "idle s'"
proof -
  note m = deferred_more[OF sig_frameD(9)[OF f]]
  have d: "deferred_inv s" using i by (simp add: idle_def)
  have "entry_ok s' en E" if ok: "entry_ok s en E" for en E
  proof -
    obtain t ev where t: "DeliveryTimer E = Some t" "events s t = Some ev" "delivery_timer en ev"
      using ok by (auto simp: entry_ok_def)
    obtain c l where "events s' t = Some (ev\<lparr>SignalCount := c, NotifyLinked := l\<rparr>)"
      using sig_frame_event[OF f t(2)] by blast
    then show ?thesis using ok t m sig_frameD(3,7)[OF f] by (auto simp: entry_ok_def delivery_timer_def)
  qed
  then have "deferred_inv s'" using d m by (simp add: deferred_inv_def)
  then show ?thesis using idle_svc[OF _ sv] i by (simp add: idle_def)
qed

lemma cancel_during_delivery:
  fixes s :: "'x deferred_scheme"
  assumes r: "tpl_restore_total rst" and i: "idle s" and t: "gEfiCurrentTpl s < TPL_HIGH_LEVEL" and k: "length (PendingList s) < k"
    and E: "entries s en = Some E" and tok: "TokenEvent E = Some tok" and tev: "events s tok = Some tv"
    and q: "ExFlag tv AND EVT_EXFLAG_EVENT_GROUP = 0" "NotifyTpl tv \<le> gEfiCurrentTpl s"
  shows "DeliverCallback (MockDeferredCancelAll unreg rst k True) unreg rst timer (Some en) s = Fault"
proof -
  have inv: "core_inv s" and nh: "\<not> held s l" for l using i by (simp_all add: idle_def idle_inv_def)
  obtain s1 where s1: "CoreSignalEvent rst (Some tok) s = Ret (EFI_SUCCESS, s1)" "svc s s1" "sig_frame s s1"
    using tpl_restore_total.SignalEvent_quiet[OF r inv nh tev q(1)] q(2) by blast
  have i1: "idle s1" by (rule idle_signalled[OF i s1(2,3)])
  have "gEfiCurrentTpl s1 < TPL_HIGH_LEVEL" "length (PendingList s1) < k"
    using s1(2) t k deferred_more(2)[OF sig_frameD(9)[OF s1(3)]] by (simp_all add: svc_def)
  from CancelAll_ret[OF r i1 this] obtain s2 where
    "MockDeferredCancelAll unreg rst k True s1 = Ret s2" "entries s2 = Map.empty" by (auto simp: all_cancelled_def)
  then show ?thesis using E tok s1(1) by (simp add: DeliverCallback_def drop_entry_def)
qed

end
