(* ===== verification/EventProps.thy ===== *)
theory EventProps
  imports EventRuns EventQuiet
begin

text \<open>
  The properties of the event, timer and TPL services: the theorems about runs of the harness and
  about single services at the code's own \<open>CoreRestoreTpl\<close>, each with a concrete run as witness.
\<close>

section \<open>A concrete run\<close>

definition demo_restore :: "core restore" where
  "demo_restore = CoreRestoreTpl harness_notify 12"

lemma demo_restore_eq: "demo_restore = CoreRestoreTpl harness_notify (Suc (Suc 10))"
  by (simp add: demo_restore_def numeral_eq_Suc)

definition demo :: "service list \<Rightarrow> core outcome" where
  "demo cs = bind (boot demo_restore) (run_services (\<lambda>_. Ret) demo_restore cs)"

definition demo_ok :: "service list \<Rightarrow> bool" where
  "demo_ok cs = (case boot demo_restore of Ret s \<Rightarrow>
     callers_ok (\<lambda>_. Ret) demo_restore cs s \<and> (case demo cs of Ret _ \<Rightarrow> True | _ \<Rightarrow> False) | _ \<Rightarrow> False)"

definition after :: "service list \<Rightarrow> core" where
  "after cs = (case demo cs of Ret s \<Rightarrow> s | _ \<Rightarrow> initial_core)"

lemma unregisters_none: "unregisters (\<lambda>_. Ret)"
  by (simp add: unregisters_def same_core_def locks_kept_def core.defs)

lemma demo_contract: "tpl_restore demo_restore"
  unfolding demo_restore_def by (rule notify_client.restore_contract[OF harness_client])

lemma after_idle:
  assumes "demo_ok cs" shows "demo cs = Ret (after cs)" "idle_inv (after cs)" "core_inv (after cs)" "\<not> held (after cs) l"
proof -
  obtain s where s: "boot demo_restore = Ret s" "callers_ok (\<lambda>_. Ret) demo_restore cs s" "demo cs = Ret (after cs)"
    using assms by (auto simp: demo_ok_def after_def split: outcome.splits)
  have "idle_inv s" using boot_idle[OF demo_contract] s(1) by simp
  from tpl_restore.run_services_idle[OF demo_contract this s(2) unregisters_none]
  have "idle_inv (after cs)" using s by (simp add: demo_def)
  then show "demo cs = Ret (after cs)" "idle_inv (after cs)" "core_inv (after cs)" "\<not> held (after cs) l"
    using s by (simp_all add: idle_inv_def)
qed

definition signal_demo :: "service list" where
  "signal_demo = [SvcCreateEvent EVT_NOTIFY_SIGNAL TPL_CALLBACK (Some (ClientFn 1)) None None,
     SvcCreateEvent EVT_NOTIFY_SIGNAL TPL_NOTIFY (Some (ClientFn 2)) None None,
     SvcCreateEvent EVT_NOTIFY_SIGNAL TPL_CALLBACK (Some (ClientFn 3)) None None,
     SvcRaiseTPL 30, SvcSignalEvent (Some 3), SvcSignalEvent (Some 5), SvcSignalEvent (Some 4), SvcSignalEvent (Some 3)]"

definition timer_demo :: "service list" where
  "timer_demo = [SvcCreateEvent (EVT_TIMER OR EVT_NOTIFY_SIGNAL) TPL_CALLBACK (Some (ClientFn 0)) None None,
     SvcTimerAdvance 5, SvcSetTimer (Some 3) TimerPeriodic 7]"

lemma signal_demo_ok: "demo_ok signal_demo"
  by code_simp

lemma timer_demo_ok: "demo_ok timer_demo"
  by code_simp



text \<open>C2: \<open>CoreRestoreTpl\<close> delivers everything that is queued above the new level, each event once, the
  highest level first and first come first served inside a level; it returns, at the new level, with
  the dispatched events out of their queues and unsignalled, for every client whose functions only
  touch their own state. The fuel needed is the length of the longest queue plus 33.\<close>

theorem RestoreTpl_delivers_in_order:
  assumes "core_inv s" and "t \<le> gEfiCurrentTpl s" and "free_above t s"
    and "no_timer_check t s" and "gPendingTimerDuration s = 0"
    and "\<forall>p. length (gEventQueue s p) + 33 \<le> n"
  shows "\<exists>s'. CoreRestoreTpl (passive_client g) n t s = Ret s' \<and> gEfiCurrentTpl s' = t \<and> core_inv s' \<and>
    (\<forall>p. gEventQueue s' p = (if t < p \<and> p < TPL_HIGH_LEVEL then [] else gEventQueue s p)) \<and>
    events s' = clear_queued (\<Union>p \<in> {t<..<TPL_HIGH_LEVEL}. set (gEventQueue s p)) (events s) \<and>
    core.more s' = fold (\<lambda>p. fold (deliver g (events s) p) (gEventQueue s p)) (rev [Suc t..<TPL_HIGH_LEVEL]) (core.more s)"
proof -
  obtain s' where s': "CoreRestoreTpl (passive_client g) n t s = Ret s'" "gEfiCurrentTpl s' = t"
      "delivered g (levels t 30) s s'"
    using RestoreTpl_passive[OF assms] by blast
  then show ?thesis by (intro exI[of _ s']) (simp add: delivered_def levels_def atLeastSucLessThan_greaterThanLessThan)
qed

definition log_client :: "nat \<Rightarrow> nat \<Rightarrow> nat \<Rightarrow> (nat \<times> nat \<times> nat) list \<Rightarrow> (nat \<times> nat \<times> nat) list" where
  "log_client f e p l = l @ [(f, e, p)]"

lemma core_inv_extend: "core_inv (core.extend s x) = core_inv (s :: core)"
  by (simp add: core_inv_def event_inv_def tpl_inv_def lock_inv_def core.defs)

lemma all_queues:
  assumes "core_inv s" and "\<forall>p \<in> set [a..<31]. P p (gEventQueue s p)" and "\<And>p. P p []"
  shows "\<forall>p \<ge> a. P p (gEventQueue s p)"
proof (intro allI impI)
  fix p assume p: "a \<le> p"
  show "P p (gEventQueue s p)"
  proof (cases "gEventQueue s p = []")
    case False
    then have "p < 31" using assms(1) by (force simp: core_inv_def tpl_inv_def)
    then show ?thesis using assms(2) p by simp
  qed (simp add: assms(3))
qed

lemma RestoreTpl_delivers_in_order_witness:
  "\<exists>s'. CoreRestoreTpl (passive_client log_client) 40 4 (core.extend (after signal_demo) []) = Ret s' \<and>
     gEfiCurrentTpl s' = 4 \<and> core.more s' = [(2, 4, 16), (1, 3, 8), (3, 5, 8)]"
proof -
  let ?a = "after signal_demo" and ?s = "core.extend (after signal_demo) [] :: (nat \<times> nat \<times> nat) list core_scheme"
  note i = after_idle[OF signal_demo_ok]
  have inv: "core_inv ?s" using i(3) by (simp add: core_inv_extend)
  have f: "gEfiCurrentTpl ?s = gEfiCurrentTpl ?a" "gEventQueue ?s = gEventQueue ?a" "events ?s = events ?a"
      "core.more ?s = []" "gPendingTimerDuration ?s = gPendingTimerDuration ?a" "locks ?s = locks ?a"
    by (simp_all add: core.defs)
  have "let s = ?a in gEfiCurrentTpl s = 30 \<and> gPendingTimerDuration s = 0 \<and>
      (\<forall>p \<in> set [0..<31]. length (gEventQueue s p) + 33 \<le> 40) \<and>
      (\<forall>p \<in> set [Suc 4..<31]. \<forall>e \<in> set (gEventQueue s p). NotifyFunction (the (events s e)) \<noteq> Some CoreCheckTimersFn) \<and>
      fold (\<lambda>p. fold (deliver log_client (events s) p) (gEventQueue s p)) (rev [Suc 4..<31]) [] =
      [(2, 4, 16), (1, 3, 8), (3, 5, 8)]" by code_simp
  then have t: "gEfiCurrentTpl ?a = 30" "gPendingTimerDuration ?a = 0"
    and q0: "\<forall>p \<in> set [0..<31]. length (gEventQueue ?a p) + 33 \<le> 40"
    and n0: "\<forall>p \<in> set [Suc 4..<31]. \<forall>e \<in> set (gEventQueue ?a p). NotifyFunction (the (events ?a e)) \<noteq> Some CoreCheckTimersFn"
    and m: "fold (\<lambda>p. fold (deliver log_client (events ?a) p) (gEventQueue ?a p)) (rev [Suc 4..<31]) [] =
      [(2, 4, 16), (1, 3, 8), (3, 5, 8)]" unfolding Let_def by blast+
  have fr: "free_above 4 ?s" using idle_free[OF i(2)] by (simp add: free_above_def f)
  from all_queues[OF i(3), of 0 "\<lambda>p q. length q + 33 \<le> 40", OF q0]
  have q: "\<forall>p. length (gEventQueue ?s p) + 33 \<le> 40" by (simp add: f)
  from all_queues[OF i(3), of "Suc 4" "\<lambda>p q. \<forall>e \<in> set q. NotifyFunction (the (events ?a e)) \<noteq> Some CoreCheckTimersFn", OF n0,
      unfolded Suc_le_eq]
  have nt: "no_timer_check 4 ?s" by (simp add: no_timer_check_def f)
  show ?thesis
    using RestoreTpl_delivers_in_order[OF inv _ fr nt _ q, of log_client] t m by (auto simp: f)
qed

text \<open>C3: with enough fuel for twice the armed timers, \<open>CoreCheckTimers\<close> returns and has handled exactly
  the timers that were due: one-shot timers are disarmed, periodic ones are armed for their next
  period (counted from now if it has passed already), each due event is signalled once and no
  other event is, and no timer is due any more. This holds when the present plus a period does not wrap.\<close>

theorem CheckTimers_settles:
  assumes "notify_client cl" and "core_inv s" and "gEfiCurrentTpl s = TPL_HIGH_LEVEL - 1" and "\<not> held s mEfiTimerLock"
    and "no_wrap (mEfiSystemTime s) (timer_view s)" and "2 * length (mEfiTimerList s) < k"
  shows "\<exists>s'. CoreCheckTimers (CoreRestoreTpl cl (Suc (Suc n))) k s = Ret s' \<and> svc s s' \<and>
    timer_view s' = map_option (settled_view (mEfiSystemTime s)) \<circ> timer_view s \<and>
    counts_up (loop_signals (mEfiSystemTime s) (timer_view s) (mEfiCheckTimerEvent s)) s s' \<and>
    (\<forall>e \<in> set (mEfiTimerList s'). mEfiSystemTime s < trigger_of (events s') e)"
proof -
  have "tpl_restore_total (CoreRestoreTpl cl (Suc (Suc n)))"
    by (rule notify_client.restore_total[OF assms(1)])
  from tpl_restore_total.CheckTimers_total[OF this assms(2-)]
  obtain s' where s': "CoreCheckTimers (CoreRestoreTpl cl (Suc (Suc n))) k s = Ret s'" "svc s s'"
    "timer_view s' = map_option (settled_view (mEfiSystemTime s)) \<circ> timer_view s"
    "counts_up (loop_signals (mEfiSystemTime s) (timer_view s) (mEfiCheckTimerEvent s)) s s'" by blast
  moreover have "event_inv s'" using s'(2) by (simp add: svc_def core_inv_def)
  ultimately show ?thesis using settled_not_due[OF _ s'(3) assms(5)] by blast
qed

text \<open>C4: a due timer whose period takes the present past the end of the 64-bit clock keeps
  \<open>CoreCheckTimers\<close> in its loop for ever: the timer is set back to the present, is due again at once, and
  no amount of fuel makes the routine return.\<close>

theorem CheckTimers_never_returns:
  assumes "notify_client cl" and "core_inv s" and "gEfiCurrentTpl s \<le> lock_tpl mEfiTimerLock" and "\<not> held s mEfiTimerLock"
    and "events s e = Some v" and "TimerLinked v" and "TriggerTime v \<le> mEfiSystemTime s" and "Period v \<noteq> 0"
    and "TriggerTime v + Period v \<le> mEfiSystemTime s" and "mEfiSystemTime s + Period v \<le> mEfiSystemTime s"
  shows "CoreCheckTimers (CoreRestoreTpl cl n) k s = NoFuel"
proof (rule tpl_restore.CheckTimers_wrap[OF notify_client.restore_contract[OF assms(1)] assms(2-4)])
  show "wraps (mEfiSystemTime s) (timer_view s e)"
    using assms(5-) by (simp add: wraps_def timer_view_def)
qed

definition wrap_demo :: "service list" where
  "wrap_demo = [SvcCreateEvent (EVT_TIMER OR EVT_NOTIFY_SIGNAL) TPL_CALLBACK (Some (ClientFn 0)) None None,
     SvcTimerAdvance 5, SvcSetTimer (Some 3) TimerPeriodic 0xFFFFFFFFFFFFFFFF]"

definition due_demo :: "service list" where
  "due_demo = [SvcCreateEvent (EVT_TIMER OR EVT_NOTIFY_SIGNAL) TPL_CALLBACK (Some (ClientFn 0)) None None,
     SvcSetTimer (Some 3) TimerPeriodic 7, SvcRaiseTPL 30, SvcTimerAdvance 1]"

lemma wrap_demo_ok: "demo_ok wrap_demo"
  by code_simp

lemma due_demo_ok: "demo_ok due_demo"
  by code_simp

lemma all_events:
  assumes "core_inv s" and "\<forall>e \<in> set [0..<next_event s]. P (timer_view s e)" and "P None"
  shows "P (timer_view s e)"
proof (cases "events s e")
  case None
  then show ?thesis using assms(3) by (simp add: timer_view_def)
next
  case (Some v)
  then have "e < next_event s" using event_invD(2)[of s e v] assms(1) by (simp add: core_inv_def)
  then show ?thesis using assms(2) by simp
qed

definition no_wrap_at :: "u64 \<Rightarrow> (u64 \<times> u64 \<times> bool) option \<Rightarrow> bool" where
  "no_wrap_at now v = (case v of Some (T, P, True) \<Rightarrow> P = 0 \<or> now < now + P | _ \<Rightarrow> True)"

lemma no_wrapI:
  assumes "\<And>e. no_wrap_at now (tv e)" shows "no_wrap now tv"
  unfolding no_wrap_def
proof (intro allI impI)
  fix x T P assume "tv x = Some (T, P, True)" "P \<noteq> 0"
  then show "now < now + P" using assms[of x] by (simp add: no_wrap_at_def)
qed

lemma CheckTimers_settles_witness:
  "\<exists>s'. CoreCheckTimers demo_restore 3 (after due_demo) = Ret s' \<and> timer_view s' 3 = Some (14, 7, True) \<and>
    count_of (after due_demo) 3 = Some 0 \<and> count_of s' 3 = Some 1"
proof -
  let ?s = "after due_demo"
  note i = after_idle[OF due_demo_ok]
  have "let s = ?s in gEfiCurrentTpl s = TPL_HIGH_LEVEL - 1 \<and> 2 * length (mEfiTimerList s) < 3 \<and>
     (\<forall>e \<in> set [0..<next_event s]. no_wrap_at (mEfiSystemTime s) (timer_view s e)) \<and>
     mEfiSystemTime s = 10 \<and> timer_view s 3 = Some (7, 7, True) \<and> count_of s 3 = Some 0" by code_simp
  then have f: "gEfiCurrentTpl ?s = TPL_HIGH_LEVEL - 1" "2 * length (mEfiTimerList ?s) < 3"
     "\<forall>e \<in> set [0..<next_event ?s]. no_wrap_at (mEfiSystemTime ?s) (timer_view ?s e)"
     "mEfiSystemTime ?s = 10" "timer_view ?s 3 = Some (7, 7, True)" "count_of ?s 3 = Some 0" unfolding Let_def by blast+
  have nw: "no_wrap (mEfiSystemTime ?s) (timer_view ?s)"
    by (rule no_wrapI, rule all_events[OF i(3) f(3)]) (simp add: no_wrap_at_def)
  obtain s' where s': "CoreCheckTimers demo_restore 3 ?s = Ret s'"
     "timer_view s' = map_option (settled_view 10) \<circ> timer_view ?s"
     "counts_up (loop_signals 10 (timer_view ?s) (mEfiCheckTimerEvent ?s)) ?s s'"
    using CheckTimers_settles[OF harness_client i(3) f(1) i(4) nw f(2), of 10] by (auto simp: f demo_restore_def numeral_eq_Suc)
  have "3 \<in> loop_signals 10 (timer_view ?s) (mEfiCheckTimerEvent ?s)" using f(5) by (simp add: loop_signals_def due_def)
  then have "count_of s' 3 = Some 1" using s'(3) f(6) by (simp add: counts_up_def)
  moreover have "timer_view s' 3 = Some (14, 7, True)" using s'(2) f(5) by (simp add: settled_view_def)
  ultimately show ?thesis using s'(1) f(6) by blast
qed

lemma CheckTimers_never_returns_witness:
  "\<forall>k. CoreCheckTimers demo_restore k (after wrap_demo) = NoFuel"
proof -
  let ?s = "after wrap_demo"
  note i = after_idle[OF wrap_demo_ok]
  have "let s = ?s in gEfiCurrentTpl s \<le> lock_tpl mEfiTimerLock \<and> mEfiSystemTime s = 50 \<and>
     timer_view s 3 = Some (49, 0xFFFFFFFFFFFFFFFF, True)" by code_simp
  then have f: "gEfiCurrentTpl ?s \<le> lock_tpl mEfiTimerLock" "mEfiSystemTime ?s = 50"
     "timer_view ?s 3 = Some (49, 0xFFFFFFFFFFFFFFFF, True)" unfolding Let_def by blast+
  then obtain v where v: "events ?s 3 = Some v" "TriggerTime v = 49" "Period v = 0xFFFFFFFFFFFFFFFF" "TimerLinked v"
    by (auto simp: timer_view_def)
  show ?thesis
    using CheckTimers_never_returns[OF harness_client i(3) f(1) i(4) v(1,4), of 12] v f(2) by (simp add: demo_restore_def)
qed

text \<open>C27: \<open>SetTimer\<close> answers by its arguments alone, and a request that is not rejected and does not expire at once
  arms exactly this timer: trigger time, period and place in the list are those of the request, counted
  from the present, whatever was programmed before; no other timer and no signal state changes.\<close>

theorem SetTimer_arms:
  assumes "notify_client cl" and "core_inv s" and "\<not> held s mEfiTimerLock" and "\<not> held s mEfiSystemTimeLock"
    and "gEfiCurrentTpl s < TPL_HIGH_LEVEL" and "events s e = Some ev" and "Ty = TimerPeriodic \<or> Ty = TimerRelative \<and> Trigger \<noteq> 0"
  shows "returns (\<lambda>(st, s'). svc s s' \<and>
      (if Type ev AND EVT_TIMER \<noteq> 0
       then st = EFI_SUCCESS \<and> timer_view s' = (timer_view s)(e \<mapsto> timer_programmed (mEfiSystemTime s) Ty Trigger) \<and>
         count_of s' = count_of s
       else st = EFI_INVALID_PARAMETER \<and> s' = s))
    (CoreSetTimer (CoreRestoreTpl cl (Suc (Suc n))) (Some e) Ty Trigger s)"
proof (cases "Type ev AND EVT_TIMER = 0")
  case False
  note r = notify_client.restore_contract[OF assms(1), of "Suc (Suc n)"] notify_client.restore_total[OF assms(1), of n]
  show ?thesis
    by (rule returns_mono[OF returnsI[OF tpl_restore.SetTimer_exact[OF r(1) assms(2,3,5,6) False assms(7)]
        tpl_restore_total.SetTimer_total[OF r(2) assms(2-6) False assms(7)]]]) (use False in auto)
next
  case True
  have "\<not> timer_args_ok s (Some e) Ty" using True assms(6) by (simp add: timer_args_ok_def)
  from tpl_restore.SetTimer_reject[OF notify_client.restore_contract[OF assms(1)] assms(2) _ this]
  show ?thesis using True assms(2,6) by (simp add: svc_refl)
qed

lemma SetTimer_arms_witness:
  "returns (\<lambda>(st, s'). st = EFI_SUCCESS \<and> timer_view s' 3 = Some (70, 0, True))
     (CoreSetTimer demo_restore (Some 3) TimerRelative 20 (after wrap_demo))"
proof -
  let ?s = "after wrap_demo"
  note i = after_idle[OF wrap_demo_ok]
  have "let s = ?s in gEfiCurrentTpl s < TPL_HIGH_LEVEL \<and> mEfiSystemTime s = 50 \<and>
     map_option Type (events s 3) = Some (EVT_TIMER OR EVT_NOTIFY_SIGNAL)" by code_simp
  then have f: "gEfiCurrentTpl ?s < TPL_HIGH_LEVEL" "mEfiSystemTime ?s = 50"
     "map_option Type (events ?s 3) = Some (EVT_TIMER OR EVT_NOTIFY_SIGNAL)" unfolding Let_def by blast+
  then obtain v where v: "events ?s 3 = Some v" "Type v = EVT_TIMER OR EVT_NOTIFY_SIGNAL" by auto
  show ?thesis
    by (rule returns_mono[OF SetTimer_arms[OF harness_client i(3,4,4) f(1) v(1), of TimerRelative 20 10, folded demo_restore_eq]])
      (use v(2) f(2) in \<open>auto simp: timer_programmed_def\<close>)
qed



text \<open>C26: closing an event takes it out of every list of the core and frees it, and changes nothing else:
  the remaining events keep their links, so no list ever holds a freed event.\<close>

theorem CloseEvent_removes:
  assumes "notify_client cl" and "core_inv s" and "\<not> held s gEventQueueLock" and "\<not> held s mEfiTimerLock"
    and "gEfiCurrentTpl s < TPL_HIGH_LEVEL" and "events s e = Some ev"
    and "mEfiCheckTimerEvent s \<noteq> Some e" and "gIdleLoopEvent s \<noteq> Some e"
    and "ExFlag ev AND EVT_EXFLAG_EVENT_PROTOCOL_NOTIFICATION = 0"
  shows "returns (\<lambda>(st, s'). st = EFI_SUCCESS \<and> core_inv s' \<and> gEfiCurrentTpl s' = gEfiCurrentTpl s \<and>
      events s' = (events s)(e := None) \<and> (\<forall>p. gEventQueue s' p = remove1 e (gEventQueue s p)) \<and>
      gEventSignalQueue s' = remove1 e (gEventSignalQueue s) \<and> mEfiTimerList s' = remove1 e (mEfiTimerList s) \<and>
      mEfiSystemTime s' = mEfiSystemTime s \<and> core.more s' = core.more s)
    (CoreCloseEvent unreg (CoreRestoreTpl cl (Suc (Suc n))) (Some e) s)"
proof -
  have *: "events s' = events s1 \<and> gEventQueue s' = gEventQueue s1 \<and> gEventSignalQueue s' = gEventSignalQueue s1 \<and>
      mEfiTimerList s' = mEfiTimerList s1 \<and> mEfiSystemTime s' = mEfiSystemTime s1" if "same_core s1 s'" for s1 s'
    using that by (simp add: same_core_def core.defs)
  show ?thesis
    by (rule returns_mono[OF returnsI[OF tpl_restore.CloseEvent_safe[OF notify_client.restore_contract[OF assms(1)] assms(2-8)]
        tpl_restore_total.CloseEvent_total[OF notify_client.restore_total[OF assms(1)] assms(2-6,9)]]])
      (use assms(9) in \<open>auto simp: svc_def drop_event_def closed_def dest!: *\<close>)
qed

lemma CloseEvent_removes_witness:
  "returns (\<lambda>(st, s'). st = EFI_SUCCESS \<and> events s' 3 = None \<and> mEfiTimerList s' = [])
     (CoreCloseEvent (\<lambda>_. Ret) demo_restore (Some 3) (after wrap_demo))"
proof -
  let ?s = "after wrap_demo"
  note i = after_idle[OF wrap_demo_ok]
  have "let s = ?s in gEfiCurrentTpl s < TPL_HIGH_LEVEL \<and> mEfiTimerList s = [3] \<and>
     mEfiCheckTimerEvent s \<noteq> Some 3 \<and> gIdleLoopEvent s \<noteq> Some 3 \<and>
     map_option (\<lambda>v. ExFlag v AND EVT_EXFLAG_EVENT_PROTOCOL_NOTIFICATION) (events s 3) = Some 0" by code_simp
  then have f: "gEfiCurrentTpl ?s < TPL_HIGH_LEVEL" "mEfiTimerList ?s = [3]"
     "mEfiCheckTimerEvent ?s \<noteq> Some 3" "gIdleLoopEvent ?s \<noteq> Some 3"
     "map_option (\<lambda>v. ExFlag v AND EVT_EXFLAG_EVENT_PROTOCOL_NOTIFICATION) (events ?s 3) = Some 0" unfolding Let_def by blast+
  then obtain v where v: "events ?s 3 = Some v" "ExFlag v AND EVT_EXFLAG_EVENT_PROTOCOL_NOTIFICATION = 0" by auto
  show ?thesis
    by (rule returns_mono[OF CloseEvent_removes[OF harness_client i(3,4,4) f(1) v(1) f(3,4) v(2), of _ 10, folded demo_restore_eq]]) (use f(2) in auto)
qed

text \<open>C30: \<open>CreateEventEx\<close> rejects exactly the argument combinations it should, without touching the core,
  reports a failed allocation, and otherwise returns a fresh event with the requested attributes,
  leaving every other event as it was. For events with a notification function the level must be
  \<open>TPL_CALLBACK\<close> or \<open>TPL_NOTIFY\<close>: \<open>TPL_APPLICATION\<close> passes the first test but not the second.\<close>

theorem CreateEventEx_status:
  assumes "notify_client cl" and "core_inv s" and "\<not> held s gEventQueueLock"
  shows "returns (\<lambda>(st, p, s').
      if \<not> out \<or> \<not> create_accepts Ty NTpl Fn Group \<or> is_notify_type Ty \<and> NTpl \<notin> {TPL_CALLBACK, TPL_NOTIFY}
      then st = EFI_INVALID_PARAMETER \<and> p = None \<and> s' = s
      else if \<not> mem then st = EFI_OUT_OF_RESOURCES \<and> p = None \<and> s' = s
      else st = EFI_SUCCESS \<and> p = Some (next_event s) \<and> events s (next_event s) = None \<and> core_inv s' \<and>
        gEfiCurrentTpl s' = gEfiCurrentTpl s \<and>
        (\<exists>r l. events s' (next_event s) =
           Some ((created_event Ty NTpl Fn Ctx Group)\<lparr>RuntimeLinked := r, SignalLinked := l\<rparr>)) \<and>
        (\<forall>x. x \<noteq> next_event s \<longrightarrow> events s' x = events s x))
    (CoreCreateEventEx (CoreRestoreTpl cl (Suc (Suc n))) mem out Ty NTpl Fn Ctx Group s)"
proof -
  note r = notify_client.restore_contract[OF assms(1), of "Suc (Suc n)"]
  have app: "\<not> create_accepts Ty TPL_APPLICATION Fn Group" if "is_notify_type Ty"
  proof -
    have "is_notify_type (fst (convert_group Ty Group))"
      using that by (simp add: convert_group_def is_notify_type_def split: option.split)
    then show ?thesis by (simp add: create_accepts_def)
  qed
  show ?thesis
  proof (cases "out \<and> create_accepts Ty NTpl Fn Group \<and> mem")
    case True
    then have acc: "create_accepts Ty NTpl Fn Group" by blast
    show ?thesis
    proof (cases "is_notify_type Ty \<and> NTpl \<notin> {TPL_CALLBACK, TPL_NOTIFY}")
      case bad: True
      with app acc have "NTpl \<noteq> TPL_APPLICATION" by blast
      with bad show ?thesis by (simp add: CoreCreateEventEx_def)
    next
      case good: False
      have "CoreCreateEventEx (CoreRestoreTpl cl (Suc (Suc n))) mem out Ty NTpl Fn Ctx Group s =
          CoreCreateEventInternal (CoreRestoreTpl cl (Suc (Suc n))) True True Ty NTpl Fn Ctx Group s"
        using good True by (auto simp: CoreCreateEventEx_def)
      then show ?thesis
        using True good
        by (simp only:) (rule returns_mono[OF returnsI[OF tpl_restore.CreateEvent_safe[OF r assms(2,3) acc]
             tpl_restore_total.CreateEvent_total[OF notify_client.restore_total[OF assms(1)] assms(2,3) acc]]],
           auto simp: svc_def)
    qed
  next
    case False
    show ?thesis
      using False app by (auto simp: CoreCreateEventEx_def tpl_restore.CreateEvent_reject[OF r False])
  qed
qed

lemma CreateEventEx_status_witness:
  "returns (\<lambda>(st, p, s'). st = EFI_SUCCESS \<and> p = Some 4)
     (CoreCreateEventEx demo_restore True True EVT_TIMER 0 None None None (after wrap_demo)) \<and>
   returns (\<lambda>(st, p, s'). st = EFI_INVALID_PARAMETER \<and> s' = after wrap_demo)
     (CoreCreateEventEx demo_restore True True EVT_NOTIFY_SIGNAL TPL_APPLICATION (Some (ClientFn 0)) None None (after wrap_demo))"
proof -
  let ?s = "after wrap_demo"
  note i = after_idle[OF wrap_demo_ok]
  have nx: "next_event ?s = 4" by code_simp
  have acc: "create_accepts EVT_TIMER 0 None None" "\<not> is_notify_type EVT_TIMER" "is_notify_type EVT_NOTIFY_SIGNAL"
    by (simp_all add: create_accepts_def mEventTable_def convert_group_def is_notify_type_def)
  note c = CreateEventEx_status[OF harness_client i(3,4), of _ _ _ _ _ _ _ 10, folded demo_restore_eq]
  show ?thesis
    by (rule conjI; rule returns_mono[OF c]) (use nx acc in \<open>auto split: if_splits\<close>)
qed

text \<open>C29: time that passes while interrupts are off is not lost: any two advances at \<open>TPL_HIGH_LEVEL\<close> are kept
  pending, and lowering the level applies their sum, and what was pending before, to the system time.\<close>

theorem pending_time_kept:
  assumes "notify_client cl" and "core_inv s" and "gEfiCurrentTpl s = TPL_HIGH_LEVEL" and "gTimerHostInitialized s"
    and "\<And>l. \<not> held s l" and "t < TPL_HIGH_LEVEL" and "gPendingTimerDuration s + a + b \<noteq> 0"
  shows "\<exists>s2. bind (MockTimerAdvance100ns (CoreRestoreTpl cl (Suc (Suc n))) a s) (MockTimerAdvance100ns (CoreRestoreTpl cl (Suc (Suc n))) b) = Ret s2 \<and>
    mEfiSystemTime s2 = mEfiSystemTime s \<and>
    returns (\<lambda>s'. core_inv s' \<and> mEfiSystemTime s' = mEfiSystemTime s + gPendingTimerDuration s + a + b \<and>
        gPendingTimerDuration s' = 0) (Restore_interrupt (CoreRestoreTpl cl (Suc (Suc n))) t s2)"
proof -
  note r = notify_client.restore_contract[OF assms(1), of "Suc (Suc n)"]
  let ?s2 = "s\<lparr>gPendingTimerDuration := gPendingTimerDuration s + a + b\<rparr>"
  let ?d = "gPendingTimerDuration s + a + b"
  let ?s3 = "s\<lparr>gPendingTimerDuration := 0\<rparr>"
  have s2: "bind (MockTimerAdvance100ns (CoreRestoreTpl cl (Suc (Suc n))) a s) (MockTimerAdvance100ns (CoreRestoreTpl cl (Suc (Suc n))) b) = Ret ?s2"
    using assms(3,4) by (simp add: MockTimerAdvance100ns_def add.assoc)
  have eq: "s\<lparr>gEfiCurrentTpl := TPL_HIGH_LEVEL, gPendingTimerDuration := 0\<rparr> = ?s3" using assms(3) by (cases s) simp
  have i3: "core_inv ?s3" using assms(2) by (simp add: core_inv_def event_inv_def tpl_inv_def lock_inv_def)
  have "safe (svc_sig (tick_state ?d ?s3)) (CoreTimerTick (CoreRestoreTpl cl (Suc (Suc n))) ?d ?s3)"
    using tpl_restore.TimerTick_sig[OF r i3] assms(5) by simp
  then have "safe (\<lambda>s'. core_inv s' \<and> mEfiSystemTime s' = mEfiSystemTime s + ?d \<and> gPendingTimerDuration s' = 0)
      (CoreTimerTick (CoreRestoreTpl cl (Suc (Suc n))) ?d ?s3)"
    by (rule safe_mono)
      (use assms(3) in \<open>auto simp: svc_sig_def svc_def tick_state_def dest: sig_frameD(2,4)\<close>)
  moreover have "CoreTimerTick (CoreRestoreTpl cl (Suc (Suc n))) ?d ?s3 \<noteq> NoFuel"
    using tpl_restore_total.TimerTick_total[OF notify_client.restore_total[OF assms(1)] i3] assms(3,5) by simp
  ultimately have "returns (\<lambda>s'. core_inv s' \<and> mEfiSystemTime s' = mEfiSystemTime s + ?d \<and> gPendingTimerDuration s' = 0)
      (CoreTimerTick (CoreRestoreTpl cl (Suc (Suc n))) ?d ?s3)" by (rule returnsI)
  then have "returns (\<lambda>s'. core_inv s' \<and> mEfiSystemTime s' = mEfiSystemTime s + gPendingTimerDuration s + a + b \<and>
        gPendingTimerDuration s' = 0) (Restore_interrupt (CoreRestoreTpl cl (Suc (Suc n))) t ?s2)"
    using assms(3,6,7) unfolding eq[symmetric]
    by (simp add: Restore_interrupt_def MockTimerHostConsumePending_def word_neq_0_conv add.assoc)
  then show ?thesis using s2 by auto
qed

definition high_demo :: "service list" where
  "high_demo = [SvcRaiseTPL 31]"

lemma high_demo_ok: "demo_ok high_demo"
  by code_simp

lemma pending_time_kept_witness:
  "\<exists>s2. bind (MockTimerAdvance100ns demo_restore 3 (after high_demo)) (MockTimerAdvance100ns demo_restore 4) = Ret s2 \<and>
     returns (\<lambda>s'. mEfiSystemTime s' = 7) (Restore_interrupt demo_restore 4 s2)"
proof -
  let ?s = "after high_demo"
  note i = after_idle[OF high_demo_ok]
  have "let s = ?s in gEfiCurrentTpl s = TPL_HIGH_LEVEL \<and> gTimerHostInitialized s \<and> gPendingTimerDuration s = 0 \<and>
    mEfiSystemTime s = 0" by code_simp
  then have f: "gEfiCurrentTpl ?s = TPL_HIGH_LEVEL" "gTimerHostInitialized ?s" "gPendingTimerDuration ?s = 0"
    "mEfiSystemTime ?s = 0" unfolding Let_def by blast+
  obtain s2 where "bind (MockTimerAdvance100ns demo_restore 3 ?s) (MockTimerAdvance100ns demo_restore 4) = Ret s2"
     "returns (\<lambda>s'. core_inv s' \<and> mEfiSystemTime s' = mEfiSystemTime ?s + gPendingTimerDuration ?s + 3 + 4 \<and>
        gPendingTimerDuration s' = 0) (Restore_interrupt demo_restore 4 s2)"
    using pending_time_kept[OF harness_client i(3) f(1,2) i(4), of 4 3 4 10, folded demo_restore_eq] f(3) by auto
  then show ?thesis using f by (auto elim!: returns_mono)
qed





end
