(* ===== verification/DeferredProps.thy ===== *)
theory DeferredProps
  imports Deferred EventProps
begin

text \<open>The properties of the deferred signalling of completion tokens.\<close>

section \<open>A concrete state\<close>

text \<open>The deferred state starts with nothing pending, in fuzzing mode.\<close>

definition deferred_start :: "core \<Rightarrow> deferred" where
  "deferred_start s = core.extend s \<lparr>entries = Map.empty, next_entry = 0, PendingList = [], Initialized = False,
     gMockEventAdvanceContext = True\<rparr>"

lemma deferred_start_simps [simp]:
  "core_inv (deferred_start s) = core_inv s" "gEfiCurrentTpl (deferred_start s) = gEfiCurrentTpl s"
  "events (deferred_start s) = events s" "next_event (deferred_start s) = next_event s" "locks (deferred_start s) = locks s"
  "PendingList (deferred_start s) = []" "entries (deferred_start s) = Map.empty" "next_entry (deferred_start s) = 0"
  "gMockEventAdvanceContext (deferred_start s)" "mEfiSystemTime (deferred_start s) = mEfiSystemTime s"
  by (simp_all add: deferred_start_def core.defs core_inv_def event_inv_def tpl_inv_def lock_inv_def)

lemma idle_start: "idle_inv s \<Longrightarrow> idle (deferred_start s)"
  by (simp add: idle_def idle_inv_def deferred_inv_def)

definition token_demo :: "service list" where
  "token_demo = [SvcCreateEvent EVT_NOTIFY_SIGNAL TPL_CALLBACK (Some (ClientFn 1)) None None, SvcRaiseTPL TPL_CALLBACK]"

lemma token_demo_ok: "demo_ok token_demo"
  by code_simp

text \<open>C11: in fuzzing mode a scheduled token is not signalled: scheduling returns, creates one fresh timer event,
  armed one tick after the present so that it cannot expire before time passes, queues one entry that
  owns it, and changes no signal state; every entry stays pending with a live timer of its own.\<close>

theorem Schedule_defers:
  assumes "notify_client cl" and "idle s" and "gEfiCurrentTpl s < TPL_HIGH_LEVEL" and "gMockEventAdvanceContext s"
  shows "\<exists>s'. MockDeferredSchedule drain unreg (CoreRestoreTpl cl (Suc (Suc n))) True True True (Some tok) s = Ret (EFI_SUCCESS, s') \<and>
    scheduled tok s s'"
  by (rule Schedule_ret[OF notify_client.restore_total[OF assms(1)] assms(2-4)])

lemma Schedule_defers_witness:
  "\<exists>s'. MockDeferredSchedule Ret (\<lambda>_. Ret) (CoreRestoreTpl harness_notify 12) True True True (Some 3) (deferred_start (after token_demo)) =
     Ret (EFI_SUCCESS, s') \<and> PendingList s' = [0] \<and> timer_view s' 4 = Some (1, 0, True) \<and> count_of s' 3 = Some 0"
proof -
  let ?a = "after token_demo"
  note i = after_idle[OF token_demo_ok]
  have "let s = ?a in gEfiCurrentTpl s < TPL_HIGH_LEVEL \<and> next_event s = 4 \<and> mEfiSystemTime s = 0 \<and> count_of s 3 = Some 0" by code_simp
  then have f: "gEfiCurrentTpl ?a < TPL_HIGH_LEVEL" "next_event ?a = 4" "mEfiSystemTime ?a = 0" "count_of ?a 3 = Some 0"
    unfolding Let_def by blast+
  have "count_of (deferred_start ?a) = count_of ?a" by (simp add: count_of_def fun_eq_iff)
  then show ?thesis
    using Schedule_defers[OF harness_client idle_start[OF i(2)], of Ret "\<lambda>_. Ret" 10 3] f
    by (auto simp: scheduled_def numeral_eq_Suc)
qed

text \<open>C12: cancelling everything returns, with one unit of fuel more than there are entries, frees every entry,
  closes every delivery timer and touches no other event, so no cancelled token is ever signalled.\<close>

theorem CancelAll_closes_timers:
  assumes "notify_client cl" and "idle s" and "gEfiCurrentTpl s < TPL_HIGH_LEVEL" and "length (PendingList s) < k"
  shows "\<exists>s'. MockDeferredCancelAll unreg (CoreRestoreTpl cl (Suc (Suc n))) k True s = Ret s' \<and> idle s' \<and>
    gEfiCurrentTpl s' = gEfiCurrentTpl s \<and> PendingList s' = [] \<and> entries s' = Map.empty \<and>
    events s' = (\<lambda>x. if \<exists>en E. entries s en = Some E \<and> DeliveryTimer E = Some x then None else events s x)"
  using CancelAll_ret[OF notify_client.restore_total[OF assms(1)] assms(2-4)]
  by (fastforce simp: all_cancelled_def owned_def)

text \<open>C10: a client that cancels all deliveries of the protocol from within a delivery (in the DPC that the
  callback drains, for instance by a \<open>Configure (NULL)\<close>) frees the entry that the callback still
  uses: the callback then unlinks and frees it a second time.\<close>

theorem cancel_during_delivery_faults:
  assumes "notify_client cl" and "idle s" and "gEfiCurrentTpl s < TPL_HIGH_LEVEL" and "length (PendingList s) < k"
    and "entries s en = Some E" and "TokenEvent E = Some tok" and "events s tok = Some tv"
    and "ExFlag tv AND EVT_EXFLAG_EVENT_GROUP = 0" and "NotifyTpl tv \<le> gEfiCurrentTpl s"
  shows "DeliverCallback (MockDeferredCancelAll unreg (CoreRestoreTpl cl (Suc (Suc n))) k True) unreg
    (CoreRestoreTpl cl (Suc (Suc n))) timer (Some en) s = Fault"
  by (rule cancel_during_delivery[OF notify_client.restore_total[OF assms(1)] assms(2-9)])

text \<open>A state with one pending delivery, for the witnesses.\<close>

definition one_pending :: deferred where
  "one_pending = (case MockDeferredSchedule Ret (\<lambda>_. Ret) (CoreRestoreTpl harness_notify 12) True True True (Some 3) (deferred_start (after token_demo)) of
     Ret (_, s) \<Rightarrow> s | _ \<Rightarrow> deferred_start initial_core)"

lemma one_pending: "idle one_pending" "gEfiCurrentTpl one_pending = 8" "PendingList one_pending = [0]"
  "entries one_pending 0 = Some \<lparr>TokenEvent = Some 3, DeliveryTimer = Some 4\<rparr>"
  "\<exists>tv. events one_pending 3 = Some tv \<and> ExFlag tv AND EVT_EXFLAG_EVENT_GROUP = 0 \<and> NotifyTpl tv = 8"
proof -
  let ?a = "after token_demo"
  let ?m = "MockDeferredSchedule Ret (\<lambda>_. Ret) (CoreRestoreTpl harness_notify 12) True True True (Some 3) (deferred_start ?a)"
  note i = after_idle[OF token_demo_ok]
  have "let s = ?a in gEfiCurrentTpl s = 8 \<and> next_event s = 4" by code_simp
  then have f: "gEfiCurrentTpl ?a = 8" "next_event ?a = 4" unfolding Let_def by blast+
  have s: "safe (\<lambda>(st, s'). st = EFI_SUCCESS \<and> scheduled 3 (deferred_start ?a) s') ?m"
    by (rule Schedule_safe[OF notify_client.restore_contract[OF harness_client] idle_start[OF i(2)]]) (use f in simp_all)
  have "case ?m of Ret (_, s) \<Rightarrow> map_option (\<lambda>v. (ExFlag v AND EVT_EXFLAG_EVENT_GROUP, NotifyTpl v)) (events s 3) = Some (0, 8)
      | _ \<Rightarrow> False" by code_simp
  with s have "scheduled 3 (deferred_start ?a) one_pending"
      "map_option (\<lambda>v. (ExFlag v AND EVT_EXFLAG_EVENT_GROUP, NotifyTpl v)) (events one_pending 3) = Some (0, 8)"
    unfolding one_pending_def by (auto split: outcome.splits)
  then show "idle one_pending" "gEfiCurrentTpl one_pending = 8" "PendingList one_pending = [0]"
    "entries one_pending 0 = Some \<lparr>TokenEvent = Some 3, DeliveryTimer = Some 4\<rparr>"
    "\<exists>tv. events one_pending 3 = Some tv \<and> ExFlag tv AND EVT_EXFLAG_EVENT_GROUP = 0 \<and> NotifyTpl tv = 8"
    using f by (auto simp: scheduled_def)
qed

lemma CancelAll_closes_timers_witness:
  "\<exists>s'. MockDeferredCancelAll (\<lambda>_. Ret) (CoreRestoreTpl harness_notify 12) 2 True one_pending = Ret s' \<and>
    PendingList s' = [] \<and> events s' 4 = None"
  using CancelAll_closes_timers[OF harness_client one_pending(1), of 2 "\<lambda>_. Ret" 10] one_pending(2-4)
  by (fastforce simp: numeral_eq_Suc)

lemma cancel_during_delivery_faults_witness:
  "DeliverCallback (MockDeferredCancelAll (\<lambda>_. Ret) (CoreRestoreTpl harness_notify 12) 2 True) (\<lambda>_. Ret)
    (CoreRestoreTpl harness_notify 12) 4 (Some 0) one_pending = Fault"
proof -
  obtain tv where tv: "events one_pending 3 = Some tv" "ExFlag tv AND EVT_EXFLAG_EVENT_GROUP = 0" "NotifyTpl tv = 8"
    using one_pending(5) by blast
  show ?thesis
    using cancel_during_delivery_faults[OF harness_client one_pending(1) _ _ one_pending(4) _ tv(1,2), of 2 "\<lambda>_. Ret" 10 4]
      one_pending(2,3) tv(3) by (simp add: numeral_eq_Suc)
qed

end
