(* ===== verification/DpcMock.thy ===== *)
theory DpcMock
  imports DeferredProps
begin

text \<open>
  The DPC protocol mock, \<open>MockgEfiDpcProtocolGuid.c\<close>: a ring of at most 32 deferred procedure calls, filled
  by \<open>QueueDpc\<close> at \<open>TPL_HIGH_LEVEL\<close> and drained by \<open>DispatchDpc\<close>, against a queue without duplicates.
  The state extends the one of the deferred signalling, whose callback drains this ring.
\<close>

section \<open>State and operations\<close>

record dpc_entry =
  Procedure :: ptr
  DpcContext :: ptr

record dpc = deferred +
  mDpcQueue :: "dpc_entry list"
  mDpcHead :: u32
  mDpcTail :: u32
  mDpcCount :: u32
  mInsideDispatch :: bool
  mMockDpcQueueCount :: u32
  mMockDpcDispatchCount :: u32

abbreviation MOCK_DPC_MAX_QUEUE :: u32 where
  "MOCK_DPC_MAX_QUEUE \<equiv> 32"

type_synonym 'x dpc_restore = "'x dpc_ext deferred_ext core_scheme restore"

text \<open>A procedure called with its context; procedures call services and this protocol again.\<close>

type_synonym 'x dpc_proc = "ptr \<Rightarrow> ptr \<Rightarrow> 'x dpc_scheme \<Rightarrow> 'x dpc_scheme outcome"

text \<open>A slot of the array; an index outside is a fault.\<close>

definition slot :: "dpc_entry list \<Rightarrow> u32 \<Rightarrow> dpc_entry option" where
  "slot q i = (if unat i < length q then Some (q ! unat i) else None)"

text \<open>The search for an equal entry from \<open>Pos\<close> on, with \<open>n\<close> entries to go.\<close>

fun Dedup_loop :: "dpc_entry list \<Rightarrow> ptr \<Rightarrow> ptr \<Rightarrow> u32 \<Rightarrow> nat \<Rightarrow> bool outcome" where
  "Dedup_loop q p c Pos 0 = Ret False"
| "Dedup_loop q p c Pos (Suc n) = deref (slot q Pos) (\<lambda>E.
     if Procedure E = p \<and> DpcContext E = c then Ret True
     else Dedup_loop q p c ((Pos + 1) mod MOCK_DPC_MAX_QUEUE) n)"

definition Queue_append :: "ptr \<Rightarrow> ptr \<Rightarrow> 'x dpc_scheme \<Rightarrow> 'x dpc_scheme outcome" where
  "Queue_append p c s = deref (slot (mDpcQueue s) (mDpcTail s)) (\<lambda>_.
     Ret (s\<lparr>mDpcQueue := (mDpcQueue s)[unat (mDpcTail s) := \<lparr>Procedure = p, DpcContext = c\<rparr>],
       mDpcTail := (mDpcTail s + 1) mod MOCK_DPC_MAX_QUEUE, mDpcCount := mDpcCount s + 1,
       mMockDpcQueueCount := mMockDpcQueueCount s + 1\<rparr>))"

definition MockDpcQueueDpc :: "'x dpc_restore \<Rightarrow> nat \<Rightarrow> ptr \<Rightarrow> ptr \<Rightarrow> 'x dpc_scheme \<Rightarrow> (efi_status \<times> 'x dpc_scheme) outcome" where
  "MockDpcQueueDpc rst DpcTpl p c s =
     (if p = None then Ret (EFI_INVALID_PARAMETER, s)
      else if DpcTpl < TPL_APPLICATION \<or> DpcTpl > TPL_HIGH_LEVEL then Ret (EFI_INVALID_PARAMETER, s)
      else bind (CoreRaiseTpl TPL_HIGH_LEVEL s) (\<lambda>(OriginalTpl, s1).
        if mDpcCount s1 \<ge> MOCK_DPC_MAX_QUEUE then bind (rst OriginalTpl s1) (\<lambda>s2. Ret (EFI_OUT_OF_RESOURCES, s2))
        else bind (Dedup_loop (mDpcQueue s1) p c (mDpcHead s1) (unat (mDpcCount s1))) (\<lambda>queued.
          if queued then bind (rst OriginalTpl s1) (\<lambda>s2. Ret (EFI_SUCCESS, s2))
          else bind (Queue_append p c s1) (\<lambda>s2. bind (rst OriginalTpl s2) (\<lambda>s3. Ret (EFI_SUCCESS, s3))))))"

text \<open>The drain loop; procedures may queue further calls, so it takes fuel.\<close>

fun Drain_loop :: "'x dpc_proc \<Rightarrow> nat \<Rightarrow> u32 \<Rightarrow> 'x dpc_scheme \<Rightarrow> (u32 \<times> 'x dpc_scheme) outcome" where
  "Drain_loop call 0 Dispatched s = NoFuel"
| "Drain_loop call (Suc k) Dispatched s =
     (if mDpcCount s > 0 then
        deref (slot (mDpcQueue s) (mDpcHead s)) (\<lambda>E.
        bind (call (Procedure E) (DpcContext E)
                (s\<lparr>mDpcHead := (mDpcHead s + 1) mod MOCK_DPC_MAX_QUEUE, mDpcCount := mDpcCount s - 1\<rparr>)) (\<lambda>s1.
        Drain_loop call k (Dispatched + 1) (s1\<lparr>mMockDpcDispatchCount := mMockDpcDispatchCount s1 + 1\<rparr>)))
      else Ret (Dispatched, s))"

definition MockDpcDrainQueue :: "'x dpc_proc \<Rightarrow> nat \<Rightarrow> 'x dpc_scheme \<Rightarrow> (u32 \<times> 'x dpc_scheme) outcome" where
  "MockDpcDrainQueue call k s =
     (if mInsideDispatch s then Ret (0, s)
      else bind (Drain_loop call k 0 (s\<lparr>mInsideDispatch := True\<rparr>)) (\<lambda>(Dispatched, s1).
        Ret (Dispatched, s1\<lparr>mInsideDispatch := False\<rparr>)))"

definition MockDpcDispatchDpc :: "'x dpc_proc \<Rightarrow> nat \<Rightarrow> 'x dpc_scheme \<Rightarrow> (efi_status \<times> 'x dpc_scheme) outcome" where
  "MockDpcDispatchDpc call k s =
     bind (Drain_loop call k 0 (s\<lparr>mInsideDispatch := True\<rparr>)) (\<lambda>(Dispatched, s1).
       Ret (if Dispatched = 0 then EFI_NOT_FOUND else EFI_SUCCESS, s1\<lparr>mInsideDispatch := mInsideDispatch s\<rparr>))"

definition DpcResetState :: "'x dpc_scheme \<Rightarrow> 'x dpc_scheme" where
  "DpcResetState s = s\<lparr>mDpcHead := 0, mDpcTail := 0, mDpcCount := 0, mInsideDispatch := False, mMockDpcQueueCount := 0,
     mMockDpcDispatchCount := 0, mDpcQueue := replicate 32 \<lparr>Procedure = None, DpcContext = None\<rparr>\<rparr>"

definition MockDpcGetQueueCount :: "'x dpc_scheme \<Rightarrow> u32" where
  "MockDpcGetQueueCount s = mMockDpcQueueCount s"

definition MockDpcGetDispatchCount :: "'x dpc_scheme \<Rightarrow> u32" where
  "MockDpcGetDispatchCount s = mMockDpcDispatchCount s"

definition MockDpcGetPendingCount :: "'x dpc_scheme \<Rightarrow> u32" where
  "MockDpcGetPendingCount s = mDpcCount s"

definition MockDpcDispatchAll :: "'x dpc_proc \<Rightarrow> nat \<Rightarrow> 'x dpc_scheme \<Rightarrow> (u32 \<times> 'x dpc_scheme) outcome" where
  "MockDpcDispatchAll = MockDpcDrainQueue"

section \<open>The ring as a queue\<close>

definition ring :: "dpc_entry list \<Rightarrow> nat \<Rightarrow> nat \<Rightarrow> dpc_entry list" where
  "ring q h n = map (\<lambda>i. q ! ((h + i) mod 32)) [0..<n]"

definition queued :: "'x dpc_scheme \<Rightarrow> dpc_entry list" where
  "queued s = ring (mDpcQueue s) (unat (mDpcHead s)) (unat (mDpcCount s))"

definition dpc_inv :: "'x dpc_scheme \<Rightarrow> bool" where
  "dpc_inv s \<longleftrightarrow> length (mDpcQueue s) = 32 \<and> unat (mDpcHead s) < 32 \<and> unat (mDpcCount s) \<le> 32 \<and>
     unat (mDpcTail s) = (unat (mDpcHead s) + unat (mDpcCount s)) mod 32 \<and>
     distinct (queued s) \<and> (\<forall>E \<in> set (queued s). Procedure E \<noteq> None)"

lemma length_queued: "length (queued s) = unat (mDpcCount s)"
  by (simp add: queued_def ring_def)

lemma ring_Suc: "ring q h (Suc n) = ring q h n @ [q ! ((h + n) mod 32)]"
  by (simp add: ring_def)

lemma ring_pop: "ring q h (Suc n) = q ! (h mod 32) # ring q (Suc h mod 32) n"
proof -
  have "(h + Suc i) mod 32 = (Suc h mod 32 + i) mod 32" for i by (simp add: mod_add_left_eq)
  then show ?thesis by (simp add: ring_def map_upt_Suc del: upt_Suc)
qed

lemma ring_update:
  assumes "n < 32" shows "ring (q[(h + n) mod 32 := x]) h n = ring q h n"
proof -
  have "(h + i) mod 32 \<noteq> (h + n) mod 32" if "i < n" for i
  proof
    assume "(h + i) mod 32 = (h + n) mod 32"
    then have "(h + n) - (h + i) = 0 \<or> 32 dvd (h + n) - (h + i)" using that by (metis mod_eq_dvd_iff_nat le_add_diff_inverse less_imp_le_nat add_le_cancel_left)
    then show False using that assms by (auto dest: dvd_imp_le)
  qed
  then have "(h + n) mod 32 \<noteq> (h + i) mod 32" if "i < n" for i using that by metis
  then show ?thesis by (auto simp: ring_def)
qed

lemma next_index:
  assumes "unat (x :: u32) < 32" shows "unat ((x + 1) mod 32) = Suc (unat x) mod 32"
proof -
  have "unat (x + 1) = Suc (unat x)" using assms by (simp add: unat_word_ariths)
  then show ?thesis by (simp add: unat_mod)
qed

section \<open>Queueing\<close>

lemma Dedup_loop_eq:
  "length q = 32 \<Longrightarrow> unat Pos < 32 \<Longrightarrow>
     Dedup_loop q p c Pos n = Ret (\<lparr>Procedure = p, DpcContext = c\<rparr> \<in> set (ring q (unat Pos) n))"
proof (induction n arbitrary: Pos)
  case 0
  then show ?case by (simp add: ring_def)
next
  case (Suc n)
  have nx: "unat ((Pos + 1) mod 32) = Suc (unat Pos) mod 32" by (rule next_index[OF Suc.prems(2)])
  have "Dedup_loop q p c ((Pos + 1) mod 32) n = Ret (\<lparr>Procedure = p, DpcContext = c\<rparr> \<in> set (ring q (Suc (unat Pos) mod 32) n))"
    using Suc.IH[of "(Pos + 1) mod 32"] Suc.prems(1) nx by simp
  moreover have "slot q Pos = Some (q ! unat Pos)" using Suc.prems by (simp add: slot_def)
  moreover have "\<lparr>Procedure = p, DpcContext = c\<rparr> \<in> set (ring q (unat Pos) (Suc n)) \<longleftrightarrow>
      Procedure (q ! unat Pos) = p \<and> DpcContext (q ! unat Pos) = c \<or> \<lparr>Procedure = p, DpcContext = c\<rparr> \<in> set (ring q (Suc (unat Pos) mod 32) n)"
    using Suc.prems(2) by (cases "q ! unat Pos") (auto simp: ring_pop)
  ultimately show ?case by auto
qed

text \<open>What queueing does to the queue: full, already there, or appended.\<close>

definition enq :: "dpc_entry \<Rightarrow> dpc_entry list \<Rightarrow> efi_status \<times> dpc_entry list" where
  "enq E ds = (if length ds = 32 then (EFI_OUT_OF_RESOURCES, ds) else if E \<in> set ds then (EFI_SUCCESS, ds) else (EFI_SUCCESS, ds @ [E]))"

lemma dpc_invD:
  assumes "dpc_inv s"
  shows "length (mDpcQueue s) = 32" "unat (mDpcHead s) < 32" "unat (mDpcCount s) \<le> 32"
    "unat (mDpcTail s) = (unat (mDpcHead s) + unat (mDpcCount s)) mod 32" "distinct (queued s)"
    "E \<in> set (queued s) \<Longrightarrow> Procedure E \<noteq> None"
  using assms by (auto simp: dpc_inv_def)

lemma dpc_inv_cong:
  assumes "deferred.more s' = deferred.more s"
  shows "dpc_inv s' = dpc_inv s" "queued s' = queued s"
proof -
  have "mDpcQueue s' = mDpcQueue s" "mDpcHead s' = mDpcHead s" "mDpcCount s' = mDpcCount s" "mDpcTail s' = mDpcTail s"
    using assms by (cases s; cases s'; simp)+
  then show "dpc_inv s' = dpc_inv s" "queued s' = queued s" by (simp_all add: dpc_inv_def queued_def)
qed

definition same_but_ring :: "'x dpc_scheme \<Rightarrow> 'x dpc_scheme \<Rightarrow> bool" where
  "same_but_ring s s' \<longleftrightarrow> deferred.truncate s' = deferred.truncate s \<and> dpc.more s' = dpc.more s \<and>
     mInsideDispatch s' = mInsideDispatch s \<and> mMockDpcDispatchCount s' = mMockDpcDispatchCount s"

lemma Queue_append_eq:
  assumes inv: "dpc_inv s" and p: "p \<noteq> None" and n: "unat (mDpcCount s) < 32" and new: "\<lparr>Procedure = p, DpcContext = c\<rparr> \<notin> set (queued s)"
  shows "\<exists>s'. Queue_append p c s = Ret s' \<and> dpc_inv s' \<and> queued s' = queued s @ [\<lparr>Procedure = p, DpcContext = c\<rparr>] \<and> same_but_ring s s'"
proof -
  note d = dpc_invD[OF inv]
  let ?E = "\<lparr>Procedure = p, DpcContext = c\<rparr>"
  let ?s = "s\<lparr>mDpcQueue := (mDpcQueue s)[unat (mDpcTail s) := ?E], mDpcTail := (mDpcTail s + 1) mod 32,
     mDpcCount := mDpcCount s + 1, mMockDpcQueueCount := mMockDpcQueueCount s + 1\<rparr>"
  have t: "unat (mDpcTail s) < 32" using d(4) by simp
  have c: "unat (mDpcCount s + 1) = Suc (unat (mDpcCount s))" using n by (simp add: unat_word_ariths)
  have q: "queued ?s = queued s @ [?E]"
    using d(1) n by (simp add: queued_def c ring_Suc d(4) ring_update)
  have "unat (mDpcTail ?s) = (unat (mDpcHead ?s) + unat (mDpcCount ?s)) mod 32"
    using next_index[OF t] c d(4) by (simp add: mod_Suc_eq)
  then have "dpc_inv ?s"
    using d(1,2,5,6) n new p c unfolding dpc_inv_def q by auto
  then show ?thesis using q t d(1)
    by (intro exI[of _ ?s]) (simp add: Queue_append_def slot_def same_but_ring_def deferred.truncate_def)
qed

lemma raise_high:
  "gEfiCurrentTpl s \<le> TPL_HIGH_LEVEL \<Longrightarrow> CoreRaiseTpl TPL_HIGH_LEVEL s = Ret (gEfiCurrentTpl s, s\<lparr>gEfiCurrentTpl := TPL_HIGH_LEVEL\<rparr>)"
  by (simp add: CoreRaiseTpl_def VALID_TPL_def CoreSetInterruptState_def Let_def)

lemma QueueDpc_eq:
  assumes inv: "dpc_inv s" and t: "gEfiCurrentTpl s \<le> TPL_HIGH_LEVEL" and p: "p \<noteq> None" and l: "TPL_APPLICATION \<le> l" "l \<le> TPL_HIGH_LEVEL"
  shows "\<exists>s'. MockDpcQueueDpc rst l p c s =
      bind (rst (gEfiCurrentTpl s) s') (\<lambda>s2. Ret (fst (enq \<lparr>Procedure = p, DpcContext = c\<rparr> (queued s)), s2)) \<and>
    dpc_inv s' \<and> queued s' = snd (enq \<lparr>Procedure = p, DpcContext = c\<rparr> (queued s)) \<and> same_but_ring (s\<lparr>gEfiCurrentTpl := TPL_HIGH_LEVEL\<rparr>) s'"
proof -
  let ?E = "\<lparr>Procedure = p, DpcContext = c\<rparr>" and ?s = "s\<lparr>gEfiCurrentTpl := TPL_HIGH_LEVEL\<rparr>"
  have i1: "dpc_inv ?s" "queued ?s = queued s" using dpc_inv_cong[of ?s s] inv by simp_all
  note d = dpc_invD[OF inv]
  have lt: "\<not> TPL_HIGH_LEVEL < l" "\<not> l < TPL_APPLICATION" using l by simp_all
  have full: "(32 :: u32) \<le> mDpcCount s \<longleftrightarrow> length (queued s) = 32"
    using d(3) by (auto simp: word_le_nat_alt length_queued)
  have de: "Dedup_loop (mDpcQueue s) p c (mDpcHead s) (unat (mDpcCount s)) = Ret (?E \<in> set (queued s))"
    using Dedup_loop_eq[OF d(1,2)] by (simp add: queued_def)
  have m: "MockDpcQueueDpc rst l p c s =
      (if length (queued s) = 32 then bind (rst (gEfiCurrentTpl s) ?s) (\<lambda>s2. Ret (EFI_OUT_OF_RESOURCES, s2))
       else if ?E \<in> set (queued s) then bind (rst (gEfiCurrentTpl s) ?s) (\<lambda>s2. Ret (EFI_SUCCESS, s2))
       else bind (Queue_append p c ?s) (\<lambda>s2. bind (rst (gEfiCurrentTpl s) s2) (\<lambda>s3. Ret (EFI_SUCCESS, s3))))"
    using p lt de full raise_high[OF t] by (auto simp: MockDpcQueueDpc_def)
  have same: "same_but_ring ?s ?s" by (simp add: same_but_ring_def)
  show ?thesis
  proof (cases "length (queued s) = 32 \<or> ?E \<in> set (queued s)")
    case True
    then show ?thesis using m i1 same by (intro exI[of _ ?s]) (auto simp: enq_def)
  next
    case False
    then have "unat (mDpcCount ?s) < 32" "?E \<notin> set (queued ?s)" using d(3) i1(2) by (auto simp: length_queued)
    from Queue_append_eq[OF i1(1) p this] obtain s' where "Queue_append p c ?s = Ret s'" "dpc_inv s'" "queued s' = queued s @ [?E]" "same_but_ring ?s s'"
      using i1(2) by auto
    then show ?thesis using m False by (intro exI[of _ s']) (simp add: enq_def)
  qed
qed

section \<open>Draining\<close>

text \<open>The order of the calls when the call \<open>E\<close> queues the calls \<open>f E\<close>.\<close>

definition enqs :: "dpc_entry list \<Rightarrow> dpc_entry list \<Rightarrow> dpc_entry list" where
  "enqs es q = fold (\<lambda>E q. snd (enq E q)) es q"

fun rounds :: "(dpc_entry \<Rightarrow> dpc_entry list) \<Rightarrow> nat \<Rightarrow> dpc_entry list \<Rightarrow> dpc_entry list option" where
  "rounds f k [] = Some []"
| "rounds f 0 (E # q) = None"
| "rounds f (Suc k) (E # q) = map_option ((#) E) (rounds f k (enqs (f E) q))"

lemma rounds_none: "length q \<le> k \<Longrightarrow> rounds (\<lambda>_. []) k q = Some q"
  by (induction "\<lambda>_ :: dpc_entry. [] :: dpc_entry list" k q rule: rounds.induct) (simp_all add: enqs_def)

text \<open>The contract of the procedures: each returns, logs its call and queues more calls.\<close>

locale dpc_procedures =
  fixes call :: "'x dpc_proc" and inv :: "'x dpc_scheme \<Rightarrow> bool"
    and queues :: "dpc_entry \<Rightarrow> dpc_entry list" and log :: "'x dpc_scheme \<Rightarrow> dpc_entry list"
  assumes pop: "inv (s\<lparr>mDpcHead := a, mDpcCount := b\<rparr>) = inv s" "log (s\<lparr>mDpcHead := a, mDpcCount := b\<rparr>) = log s"
    and count: "inv (s\<lparr>mMockDpcDispatchCount := n\<rparr>) = inv s" "log (s\<lparr>mMockDpcDispatchCount := n\<rparr>) = log s"
    and flag: "inv (s\<lparr>mInsideDispatch := i\<rparr>) = inv s" "log (s\<lparr>mInsideDispatch := i\<rparr>) = log s"
    and call: "inv s \<Longrightarrow> dpc_inv s \<Longrightarrow> Procedure E \<noteq> None \<Longrightarrow> \<exists>s'. call (Procedure E) (DpcContext E) s = Ret s' \<and>
      inv s' \<and> dpc_inv s' \<and> queued s' = enqs (queues E) (queued s) \<and> log s' = log s @ [E]"
begin

lemma Drain_loop_rounds:
  "inv s \<Longrightarrow> dpc_inv s \<Longrightarrow> rounds queues k (queued s) = Some es \<Longrightarrow>
     \<exists>s'. Drain_loop call (Suc k) d s = Ret (d + of_nat (length es), s') \<and> inv s' \<and> dpc_inv s' \<and> queued s' = [] \<and> log s' = log s @ es"
proof (induction k arbitrary: s d es)
  case 0
  then have q: "queued s = []" "es = []" by (cases "queued s"; simp)+
  then have "mDpcCount s = 0" using length_queued[of s] by (simp add: unat_eq_zero)
  then show ?case using 0 q by simp
next
  case (Suc k)
  note dd = dpc_invD[OF Suc.prems(2)]
  show ?case
  proof (cases "queued s")
    case Nil
    then have "mDpcCount s = 0" using length_queued[of s] by (simp add: unat_eq_zero)
    then show ?thesis using Suc.prems Nil by simp
  next
    case (Cons E q)
    obtain n where n: "unat (mDpcCount s) = Suc n" using length_queued[of s] Cons by (cases "unat (mDpcCount s)") simp_all
    let ?s = "s\<lparr>mDpcHead := (mDpcHead s + 1) mod 32, mDpcCount := mDpcCount s - 1\<rparr>"
    have nz: "0 < mDpcCount s" using n by (metis word_neq_0_conv unat_0 nat.distinct(1))
    have c: "unat (mDpcCount s - 1) = n" using n nz by (simp add: unat_minus_one)
    have h: "unat ((mDpcHead s + 1) mod 32) = Suc (unat (mDpcHead s)) mod 32" by (rule next_index[OF dd(2)])
    have q: "queued ?s = q" "mDpcQueue s ! unat (mDpcHead s) = E"
      using Cons dd(2) ring_pop[of "mDpcQueue s" "unat (mDpcHead s)" n] by (simp_all add: queued_def c h n)
    have sl: "slot (mDpcQueue s) (mDpcHead s) = Some E" using dd(1,2) q(2) by (simp add: slot_def)
    have pE: "Procedure E \<noteq> None" using dd(6)[of E] Cons by simp
    have "unat (mDpcTail s) = (Suc (unat (mDpcHead s)) mod 32 + n) mod 32" using dd(4) n by (simp add: mod_add_left_eq)
    then have "dpc_inv ?s"
      using dd(1,3,5,6) Cons n unfolding dpc_inv_def q(1) by (auto simp: c h)
    then obtain s1 where s1: "call (Procedure E) (DpcContext E) ?s = Ret s1" "inv s1" "dpc_inv s1" "queued s1 = enqs (queues E) q" "log s1 = log s @ [E]"
      using call[of ?s E] pop Suc.prems(1) pE q(1) by auto
    let ?t = "s1\<lparr>mMockDpcDispatchCount := mMockDpcDispatchCount s1 + 1\<rparr>"
    have t: "inv ?t" "dpc_inv ?t" "queued ?t = enqs (queues E) q" "log ?t = log s @ [E]"
      using s1 count by (simp_all add: dpc_inv_def queued_def)
    obtain es' where es: "es = E # es'" "rounds queues k (enqs (queues E) q) = Some es'" using Suc.prems(3) Cons by auto
    obtain s' where s': "Drain_loop call (Suc k) (d + 1) ?t = Ret (d + 1 + of_nat (length es'), s')" "inv s'" "dpc_inv s'" "queued s' = []" "log s' = log ?t @ es'"
      using Suc.IH[OF t(1,2), of es' "d + 1"] es(2) t(3) by auto
    have "Drain_loop call (Suc (Suc k)) d s = Drain_loop call (Suc k) (d + 1) ?t"
      using nz sl s1(1) by (subst Drain_loop.simps) simp
    then show ?thesis using s' t(4) es(1) by (simp add: add.assoc)
  qed
qed

lemma DispatchDpc_rounds:
  assumes "inv s" and "dpc_inv s" and "rounds queues k (queued s) = Some es" and "length es < 2 ^ 32"
  shows "\<exists>s'. MockDpcDispatchDpc call (Suc k) s = Ret (if es = [] then EFI_NOT_FOUND else EFI_SUCCESS, s') \<and>
    queued s' = [] \<and> log s' = log s @ es \<and> inv s' \<and> dpc_inv s' \<and> mInsideDispatch s' = mInsideDispatch s"
proof -
  let ?s = "s\<lparr>mInsideDispatch := True\<rparr>"
  have "dpc_inv ?s" "queued ?s = queued s" using assms(2) by (simp_all add: dpc_inv_def queued_def)
  then obtain s1 where s1: "Drain_loop call (Suc k) 0 ?s = Ret (of_nat (length es), s1)" "inv s1" "dpc_inv s1" "queued s1 = []" "log s1 = log s @ es"
    using Drain_loop_rounds[of ?s k es 0] assms(1,3) flag by auto
  have "unat (of_nat (length es) :: u32) = length es" using assms(4) by (simp add: unsigned_of_nat take_bit_nat_eq_self)
  moreover have "(x :: u32) = 0 \<longleftrightarrow> unat x = 0" for x by (rule unat_eq_zero[symmetric])
  ultimately have "(of_nat (length es) :: u32) = 0 \<longleftrightarrow> es = []" by (simp only: length_0_conv)
  then show ?thesis using s1 flag
    by (intro exI[of _ "s1\<lparr>mInsideDispatch := mInsideDispatch s\<rparr>"]) (simp add: MockDpcDispatchDpc_def dpc_inv_def queued_def del: Drain_loop.simps)
qed

end

section \<open>Queueing under the event services\<close>

lemma same_but_ringD:
  assumes "same_but_ring s s'"
  shows "gEfiCurrentTpl s' = gEfiCurrentTpl s" "gEventQueue s' = gEventQueue s" "gEventPending s' = gEventPending s"
    "gPendingTimerDuration s' = gPendingTimerDuration s" "locks s' = locks s" "events s' = events s"
    "entries s' = entries s" "PendingList s' = PendingList s" "next_entry s' = next_entry s" "Initialized s' = Initialized s"
    "mEfiCheckTimerEvent s' = mEfiCheckTimerEvent s" "gIdleLoopEvent s' = gIdleLoopEvent s"
    "core.truncate s' = core.truncate s" "dpc.more s' = dpc.more s"
  using assms by (cases s; cases s'; simp add: same_but_ring_def deferred.truncate_def core.truncate_def)+

lemma core_inv_same: "core.truncate s' = core.truncate s \<Longrightarrow> core_inv s' = core_inv s"
  by (cases s; cases s'; simp add: core.truncate_def core_inv_def event_inv_def tpl_inv_def lock_inv_def)

lemma idle_same:
  assumes "same_but_ring s s'" shows "idle s' = idle s"
  using same_but_ringD[OF assms] core_inv_same[of s' s]
  by (simp add: idle_def idle_inv_def deferred_inv_def entry_ok_def)

lemma QueueDpc_returns:
  fixes s :: "'x dpc_scheme"
  assumes r: "tpl_restore_total rst" and ti: "tpl_inv s" and inv: "dpc_inv s"
    and p: "p \<noteq> None" and l: "TPL_APPLICATION \<le> l" "l \<le> TPL_HIGH_LEVEL"
  shows "\<exists>s'. MockDpcQueueDpc rst l p c s = Ret (fst (enq \<lparr>Procedure = p, DpcContext = c\<rparr> (queued s)), s') \<and>
    dpc_inv s' \<and> queued s' = snd (enq \<lparr>Procedure = p, DpcContext = c\<rparr> (queued s)) \<and> same_but_ring s s'"
proof -
  let ?t = "gEfiCurrentTpl s"
  have r0: "tpl_restore rst" using r by (simp add: tpl_restore_total_def)
  have le: "?t \<le> TPL_HIGH_LEVEL" using ti by (simp add: tpl_inv_def)
  obtain u where u: "MockDpcQueueDpc rst l p c s = bind (rst ?t u) (\<lambda>s2. Ret (fst (enq \<lparr>Procedure = p, DpcContext = c\<rparr> (queued s)), s2))"
      "dpc_inv u" "queued u = snd (enq \<lparr>Procedure = p, DpcContext = c\<rparr> (queued s))" "same_but_ring (s\<lparr>gEfiCurrentTpl := TPL_HIGH_LEVEL\<rparr>) u"
    using QueueDpc_eq[where rst = rst and c = c, OF inv le p l] by blast
  note d = same_but_ringD[OF u(4)]
  have tu: "tpl_inv u" using ti d by (auto simp: tpl_inv_def)
  have na: "nothing_above ?t u" using ti d le by (auto simp: nothing_above_def tpl_inv_def)
  have tl: "?t \<le> gEfiCurrentTpl u" using d le by simp
  have "rst ?t u = Ret (u\<lparr>gEfiCurrentTpl := ?t\<rparr>)"
    using tpl_restore.rst_quiet[OF r0 tu tl na] tpl_restore_total.rst_total[OF r tu tl na] by (cases "rst ?t u") auto
  moreover have "dpc_inv (u\<lparr>gEfiCurrentTpl := ?t\<rparr>)" "queued (u\<lparr>gEfiCurrentTpl := ?t\<rparr>) = queued u"
    using u(2) dpc_inv_cong[of "u\<lparr>gEfiCurrentTpl := ?t\<rparr>" u] by simp_all
  moreover have "same_but_ring s (u\<lparr>gEfiCurrentTpl := ?t\<rparr>)"
    using u(4) by (cases s; cases u) (simp add: same_but_ring_def deferred.truncate_def)
  ultimately show ?thesis using u(1,3) by (intro exI[of _ "u\<lparr>gEfiCurrentTpl := ?t\<rparr>"]) simp
qed

section \<open>Procedures that cancel deliveries and queue calls\<close>

text \<open>
  Number 1 queues number 2 with the same context; every other number cancels all pending deliveries, as
  a \<open>Configure (NULL)\<close> of a mock does. Each call is logged behind the state.
\<close>

definition log_call :: "dpc_entry \<Rightarrow> dpc_entry list dpc_scheme \<Rightarrow> dpc_entry list dpc_scheme" where
  "log_call E s = s\<lparr>dpc.more := dpc.more s @ [E]\<rparr>"

definition cancelling :: "dpc_entry list dpc_ext unregister \<Rightarrow> dpc_entry list dpc_restore \<Rightarrow> nat \<Rightarrow> dpc_entry list dpc_proc" where
  "cancelling unreg rst k p c s =
     (let s1 = log_call \<lparr>Procedure = p, DpcContext = c\<rparr> s
      in if p = Some 1 then bind (MockDpcQueueDpc rst TPL_CALLBACK (Some 2) c s1) (\<lambda>(_, s2). Ret s2)
         else MockDeferredCancelAll unreg rst k True s1)"

definition cancelling_queues :: "dpc_entry \<Rightarrow> dpc_entry list" where
  "cancelling_queues E = (if Procedure E = Some 1 then [\<lparr>Procedure = Some 2, DpcContext = DpcContext E\<rparr>] else [])"

text \<open>Once a cancelling procedure has been called there is no entry left.\<close>

definition emptied :: "dpc_entry list dpc_scheme \<Rightarrow> bool" where
  "emptied s \<longleftrightarrow> ((\<exists>D \<in> set (dpc.more s). Procedure D \<noteq> Some 1) \<longrightarrow> entries s = Map.empty)"

definition may_cancel :: "nat \<Rightarrow> dpc_entry list dpc_scheme \<Rightarrow> bool" where
  "may_cancel k s \<longleftrightarrow> idle s \<and> gEfiCurrentTpl s < TPL_HIGH_LEVEL \<and> length (PendingList s) < k \<and> emptied s"

lemma log_call_simps [simp]:
  "dpc_inv (log_call E s) = dpc_inv s" "queued (log_call E s) = queued s" "idle (log_call E s) = idle s"
  "gEfiCurrentTpl (log_call E s) = gEfiCurrentTpl s" "PendingList (log_call E s) = PendingList s" "tpl_inv (log_call E s) = tpl_inv s"
  "dpc.more (log_call E s) = dpc.more s @ [E]" "entries (log_call E s) = entries s" "mInsideDispatch (log_call E s) = mInsideDispatch s"
  by (simp_all add: log_call_def dpc_inv_def queued_def idle_def idle_inv_def deferred_inv_def entry_ok_def core_inv_def event_inv_def tpl_inv_def lock_inv_def)

lemma cancelling_calls:
  assumes r: "tpl_restore_total rst" and s: "may_cancel k s" and inv: "dpc_inv s" and E: "Procedure E \<noteq> None"
  shows "\<exists>s'. cancelling unreg rst k (Procedure E) (DpcContext E) s = Ret s' \<and> may_cancel k s' \<and> dpc_inv s' \<and>
    queued s' = enqs (cancelling_queues E) (queued s) \<and> dpc.more s' = dpc.more s @ [E]"
proof -
  have EE: "\<lparr>Procedure = Procedure E, DpcContext = DpcContext E\<rparr> = E" by simp
  note cdef = cancelling_def[of unreg rst k "Procedure E" "DpcContext E" s, unfolded EE Let_def]
  let ?s = "log_call E s"
  have i: "idle ?s" "gEfiCurrentTpl ?s < TPL_HIGH_LEVEL" "length (PendingList ?s) < k" "dpc_inv ?s"
    using s inv by (simp_all add: may_cancel_def)
  show ?thesis
  proof (cases "Procedure E = Some 1")
    case True
    have ti: "tpl_inv ?s" using i(1) by (simp add: idle_def idle_inv_def core_inv_def)
    obtain st s' where q: "MockDpcQueueDpc rst TPL_CALLBACK (Some 2) (DpcContext E) ?s = Ret (st, s')" "dpc_inv s'"
        "queued s' = snd (enq \<lparr>Procedure = Some 2, DpcContext = DpcContext E\<rparr> (queued ?s))" "same_but_ring ?s s'"
      using QueueDpc_returns[OF r ti i(4), of "Some 2" TPL_CALLBACK "DpcContext E"] by auto
    have "emptied s'" using s True same_but_ringD(7,14)[OF q(4)] by (auto simp: may_cancel_def emptied_def)
    then have "may_cancel k s'" using idle_same[OF q(4)] same_but_ringD[OF q(4)] i by (simp add: may_cancel_def)
    then show ?thesis unfolding cdef using q True same_but_ringD(14)[OF q(4)]
      by (simp add: cancelling_queues_def enqs_def)
  next
    case False
    obtain s' where c: "MockDeferredCancelAll unreg rst k True ?s = Ret s'" "all_cancelled ?s s'"
      using CancelAll_ret[OF r i(1-3)] by blast
    have m: "deferred.more s' = deferred.more ?s" using c(2) by (simp add: all_cancelled_def)
    have "dpc.more s' = dpc.more ?s" using m by (cases s'; cases ?s) simp
    moreover have "0 < k" using i(3) by simp
    ultimately show ?thesis unfolding cdef using c i dpc_inv_cong[OF m] False
      by (simp add: cancelling_queues_def enqs_def may_cancel_def all_cancelled_def emptied_def)
  qed
qed

lemma may_cancel_frame:
  "may_cancel k (s\<lparr>mDpcHead := a, mDpcCount := b\<rparr>) = may_cancel k s" "may_cancel k (s\<lparr>mMockDpcDispatchCount := n\<rparr>) = may_cancel k s"
  "may_cancel k (s\<lparr>mInsideDispatch := i\<rparr>) = may_cancel k s"
  by (simp_all add: may_cancel_def emptied_def idle_def idle_inv_def deferred_inv_def entry_ok_def core_inv_def event_inv_def tpl_inv_def lock_inv_def)

lemma cancelling_procedures:
  "tpl_restore_total rst \<Longrightarrow> dpc_procedures (cancelling unreg rst k) (may_cancel k) cancelling_queues dpc.more"
  by unfold_locales (simp_all add: may_cancel_frame cancelling_calls)

interpretation cancel_calls: dpc_procedures "cancelling unreg (CoreRestoreTpl harness_notify (Suc (Suc n))) k" "may_cancel k" cancelling_queues dpc.more
  for unreg n k
  by (rule cancelling_procedures[OF notify_client.restore_total[OF harness_client]])

section \<open>A delivery that drains the ring\<close>

text \<open>\<open>DrainDpcQueue\<close> of \<open>MockDeferredSignal.c\<close> with this protocol installed.\<close>

definition DrainDpcQueue :: "'x dpc_proc \<Rightarrow> nat \<Rightarrow> 'x dpc_scheme \<Rightarrow> 'x dpc_scheme outcome" where
  "DrainDpcQueue call k s = bind (MockDpcDispatchDpc call k s) (\<lambda>(_, s1). Ret s1)"

lemma cancelled_by_dpc:
  fixes s :: "dpc_entry list dpc_scheme"
  assumes r: "tpl_restore_total rst" and i: "idle s" and t: "gEfiCurrentTpl s < TPL_HIGH_LEVEL" and k: "length (PendingList s) < k"
    and E: "entries s en = Some E" "TokenEvent E = Some tok" and tev: "events s tok = Some tv"
    and q: "ExFlag tv AND EVT_EXFLAG_EVENT_GROUP = 0" "NotifyTpl tv \<le> gEfiCurrentTpl s"
    and d: "dpc_inv s" "dpc.more s = []"
    and es: "rounds cancelling_queues j (queued s) = Some es" "length es < 2 ^ 32" "D \<in> set es" "Procedure D \<noteq> Some 1"
  shows "DeliverCallback (DrainDpcQueue (cancelling unreg rst k) (Suc j)) unreg rst timer (Some en) s = Fault"
proof -
  have inv: "core_inv s" and nh: "\<not> held s l" for l using i by (simp_all add: idle_def idle_inv_def)
  obtain s1 where s1: "CoreSignalEvent rst (Some tok) s = Ret (EFI_SUCCESS, s1)" "svc s s1" "sig_frame s s1"
    using tpl_restore_total.SignalEvent_quiet[OF r inv nh tev q(1)] q(2) by blast
  note m = deferred_more[OF sig_frameD(9)[OF s1(3)]]
  have m1: "dpc_inv s1" "queued s1 = queued s" using d(1) dpc_inv_cong[OF m(6)] by simp_all
  have m2: "dpc.more s1 = []" using d(2) m(6) by (cases s; cases s1) simp
  have "may_cancel k s1"
    using idle_signalled[OF i s1(2,3)] s1(2) t k m(2) m2 by (simp add: may_cancel_def emptied_def svc_def)
  from dpc_procedures.DispatchDpc_rounds[OF cancelling_procedures[OF r] this m1(1) _ es(2)] es(1) m1(2) m2
  obtain st s2 where s2: "MockDpcDispatchDpc (cancelling unreg rst k) (Suc j) s1 = Ret (st, s2)" "may_cancel k s2" "dpc.more s2 = es"
    by fastforce
  have "entries s2 = Map.empty" using s2(2,3) es(3,4) by (auto simp: may_cancel_def emptied_def)
  then show ?thesis using E s1(1) s2(1) by (simp add: DeliverCallback_def DrainDpcQueue_def drop_entry_def)
qed

section \<open>Properties\<close>

text \<open>C19: at every task level \<open>QueueDpc\<close> returns and is the operation of a bounded queue without duplicates: a missing
  procedure and a level out of range are refused, a full ring of 32 calls refuses the new one, a call already pending
  is dropped with success, any other is appended at the end; the ring stays a queue of at most 32 different calls with
  a procedure each, and nothing but the ring and its counter changes, the task level included.\<close>

theorem QueueDpc_queue:
  fixes s :: "'x dpc_scheme"
  assumes "notify_client cl" and "core_inv s" and "dpc_inv s"
  shows "\<exists>s'. MockDpcQueueDpc (CoreRestoreTpl cl (Suc (Suc n))) l p c s =
      Ret (if p = None \<or> l < TPL_APPLICATION \<or> l > TPL_HIGH_LEVEL then EFI_INVALID_PARAMETER
           else fst (enq \<lparr>Procedure = p, DpcContext = c\<rparr> (queued s)), s') \<and>
    queued s' = (if p = None \<or> l < TPL_APPLICATION \<or> l > TPL_HIGH_LEVEL then queued s
           else snd (enq \<lparr>Procedure = p, DpcContext = c\<rparr> (queued s))) \<and>
    dpc_inv s' \<and> length (queued s') \<le> 32 \<and> same_but_ring s s'"
proof (cases "p = None \<or> l < TPL_APPLICATION \<or> l > TPL_HIGH_LEVEL")
  case True
  then have "MockDpcQueueDpc (CoreRestoreTpl cl (Suc (Suc n))) l p c s = Ret (EFI_INVALID_PARAMETER, s)"
    by (auto simp: MockDpcQueueDpc_def)
  then show ?thesis using True assms(3) dpc_invD(3)[OF assms(3)]
    by (intro exI[of _ s]) (simp add: same_but_ring_def length_queued)
next
  case False
  have ti: "tpl_inv s" using assms(2) by (simp add: core_inv_def)
  obtain s' where s': "MockDpcQueueDpc (CoreRestoreTpl cl (Suc (Suc n))) l p c s = Ret (fst (enq \<lparr>Procedure = p, DpcContext = c\<rparr> (queued s)), s')"
      "dpc_inv s'" "queued s' = snd (enq \<lparr>Procedure = p, DpcContext = c\<rparr> (queued s))" "same_but_ring s s'"
    using QueueDpc_returns[where p = p and l = l and c = c, OF notify_client.restore_total[OF assms(1)] ti assms(3)] False by auto
  then show ?thesis unfolding if_not_P[OF False] using dpc_invD(3)[OF s'(2)] length_queued[of s'] by (intro exI[of _ s']) simp
qed

text \<open>C18: \<open>DispatchDpc\<close> calls the pending procedures first in, first out, each call once, and the ones queued
  by them after those already pending, until the ring is empty, also when it is called from a procedure; it returns
  after one unit of fuel more than there are calls, reports \<open>EFI_NOT_FOUND\<close> exactly if there was no call, and restores
  the flag of the outer dispatch.\<close>

theorem DispatchDpc_order:
  assumes "dpc_procedures call ok queues lg" and "ok s" and "dpc_inv s"
    and "rounds queues k (queued s) = Some es" and "length es < 2 ^ 32"
  shows "\<exists>s'. MockDpcDispatchDpc call (Suc k) s = Ret (if queued s = [] then EFI_NOT_FOUND else EFI_SUCCESS, s') \<and>
    queued s' = [] \<and> lg s' = lg s @ es \<and> dpc_inv s' \<and> mInsideDispatch s' = mInsideDispatch s"
proof -
  have "es = [] \<longleftrightarrow> queued s = []" using assms(4) by (cases "(queues, k, queued s)" rule: rounds.cases) auto
  then show ?thesis using dpc_procedures.DispatchDpc_rounds[OF assms] by auto
qed

text \<open>C20: the drain that the deferred callback performs makes the double free reachable through this protocol: if a
  pending procedure cancels the deliveries of its protocol, the callback that drains the ring frees its entry a second
  time.\<close>

theorem delivery_drains_into_fault:
  fixes s :: "dpc_entry list dpc_scheme"
  assumes "notify_client cl" and "idle s" and "gEfiCurrentTpl s < TPL_HIGH_LEVEL" and "length (PendingList s) < k"
    and "entries s en = Some E" and "TokenEvent E = Some tok" and "events s tok = Some tv"
    and "ExFlag tv AND EVT_EXFLAG_EVENT_GROUP = 0" and "NotifyTpl tv \<le> gEfiCurrentTpl s"
    and "dpc_inv s" and "dpc.more s = []"
    and "rounds cancelling_queues j (queued s) = Some es" and "length es < 2 ^ 32" and "D \<in> set es" and "Procedure D \<noteq> Some 1"
  shows "DeliverCallback (DrainDpcQueue (cancelling unreg (CoreRestoreTpl cl (Suc (Suc n))) k) (Suc j)) unreg
    (CoreRestoreTpl cl (Suc (Suc n))) timer (Some en) s = Fault"
  by (rule cancelled_by_dpc[OF notify_client.restore_total[OF assms(1)] assms(2-15)])

section \<open>Concrete states\<close>

definition dpc_start :: "deferred \<Rightarrow> dpc_entry list dpc_scheme" where
  "dpc_start s = DpcResetState (deferred.extend s \<lparr>mDpcQueue = [], mDpcHead = 0, mDpcTail = 0, mDpcCount = 0, mInsideDispatch = False,
     mMockDpcQueueCount = 0, mMockDpcDispatchCount = 0, \<dots> = []\<rparr>)"

lemma dpc_start_simps [simp]:
  "idle (dpc_start s) = idle s" "core_inv (dpc_start s) = core_inv s" "gEfiCurrentTpl (dpc_start s) = gEfiCurrentTpl s"
  "PendingList (dpc_start s) = PendingList s" "entries (dpc_start s) = entries s" "events (dpc_start s) = events s"
  "queued (dpc_start s) = []" "dpc.more (dpc_start s) = []" "dpc_inv (dpc_start s)"
  by (simp_all add: dpc_start_def DpcResetState_def deferred.defs queued_def ring_def dpc_inv_def idle_def idle_inv_def deferred_inv_def
      entry_ok_def core_inv_def event_inv_def tpl_inv_def lock_inv_def)

lemma idle_core: "idle s \<Longrightarrow> tpl_inv s"
  by (simp add: idle_def idle_inv_def core_inv_def)

lemma dpc_queued:
  "\<exists>s. MockDpcQueueDpc (CoreRestoreTpl harness_notify 12) TPL_CALLBACK (Some 1) (Some 7) (dpc_start one_pending) = Ret (EFI_SUCCESS, s) \<and>
     queued s = [\<lparr>Procedure = Some 1, DpcContext = Some 7\<rparr>] \<and> dpc_inv s \<and> same_but_ring (dpc_start one_pending) s"
proof -
  have "tpl_inv (dpc_start one_pending)" using idle_core[of "dpc_start one_pending"] one_pending(1) by simp
  from QueueDpc_returns[where p = "Some 1" and l = TPL_CALLBACK and c = "Some 7", OF notify_client.restore_total[OF harness_client, of 10] this]
  show ?thesis by (simp add: enq_def conj_ac)
qed

lemma QueueDpc_queue_witness:
  "\<exists>s'. MockDpcQueueDpc (CoreRestoreTpl harness_notify 12) TPL_CALLBACK (Some 2) None (dpc_start one_pending) = Ret (EFI_SUCCESS, s') \<and>
     queued s' = [\<lparr>Procedure = Some 2, DpcContext = None\<rparr>]"
  using QueueDpc_queue[OF harness_client, of "dpc_start one_pending" 10 TPL_CALLBACK "Some 2" None] one_pending(1)
  by (auto simp: enq_def idle_def idle_inv_def numeral_eq_Suc)

lemma dpc_queued_rounds: "rounds cancelling_queues 2 [\<lparr>Procedure = Some 1, DpcContext = Some 7\<rparr>] =
    Some [\<lparr>Procedure = Some 1, DpcContext = Some 7\<rparr>, \<lparr>Procedure = Some 2, DpcContext = Some 7\<rparr>]"
  by code_simp

lemma one_pending_cancel:
  assumes "same_but_ring (dpc_start one_pending) s"
  shows "may_cancel 2 s" "idle s" "gEfiCurrentTpl s = 8" "PendingList s = [0]"
    "entries s 0 = Some \<lparr>TokenEvent = Some 3, DeliveryTimer = Some 4\<rparr>" "dpc.more s = []" "events s 3 = events one_pending 3"
  using idle_same[OF assms] same_but_ringD[OF assms] one_pending by (simp_all add: may_cancel_def emptied_def)

lemma cancel_calls_12:
  "dpc_procedures (cancelling (\<lambda>_. Ret) (CoreRestoreTpl harness_notify 12) 2) (may_cancel 2) cancelling_queues dpc.more"
  using cancelling_procedures[OF notify_client.restore_total[OF harness_client, of 10]] by (simp only: numeral_eq_Suc pred_numeral_simps BitM.simps)

lemma DispatchDpc_order_witness:
  "\<exists>s s'. queued s = [\<lparr>Procedure = Some 1, DpcContext = Some 7\<rparr>] \<and>
     MockDpcDispatchDpc (cancelling (\<lambda>_. Ret) (CoreRestoreTpl harness_notify 12) 2) 3 s = Ret (EFI_SUCCESS, s') \<and>
     queued s' = [] \<and> dpc.more s' = [\<lparr>Procedure = Some 1, DpcContext = Some 7\<rparr>, \<lparr>Procedure = Some 2, DpcContext = Some 7\<rparr>]"
proof -
  obtain s where s: "queued s = [\<lparr>Procedure = Some 1, DpcContext = Some 7\<rparr>]" "dpc_inv s" "same_but_ring (dpc_start one_pending) s"
    using dpc_queued by blast
  have "Suc 2 = 3" by simp
  with DispatchDpc_order[OF cancel_calls_12 one_pending_cancel(1)[OF s(3)] s(2) dpc_queued_rounds[folded s(1)]]
  obtain s' where "MockDpcDispatchDpc (cancelling (\<lambda>_. Ret) (CoreRestoreTpl harness_notify 12) 2) 3 s = Ret (EFI_SUCCESS, s')"
      "queued s' = []" "dpc.more s' = [\<lparr>Procedure = Some 1, DpcContext = Some 7\<rparr>, \<lparr>Procedure = Some 2, DpcContext = Some 7\<rparr>]"
    using s(1) one_pending_cancel(6)[OF s(3)] by auto
  then show ?thesis using s(1) by blast
qed

lemma delivery_drains_into_fault_witness:
  "\<exists>s. queued s = [\<lparr>Procedure = Some 1, DpcContext = Some 7\<rparr>] \<and> PendingList s = [0] \<and>
     DeliverCallback (DrainDpcQueue (cancelling (\<lambda>_. Ret) (CoreRestoreTpl harness_notify 12) 2) 3) (\<lambda>_. Ret)
       (CoreRestoreTpl harness_notify 12) 4 (Some 0) s = Fault"
proof -
  obtain s where s: "queued s = [\<lparr>Procedure = Some 1, DpcContext = Some 7\<rparr>]" "dpc_inv s" "same_but_ring (dpc_start one_pending) s"
    using dpc_queued by blast
  note o = one_pending_cancel[OF s(3)]
  obtain tv where tv: "events s 3 = Some tv" "ExFlag tv AND EVT_EXFLAG_EVENT_GROUP = 0" "NotifyTpl tv = 8"
    using one_pending(5) o(7) by auto
  have n: "12 = Suc (Suc 10)" "3 = Suc 2" by simp_all
  have "DeliverCallback (DrainDpcQueue (cancelling (\<lambda>_. Ret) (CoreRestoreTpl harness_notify 12) 2) 3) (\<lambda>_. Ret)
       (CoreRestoreTpl harness_notify 12) 4 (Some 0) s = Fault"
    unfolding n
    by (rule delivery_drains_into_fault[OF harness_client o(2) _ _ o(5) _ tv(1,2) _ s(2) o(6) dpc_queued_rounds[folded s(1)],
        where D = "\<lparr>Procedure = Some 2, DpcContext = Some 7\<rparr>"]) (use o(3,4) tv(3) in simp_all)
  then show ?thesis using s(1) o(4) by blast
qed

end
