(* ===== verification/FuzzContext.thy ===== *)
theory FuzzContext
  imports Prelude
begin

text \<open>
  The single fuzz byte pool of \<open>HostLib/FuzzContextLib/FuzzContextLib.c\<close>: the
  \<open>MOCK_FUZZ_CONTEXT\<close> cursor with its soft limit, sub-contexts and the time advance hook. A
  \<open>MOCK_FUZZ_CONTEXT *\<close> argument is an option: \<open>None\<close> is the NULL pointer, and the
  operations return the updated context. The bytes themselves are a memory that no operation
  here writes, so it is a separate argument of the operations that read it.
\<close>

section \<open>Fuzz contexts\<close>

record fuzz_ctx =
  Buffer :: ptr
  Size :: u64
  Offset :: u64
  Exhausted :: bool
  Limit :: u64
  TimerAdvanceFn :: ptr
  AdvanceInProgress :: bool

text \<open>\<open>ZeroMem\<close> of a whole context.\<close>

definition zero_ctx :: fuzz_ctx where
  "zero_ctx = \<lparr>Buffer = None, Size = 0, Offset = 0, Exhausted = False, Limit = 0,
     TimerAdvanceFn = None, AdvanceInProgress = False\<rparr>"

definition MockFuzzContextInit :: "fuzz_ctx option \<Rightarrow> ptr \<Rightarrow> u64 \<Rightarrow> fuzz_ctx option" where
  "MockFuzzContextInit Ctx Buf Sz =
     (case Ctx of None \<Rightarrow> None
      | Some c \<Rightarrow> Some (c\<lparr>Buffer := Buf, Size := Sz, Offset := 0, Limit := 0,
          Exhausted := (Buf = None \<or> Sz = 0), TimerAdvanceFn := None,
          AdvanceInProgress := False\<rparr>))"

text \<open>The effective buffer end: the lesser of \<open>Size\<close> and an active (non-zero) \<open>Limit\<close>.\<close>

definition EffectiveEnd :: "fuzz_ctx \<Rightarrow> u64" where
  "EffectiveEnd c = (if Limit c > 0 \<and> Limit c < Size c then Limit c else Size c)"

definition MockFuzzContextRemaining :: "fuzz_ctx option \<Rightarrow> u64" where
  "MockFuzzContextRemaining Ctx =
     (case Ctx of None \<Rightarrow> 0
      | Some c \<Rightarrow>
          if Exhausted c then 0
          else if Offset c \<ge> EffectiveEnd c then 0
          else EffectiveEnd c - Offset c)"

text \<open>\<open>Buffer + Off\<close> as a pointer.\<close>

definition ptr_plus :: "ptr \<Rightarrow> u64 \<Rightarrow> ptr" where
  "ptr_plus p n = map_option (\<lambda>a. a + unat n) p"

definition MockFuzzContextConsume :: "fuzz_ctx option \<Rightarrow> u64 \<Rightarrow> ptr \<times> fuzz_ctx option" where
  "MockFuzzContextConsume Ctx Count =
     (case Ctx of None \<Rightarrow> (None, None)
      | Some c \<Rightarrow>
          if Exhausted c then (None, Some c)
          else if Offset c \<ge> EffectiveEnd c \<or> Count > EffectiveEnd c - Offset c
          then (None, Some (c\<lparr>Exhausted := True\<rparr>))
          else (ptr_plus (Buffer c) (Offset c), Some (c\<lparr>Offset := Offset c + Count\<rparr>)))"

definition MockFuzzContextGetU8 ::
  "(addr \<Rightarrow> u8) \<Rightarrow> fuzz_ctx option \<Rightarrow> u8 \<times> fuzz_ctx option" where
  "MockFuzzContextGetU8 mem Ctx =
     (let (Data, Ctx') = MockFuzzContextConsume Ctx 1
      in (case Data of None \<Rightarrow> 0 | Some a \<Rightarrow> mem a, Ctx'))"

text \<open>The bytes are promoted to 32-bit integers before they are shifted and combined.\<close>

definition MockFuzzContextGetU16 ::
  "(addr \<Rightarrow> u8) \<Rightarrow> fuzz_ctx option \<Rightarrow> u16 \<times> fuzz_ctx option" where
  "MockFuzzContextGetU16 mem Ctx =
     (let (Data, Ctx') = MockFuzzContextConsume Ctx 2
      in (case Data of None \<Rightarrow> 0
          | Some a \<Rightarrow> ucast ((ucast (mem a) :: u32) OR push_bit 8 (ucast (mem (a + 1)) :: u32)),
          Ctx'))"

definition MockFuzzContextGetU32 ::
  "(addr \<Rightarrow> u8) \<Rightarrow> fuzz_ctx option \<Rightarrow> u32 \<times> fuzz_ctx option" where
  "MockFuzzContextGetU32 mem Ctx =
     (let (Data, Ctx') = MockFuzzContextConsume Ctx 4
      in (case Data of None \<Rightarrow> 0
          | Some a \<Rightarrow> (ucast (mem a) :: u32) OR push_bit 8 (ucast (mem (a + 1)))
              OR push_bit 16 (ucast (mem (a + 2))) OR push_bit 24 (ucast (mem (a + 3))),
          Ctx'))"

definition MockFuzzContextPeek :: "fuzz_ctx option \<Rightarrow> u64 \<Rightarrow> ptr" where
  "MockFuzzContextPeek Ctx Off =
     (case Ctx of None \<Rightarrow> None
      | Some c \<Rightarrow>
          if Exhausted c then None
          else if Offset c \<ge> EffectiveEnd c \<or> Off \<ge> EffectiveEnd c - Offset c then None
          else ptr_plus (ptr_plus (Buffer c) (Offset c)) Off)"

text \<open>
  The time advance. The function behind \<open>TimerAdvanceFn\<close> is a parameter: it gets the
  microseconds and may change the context (it can run callbacks that consume from the same
  pool) and the rest of the world \<open>w\<close>.
\<close>

type_synonym 'w advance_fn = "addr \<Rightarrow> u64 \<Rightarrow> fuzz_ctx \<Rightarrow> 'w \<Rightarrow> fuzz_ctx \<times> 'w"

definition MockFuzzContextAdvanceTime ::
  "(addr \<Rightarrow> u8) \<Rightarrow> 'w advance_fn \<Rightarrow> fuzz_ctx option \<Rightarrow> 'w \<Rightarrow> fuzz_ctx option \<times> 'w" where
  "MockFuzzContextAdvanceTime mem fn Ctx w =
     (case Ctx of None \<Rightarrow> (None, w)
      | Some c \<Rightarrow>
          if AdvanceInProgress c then (Some c, w)
          else (case TimerAdvanceFn c of None \<Rightarrow> (Some c, w)
           | Some f \<Rightarrow>
              let c1 = c\<lparr>AdvanceInProgress := True\<rparr>;
                  (TimeDeltaUs, c2) =
                    (if MockFuzzContextRemaining (Some c1) \<ge> 2
                     then (let (v, Ctx2) = MockFuzzContextGetU16 mem (Some c1)
                           in ((ucast v :: u64) * 100, the Ctx2))
                     else (200000, c1));
                  (c3, w') = (if TimeDeltaUs > 0 then fn f TimeDeltaUs c2 w else (c2, w))
              in (Some (c3\<lparr>AdvanceInProgress := False\<rparr>), w')))"

definition MockFuzzContextSetLimit :: "fuzz_ctx option \<Rightarrow> u64 \<Rightarrow> fuzz_ctx option" where
  "MockFuzzContextSetLimit Ctx L = map_option (\<lambda>c. c\<lparr>Limit := L\<rparr>) Ctx"

definition MockFuzzContextClearLimit :: "fuzz_ctx option \<Rightarrow> fuzz_ctx option" where
  "MockFuzzContextClearLimit Ctx =
     (case Ctx of None \<Rightarrow> None
      | Some c \<Rightarrow>
          let c1 = c\<lparr>Limit := 0\<rparr>
          in Some (if Exhausted c1 \<and> Buffer c1 \<noteq> None \<and> Offset c1 < Size c1
                   then c1\<lparr>Exhausted := False\<rparr> else c1))"

definition MockFuzzContextAdvanceTo :: "fuzz_ctx option \<Rightarrow> u64 \<Rightarrow> fuzz_ctx option" where
  "MockFuzzContextAdvanceTo Ctx Target =
     (case Ctx of None \<Rightarrow> None
      | Some c \<Rightarrow>
          if Target \<le> Offset c then Some c
          else let Target' = (if Target > Size c then Size c else Target);
                   c1 = c\<lparr>Offset := Target'\<rparr>
               in Some (c1\<lparr>Exhausted := (Buffer c1 = None \<or> Offset c1 \<ge> Size c1)\<rparr>))"


section \<open>Well-formed contexts\<close>

text \<open>The condition under which a request of \<open>n\<close> bytes is served.\<close>

definition can_consume :: "fuzz_ctx \<Rightarrow> u64 \<Rightarrow> bool" where
  "can_consume c n \<longleftrightarrow>
     \<not> Exhausted c \<and> Offset c < EffectiveEnd c \<and> n \<le> EffectiveEnd c - Offset c"

lemma Consume_eq:
  "MockFuzzContextConsume (Some c) n =
     (if can_consume c n
      then (ptr_plus (Buffer c) (Offset c), Some (c\<lparr>Offset := Offset c + n\<rparr>))
      else (None, Some (c\<lparr>Exhausted := True\<rparr>)))"
  by (auto simp: MockFuzzContextConsume_def can_consume_def not_le)

definition ctx_wf :: "fuzz_ctx \<Rightarrow> bool" where
  "ctx_wf c \<longleftrightarrow> Offset c \<le> Size c \<and> (\<not> Exhausted c \<longrightarrow> Buffer c \<noteq> None)"

lemma EffectiveEnd_le_Size: "EffectiveEnd c \<le> Size c"
  by (simp add: EffectiveEnd_def order.strict_implies_order)

lemma can_consume_bounds:
  assumes "can_consume c n"
  shows "unat (Offset c + n) = unat (Offset c) + unat n"
    and "unat (Offset c) + unat n \<le> unat (EffectiveEnd c)"
    and "unat (Offset c) + unat n \<le> unat (Size c)"
proof -
  from assms have h: "Offset c < EffectiveEnd c" "n \<le> EffectiveEnd c - Offset c"
    by (simp_all add: can_consume_def)
  show "unat (Offset c + n) = unat (Offset c) + unat n"
    using word_gap_no_wrap(1)[OF h] .
  show e: "unat (Offset c) + unat n \<le> unat (EffectiveEnd c)"
    using word_gap_no_wrap(2)[OF h] .
  show "unat (Offset c) + unat n \<le> unat (Size c)"
    using e EffectiveEnd_le_Size[of c] by (simp add: word_le_nat_alt)
qed

lemma Consume_wf:
  assumes "ctx_wf c" and "MockFuzzContextConsume (Some c) n = (r, Some c')"
  shows "ctx_wf c'"
  using assms can_consume_bounds[of c n]
  by (auto simp: Consume_eq ctx_wf_def word_le_nat_alt split: if_splits)

lemma Consume_can:
  "ctx_wf c \<Longrightarrow> can_consume c n \<longleftrightarrow> fst (MockFuzzContextConsume (Some c) n) \<noteq> None"
  by (auto simp: Consume_eq ptr_plus_def ctx_wf_def can_consume_def)

text \<open>Operations a consumer of the pool can issue.\<close>

datatype fuzz_op = OpConsume u64 | OpSetLimit u64 | OpClearLimit | OpAdvanceTo u64

text \<open>One operation: the region handed out, as start address and length, and the context.\<close>

fun fuzz_step :: "fuzz_op \<Rightarrow> fuzz_ctx \<Rightarrow> (addr \<times> nat) option \<times> fuzz_ctx" where
  "fuzz_step (OpConsume n) c =
     (let (p, c') = MockFuzzContextConsume (Some c) n
      in (map_option (\<lambda>a. (a, unat n)) p, the c'))"
| "fuzz_step (OpSetLimit l) c = (None, the (MockFuzzContextSetLimit (Some c) l))"
| "fuzz_step OpClearLimit c = (None, the (MockFuzzContextClearLimit (Some c)))"
| "fuzz_step (OpAdvanceTo t) c = (None, the (MockFuzzContextAdvanceTo (Some c) t))"

fun fuzz_run :: "fuzz_op list \<Rightarrow> fuzz_ctx \<Rightarrow> (addr \<times> nat) list \<times> fuzz_ctx" where
  "fuzz_run [] c = ([], c)"
| "fuzz_run (x # xs) c =
     (let (r, c1) = fuzz_step x c; (rs, c2) = fuzz_run xs c1
      in ((case r of None \<Rightarrow> rs | Some q \<Rightarrow> q # rs), c2))"

definition region_bytes :: "(addr \<times> nat) list \<Rightarrow> addr list" where
  "region_bytes rs = concat (map (\<lambda>(a, n). [a..<a + n]) rs)"

lemma region_bytes_simps [simp]:
  "region_bytes [] = []"
  "region_bytes ((a, n) # rs) = [a..<a + n] @ region_bytes rs"
  by (simp_all add: region_bytes_def)

lemma fuzz_step_frame:
  "fuzz_step x c = (r, c') \<Longrightarrow> Buffer c' = Buffer c \<and> Size c' = Size c"
  by (cases x) (auto simp: Consume_eq MockFuzzContextSetLimit_def MockFuzzContextClearLimit_def
      MockFuzzContextAdvanceTo_def Let_def split: if_splits)

lemma AdvanceTo_wf:
  "ctx_wf c \<Longrightarrow> MockFuzzContextAdvanceTo (Some c) t = Some c' \<Longrightarrow>
     ctx_wf c' \<and> Offset c \<le> Offset c'"
  by (auto simp: MockFuzzContextAdvanceTo_def ctx_wf_def Let_def split: if_splits)

lemma fuzz_step_wf:
  assumes "ctx_wf c" and "fuzz_step x c = (r, c')"
  shows "ctx_wf c'" and "unat (Offset c) \<le> unat (Offset c')"
    and "r = Some (a, n) \<Longrightarrow> \<exists>b. Buffer c = Some b \<and> a = b + unat (Offset c) \<and>
           b + unat (Offset c') = a + n"
  using assms can_consume_bounds[of c] AdvanceTo_wf[OF assms(1)]
  by (cases x; auto simp: Consume_eq ctx_wf_def ptr_plus_def MockFuzzContextSetLimit_def
      MockFuzzContextClearLimit_def Let_def word_le_nat_alt
      split: if_splits; fastforce simp: MockFuzzContextAdvanceTo_def word_le_nat_alt split: if_splits)+

lemma fuzz_run_wf:
  assumes "ctx_wf c" and "Buffer c = Some b" and "fuzz_run ops c = (rs, c')"
  shows "ctx_wf c' \<and> Size c' = Size c \<and> unat (Offset c) \<le> unat (Offset c') \<and> distinct (region_bytes rs) \<and>
    set (region_bytes rs) \<subseteq> {b + unat (Offset c) ..< b + unat (Offset c')}"
  using assms
proof (induction ops arbitrary: c rs)
  case Nil
  then show ?case by simp
next
  case (Cons x xs)
  obtain r c1 where s: "fuzz_step x c = (r, c1)" by fastforce
  obtain rs' where run: "fuzz_run xs c1 = (rs', c')"
      and rs: "rs = (case r of None \<Rightarrow> rs' | Some q \<Rightarrow> q # rs')"
    using Cons.prems(3) s by (auto split: prod.splits)
  note wf1 = fuzz_step_wf(1,2)[OF Cons.prems(1) s]
  have f: "Buffer c1 = Some b" "Size c1 = Size c"
    using fuzz_step_frame[OF s] Cons.prems(2) by simp_all
  note IH = Cons.IH[OF wf1(1) f(1) run]
  show ?case
  proof (cases r)
    case None
    with IH rs wf1(2) f(2) show ?thesis by (auto dest: subsetD)
  next
    case (Some q)
    obtain a n where q: "q = (a, n)" by fastforce
    have "a = b + unat (Offset c) \<and> b + unat (Offset c1) = a + n"
      using fuzz_step_wf(3)[OF Cons.prems(1) s] Some q Cons.prems(2) by auto
    with IH rs Some q wf1(2) f(2) show ?thesis by (auto dest: subsetD)
  qed
qed

definition read_pool :: "(addr \<Rightarrow> u8) \<Rightarrow> fuzz_ctx \<Rightarrow> nat \<Rightarrow> nat" where
  "read_pool mem c i = unat (mem (the (Buffer c) + unat (Offset c) + i))"

section \<open>Properties\<close>

text \<open>C23: whatever sequence of consumes, limits and cursor jumps a consumer issues, the pool
  hands out only bytes of its own buffer that lie between the old and the new cursor, never the
  same byte twice, and the cursor never moves back or past the end.\<close>

theorem pool_bytes_once:
  assumes "ctx_wf c" and "Buffer c = Some b" and "fuzz_run ops c = (rs, c')"
  shows "ctx_wf c' \<and> Size c' = Size c \<and> unat (Offset c) \<le> unat (Offset c') \<and>
    distinct (region_bytes rs) \<and>
    set (region_bytes rs) \<subseteq> {b + unat (Offset c) ..< b + unat (Offset c')}"
  using fuzz_run_wf[OF assms] .

definition sample_ctx :: fuzz_ctx where
  "sample_ctx = the (MockFuzzContextInit (Some zero_ctx) (Some 1000) 10)"

lemma sample_ctx_eq:
  "sample_ctx = \<lparr>Buffer = Some 1000, Size = 10, Offset = 0, Exhausted = False, Limit = 0,
     TimerAdvanceFn = None, AdvanceInProgress = False\<rparr>"
  by (simp add: sample_ctx_def MockFuzzContextInit_def zero_ctx_def)

lemma sample_ctx_wf: "ctx_wf sample_ctx" "Buffer sample_ctx = Some 1000"
  by (simp_all add: sample_ctx_eq ctx_wf_def)

lemma pool_bytes_once_witness:
  "distinct (region_bytes (fst (fuzz_run [OpConsume 4, OpSetLimit 5, OpConsume 2, OpClearLimit,
       OpConsume 2, OpAdvanceTo 9, OpConsume 1] sample_ctx))) \<and>
   fst (fuzz_run [OpConsume 4, OpSetLimit 5, OpConsume 2, OpClearLimit,
       OpConsume 2, OpAdvanceTo 9, OpConsume 1] sample_ctx) = [(1000, 4), (1004, 2), (1009, 1)]"
  using pool_bytes_once[OF sample_ctx_wf surjective_pairing,
     of "[OpConsume 4, OpSetLimit 5, OpConsume 2, OpClearLimit,
       OpConsume 2, OpAdvanceTo 9, OpConsume 1]"]
  by (intro conjI) (blast, code_simp)

theorem GetU32_little_endian:
  assumes "ctx_wf c" and "MockFuzzContextGetU32 mem (Some c) = (v, Some c')"
  shows "if can_consume c 4
     then unat v = read_pool mem c 0 + 256 * read_pool mem c 1 + 65536 * read_pool mem c 2
            + 16777216 * read_pool mem c 3 \<and> unat (Offset c') = unat (Offset c) + 4
     else v = 0 \<and> c' = c\<lparr>Exhausted := True\<rparr>"
  using assms can_consume_bounds(1)[of c 4, simplified]
  by (auto simp: MockFuzzContextGetU32_def Consume_eq Let_def ptr_plus_def read_pool_def ctx_wf_def
       can_consume_def unat_bytes_u32 algebra_simps)

lemma GetU32_little_endian_witness:
  "fst (MockFuzzContextGetU32 (\<lambda>a. of_nat (a - 999)) (Some sample_ctx)) = 67305985"
  using GetU32_little_endian[OF sample_ctx_wf(1), of "\<lambda>a. of_nat (a - 999)" 67305985
      "sample_ctx\<lparr>Offset := 4\<rparr>"]
  by (simp add: sample_ctx_eq MockFuzzContextGetU32_def Consume_eq can_consume_def EffectiveEnd_def
      ptr_plus_def Let_def)

lemma GetU16_bounds:
  assumes "ctx_wf c" and "MockFuzzContextGetU16 mem (Some c) = (v, Ctx')"
  shows "\<exists>c'. Ctx' = Some c' \<and> ctx_wf c' \<and> unat v < 65536 \<and>
    (if can_consume c 2
     then unat v = read_pool mem c 0 + 256 * read_pool mem c 1 \<and> c' = c\<lparr>Offset := Offset c + 2\<rparr>
     else v = 0 \<and> c' = c\<lparr>Exhausted := True\<rparr>)"
proof -
  obtain p c' where co: "MockFuzzContextConsume (Some c) 2 = (p, Some c')"
    by (cases "can_consume c 2") (auto simp: Consume_eq)
  have "unat v < 65536" using unsigned_less[of v] by simp
  moreover have "ctx_wf c'" using Consume_wf[OF assms(1) co] .
  moreover have "Ctx' = Some c' \<and> (if can_consume c 2
     then unat v = read_pool mem c 0 + 256 * read_pool mem c 1 \<and> c' = c\<lparr>Offset := Offset c + 2\<rparr>
     else v = 0 \<and> c' = c\<lparr>Exhausted := True\<rparr>)"
    using assms co
    by (auto simp: MockFuzzContextGetU16_def Consume_eq Let_def ptr_plus_def read_pool_def ctx_wf_def
         can_consume_def unat_bytes_u16 algebra_simps split: if_splits)
  ultimately show ?thesis by blast
qed

text \<open>A peek shows the byte that the read of all bytes up to it would end with.\<close>

lemma Peek_previews:
  assumes "ctx_wf c"
  shows "MockFuzzContextPeek (Some c) off =
    (if can_consume c (off + 1) \<and> off + 1 \<noteq> 0
     then Some (the (Buffer c) + unat (Offset c) + unat off) else None)"
proof -
  have "off \<ge> EffectiveEnd c - Offset c \<longleftrightarrow> \<not> (off + 1 \<le> EffectiveEnd c - Offset c \<and> off + 1 \<noteq> 0)"
    using word_less_iff_succ_le[of off "EffectiveEnd c - Offset c"] by (simp only: not_less[symmetric])
  then show ?thesis
    using assms
    by (cases "Exhausted c"; cases "Offset c < EffectiveEnd c")
      (auto simp only: MockFuzzContextPeek_def can_consume_def ptr_plus_def ctx_wf_def not_le
        option.simps option.sel not_False_eq_True simp_thms if_True if_False split: if_splits)
qed

lemma Remaining_can_consume:
  "MockFuzzContextRemaining (Some c) \<ge> 2 \<Longrightarrow> can_consume c 2"
  by (auto simp: MockFuzzContextRemaining_def can_consume_def split: if_splits)

text \<open>C24: a time advance that is not nested in another one calls the timer function at most once,
  with at most 6553500 microseconds, on a context that is marked as advancing, so that every
  nested advance on that context is a no-op; afterwards the mark is gone again and the context
  has used up two bytes, or none when fewer than two were left.\<close>

theorem AdvanceTime_not_nested:
  assumes "ctx_wf c" and "\<not> AdvanceInProgress c" and "TimerAdvanceFn c = Some f"
    and "MockFuzzContextAdvanceTime mem fn (Some c) w = (Some c', w')"
  shows "\<not> AdvanceInProgress c' \<and>
    (\<exists>us c2. unat us \<le> 6553500 \<and> AdvanceInProgress c2 \<and> ctx_wf c2 \<and>
       unat (Offset c2) = unat (Offset c) + (if MockFuzzContextRemaining (Some c) \<ge> 2 then 2 else 0) \<and>
       (\<forall>fn'. MockFuzzContextAdvanceTime mem fn' (Some c2) w = (Some c2, w)) \<and>
       (if us = 0 then c' = c2\<lparr>AdvanceInProgress := False\<rparr> \<and> w' = w
        else \<exists>c3. fn f us c2 w = (c3, w') \<and> c' = c3\<lparr>AdvanceInProgress := False\<rparr>))"
proof -
  let ?c1 = "c\<lparr>AdvanceInProgress := True\<rparr>"
  have wf1: "ctx_wf ?c1" using assms(1) by (simp add: ctx_wf_def)
  have rem: "MockFuzzContextRemaining (Some ?c1) = MockFuzzContextRemaining (Some c)"
    by (simp add: MockFuzzContextRemaining_def EffectiveEnd_def)
  define us where "us = (if MockFuzzContextRemaining (Some c) \<ge> 2
     then (ucast (fst (MockFuzzContextGetU16 mem (Some ?c1))) :: u64) * 100 else 200000)"
  define c2 where "c2 = (if MockFuzzContextRemaining (Some c) \<ge> 2
     then the (snd (MockFuzzContextGetU16 mem (Some ?c1))) else ?c1)"
  obtain v where v: "MockFuzzContextGetU16 mem (Some ?c1) = (v, snd (MockFuzzContextGetU16 mem (Some ?c1)))"
    by (metis surjective_pairing)
  note g = GetU16_bounds[OF wf1 v]
  have us: "unat us \<le> 6553500"
    using g v unfolding us_def
    by (auto simp: unat_word_ariths unsigned_ucast_eq take_bit_nat_eq_self)
       
  have c2: "AdvanceInProgress c2 \<and> ctx_wf c2 \<and>
     unat (Offset c2) = unat (Offset c) + (if MockFuzzContextRemaining (Some c) \<ge> 2 then 2 else 0)"
  proof (cases "MockFuzzContextRemaining (Some c) \<ge> 2")
    case True
    then have can: "can_consume ?c1 2" using Remaining_can_consume[of ?c1] rem by simp
    with g v True can_consume_bounds(1)[OF can] show ?thesis
      by (auto simp: c2_def)
  next
    case False
    then show ?thesis using wf1 by (simp add: c2_def)
  qed
  have "(Some c', w') = (let (c3, w') = (if us > 0 then fn f us c2 w else (c2, w))
      in (Some (c3\<lparr>AdvanceInProgress := False\<rparr>), w'))"
    using assms(2-4) by (auto simp: MockFuzzContextAdvanceTime_def us_def c2_def rem Let_def
        split: prod.splits if_splits)
  then have run: "if us = 0 then c' = c2\<lparr>AdvanceInProgress := False\<rparr> \<and> w' = w
      else \<exists>c3. fn f us c2 w = (c3, w') \<and> c' = c3\<lparr>AdvanceInProgress := False\<rparr>"
    by (auto simp: word_gt_0 split: prod.splits if_splits)
  then have "\<not> AdvanceInProgress c'" by (auto split: if_splits)
  moreover have "\<forall>fn'. MockFuzzContextAdvanceTime mem fn' (Some c2) w = (Some c2, w)"
    using c2 by (simp add: MockFuzzContextAdvanceTime_def)
  ultimately show ?thesis using us c2 run by blast
qed


definition advance_log :: "u64 list advance_fn" where
  "advance_log f us c w = (c, w @ [us])"

lemma AdvanceTime_not_nested_witness:
  "\<not> AdvanceInProgress (the (fst (MockFuzzContextAdvanceTime (\<lambda>a. 1) advance_log
       (Some (sample_ctx\<lparr>TimerAdvanceFn := Some 7\<rparr>)) []))) \<and>
   snd (MockFuzzContextAdvanceTime (\<lambda>a. 1) advance_log
       (Some (sample_ctx\<lparr>TimerAdvanceFn := Some 7\<rparr>)) []) = [25700]"
proof -
  have v: "MockFuzzContextAdvanceTime (\<lambda>a. 1) advance_log
       (Some (sample_ctx\<lparr>TimerAdvanceFn := Some 7\<rparr>)) [] =
       (Some (sample_ctx\<lparr>TimerAdvanceFn := Some 7, Offset := 2\<rparr>), [25700])"
    by code_simp
  have wf: "ctx_wf (sample_ctx\<lparr>TimerAdvanceFn := Some 7\<rparr>)"
    by (simp add: sample_ctx_eq ctx_wf_def)
  show ?thesis
    using AdvanceTime_not_nested[OF wf _ _ v] unfolding v by (simp add: sample_ctx_eq)
qed



end
