(* ===== verification/FuzzRegistry.thy ===== *)
theory FuzzRegistry
  imports FuzzContext
begin

text \<open>
  The two global tables of \<open>HostLib/FuzzContextLib/FuzzContextLib.c\<close>: the per-protocol override
  contexts, kept in a fixed array that is compacted on removal, and the registry of mock reset
  functions. The override table is shown to implement a finite map from GUIDs to contexts.
\<close>

section \<open>Protocol context registry\<close>

abbreviation MOCK_FUZZ_MAX_PROTOCOL_CTXS :: nat where
  "MOCK_FUZZ_MAX_PROTOCOL_CTXS \<equiv> 1024"

abbreviation MOCK_PROTOCOL_MAX_RESET_SLOTS :: nat where
  "MOCK_PROTOCOL_MAX_RESET_SLOTS \<equiv> 64"

text \<open>
  The table is the fixed array of (GUID, context pointer) entries; a zeroed entry is
  \<open>(0, None)\<close>. The count is the number of active entries at its front.
\<close>

type_synonym ctx_entry = "guid \<times> ptr"

record ctx_registry =
  gProtocolCtxTable :: "ctx_entry list"
  gProtocolCtxCount :: nat

definition zero_table :: "ctx_entry list" where
  "zero_table = replicate MOCK_FUZZ_MAX_PROTOCOL_CTXS (0, None)"

definition empty_registry :: ctx_registry where
  "empty_registry = \<lparr>gProtocolCtxTable = zero_table, gProtocolCtxCount = 0\<rparr>"

text \<open>The linear scan: the first active index whose GUID matches.\<close>

definition ScanProtocolCtx :: "ctx_registry \<Rightarrow> guid \<Rightarrow> nat option" where
  "ScanProtocolCtx r g =
     find (\<lambda>i. fst (gProtocolCtxTable r ! i) = g) [0..<gProtocolCtxCount r]"

definition MockFuzzContextClearProtocolContext ::
  "ctx_registry \<Rightarrow> guid option \<Rightarrow> efi_status \<times> ctx_registry" where
  "MockFuzzContextClearProtocolContext r ProtocolGuid =
     (case ProtocolGuid of None \<Rightarrow> (EFI_INVALID_PARAMETER, r)
      | Some g \<Rightarrow>
         (case ScanProtocolCtx r g of None \<Rightarrow> (EFI_NOT_FOUND, r)
          | Some Index \<Rightarrow>
              let n = gProtocolCtxCount r - 1;
                  t1 = (if Index < n
                        then (gProtocolCtxTable r)[Index := gProtocolCtxTable r ! n]
                        else gProtocolCtxTable r)
              in (EFI_SUCCESS,
                  r\<lparr>gProtocolCtxTable := t1[n := (0, None)], gProtocolCtxCount := n\<rparr>)))"

definition MockFuzzContextSetProtocolContext ::
  "ctx_registry \<Rightarrow> guid option \<Rightarrow> ptr \<Rightarrow> efi_status \<times> ctx_registry" where
  "MockFuzzContextSetProtocolContext r ProtocolGuid OverrideCtx =
     (case ProtocolGuid of None \<Rightarrow> (EFI_INVALID_PARAMETER, r)
      | Some g \<Rightarrow>
         if OverrideCtx = None then MockFuzzContextClearProtocolContext r ProtocolGuid
         else (case ScanProtocolCtx r g of
              Some Index \<Rightarrow> (EFI_SUCCESS,
                r\<lparr>gProtocolCtxTable := (gProtocolCtxTable r)[Index := (g, OverrideCtx)]\<rparr>)
            | None \<Rightarrow>
                if gProtocolCtxCount r \<ge> MOCK_FUZZ_MAX_PROTOCOL_CTXS
                then (EFI_OUT_OF_RESOURCES, r)
                else (EFI_SUCCESS,
                  r\<lparr>gProtocolCtxTable :=
                       (gProtocolCtxTable r)[gProtocolCtxCount r := (g, OverrideCtx)],
                     gProtocolCtxCount := gProtocolCtxCount r + 1\<rparr>)))"

definition MockFuzzContextGetProtocolContext :: "ctx_registry \<Rightarrow> guid option \<Rightarrow> ptr" where
  "MockFuzzContextGetProtocolContext r ProtocolGuid =
     (case ProtocolGuid of None \<Rightarrow> None
      | Some g \<Rightarrow> (case ScanProtocolCtx r g of None \<Rightarrow> None
                   | Some Index \<Rightarrow> snd (gProtocolCtxTable r ! Index)))"

definition MockFuzzContextClearAllProtocolContexts :: "ctx_registry \<Rightarrow> ctx_registry" where
  "MockFuzzContextClearAllProtocolContexts r =
     (if gProtocolCtxCount r = 0 then r
      else r\<lparr>gProtocolCtxTable := zero_table, gProtocolCtxCount := 0\<rparr>)"

definition MockFuzzContextReset ::
  "fuzz_ctx option \<Rightarrow> ctx_registry \<Rightarrow> fuzz_ctx option \<times> ctx_registry" where
  "MockFuzzContextReset Ctx r =
     (case Ctx of None \<Rightarrow> (None, r)
      | Some c \<Rightarrow>
          (Some (c\<lparr>Offset := 0, Limit := 0, Exhausted := (Buffer c = None \<or> Size c = 0)\<rparr>),
           MockFuzzContextClearAllProtocolContexts r))"

text \<open>
  How every mock protocol picks its pool (\<open>ResolveContext\<close>): the registered override, or the
  global pool \<open>MockFuzzContextGetPool\<close>.
\<close>

definition ResolveContext :: "ctx_registry \<Rightarrow> guid \<Rightarrow> addr \<Rightarrow> addr" where
  "ResolveContext r g pool =
     (case MockFuzzContextGetProtocolContext r (Some g) of None \<Rightarrow> pool | Some c \<Rightarrow> c)"

section \<open>Mock protocol reset registry\<close>

record reset_registry =
  gResetRegistry :: "ptr list"
  gResetRegistryCount :: nat

definition MockProtocolClearResetRegistry :: "reset_registry \<Rightarrow> reset_registry" where
  "MockProtocolClearResetRegistry r =
     r\<lparr>gResetRegistry := replicate MOCK_PROTOCOL_MAX_RESET_SLOTS None,
       gResetRegistryCount := 0\<rparr>"

definition MockProtocolRegisterReset :: "reset_registry \<Rightarrow> ptr \<Rightarrow> efi_status \<times> reset_registry" where
  "MockProtocolRegisterReset r ResetFn =
     (if ResetFn = None then (EFI_INVALID_PARAMETER, r)
      else if \<exists>i \<in> set [0..<gResetRegistryCount r]. gResetRegistry r ! i = ResetFn
      then (EFI_ALREADY_STARTED, r)
      else if gResetRegistryCount r \<ge> MOCK_PROTOCOL_MAX_RESET_SLOTS
      then (EFI_OUT_OF_RESOURCES, r)
      else (EFI_SUCCESS,
        r\<lparr>gResetRegistry := (gResetRegistry r)[gResetRegistryCount r := ResetFn],
          gResetRegistryCount := gResetRegistryCount r + 1\<rparr>))"

text \<open>
  \<open>MockProtocolResetAll\<close>: the registered functions run in registration order on the world,
  then the protocol contexts are cleared. What a reset function does is a parameter.
\<close>

definition MockProtocolResetAll ::
  "(addr \<Rightarrow> 'w \<Rightarrow> 'w) \<Rightarrow> reset_registry \<Rightarrow> ctx_registry \<Rightarrow> 'w \<Rightarrow> ctx_registry \<times> 'w" where
  "MockProtocolResetAll call rr cr w =
     (MockFuzzContextClearAllProtocolContexts cr,
      fold (\<lambda>i w. case gResetRegistry rr ! i of None \<Rightarrow> w | Some f \<Rightarrow> call f w)
        [0..<gResetRegistryCount rr] w)"

section \<open>The override table is a map\<close>

definition active_entries :: "ctx_registry \<Rightarrow> ctx_entry list" where
  "active_entries r = take (gProtocolCtxCount r) (gProtocolCtxTable r)"

definition registry_inv :: "ctx_registry \<Rightarrow> bool" where
  "registry_inv r \<longleftrightarrow>
     length (gProtocolCtxTable r) = MOCK_FUZZ_MAX_PROTOCOL_CTXS \<and>
     gProtocolCtxCount r \<le> MOCK_FUZZ_MAX_PROTOCOL_CTXS \<and>
     distinct (map fst (active_entries r)) \<and>
     (\<forall>e \<in> set (active_entries r). snd e \<noteq> None)"

text \<open>The abstract view: a finite map from GUIDs to context addresses.\<close>

definition registry_map :: "ctx_registry \<Rightarrow> guid \<Rightarrow> ptr" where
  "registry_map r g = (case map_of (active_entries r) g of None \<Rightarrow> None | Some p \<Rightarrow> p)"

lemma registry_invD:
  assumes "registry_inv r"
  shows "length (active_entries r) = gProtocolCtxCount r"
    and "i < gProtocolCtxCount r \<Longrightarrow> active_entries r ! i = gProtocolCtxTable r ! i"
    and "distinct (map fst (active_entries r))"
  using assms by (auto simp: registry_inv_def active_entries_def)

lemma Scan_eq:
  assumes "registry_inv r"
  shows "ScanProtocolCtx r g = find (\<lambda>i. fst (active_entries r ! i) = g) [0..<gProtocolCtxCount r]"
  unfolding ScanProtocolCtx_def
  by (rule find_cong) (auto simp: registry_invD[OF assms])

lemma Scan_None:
  assumes "registry_inv r"
  shows "ScanProtocolCtx r g = None \<longleftrightarrow> g \<notin> fst ` set (active_entries r)"
proof -
  have "ScanProtocolCtx r g = None \<longleftrightarrow>
      (\<forall>i < length (active_entries r). fst (active_entries r ! i) \<noteq> g)"
    by (simp add: Scan_eq[OF assms] find_None_iff registry_invD(1)[OF assms])
  also have "\<dots> \<longleftrightarrow> g \<notin> fst ` set (active_entries r)"
    by (force simp: in_set_conv_nth)
  finally show ?thesis .
qed

lemma Scan_Some:
  assumes "registry_inv r" and "ScanProtocolCtx r g = Some i"
  shows "i < gProtocolCtxCount r" and "fst (active_entries r ! i) = g"
  using assms(2) by (auto simp: Scan_eq[OF assms(1)] find_Some_iff)

lemma Scan_map:
  assumes "registry_inv r"
  shows "ScanProtocolCtx r g = Some i \<Longrightarrow> map_of (active_entries r) g = Some (snd (gProtocolCtxTable r ! i))"
    and "ScanProtocolCtx r g = None \<Longrightarrow> map_of (active_entries r) g = None"
proof -
  assume "ScanProtocolCtx r g = Some i"
  note s = Scan_Some[OF assms this]
  then show "map_of (active_entries r) g = Some (snd (gProtocolCtxTable r ! i))"
    using map_of_nth_distinct[of "active_entries r" i] registry_invD[OF assms] by auto
next
  assume "ScanProtocolCtx r g = None"
  then show "map_of (active_entries r) g = None"
    by (simp add: Scan_None[OF assms] map_of_eq_None_iff)
qed

lemma Get_map:
  "registry_inv r \<Longrightarrow> MockFuzzContextGetProtocolContext r (Some g) = registry_map r g"
  by (auto simp: MockFuzzContextGetProtocolContext_def registry_map_def Scan_map split: option.splits)

lemma Clear_active:
  assumes "registry_inv r" and "ScanProtocolCtx r g = Some i"
    and "MockFuzzContextClearProtocolContext r (Some g) = (st, r')"
  shows "st = EFI_SUCCESS" and "active_entries r' = swap_remove i (active_entries r)"
    and "length (gProtocolCtxTable r') = length (gProtocolCtxTable r)"
    and "gProtocolCtxCount r' = gProtocolCtxCount r - 1"
  using assms(2,3) take_compaction[of i "gProtocolCtxCount r" "gProtocolCtxTable r" "(0, None)"]
    Scan_Some(1)[OF assms(1,2)] assms(1)
  by (auto simp: MockFuzzContextClearProtocolContext_def Let_def active_entries_def registry_inv_def
      split: if_splits)

lemma Clear_correct:
  assumes inv: "registry_inv r" and "MockFuzzContextClearProtocolContext r (Some g) = (st, r')"
  shows "registry_inv r'" and "registry_map r' = (registry_map r)(g := None)"
    and "st = (if registry_map r g = None then EFI_NOT_FOUND else EFI_SUCCESS)"
proof -
  have "registry_inv r' \<and> registry_map r' = (registry_map r)(g := None) \<and>
    st = (if registry_map r g = None then EFI_NOT_FOUND else EFI_SUCCESS)"
  proof (cases "ScanProtocolCtx r g")
    case None
    with assms have "r' = r" "st = EFI_NOT_FOUND"
      by (simp_all add: MockFuzzContextClearProtocolContext_def)
    with None inv show ?thesis
      by (auto simp: registry_map_def Scan_map(2) fun_eq_iff)
  next
    case (Some i)
    note c = Clear_active[OF inv Some assms(2)] and s = Scan_Some[OF inv Some]
      and d = registry_invD[OF inv]
    have sw: "distinct (map fst (active_entries r'))"
        "set (active_entries r') = set (active_entries r) - {active_entries r ! i}"
      using swap_remove_distinct[OF d(3)] s(1) d(1) by (simp_all add: c(2))
    have nt: "snd (active_entries r ! i) \<noteq> None"
      using inv s(1) d(1) by (simp add: registry_inv_def)
    have m: "map_of (active_entries r) g = Some (snd (active_entries r ! i))"
      using map_of_nth_distinct[OF d(3)] s d(1) by metis
    have "map_of (active_entries r') = (map_of (active_entries r))(g := None)"
    proof
      fix h
      have iff: "map_of (active_entries r') h = Some v \<longleftrightarrow>
          h \<noteq> g \<and> map_of (active_entries r) h = Some v" for v
      proof -
        have e: "active_entries r ! i = (g, snd (active_entries r ! i))"
          using s(2) by (metis prod.collapse)
        have "(h, v) \<in> set (active_entries r') \<longleftrightarrow>
            (h, v) \<in> set (active_entries r) \<and> (h, v) \<noteq> (g, snd (active_entries r ! i))"
          using e unfolding sw(2) by (metis Diff_iff empty_iff insert_iff)
        then show ?thesis
          using m by (metis map_of_eq_Some_iff[OF sw(1)] map_of_eq_Some_iff[OF d(3)] option.inject
              prod.inject)
      qed
      then show "map_of (active_entries r') h = ((map_of (active_entries r))(g := None)) h"
        by (metis fun_upd_apply not_Some_eq)
    qed
    then have "registry_map r' = (registry_map r)(g := None)"
      by (simp add: registry_map_def fun_eq_iff)
    moreover have "registry_inv r'"
    proof -
      have "\<forall>e \<in> set (active_entries r'). snd e \<noteq> None"
        using inv unfolding sw(2) registry_inv_def by blast
      with sw(1) c(3,4) inv show ?thesis unfolding registry_inv_def by linarith
    qed
    moreover have "registry_map r g \<noteq> None"
      using m nt by (simp add: registry_map_def)
    ultimately show ?thesis using c(1) by simp
  qed
  then show "registry_inv r'" and "registry_map r' = (registry_map r)(g := None)"
    and "st = (if registry_map r g = None then EFI_NOT_FOUND else EFI_SUCCESS)" by simp_all
qed

lemma active_snoc:
  "gProtocolCtxCount r < length (gProtocolCtxTable r) \<Longrightarrow>
   active_entries (r\<lparr>gProtocolCtxTable := (gProtocolCtxTable r)[gProtocolCtxCount r := e],
      gProtocolCtxCount := gProtocolCtxCount r + 1\<rparr>) = active_entries r @ [e]"
  by (simp add: active_entries_def take_Suc_conv_app_nth)

lemma active_update:
  "i < gProtocolCtxCount r \<Longrightarrow>
   active_entries (r\<lparr>gProtocolCtxTable := (gProtocolCtxTable r)[i := e]\<rparr>) =
     (active_entries r)[i := e]"
  by (simp add: active_entries_def take_update_swap)

lemma Set_correct:
  assumes inv: "registry_inv r"
    and set: "MockFuzzContextSetProtocolContext r (Some g) (Some c) = (st, r')"
  shows "registry_inv r'"
    and "st = EFI_SUCCESS \<Longrightarrow> registry_map r' = (registry_map r)(g \<mapsto> c)"
    and "st \<noteq> EFI_SUCCESS \<Longrightarrow> st = EFI_OUT_OF_RESOURCES \<and> r' = r \<and>
           gProtocolCtxCount r = MOCK_FUZZ_MAX_PROTOCOL_CTXS \<and> registry_map r g = None"
proof -
  note d = registry_invD[OF inv]
  have "registry_inv r' \<and> (st = EFI_SUCCESS \<longrightarrow> registry_map r' = (registry_map r)(g \<mapsto> c)) \<and>
    (st \<noteq> EFI_SUCCESS \<longrightarrow> st = EFI_OUT_OF_RESOURCES \<and> r' = r \<and>
           gProtocolCtxCount r = MOCK_FUZZ_MAX_PROTOCOL_CTXS \<and> registry_map r g = None)"
  proof (cases "ScanProtocolCtx r g")
    case (Some i)
    note s = Scan_Some[OF inv Some]
    from set Some have r': "r' = r\<lparr>gProtocolCtxTable := (gProtocolCtxTable r)[i := (g, Some c)]\<rparr>"
      and st: "st = EFI_SUCCESS"
      by (auto simp: MockFuzzContextSetProtocolContext_def)
    have act: "active_entries r' = (active_entries r)[i := (g, Some c)]"
      using active_update[OF s(1)] r' by simp
    have i: "i < length (active_entries r)" using s(1) d(1) by simp
    have "distinct (map fst (active_entries r'))"
      unfolding act map_fst_list_update[OF i s(2)] by (rule d(3))
    moreover have "\<forall>e \<in> set (active_entries r'). snd e \<noteq> None"
      using inv set_update_subset_insert[of "active_entries r" i "(g, Some c)"]
      unfolding act registry_inv_def by force
    moreover have "registry_map r' = (registry_map r)(g \<mapsto> c)"
      by (simp add: registry_map_def act map_of_list_update[OF d(3) i s(2)] fun_eq_iff)
    ultimately show ?thesis
      using st inv by (simp add: r' registry_inv_def)
  next
    case None
    have nin: "g \<notin> fst ` set (active_entries r)" using Scan_None[OF inv] None by simp
    have rm: "registry_map r g = None"
      using Scan_map(2)[OF inv None] by (simp add: registry_map_def)
    show ?thesis
    proof (cases "gProtocolCtxCount r \<ge> MOCK_FUZZ_MAX_PROTOCOL_CTXS")
      case True
      with set None inv rm show ?thesis
        by (auto simp: MockFuzzContextSetProtocolContext_def registry_inv_def)
    next
      case False
      with set None have r': "r' = r\<lparr>gProtocolCtxTable := (gProtocolCtxTable r)[gProtocolCtxCount r := (g, Some c)],
          gProtocolCtxCount := gProtocolCtxCount r + 1\<rparr>" and st: "st = EFI_SUCCESS"
        by (auto simp: MockFuzzContextSetProtocolContext_def)
      have act: "active_entries r' = active_entries r @ [(g, Some c)]"
        using active_snoc[of r "(g, Some c)"] False inv r' by (simp add: registry_inv_def)
      have "registry_inv r'"
        using inv nin False unfolding registry_inv_def act by (auto simp: r')
      moreover have "registry_map r' = (registry_map r)(g \<mapsto> c)"
        using Scan_map(2)[OF inv None]
        by (auto simp: registry_map_def act fun_eq_iff map_add_def split: option.splits)
      ultimately show ?thesis using st by simp
    qed
  qed
  then show "registry_inv r'"
    and "st = EFI_SUCCESS \<Longrightarrow> registry_map r' = (registry_map r)(g \<mapsto> c)"
    and "st \<noteq> EFI_SUCCESS \<Longrightarrow> st = EFI_OUT_OF_RESOURCES \<and> r' = r \<and>
           gProtocolCtxCount r = MOCK_FUZZ_MAX_PROTOCOL_CTXS \<and> registry_map r g = None"
    by simp_all
qed

lemma ClearAll_correct:
  assumes "registry_inv r"
  shows "registry_inv (MockFuzzContextClearAllProtocolContexts r)"
    and "registry_map (MockFuzzContextClearAllProtocolContexts r) = Map.empty"
proof -
  have "active_entries (MockFuzzContextClearAllProtocolContexts r) = []"
    by (simp add: MockFuzzContextClearAllProtocolContexts_def active_entries_def)
  then show "registry_map (MockFuzzContextClearAllProtocolContexts r) = Map.empty"
    and "registry_inv (MockFuzzContextClearAllProtocolContexts r)"
    using assms
    by (simp_all add: registry_map_def registry_inv_def MockFuzzContextClearAllProtocolContexts_def
        zero_table_def fun_eq_iff)
qed

section \<open>The registry as an interface\<close>

locale override_registry =
  fixes get :: "'r \<Rightarrow> guid \<Rightarrow> ptr"
    and put :: "'r \<Rightarrow> guid \<Rightarrow> addr \<Rightarrow> efi_status \<times> 'r"
    and drop_one :: "'r \<Rightarrow> guid \<Rightarrow> efi_status \<times> 'r"
    and inv :: "'r \<Rightarrow> bool"
  assumes put_inv: "inv r \<Longrightarrow> put r g c = (st, r') \<Longrightarrow> inv r'"
    and put_get: "inv r \<Longrightarrow> put r g c = (EFI_SUCCESS, r') \<Longrightarrow> get r' = (get r)(g \<mapsto> c)"
    and drop_inv: "inv r \<Longrightarrow> drop_one r g = (st, r') \<Longrightarrow> inv r'"
    and drop_get: "inv r \<Longrightarrow> drop_one r g = (st, r') \<Longrightarrow> get r' = (get r)(g := None)"
begin

lemma put_then_drop:
  assumes "inv r" and "get r g = None"
    and "put r g c = (EFI_SUCCESS, r1)" and "drop_one r1 g = (st, r2)"
  shows "get r2 = get r"
  using assms put_get[OF assms(1,3)] drop_get[OF put_inv[OF assms(1,3)] assms(4)]
  by (simp add: fun_eq_iff)

lemma put_other:
  assumes "inv r" and "put r g c = (EFI_SUCCESS, r1)" and "h \<noteq> g"
  shows "get r1 h = get r h"
  using put_get[OF assms(1,2)] assms(3) by simp

end

interpretation pcr: override_registry
  "\<lambda>r g. MockFuzzContextGetProtocolContext r (Some g)"
  "\<lambda>r g c. MockFuzzContextSetProtocolContext r (Some g) (Some c)"
  "\<lambda>r g. MockFuzzContextClearProtocolContext r (Some g)"
  registry_inv
proof unfold_locales
  fix r g c st r'
  assume i: "registry_inv r" and p: "MockFuzzContextSetProtocolContext r (Some g) (Some c) = (st, r')"
  then show "registry_inv r'" by (rule Set_correct(1))
next
  fix r g c r'
  assume i: "registry_inv r"
    and p: "MockFuzzContextSetProtocolContext r (Some g) (Some c) = (EFI_SUCCESS, r')"
  show "(\<lambda>h. MockFuzzContextGetProtocolContext r' (Some h)) =
      (\<lambda>h. MockFuzzContextGetProtocolContext r (Some h))(g \<mapsto> c)"
    using Set_correct(2)[OF i p]
    by (simp add: Get_map[OF i] Get_map[OF Set_correct(1)[OF i p]] fun_eq_iff)
next
  fix r g st r'
  assume i: "registry_inv r" and p: "MockFuzzContextClearProtocolContext r (Some g) = (st, r')"
  then show "registry_inv r'" by (rule Clear_correct(1))
  show "(\<lambda>h. MockFuzzContextGetProtocolContext r' (Some h)) =
      (\<lambda>h. MockFuzzContextGetProtocolContext r (Some h))(g := None)"
    using Clear_correct(2)[OF i p]
    by (simp add: Get_map[OF i] Get_map[OF Clear_correct(1)[OF i p]] fun_eq_iff)
qed

section \<open>Sequences of registry operations\<close>

datatype registry_op = RSet guid addr | RClear guid | RClearAll

fun registry_step :: "registry_op \<Rightarrow> ctx_registry \<Rightarrow> efi_status \<times> ctx_registry" where
  "registry_step (RSet g c) r = MockFuzzContextSetProtocolContext r (Some g) (Some c)"
| "registry_step (RClear g) r = MockFuzzContextClearProtocolContext r (Some g)"
| "registry_step RClearAll r = (EFI_SUCCESS, MockFuzzContextClearAllProtocolContexts r)"

text \<open>What the operations promise: a finite map of at most 1024 overrides.\<close>

fun registry_spec :: "registry_op \<Rightarrow> (guid \<Rightarrow> ptr) \<Rightarrow> efi_status \<times> (guid \<Rightarrow> ptr)" where
  "registry_spec (RSet g c) m =
     (if g \<notin> dom m \<and> card (dom m) \<ge> MOCK_FUZZ_MAX_PROTOCOL_CTXS then (EFI_OUT_OF_RESOURCES, m)
      else (EFI_SUCCESS, m(g \<mapsto> c)))"
| "registry_spec (RClear g) m =
     (if g \<in> dom m then EFI_SUCCESS else EFI_NOT_FOUND, m(g := None))"
| "registry_spec RClearAll m = (EFI_SUCCESS, Map.empty)"

fun registry_run :: "registry_op list \<Rightarrow> ctx_registry \<Rightarrow> efi_status list \<times> ctx_registry" where
  "registry_run [] r = ([], r)"
| "registry_run (x # xs) r =
     (let (st, r1) = registry_step x r; (sts, r2) = registry_run xs r1 in (st # sts, r2))"

fun registry_spec_run ::
  "registry_op list \<Rightarrow> (guid \<Rightarrow> ptr) \<Rightarrow> efi_status list \<times> (guid \<Rightarrow> ptr)" where
  "registry_spec_run [] m = ([], m)"
| "registry_spec_run (x # xs) m =
     (let (st, m1) = registry_spec x m; (sts, m2) = registry_spec_run xs m1 in (st # sts, m2))"

lemma registry_map_dom:
  assumes "registry_inv r"
  shows "dom (registry_map r) = fst ` set (active_entries r)"
proof -
  have "registry_map r g \<noteq> None \<longleftrightarrow> g \<in> fst ` set (active_entries r)" for g
  proof (cases "map_of (active_entries r) g")
    case None
    then have "g \<notin> fst ` set (active_entries r)" by (simp add: map_of_eq_None_iff)
    with None show ?thesis by (simp add: registry_map_def)
  next
    case (Some p)
    then have "(g, p) \<in> set (active_entries r)" by (rule map_of_SomeD)
    moreover from this have "p \<noteq> None" using assms by (force simp: registry_inv_def)
    ultimately show ?thesis using Some by (force simp: registry_map_def)
  qed
  then show ?thesis by (auto simp: dom_def)
qed

lemma registry_map_card:
  assumes "registry_inv r"
  shows "card (dom (registry_map r)) = gProtocolCtxCount r"
proof -
  have "card (dom (registry_map r)) = card (set (map fst (active_entries r)))"
    by (simp add: registry_map_dom[OF assms])
  also have "\<dots> = length (map fst (active_entries r))"
    by (rule distinct_card) (rule registry_invD(3)[OF assms])
  finally show ?thesis by (simp add: registry_invD(1)[OF assms])
qed

lemma registry_step_refines:
  assumes inv: "registry_inv r" and step: "registry_step x r = (st, r')"
  shows "registry_inv r' \<and> registry_spec x (registry_map r) = (st, registry_map r')"
proof (cases x)
  case (RSet g c)
  with step have s: "MockFuzzContextSetProtocolContext r (Some g) (Some c) = (st, r')" by simp
  show ?thesis
  proof (cases "st = EFI_SUCCESS")
    case True
    have "\<not> (g \<notin> dom (registry_map r) \<and> card (dom (registry_map r)) \<ge> MOCK_FUZZ_MAX_PROTOCOL_CTXS)"
    proof
      assume full: "g \<notin> dom (registry_map r) \<and> card (dom (registry_map r)) \<ge> MOCK_FUZZ_MAX_PROTOCOL_CTXS"
      then have "ScanProtocolCtx r g = None"
        using Scan_None[OF inv, of g] registry_map_dom[OF inv] by simp
      with full s True show False
        by (simp add: MockFuzzContextSetProtocolContext_def registry_map_card[OF inv])
    qed
    then show ?thesis
      using Set_correct(1)[OF inv s] Set_correct(2)[OF inv s True] RSet True by simp
  next
    case False
    have "registry_inv r'" using Set_correct(1)[OF inv s] .
    with Set_correct(3)[OF inv s False] show ?thesis
      by (simp add: RSet registry_map_card[OF inv] domIff)
  qed
next
  case (RClear g)
  with step have s: "MockFuzzContextClearProtocolContext r (Some g) = (st, r')" by simp
  show ?thesis using Clear_correct[OF inv s] RClear by (auto simp: domIff)
next
  case RClearAll
  with step ClearAll_correct[OF inv] show ?thesis by auto
qed

lemma empty_registry_inv: "registry_inv empty_registry" "registry_map empty_registry = Map.empty"
  by (simp_all add: registry_inv_def empty_registry_def zero_table_def active_entries_def
      registry_map_def fun_eq_iff)

text \<open>C32: the fixed array with its swap-with-last removal implements a finite map: every sequence
  of set, clear and clear-all operations returns the statuses that the map specification
  returns (out of resources exactly for a new GUID in a full table), and afterwards every lookup
  finds what the specification's map holds.\<close>

theorem registry_refines_map:
  assumes "registry_inv r" and "registry_run ops r = (sts, r')"
  shows "registry_inv r' \<and>
    registry_spec_run ops (\<lambda>g. MockFuzzContextGetProtocolContext r (Some g)) =
      (sts, \<lambda>g. MockFuzzContextGetProtocolContext r' (Some g))"
proof -
  have "registry_inv r' \<and> registry_spec_run ops (registry_map r) = (sts, registry_map r')"
    using assms
  proof (induction ops arbitrary: r sts)
    case (Cons x xs)
    obtain st r1 where s: "registry_step x r = (st, r1)" by fastforce
    obtain sts' where run: "registry_run xs r1 = (sts', r')" "sts = st # sts'"
      using Cons.prems(2) s by (auto split: prod.splits)
    from Cons.IH[OF _ run(1)] registry_step_refines[OF Cons.prems(1) s] run(2)
    show ?case by simp
  qed simp
  then show ?thesis using assms(1) by (simp add: Get_map)
qed

lemma registry_refines_map_witness:
  "fst (registry_run [RSet 5 100, RSet 6 200, RClear 5, RClear 7] empty_registry) =
     [EFI_SUCCESS, EFI_SUCCESS, EFI_SUCCESS, EFI_NOT_FOUND] \<and>
   MockFuzzContextGetProtocolContext
     (snd (registry_run [RSet 5 100, RSet 6 200, RClear 5, RClear 7] empty_registry)) (Some 6) =
     Some 200"
proof -
  have e: "(\<lambda>g. MockFuzzContextGetProtocolContext empty_registry (Some g)) = Map.empty"
    by (simp add: Get_map empty_registry_inv)
  note c = registry_refines_map[OF empty_registry_inv(1) surjective_pairing,
      of "[RSet 5 100, RSet 6 200, RClear 5, RClear 7]", unfolded e]
  have "registry_spec_run [RSet 5 100, RSet 6 200, RClear 5, RClear 7] Map.empty =
      ([EFI_SUCCESS, EFI_SUCCESS, EFI_SUCCESS, EFI_NOT_FOUND], [6 \<mapsto> 200])"
    by (simp add: fun_upd_twist)
  with c show ?thesis by (auto simp: fun_eq_iff dest!: spec[where x = 6])
qed

text \<open>An override stays private to its protocol: while a GUID that had no override has one,
  the mock of that GUID draws from the override and every other mock from the pool it used
  before; once it is cleared every mock is back on its former pool.\<close>

theorem override_roundtrip:
  assumes "registry_inv r" and "MockFuzzContextGetProtocolContext r (Some g) = None"
    and "MockFuzzContextSetProtocolContext r (Some g) (Some c) = (EFI_SUCCESS, r1)"
    and "MockFuzzContextClearProtocolContext r1 (Some g) = (st, r2)"
  shows "ResolveContext r1 g pool = c \<and> (h \<noteq> g \<longrightarrow> ResolveContext r1 h pool = ResolveContext r h pool) \<and>
    (\<forall>k. ResolveContext r2 k pool = ResolveContext r k pool)"
proof -
  have "MockFuzzContextGetProtocolContext r1 (Some g) = Some c"
    using fun_cong[OF pcr.put_get[OF assms(1,3)], of g] by simp
  moreover have "h \<noteq> g \<Longrightarrow> MockFuzzContextGetProtocolContext r1 (Some h) =
      MockFuzzContextGetProtocolContext r (Some h)"
    using pcr.put_other[OF assms(1,3)] .
  moreover have "MockFuzzContextGetProtocolContext r2 (Some k) =
      MockFuzzContextGetProtocolContext r (Some k)" for k
    using fun_cong[OF pcr.put_then_drop[OF assms]] .
  ultimately show ?thesis by (simp add: ResolveContext_def)
qed

lemma override_roundtrip_witness:
  "ResolveContext (snd (MockFuzzContextSetProtocolContext empty_registry (Some 3) (Some 50))) 3 9 = 50 \<and>
   ResolveContext (snd (MockFuzzContextClearProtocolContext
     (snd (MockFuzzContextSetProtocolContext empty_registry (Some 3) (Some 50))) (Some 3))) 3 9 = 9"
proof -
  have g: "MockFuzzContextGetProtocolContext empty_registry (Some k) = None" for k
    by (simp add: Get_map empty_registry_inv)
  have s: "MockFuzzContextSetProtocolContext empty_registry (Some 3) (Some 50) =
     (EFI_SUCCESS, snd (MockFuzzContextSetProtocolContext empty_registry (Some 3) (Some 50)))"
    by (simp add: MockFuzzContextSetProtocolContext_def ScanProtocolCtx_def empty_registry_def)
  show ?thesis
    using override_roundtrip[OF empty_registry_inv(1) g s surjective_pairing, of 9 3]
    by (simp add: ResolveContext_def g)
qed

section \<open>The reset registry\<close>

definition reset_fns :: "reset_registry \<Rightarrow> ptr list" where
  "reset_fns r = take (gResetRegistryCount r) (gResetRegistry r)"

definition reset_inv :: "reset_registry \<Rightarrow> bool" where
  "reset_inv r \<longleftrightarrow> length (gResetRegistry r) = MOCK_PROTOCOL_MAX_RESET_SLOTS \<and>
     gResetRegistryCount r \<le> MOCK_PROTOCOL_MAX_RESET_SLOTS \<and>
     distinct (reset_fns r) \<and> None \<notin> set (reset_fns r)"

lemma reset_fns_mem:
  assumes "reset_inv r"
  shows "(\<exists>i \<in> set [0..<gResetRegistryCount r]. gResetRegistry r ! i = p) \<longleftrightarrow> p \<in> set (reset_fns r)"
proof -
  have "gResetRegistryCount r \<le> length (gResetRegistry r)" using assms by (simp add: reset_inv_def)
  then show ?thesis by (auto simp: reset_fns_def in_set_conv_nth)
qed

lemma RegisterReset_correct:
  assumes "reset_inv r" and "MockProtocolRegisterReset r p = (st, r')"
  shows "reset_inv r' \<and> reset_fns r' = reset_fns r @ (if st = EFI_SUCCESS then [p] else []) \<and>
    (st = EFI_SUCCESS \<longrightarrow> p \<notin> set (reset_fns r))"
proof (cases "p = None \<or> p \<in> set (reset_fns r) \<or> gResetRegistryCount r \<ge> MOCK_PROTOCOL_MAX_RESET_SLOTS")
  case True
  with assms reset_fns_mem[OF assms(1), of p] show ?thesis
    by (auto simp: MockProtocolRegisterReset_def split: if_splits)
next
  case False
  with assms(2) reset_fns_mem[OF assms(1), of p]
  have r': "r' = r\<lparr>gResetRegistry := (gResetRegistry r)[gResetRegistryCount r := p],
          gResetRegistryCount := gResetRegistryCount r + 1\<rparr>" and st: "st = EFI_SUCCESS"
    by (auto simp: MockProtocolRegisterReset_def split: if_splits)
  have fns: "reset_fns r' = reset_fns r @ [p]"
    using assms(1) False by (simp add: reset_fns_def r' reset_inv_def take_Suc_conv_app_nth)
  show ?thesis
    using assms(1) False st unfolding reset_inv_def fns by (auto simp: r')
qed

fun register_all :: "ptr list \<Rightarrow> reset_registry \<Rightarrow> reset_registry" where
  "register_all [] r = r"
| "register_all (p # ps) r = register_all ps (snd (MockProtocolRegisterReset r p))"

text \<open>What a registry accepts: each function once, in order of first registration, up to 64.\<close>

fun accepted :: "ptr list \<Rightarrow> ptr list \<Rightarrow> ptr list" where
  "accepted acc [] = acc"
| "accepted acc (p # ps) =
     accepted (if p = None \<or> p \<in> set acc \<or> length acc \<ge> MOCK_PROTOCOL_MAX_RESET_SLOTS
               then acc else acc @ [p]) ps"

lemma Register_fns:
  assumes "reset_inv r"
  shows "reset_inv (snd (MockProtocolRegisterReset r p)) \<and>
    reset_fns (snd (MockProtocolRegisterReset r p)) =
      (if p = None \<or> p \<in> set (reset_fns r) \<or> length (reset_fns r) \<ge> MOCK_PROTOCOL_MAX_RESET_SLOTS
       then reset_fns r else reset_fns r @ [p])"
proof -
  have len: "length (reset_fns r) = gResetRegistryCount r"
    using assms by (simp add: reset_inv_def reset_fns_def)
  have "fst (MockProtocolRegisterReset r p) = EFI_SUCCESS \<longleftrightarrow>
      \<not> (p = None \<or> p \<in> set (reset_fns r) \<or> length (reset_fns r) \<ge> MOCK_PROTOCOL_MAX_RESET_SLOTS)"
    unfolding len reset_fns_mem[OF assms, symmetric]
    by (simp add: MockProtocolRegisterReset_def)
  with RegisterReset_correct[OF assms surjective_pairing, of p] show ?thesis by (simp split: if_splits)
qed

lemma register_all_fns:
  "reset_inv r \<Longrightarrow> reset_inv (register_all ps r) \<and> reset_fns (register_all ps r) = accepted (reset_fns r) ps"
  by (induction ps arbitrary: r) (simp_all add: Register_fns)

lemma fold_reset:
  assumes "reset_inv r"
  shows "fold (\<lambda>i w. case gResetRegistry r ! i of None \<Rightarrow> w | Some f \<Rightarrow> call f w)
        [0..<gResetRegistryCount r] w = fold call (map the (reset_fns r)) w"
proof -
  have le: "gResetRegistryCount r \<le> length (gResetRegistry r)" using assms by (simp add: reset_inv_def)
  have "fold (\<lambda>i w. case gResetRegistry r ! i of None \<Rightarrow> w | Some f \<Rightarrow> call f w) [0..<k] w =
      fold call (map the (take k (gResetRegistry r))) w" if "k \<le> gResetRegistryCount r" for k
    using that
  proof (induction k)
    case (Suc k)
    then have "k < length (reset_fns r)" "reset_fns r ! k = gResetRegistry r ! k"
      using le by (simp_all add: reset_fns_def)
    then have "gResetRegistry r ! k \<noteq> None"
      using assms nth_mem[of k "reset_fns r"] unfolding reset_inv_def by metis
    with Suc le show ?case by (auto simp: take_Suc_conv_app_nth)
  qed simp
  then show ?thesis by (simp add: reset_fns_def)
qed

text \<open>C33: after any series of registrations from the cleared registry, resetting all mocks calls
  every function that was accepted exactly once, in registration order (duplicates, NULL and
  everything past the 64th slot were refused), and drops all protocol overrides.\<close>

theorem ResetAll_calls_each_once:
  assumes "registry_inv cr" and "rr' = register_all ps (MockProtocolClearResetRegistry rr)"
  shows "MockProtocolResetAll call rr' cr w =
      (MockFuzzContextClearAllProtocolContexts cr, fold call (map the (accepted [] ps)) w) \<and>
    distinct (map the (accepted [] ps)) \<and> length (accepted [] ps) \<le> MOCK_PROTOCOL_MAX_RESET_SLOTS \<and>
    (\<forall>g. ResolveContext (fst (MockProtocolResetAll call rr' cr w)) g pool = pool)"
proof -
  have i: "reset_inv (MockProtocolClearResetRegistry rr)"
      "reset_fns (MockProtocolClearResetRegistry rr) = []"
    by (simp_all add: MockProtocolClearResetRegistry_def reset_inv_def reset_fns_def)
  have inv: "reset_inv rr'" and fns: "reset_fns rr' = accepted [] ps"
    using register_all_fns[OF i(1), of ps] assms(2) i(2) by simp_all
  have nn: "None \<notin> set (accepted [] ps)" "distinct (accepted [] ps)"
    using inv by (simp_all add: reset_inv_def fns)
  then have "distinct (map the (accepted [] ps))"
    by (auto simp: distinct_map inj_on_def) (metis option.expand)
  moreover have "length (accepted [] ps) \<le> MOCK_PROTOCOL_MAX_RESET_SLOTS"
    using inv fns[symmetric] by (simp add: reset_fns_def reset_inv_def)
  moreover have "ResolveContext (MockFuzzContextClearAllProtocolContexts cr) g pool = pool" for g
    using ClearAll_correct[OF assms(1)] by (simp add: ResolveContext_def Get_map)
  ultimately show ?thesis
    by (simp add: MockProtocolResetAll_def fold_reset[OF inv] fns)
qed

lemma ResetAll_calls_each_once_witness:
  "snd (MockProtocolResetAll (\<lambda>f w. w @ [f])
      (register_all [Some 5, None, Some 9, Some 5] (MockProtocolClearResetRegistry
         \<lparr>gResetRegistry = [], gResetRegistryCount = 0\<rparr>)) empty_registry []) = [5, 9]"
  using ResetAll_calls_each_once[OF empty_registry_inv(1) refl,
      of "\<lambda>f w. w @ [f]" "[Some 5, None, Some 9, Some 5]" "\<lparr>gResetRegistry = [], gResetRegistryCount = 0\<rparr>" "[]"]
  by simp

end
