(* ===== verification/Udp6Mock.thy ===== *)
theory Udp6Mock
  imports DeferredProps FuzzRegistry
begin

text \<open>
  The UDP6 mock, \<open>MockgEfiUdp6ProtocolGuid.c\<close>: what the parts modelled so far are for. A receive request is
  answered with a datagram cut from the fuzz pool of the protocol, and its completion is handed to the
  deferred signalling. The state extends the deferred one by the contexts and the override table of the
  pool, the tokens of the client, the received blocks, and the configuration.
\<close>

section \<open>State\<close>

text \<open>
  The structures of the UEFI specification, with the fields that the mock reads or writes; \<open>ConfigRest\<close> stands for
  the fields of \<open>EFI_UDP6_CONFIG_DATA\<close> that are copied and never read.
\<close>

record udp6_config =
  StationAddress :: "u8 list"
  StationPort :: u16
  ConfigRest :: nat

definition zero_config :: udp6_config where
  "zero_config = \<lparr>StationAddress = replicate 16 0, StationPort = 0, ConfigRest = 0\<rparr>"

record udp6_token =
  Token_Event :: ptr
  Token_Status :: efi_status
  Packet_RxData :: ptr

text \<open>\<open>EFI_UDP6_RECEIVE_DATA\<close> with the payload behind it.\<close>

record udp6_rx =
  DataLength :: u32
  FragmentCount :: u32
  FragmentLength :: u32
  Payload :: "u8 list"
  SourceAddress :: "u8 list"
  SourcePort :: u16
  DestinationAddress :: "u8 list"
  DestinationPort :: u16
  RecycleSignal :: ptr


record udp6 = deferred +
  fuzz_mem :: "addr \<Rightarrow> u8"
  fuzz_contexts :: "addr \<Rightarrow> fuzz_ctx option"
  fuzz_registry :: ctx_registry
  fuzz_pool :: addr
  udp_tokens :: "nat \<Rightarrow> udp6_token option"
  rx_blocks :: "nat \<Rightarrow> udp6_rx option"
  next_rx :: nat
  mMockUdp6Config :: udp6_config
  mMockUdp6Configured :: bool
  mMockUdp6TransmitCount :: u32
  mMockUdp6ReceiveCount :: u32


section \<open>Operations\<close>


datatype snp_state = EfiSimpleNetworkStopped | EfiSimpleNetworkStarted | EfiSimpleNetworkInitialized

text \<open>
  The four outputs are optional. \<open>Ip6ModeData\<close> is \<open>IsStarted\<close> and \<open>IsConfigured\<close>, \<open>SnpModeData\<close> is \<open>State\<close>; the
  other fields of them, and \<open>MnpConfigData\<close> as a whole, are zero.
\<close>

record udp6_mode =
  Udp6ConfigData :: "udp6_config option"
  Ip6ModeData :: "(bool \<times> bool) option"
  MnpConfigDataZeroed :: bool
  SnpModeData :: "snp_state option"

definition MockUdp6GetModeData :: "bool \<Rightarrow> bool \<Rightarrow> bool \<Rightarrow> bool \<Rightarrow> 'x udp6_scheme \<Rightarrow> efi_status \<times> udp6_mode" where
  "MockUdp6GetModeData udp ip6 mnp snp s =
     (if udp \<and> \<not> mMockUdp6Configured s
      then (EFI_NOT_STARTED, \<lparr>Udp6ConfigData = None, Ip6ModeData = None, MnpConfigDataZeroed = False, SnpModeData = None\<rparr>)
      else (EFI_SUCCESS, \<lparr>Udp6ConfigData = (if udp then Some (mMockUdp6Config s) else None),
        Ip6ModeData = (if ip6 then Some (True, mMockUdp6Configured s) else None), MnpConfigDataZeroed = mnp,
        SnpModeData = (if snp then Some EfiSimpleNetworkInitialized else None)\<rparr>))"

definition MockUdp6Configure :: "'x udp6_ext unregister \<Rightarrow> 'x udp6_ext deferred_ext core_scheme restore \<Rightarrow> nat \<Rightarrow> udp6_config option \<Rightarrow>
     'x udp6_scheme \<Rightarrow> (efi_status \<times> 'x udp6_scheme) outcome" where
  "MockUdp6Configure unreg rst k UdpConfigData s =
     (case UdpConfigData of
        None \<Rightarrow> bind (MockDeferredCancelAll unreg rst k True s) (\<lambda>s1.
          Ret (EFI_SUCCESS, s1\<lparr>mMockUdp6Config := zero_config, mMockUdp6Configured := False\<rparr>))
      | Some c \<Rightarrow> Ret (EFI_SUCCESS, s\<lparr>mMockUdp6Config := c, mMockUdp6Configured := True\<rparr>))"

definition MockUdp6Groups :: "bool \<Rightarrow> 'x udp6_scheme \<Rightarrow> efi_status \<times> 'x udp6_scheme" where
  "MockUdp6Groups JoinFlag s = (EFI_SUCCESS, s)"

text \<open>The allocations that a request makes.\<close>

datatype udp6_alloc = AllocRxData | AllocRecycleEvent | AllocDeferredEntry | AllocDeliveryTimer

abbreviation (input) set_token :: "nat \<Rightarrow> udp6_token \<Rightarrow> 'x udp6_scheme \<Rightarrow> 'x udp6_scheme" where
  "set_token t T s \<equiv> s\<lparr>udp_tokens := (udp_tokens s)(t \<mapsto> T)\<rparr>"

definition Udp6_complete ::
  "('x udp6_scheme \<Rightarrow> 'x udp6_scheme outcome) \<Rightarrow> 'x udp6_ext unregister \<Rightarrow> 'x udp6_ext deferred_ext core_scheme restore \<Rightarrow>
     (udp6_alloc \<Rightarrow> bool) \<Rightarrow> ptr \<Rightarrow> 'x udp6_scheme \<Rightarrow> (efi_status \<times> 'x udp6_scheme) outcome" where
  "Udp6_complete drain unreg rst mem Event s =
     bind (MockDeferredSchedule drain unreg rst (mem AllocDeferredEntry) (mem AllocDeliveryTimer) True Event s)
       (\<lambda>(_, s1). Ret (EFI_SUCCESS, s1))"

definition transmit_status :: "u8 \<Rightarrow> efi_status" where
  "transmit_status FuzzStatus = (if FuzzStatus = 1 then EFI_NETWORK_UNREACHABLE else if FuzzStatus = 2 then EFI_TIMEOUT
     else if FuzzStatus = 3 then EFI_ABORTED else EFI_SUCCESS)"

definition MockUdp6Transmit ::
  "('x udp6_scheme \<Rightarrow> 'x udp6_scheme outcome) \<Rightarrow> 'x udp6_ext unregister \<Rightarrow> 'x udp6_ext deferred_ext core_scheme restore \<Rightarrow>
     (udp6_alloc \<Rightarrow> bool) \<Rightarrow> guid \<Rightarrow> ptr \<Rightarrow> 'x udp6_scheme \<Rightarrow> (efi_status \<times> 'x udp6_scheme) outcome" where
  "MockUdp6Transmit drain unreg rst mem g Token s =
     (if \<not> mMockUdp6Configured s then Ret (EFI_NOT_STARTED, s)
      else case Token of None \<Rightarrow> Ret (EFI_INVALID_PARAMETER, s)
      | Some t \<Rightarrow> deref (udp_tokens s t) (\<lambda>T.
        if Token_Event T = None then Ret (EFI_INVALID_PARAMETER, s)
        else
          let s1 = s\<lparr>mMockUdp6TransmitCount := mMockUdp6TransmitCount s + 1\<rparr>;
              a = ResolveContext (fuzz_registry s1) g (fuzz_pool s1)
          in deref (fuzz_contexts s1 a) (\<lambda>C.
            let (FuzzStatus, s2) =
                (if MockFuzzContextRemaining (Some C) \<ge> 1
                 then (let (v, C') = MockFuzzContextGetU8 (fuzz_mem s1) (Some C) in (v, s1\<lparr>fuzz_contexts := (fuzz_contexts s1)(a := C')\<rparr>))
                 else (0, s1));
                s3 = set_token t (T\<lparr>Token_Status := transmit_status FuzzStatus\<rparr>) s2
            in Udp6_complete drain unreg rst mem (Token_Event T) s3)))"




definition MockUdp6Cancel :: "'x udp6_ext unregister \<Rightarrow> 'x udp6_ext deferred_ext core_scheme restore \<Rightarrow> nat \<Rightarrow> ptr \<Rightarrow>
     'x udp6_scheme \<Rightarrow> (efi_status \<times> 'x udp6_scheme) outcome" where
  "MockUdp6Cancel unreg rst k Token s =
     (if \<not> mMockUdp6Configured s then Ret (EFI_NOT_STARTED, s)
      else case Token of
        None \<Rightarrow> bind (MockDeferredCancelAll unreg rst k True s) (\<lambda>s1. Ret (EFI_SUCCESS, s1))
      | Some t \<Rightarrow> deref (udp_tokens s t) (\<lambda>T. MockDeferredCancel unreg rst True (Token_Event T) s))"

definition MockUdp6Poll :: "'x udp6_scheme \<Rightarrow> efi_status \<times> 'x udp6_scheme" where
  "MockUdp6Poll s = (EFI_SUCCESS, s)"

definition Udp6ResetState :: "'x udp6_ext unregister \<Rightarrow> 'x udp6_ext deferred_ext core_scheme restore \<Rightarrow> nat \<Rightarrow>
     'x udp6_scheme \<Rightarrow> 'x udp6_scheme outcome" where
  "Udp6ResetState unreg rst k s = MockDeferredReset unreg rst k True
     (s\<lparr>mMockUdp6Config := zero_config, mMockUdp6Configured := False, mMockUdp6TransmitCount := 0, mMockUdp6ReceiveCount := 0\<rparr>)"

section \<open>Reading the pool\<close>

definition pool_of :: "guid \<Rightarrow> 'x udp6_scheme \<Rightarrow> addr" where
  "pool_of g s = ResolveContext (fuzz_registry s) g (fuzz_pool s)"

text \<open>\<open>n\<close> bytes at offset \<open>k\<close> behind the cursor, and the bytes that are left.\<close>

definition next_bytes :: "'x udp6_scheme \<Rightarrow> fuzz_ctx \<Rightarrow> nat \<Rightarrow> nat \<Rightarrow> u8 list" where
  "next_bytes s C k n = map (\<lambda>i. fuzz_mem s (the (Buffer C) + unat (Offset C) + k + i)) [0..<n]"

definition bytes_left :: "fuzz_ctx \<Rightarrow> nat" where
  "bytes_left C = unat (MockFuzzContextRemaining (Some C))"


lemma Remaining_consume:
  assumes "n \<le> MockFuzzContextRemaining (Some C)" and "MockFuzzContextRemaining (Some C) \<noteq> 0"
  shows "can_consume C n"
  using assms by (auto simp: MockFuzzContextRemaining_def can_consume_def not_le split: if_splits)



section \<open>The rest of the state\<close>

lemma udp6_more:
  fixes s s' :: "'x udp6_scheme"
  assumes "deferred.more s' = deferred.more s"
  shows "fuzz_mem s' = fuzz_mem s" "fuzz_contexts s' = fuzz_contexts s" "fuzz_registry s' = fuzz_registry s" "fuzz_pool s' = fuzz_pool s"
    "udp_tokens s' = udp_tokens s" "rx_blocks s' = rx_blocks s" "next_rx s' = next_rx s" "mMockUdp6Config s' = mMockUdp6Config s"
    "mMockUdp6Configured s' = mMockUdp6Configured s" "mMockUdp6ReceiveCount s' = mMockUdp6ReceiveCount s"
    "mMockUdp6TransmitCount s' = mMockUdp6TransmitCount s"
  using assms by (cases s; cases s'; simp)+

text \<open>The core and the pending deliveries are those of \<open>s\<close>.\<close>

definition same_deferred :: "'x udp6_scheme \<Rightarrow> 'x udp6_scheme \<Rightarrow> bool" where
  "same_deferred s s' \<longleftrightarrow> deferred.truncate s' = deferred.truncate s"

lemma same_deferredD:
  assumes "same_deferred s s'"
  shows "gEfiCurrentTpl s' = gEfiCurrentTpl s" "events s' = events s" "next_event s' = next_event s" "mEfiSystemTime s' = mEfiSystemTime s"
    "entries s' = entries s" "PendingList s' = PendingList s" "next_entry s' = next_entry s" "Initialized s' = Initialized s"
    "gMockEventAdvanceContext s' = gMockEventAdvanceContext s" "mEfiCheckTimerEvent s' = mEfiCheckTimerEvent s" "gIdleLoopEvent s' = gIdleLoopEvent s"
    "core.truncate s' = core.truncate s" "locks s' = locks s"
  using assms by (cases s; cases s'; simp add: same_deferred_def deferred.truncate_def core.truncate_def)+

lemma same_deferred_idle:
  assumes "same_deferred s s'" shows "idle s' = idle s" "count_of s' = count_of s" "timer_view s' = timer_view s"
proof -
  note d = same_deferredD[OF assms]
  have "core_inv s' = core_inv s" using d(12)
    by (cases s; cases s'; simp add: core.truncate_def core_inv_def event_inv_def tpl_inv_def lock_inv_def)
  then show "idle s' = idle s" using d by (simp add: idle_def idle_inv_def deferred_inv_def entry_ok_def)
  show "count_of s' = count_of s" "timer_view s' = timer_view s" using d(2) by (simp_all add: count_of_def timer_view_def fun_eq_iff)
qed




section \<open>Completing a request\<close>

lemma idleD: "idle s \<Longrightarrow> core_inv s" "idle s \<Longrightarrow> \<not> held s l" "idle s \<Longrightarrow> deferred_inv s"
  by (simp_all add: idle_def idle_inv_def)

lemma live_below: "idle s \<Longrightarrow> events s x \<noteq> None \<Longrightarrow> x < next_event s"
  using event_invD(2) by (auto simp: idle_def idle_inv_def core_inv_def)


lemma Udp6_complete_ret:
  assumes "tpl_restore_total rst" and "idle s" and "gEfiCurrentTpl s < TPL_HIGH_LEVEL" and "gMockEventAdvanceContext s"
  shows "\<exists>s'. Udp6_complete drain unreg rst (\<lambda>_. True) (Some tok) s = Ret (EFI_SUCCESS, s') \<and> scheduled tok s s'"
proof -
  obtain s' where "MockDeferredSchedule drain unreg rst True True True (Some tok) s = Ret (EFI_SUCCESS, s')" "scheduled tok s s'"
    using Schedule_ret[OF assms] by blast
  then show ?thesis by (simp add: Udp6_complete_def)
qed

text \<open>The completion of token event \<open>e\<close> is pending, for the next tick; no event has been signalled.\<close>

definition will_signal :: "nat \<Rightarrow> 'x deferred_scheme \<Rightarrow> 'x deferred_scheme \<Rightarrow> bool" where
  "will_signal e s s' \<longleftrightarrow> idle s' \<and> gEfiCurrentTpl s' = gEfiCurrentTpl s \<and> PendingList s' = PendingList s @ [next_entry s] \<and>
     (\<exists>d. events s d = None \<and> entries s' = (entries s)(next_entry s \<mapsto> \<lparr>TokenEvent = Some e, DeliveryTimer = Some d\<rparr>) \<and>
        timer_view s' d = Some (mEfiSystemTime s + 1, 0, True)) \<and>
     (\<forall>x. events s x \<noteq> None \<longrightarrow> count_of s' x = count_of s x)"



section \<open>Receive\<close>












section \<open>Cancel\<close>

definition token_entry :: "'x udp6_scheme \<Rightarrow> nat \<Rightarrow> nat \<Rightarrow> bool" where
  "token_entry s e en \<longleftrightarrow> (case entries s en of None \<Rightarrow> False | Some E \<Rightarrow> TokenEvent E = Some e)"

lemma Cancel_find_eq:
  "\<forall>en \<in> set xs. entries s en \<noteq> None \<Longrightarrow> Cancel_find (entries s) (Some e) xs = Ret (find (token_entry s e) xs)"
  by (induction xs) (auto simp: token_entry_def)

lemma Cancel_answer:
  fixes s :: "'x udp6_scheme"
  assumes r: "tpl_restore_total rst" and i: "idle s" and h: "gEfiCurrentTpl s < TPL_HIGH_LEVEL"
    and c: "mMockUdp6Configured s" and T: "udp_tokens s t = Some T" "Token_Event T = Some e"
  shows "case find (token_entry s e) (PendingList s) of
      None \<Rightarrow> MockUdp6Cancel unreg rst k (Some t) s = Ret (EFI_NOT_FOUND, s)
    | Some en \<Rightarrow> \<exists>s' E d. MockUdp6Cancel unreg rst k (Some t) s = Ret (EFI_SUCCESS, s') \<and> idle s' \<and> entries s en = Some E \<and>
        DeliveryTimer E = Some d \<and> cancelled en d s s'"
proof -
  have r0: "tpl_restore rst" using r by (simp add: tpl_restore_total_def)
  have d: "deferred_inv s" using idleD(3)[OF i] .
  have "\<forall>en \<in> set (PendingList s). entries s en \<noteq> None" using deferred_invD(2)[OF d] by blast
  note f = Cancel_find_eq[OF this, of e]
  have init: "Initialized s \<or> PendingList s = []" using d by (simp add: deferred_inv_def)
  show ?thesis
  proof (cases "find (token_entry s e) (PendingList s)")
    case None
    then show ?thesis using f c T by (simp add: MockUdp6Cancel_def MockDeferredCancel_def)
  next
    case (Some en)
    then have en: "en \<in> set (PendingList s)" "token_entry s e en" by (auto simp: find_Some_iff)
    then obtain E where E: "entries s en = Some E" by (auto simp: token_entry_def split: option.splits)
    obtain t' where t': "DeliveryTimer E = Some t'" using deferred_invD(3)[OF d E] by (auto simp: entry_ok_def)
    obtain s' where s': "cancel_entry unreg rst en s = Ret s'" "cancelled en t' s s'"
      using cancel_entry_safe[OF r0 i h E t', of unreg] cancel_entry_total[OF r i h E t', of unreg]
      by (cases "cancel_entry unreg rst en s") auto
    have "MockUdp6Cancel unreg rst k (Some t) s = Ret (EFI_SUCCESS, s')"
      using f c T Some s'(1) en(1) init by (auto simp: MockUdp6Cancel_def MockDeferredCancel_def)
    then show ?thesis using Some E t' s'(2) idle_cancelled[OF i E t' s'(2)] by auto
  qed
qed

section \<open>Transmit and configure\<close>

lemma scheduled_will_signal:
  assumes "idle s" and "scheduled e s s'" shows "will_signal e s s'"
proof -
  have "events s (next_event s) = None" using live_below[OF assms(1), of "next_event s"] by (cases "events s (next_event s)") auto
  moreover have "x \<noteq> next_event s" if "events s x \<noteq> None" for x using live_below[OF assms(1) that] by simp
  ultimately show ?thesis using assms(2) by (auto simp: will_signal_def scheduled_def)
qed

text \<open>A transmission completes at the next tick, with the status that the next byte of the pool selects.\<close>

lemma Transmit_ret:
  fixes s :: "'x udp6_scheme"
  assumes r: "tpl_restore_total rst" and i: "idle s" and h: "gEfiCurrentTpl s < TPL_HIGH_LEVEL" and a: "gMockEventAdvanceContext s"
    and c: "mMockUdp6Configured s" and T: "udp_tokens s t = Some T" "Token_Event T = Some e"
    and C: "fuzz_contexts s (pool_of g s) = Some C" "Buffer C \<noteq> None"
  shows "\<exists>s'. MockUdp6Transmit drain unreg rst (\<lambda>_. True) g (Some t) s = Ret (EFI_SUCCESS, s') \<and> will_signal e s s' \<and>
    udp_tokens s' = (udp_tokens s)(t \<mapsto>
      T\<lparr>Token_Status := transmit_status (if bytes_left C = 0 then 0 else next_bytes s C 0 1 ! 0)\<rparr>)"
proof -
  define b where "b = (if bytes_left C = 0 then 0 else next_bytes s C 0 1 ! 0)"
  define C' where "C' = (if bytes_left C = 0 then C else C\<lparr>Offset := Offset C + 1\<rparr>)"
  define s3 where "s3 = s\<lparr>mMockUdp6TransmitCount := mMockUdp6TransmitCount s + 1, fuzz_contexts := (fuzz_contexts s)(pool_of g s \<mapsto> C'),
    udp_tokens := (udp_tokens s)(t \<mapsto> T\<lparr>Token_Status := transmit_status b\<rparr>)\<rparr>"
  have sd: "same_deferred s s3" by (simp add: s3_def same_deferred_def deferred.truncate_def)
  note d = same_deferredD[OF sd] same_deferred_idle[OF sd]
  have z: "MockFuzzContextRemaining (Some C) \<ge> 1 \<longleftrightarrow> bytes_left C \<noteq> 0"
    by (auto simp: bytes_left_def word_le_nat_alt)
  have g8: "MockFuzzContextGetU8 (fuzz_mem s) (Some C) = (b, Some C')" if n: "bytes_left C \<noteq> 0"
  proof -
    have "MockFuzzContextRemaining (Some C) \<noteq> 0" using n by (auto simp: bytes_left_def)
    then show ?thesis using Remaining_consume[of 1 C] z n C(2)
      by (auto simp: MockFuzzContextGetU8_def Consume_eq ptr_plus_def b_def C'_def next_bytes_def)
  qed
  have p: "pool_of g (s\<lparr>mMockUdp6TransmitCount := v\<rparr>) = pool_of g s" for v by (simp add: pool_of_def)
  have eq: "MockUdp6Transmit drain unreg rst (\<lambda>_. True) g (Some t) s = Udp6_complete drain unreg rst (\<lambda>_. True) (Some e) s3"
    using c T C g8 z by (cases "bytes_left C = 0")
      (simp_all add: MockUdp6Transmit_def pool_of_def[symmetric] s3_def C'_def b_def fun_upd_idem Let_def p)
  obtain s' where "Udp6_complete drain unreg rst (\<lambda>_. True) (Some e) s3 = Ret (EFI_SUCCESS, s')" "scheduled e s3 s'"
    using Udp6_complete_ret[OF r, of s3 drain unreg e] i h a d by auto
  moreover from this(2) have "will_signal e s s'" "udp_tokens s' = udp_tokens s3"
    using udp6_more(5)[of s' s3] scheduled_will_signal[of s3 e s'] i d by (simp_all add: will_signal_def scheduled_def)
  ultimately show ?thesis using eq by (auto simp: s3_def b_def)
qed

lemma Configure_null:
  fixes s :: "'x udp6_scheme"
  assumes "tpl_restore_total rst" and "idle s" and "gEfiCurrentTpl s < TPL_HIGH_LEVEL" and "length (PendingList s) < k"
  shows "\<exists>s1 s'. MockUdp6Configure unreg rst k None s = Ret (EFI_SUCCESS, s') \<and> all_cancelled s s1 \<and>
    s' = s1\<lparr>mMockUdp6Config := zero_config, mMockUdp6Configured := False\<rparr>"
  using CancelAll_ret[OF assms, of unreg] by (auto simp: MockUdp6Configure_def)

section \<open>Properties\<close>


text \<open>A configured client with one token, whose pool holds a hint of two bytes and three more.\<close>

definition udp6_over :: "deferred \<Rightarrow> udp6" where
  "udp6_over s = deferred.extend s \<lparr>fuzz_mem = (\<lambda>i. [2, 0, 7, 8, 9] ! (i - 100)),
     fuzz_contexts = [0 \<mapsto> zero_ctx\<lparr>Buffer := Some 100, Size := 5\<rparr>], fuzz_registry = empty_registry, fuzz_pool = 0,
     udp_tokens = [0 \<mapsto> \<lparr>Token_Event = Some 3, Token_Status = EFI_SUCCESS, Packet_RxData = None\<rparr>], rx_blocks = Map.empty, next_rx = 0,
     mMockUdp6Config = zero_config\<lparr>StationPort := 546\<rparr>, mMockUdp6Configured = True, mMockUdp6TransmitCount = 0,
     mMockUdp6ReceiveCount = 0\<rparr>"

lemma udp6_over_simps [simp]:
  "gEfiCurrentTpl (udp6_over s) = gEfiCurrentTpl s" "events (udp6_over s) = events s" "PendingList (udp6_over s) = PendingList s"
  "entries (udp6_over s) = entries s" "next_entry (udp6_over s) = next_entry s" "gMockEventAdvanceContext (udp6_over s) = gMockEventAdvanceContext s"
  "idle (udp6_over s) = idle s" "mMockUdp6Configured (udp6_over s)" "next_rx (udp6_over s) = 0" "rx_blocks (udp6_over s) = Map.empty"
  by (simp_all add: udp6_over_def deferred.defs idle_def idle_inv_def deferred_inv_def entry_ok_def core_inv_def event_inv_def
      tpl_inv_def lock_inv_def)


text \<open>C22: cancelling a token answers for the first pending delivery of its event: without one
  the answer is not found and nothing changes; with one, its entry is freed, its timer is closed, and no other event and no
  token changes: the token keeps the status it had and its event is never signalled for it.\<close>

theorem Cancel_is_silent:
  assumes "notify_client cl" and "idle s" and "gEfiCurrentTpl s < TPL_HIGH_LEVEL"
    and "mMockUdp6Configured s" and "udp_tokens s t = Some T" and "Token_Event T = Some e"
  shows "case find (token_entry s e) (PendingList s) of
      None \<Rightarrow> MockUdp6Cancel unreg (CoreRestoreTpl cl (Suc (Suc n))) k (Some t) s = Ret (EFI_NOT_FOUND, s)
    | Some en \<Rightarrow> \<exists>s' E d. MockUdp6Cancel unreg (CoreRestoreTpl cl (Suc (Suc n))) k (Some t) s = Ret (EFI_SUCCESS, s') \<and> idle s' \<and>
        entries s en = Some E \<and> DeliveryTimer E = Some d \<and> PendingList s' = remove1 en (PendingList s) \<and>
        entries s' = (entries s)(en := None) \<and> events s' = (events s)(d := None) \<and> udp_tokens s' = udp_tokens s \<and>
        gEfiCurrentTpl s' = gEfiCurrentTpl s"
  using Cancel_answer[OF notify_client.restore_total[OF assms(1)] assms(2-6), where unreg = unreg and k = k]
  by (fastforce simp: cancelled_def svc_def split: option.splits dest: udp6_more(5))

lemma Cancel_is_silent_witness:
  "\<exists>s'. MockUdp6Cancel (\<lambda>_. Ret) (CoreRestoreTpl harness_notify 12) 2 (Some 0) (udp6_over one_pending) = Ret (EFI_SUCCESS, s') \<and>
    PendingList s' = [] \<and> events s' 4 = None \<and> map_option Token_Status (udp_tokens s' 0) = Some EFI_SUCCESS"
proof -
  have T: "udp_tokens (udp6_over one_pending) 0 = Some \<lparr>Token_Event = Some 3, Token_Status = EFI_SUCCESS, Packet_RxData = None\<rparr>"
    by (simp add: udp6_over_def deferred.defs)
  have "find (token_entry (udp6_over one_pending) 3) (PendingList (udp6_over one_pending)) = Some 0"
    using one_pending(3,4) by (simp add: token_entry_def)
  then have "\<exists>s'. MockUdp6Cancel (\<lambda>_. Ret) (CoreRestoreTpl harness_notify (Suc (Suc 10))) 2 (Some 0) (udp6_over one_pending) = Ret (EFI_SUCCESS, s') \<and>
    PendingList s' = [] \<and> events s' 4 = None \<and> udp_tokens s' = udp_tokens (udp6_over one_pending)"
    using Cancel_is_silent[OF harness_client _ _ _ T, where e = 3 and unreg = "\<lambda>_. Ret" and n = 10 and k = 2] one_pending(1-4)
    by auto
  moreover have "Suc (Suc 10) = 12" by simp
  ultimately show ?thesis using T by fastforce
qed

end
