(* ===== verification/ProtocolState.thy ===== *)
theory ProtocolState
  imports EventRuns EventQuiet
begin

text \<open>
  The protocol database of \<open>HostLib/UefiBootServicesTableLibHost\<close>: the structures of \<open>Handle.h\<close>,
  the globals of \<open>Handle.c\<close> and \<open>Locate.c\<close>, the database lock and the lookups. Handles, protocol
  entries, interfaces and notify records are heap objects with numbers for addresses; an intrusive
  list is the list of the addresses of its nodes in \<open>ForwardLink\<close> order. Reading an object that is
  not allocated is a fault. The state extends the state of the event services, whose lock and TPL
  functions the database calls.
\<close>

section \<open>Structures\<close>

record ihandle =
  HProtocols :: "nat list"
  LocateRequest :: u64
  Key :: u64

record protocol_entry =
  ProtocolID :: guid
  EProtocols :: "nat list"
  ENotify :: "nat list"

record open_protocol_data =
  AgentHandle :: ptr
  ControllerHandle :: ptr
  OAttributes :: u32
  OpenCount :: u32

text \<open>The open list of an interface is owned by it, so its nodes are kept by value.\<close>

record protocol_interface =
  IHandle :: nat
  IProtocol :: nat
  Interface :: ptr
  OpenList :: "open_protocol_data list"
  OpenListCount :: u64

text \<open>\<open>Position\<close> is NULL here when it is the list head \<open>Protocol->Protocols\<close>, else the interface
  whose \<open>ByProtocol\<close> link it is.\<close>

record protocol_notify =
  NProtocol :: nat
  NEvent :: nat
  Position :: ptr

record protocol_db = core +
  handles :: "nat \<Rightarrow> ihandle option"
  gHandleList :: "nat list"
  prot_entries :: "nat \<Rightarrow> protocol_entry option"
  mProtocolDatabase :: "nat list"
  interfaces :: "nat \<Rightarrow> protocol_interface option"
  notifies :: "nat \<Rightarrow> protocol_notify option"
  next_object :: nat
  gHandleDatabaseKey :: u64
  mEfiLocateHandleRequest :: u64
  gDxeCoreImageHandle :: ptr
  memory :: "nat \<Rightarrow> u8"

text \<open>\<open>memory\<close> holds the bytes that device path interfaces point to; the database only reads it.\<close>

type_synonym 'x db = "'x protocol_db_scheme"

abbreviation EFI_OPEN_PROTOCOL_BY_HANDLE_PROTOCOL :: u32 where "EFI_OPEN_PROTOCOL_BY_HANDLE_PROTOCOL \<equiv> 0x01"
abbreviation EFI_OPEN_PROTOCOL_GET_PROTOCOL :: u32 where "EFI_OPEN_PROTOCOL_GET_PROTOCOL \<equiv> 0x02"
abbreviation EFI_OPEN_PROTOCOL_TEST_PROTOCOL :: u32 where "EFI_OPEN_PROTOCOL_TEST_PROTOCOL \<equiv> 0x04"
abbreviation EFI_OPEN_PROTOCOL_BY_CHILD_CONTROLLER :: u32 where "EFI_OPEN_PROTOCOL_BY_CHILD_CONTROLLER \<equiv> 0x08"
abbreviation EFI_OPEN_PROTOCOL_BY_DRIVER :: u32 where "EFI_OPEN_PROTOCOL_BY_DRIVER \<equiv> 0x10"
abbreviation EFI_OPEN_PROTOCOL_EXCLUSIVE :: u32 where "EFI_OPEN_PROTOCOL_EXCLUSIVE \<equiv> 0x20"
abbreviation EFI_OPEN_PROTOCOL_BY_DRIVER_EXCLUSIVE :: u32 where "EFI_OPEN_PROTOCOL_BY_DRIVER_EXCLUSIVE \<equiv> 0x30"

abbreviation EFI_NATIVE_INTERFACE :: u32 where "EFI_NATIVE_INTERFACE \<equiv> 0"

abbreviation gEfiDevicePathProtocolGuid :: guid where
  "gEfiDevicePathProtocolGuid \<equiv> 0x09576E916D3F11D28E3900A0C969723B"

abbreviation gEfiDriverBindingProtocolGuid :: guid where
  "gEfiDriverBindingProtocolGuid \<equiv> 0x18A031ABB44311D1A5BC00A0C9693EFB"

text \<open>The allocations of the database operations, each of which can fail.\<close>

datatype alloc_site = AllocOpenData | AllocEntry | AllocInterface | AllocHandle | AllocNotify | AllocBuffer

type_synonym alloc = "alloc_site \<Rightarrow> bool"

text \<open>The values before anything is installed.\<close>

definition initial_db :: "core \<Rightarrow> protocol_db" where
  "initial_db s = core.extend s \<lparr>handles = Map.empty, gHandleList = [], prot_entries = Map.empty,
     mProtocolDatabase = [], interfaces = Map.empty, notifies = Map.empty, next_object = 1,
     gHandleDatabaseKey = 0, mEfiLocateHandleRequest = 0, gDxeCoreImageHandle = None, memory = (\<lambda>_. 0)\<rparr>"

text \<open>Updates of one object.\<close>

definition set_handle :: "nat \<Rightarrow> ihandle \<Rightarrow> 'x db \<Rightarrow> 'x db" where
  "set_handle h H s = s\<lparr>handles := (handles s)(h := Some H)\<rparr>"

definition set_entry :: "nat \<Rightarrow> protocol_entry \<Rightarrow> 'x db \<Rightarrow> 'x db" where
  "set_entry e E s = s\<lparr>prot_entries := (prot_entries s)(e := Some E)\<rparr>"

definition set_interface :: "nat \<Rightarrow> protocol_interface \<Rightarrow> 'x db \<Rightarrow> 'x db" where
  "set_interface i I s = s\<lparr>interfaces := (interfaces s)(i := Some I)\<rparr>"

definition set_notify :: "nat \<Rightarrow> protocol_notify \<Rightarrow> 'x db \<Rightarrow> 'x db" where
  "set_notify n N s = s\<lparr>notifies := (notifies s)(n := Some N)\<rparr>"

section \<open>The lock\<close>

definition CoreAcquireProtocolLock :: "'x db \<Rightarrow> 'x db outcome" where
  "CoreAcquireProtocolLock s = CoreAcquireLock gProtocolDatabaseLock s"

definition CoreReleaseProtocolLock ::
  "'x protocol_db_ext core_scheme restore \<Rightarrow> 'x db \<Rightarrow> 'x db outcome" where
  "CoreReleaseProtocolLock rst s = CoreReleaseLock rst gProtocolDatabaseLock s"

section \<open>Lookups\<close>

fun Validate_walk :: "(nat \<Rightarrow> ihandle option) \<Rightarrow> nat \<Rightarrow> nat list \<Rightarrow> efi_status outcome" where
  "Validate_walk hs uh [] = Ret EFI_INVALID_PARAMETER"
| "Validate_walk hs uh (h # l) = deref (hs h) (\<lambda>_. if h = uh then Ret EFI_SUCCESS else Validate_walk hs uh l)"

definition CoreValidateHandle :: "ptr \<Rightarrow> 'x db \<Rightarrow> efi_status outcome" where
  "CoreValidateHandle UserHandle s =
     (case UserHandle of None \<Rightarrow> Ret EFI_INVALID_PARAMETER
      | Some uh \<Rightarrow> Validate_walk (handles s) uh (rev (gHandleList s)))"

fun FindEntry_walk :: "(nat \<Rightarrow> protocol_entry option) \<Rightarrow> guid \<Rightarrow> nat list \<Rightarrow> ptr outcome" where
  "FindEntry_walk es g [] = Ret None"
| "FindEntry_walk es g (e # l) = deref (es e) (\<lambda>E. if ProtocolID E = g then Ret (Some e) else FindEntry_walk es g l)"

definition CoreFindProtocolEntry :: "alloc \<Rightarrow> guid \<Rightarrow> bool \<Rightarrow> 'x db \<Rightarrow> (ptr \<times> 'x db) outcome" where
  "CoreFindProtocolEntry mem g Create s =
     ASSERT_LOCKED gProtocolDatabaseLock s
       (bind (FindEntry_walk (prot_entries s) g (mProtocolDatabase s)) (\<lambda>ProtEntry.
        if ProtEntry = None \<and> Create \<and> mem AllocEntry then
          (let e = next_object s in
           Ret (Some e, s\<lparr>prot_entries := (prot_entries s)(e := Some \<lparr>ProtocolID = g, EProtocols = [], ENotify = []\<rparr>),
                  next_object := e + 1, mProtocolDatabase := mProtocolDatabase s @ [e]\<rparr>))
        else Ret (ProtEntry, s)))"

fun FindInterface_walk ::
  "(nat \<Rightarrow> protocol_interface option) \<Rightarrow> ptr \<Rightarrow> nat \<Rightarrow> nat list \<Rightarrow> ptr outcome" where
  "FindInterface_walk ifs iface e [] = Ret None"
| "FindInterface_walk ifs iface e (i # l) =
     deref (ifs i) (\<lambda>Prot. if Interface Prot = iface \<and> IProtocol Prot = e then Ret (Some i)
       else FindInterface_walk ifs iface e l)"

definition CoreFindProtocolInterface :: "nat \<Rightarrow> guid \<Rightarrow> ptr \<Rightarrow> 'x db \<Rightarrow> ptr outcome" where
  "CoreFindProtocolInterface h g iface s =
     ASSERT_LOCKED gProtocolDatabaseLock s
       (bind (CoreFindProtocolEntry (\<lambda>_. False) g False s) (\<lambda>(ProtEntry, s1).
        case ProtEntry of None \<Rightarrow> Ret None
        | Some e \<Rightarrow> deref (handles s1 h) (\<lambda>H. FindInterface_walk (interfaces s1) iface e (HProtocols H))))"

fun GetInterface_walk ::
  "(nat \<Rightarrow> protocol_interface option) \<Rightarrow> (nat \<Rightarrow> protocol_entry option) \<Rightarrow> guid \<Rightarrow> nat list \<Rightarrow> ptr outcome" where
  "GetInterface_walk ifs es g [] = Ret None"
| "GetInterface_walk ifs es g (i # l) =
     deref (ifs i) (\<lambda>Prot. deref (es (IProtocol Prot)) (\<lambda>ProtEntry.
       if ProtocolID ProtEntry = g then Ret (Some i) else GetInterface_walk ifs es g l))"

definition CoreGetProtocolInterface :: "ptr \<Rightarrow> guid \<Rightarrow> 'x db \<Rightarrow> ptr outcome" where
  "CoreGetProtocolInterface UserHandle g s =
     bind (CoreValidateHandle UserHandle s) (\<lambda>Status.
     if EFI_ERROR Status then Ret None
     else deref (handles s (the UserHandle)) (\<lambda>H.
       GetInterface_walk (interfaces s) (prot_entries s) g (HProtocols H)))"

definition CoreGetHandleDatabaseKey :: "'x db \<Rightarrow> u64" where
  "CoreGetHandleDatabaseKey s = gHandleDatabaseKey s"

section \<open>Notifications\<close>

text \<open>\<open>CoreNotifyProtocolEntry\<close> signals the event of every notify record of the entry.\<close>

fun NotifyProtocol_walk ::
  "'x protocol_db_ext core_scheme restore \<Rightarrow> nat list \<Rightarrow> 'x db \<Rightarrow> 'x db outcome" where
  "NotifyProtocol_walk rst [] s = Ret s"
| "NotifyProtocol_walk rst (n # l) s =
     deref (notifies s n) (\<lambda>ProtNotify.
       bind (CoreSignalEvent rst (Some (NEvent ProtNotify)) s) (\<lambda>(_, s1). NotifyProtocol_walk rst l s1))"

definition CoreNotifyProtocolEntry ::
  "'x protocol_db_ext core_scheme restore \<Rightarrow> nat \<Rightarrow> 'x db \<Rightarrow> 'x db outcome" where
  "CoreNotifyProtocolEntry rst e s =
     ASSERT_LOCKED gProtocolDatabaseLock s
       (deref (prot_entries s e) (\<lambda>E. NotifyProtocol_walk rst (ENotify E) s))"

text \<open>\<open>prev_link i l\<close>: the \<open>BackLink\<close> of \<open>i\<close> in the list \<open>l\<close>, NULL for the list head.\<close>

definition prev_link :: "nat \<Rightarrow> nat list \<Rightarrow> ptr" where
  "prev_link i l = (case takeWhile (\<lambda>x. x \<noteq> i) l of [] \<Rightarrow> None | ys \<Rightarrow> Some (last ys))"

fun BackUp_walk :: "nat \<Rightarrow> ptr \<Rightarrow> nat list \<Rightarrow> 'x db \<Rightarrow> 'x db outcome" where
  "BackUp_walk i prev [] s = Ret s"
| "BackUp_walk i prev (n # l) s =
     deref (notifies s n) (\<lambda>ProtNotify.
       BackUp_walk i prev l
         (if Position ProtNotify = Some i then set_notify n (ProtNotify\<lparr>Position := prev\<rparr>) s else s))"

text \<open>The interface leaves the list of its protocol; notify positions on it move back by one.\<close>

definition CoreRemoveInterfaceFromProtocol :: "nat \<Rightarrow> guid \<Rightarrow> ptr \<Rightarrow> 'x db \<Rightarrow> (ptr \<times> 'x db) outcome" where
  "CoreRemoveInterfaceFromProtocol h g iface s =
     ASSERT_LOCKED gProtocolDatabaseLock s
       (bind (CoreFindProtocolInterface h g iface s) (\<lambda>found.
        case found of None \<Rightarrow> Ret (None, s)
        | Some i \<Rightarrow>
          deref (interfaces s i) (\<lambda>Prot.
          deref (prot_entries s (IProtocol Prot)) (\<lambda>E.
          bind (BackUp_walk i (prev_link i (EProtocols E)) (ENotify E) s) (\<lambda>s1.
          if i \<in> set (EProtocols E)
          then Ret (Some i, set_entry (IProtocol Prot) (E\<lparr>EProtocols := remove1 i (EProtocols E)\<rparr>) s1)
          else Fault)))))"

definition CoreRegisterProtocolNotify ::
  "'x protocol_db_ext core_scheme restore \<Rightarrow> alloc \<Rightarrow> guid option \<Rightarrow> ptr \<Rightarrow> bool \<Rightarrow> 'x db \<Rightarrow>
     (efi_status \<times> ptr \<times> 'x db) outcome" where
  "CoreRegisterProtocolNotify rst mem Protocol Event Registration s =
     (if Protocol = None \<or> Event = None \<or> \<not> Registration then Ret (EFI_INVALID_PARAMETER, None, s)
      else
        bind (CoreAcquireProtocolLock s) (\<lambda>s1.
        bind (CoreFindProtocolEntry mem (the Protocol) True s1) (\<lambda>(ProtEntry, s2).
        bind (case ProtEntry of None \<Rightarrow> Ret (None, s2)
              | Some e \<Rightarrow>
                if \<not> mem AllocNotify then Ret (None, s2)
                else
                  deref (events s2 (the Event)) (\<lambda>ev.
                  deref (prot_entries s2 e) (\<lambda>E.
                  let n = next_object s2;
                      s3 = set_event (the Event)
                             (ev\<lparr>ExFlag := ExFlag ev OR EVT_EXFLAG_EVENT_PROTOCOL_NOTIFICATION\<rparr>) s2
                  in Ret (Some n,
                       set_entry e (E\<lparr>ENotify := ENotify E @ [n]\<rparr>)
                         (s3\<lparr>notifies := (notifies s3)(n := Some \<lparr>NProtocol = e, NEvent = the Event, Position = None\<rparr>),
                            next_object := n + 1\<rparr>)))))
          (\<lambda>(ProtNotify, s4).
        bind (CoreReleaseProtocolLock rst s4) (\<lambda>s5.
        Ret (if ProtNotify = None then EFI_OUT_OF_RESOURCES else EFI_SUCCESS, ProtNotify, s5))))))"

text \<open>Unregistering: the first record of the event is removed, until there is none left.\<close>

fun FindNotify_walk :: "(nat \<Rightarrow> protocol_notify option) \<Rightarrow> nat \<Rightarrow> nat list \<Rightarrow> ptr outcome" where
  "FindNotify_walk ns ev [] = Ret None"
| "FindNotify_walk ns ev (n # l) =
     deref (ns n) (\<lambda>N. if NEvent N = ev then Ret (Some n) else FindNotify_walk ns ev l)"

fun UnregisterEvent_walk ::
  "(nat \<Rightarrow> protocol_entry option) \<Rightarrow> (nat \<Rightarrow> protocol_notify option) \<Rightarrow> nat \<Rightarrow> nat list \<Rightarrow> (nat \<times> nat) option outcome" where
  "UnregisterEvent_walk es ns ev [] = Ret None"
| "UnregisterEvent_walk es ns ev (e # l) =
     deref (es e) (\<lambda>E.
     bind (FindNotify_walk ns ev (ENotify E)) (\<lambda>found.
       case found of Some n \<Rightarrow> Ret (Some (e, n)) | None \<Rightarrow> UnregisterEvent_walk es ns ev l))"

definition CoreUnregisterProtocolNotifyEvent ::
  "'x protocol_db_ext core_scheme restore \<Rightarrow> nat \<Rightarrow> 'x db \<Rightarrow> (efi_status \<times> 'x db) outcome" where
  "CoreUnregisterProtocolNotifyEvent rst Event s =
     bind (CoreAcquireProtocolLock s) (\<lambda>s1.
     bind (UnregisterEvent_walk (prot_entries s1) (notifies s1) Event (mProtocolDatabase s1)) (\<lambda>found.
       case found of
         None \<Rightarrow> bind (CoreReleaseProtocolLock rst s1) (\<lambda>s2. Ret (EFI_NOT_FOUND, s2))
       | Some (e, n) \<Rightarrow>
           deref (prot_entries s1 e) (\<lambda>E.
           let s2 = set_entry e (E\<lparr>ENotify := remove1 n (ENotify E)\<rparr>)
                      (s1\<lparr>notifies := (notifies s1)(n := None)\<rparr>)
           in bind (CoreReleaseProtocolLock rst s2) (\<lambda>s3. Ret (EFI_SUCCESS, s3)))))"

fun CoreUnregisterProtocolNotify ::
  "'x protocol_db_ext core_scheme restore \<Rightarrow> nat \<Rightarrow> nat \<Rightarrow> 'x db \<Rightarrow> 'x db outcome" where
  "CoreUnregisterProtocolNotify rst 0 Event s = NoFuel"
| "CoreUnregisterProtocolNotify rst (Suc k) Event s =
     bind (CoreUnregisterProtocolNotifyEvent rst Event s) (\<lambda>(Status, s1).
     if EFI_ERROR Status then Ret s1 else CoreUnregisterProtocolNotify rst k Event s1)"

end
