(* ===== verification/ProtocolOps.thy ===== *)
theory ProtocolOps
  imports ProtocolState
begin

text \<open>
  The services of \<open>Handle.c\<close> and \<open>Notify.c\<close> over the state of \<open>ProtocolState\<close>: installing,
  reinstalling and uninstalling interfaces, opening and closing them, the listings and the reset.
  \<open>CoreDisconnectController\<close> and \<open>CoreConnectController\<close> run the driver bindings, which call the
  services of this theory again; like \<open>CoreRestoreTpl\<close> they are arguments (\<open>disc\<close>, \<open>conn\<close>) of every
  service that calls them.
\<close>

type_synonym 'x db_restore = "'x protocol_db_ext core_scheme restore"

text \<open>Controller, driver image and child.\<close>

type_synonym 'x disconnect = "ptr \<Rightarrow> ptr \<Rightarrow> ptr \<Rightarrow> 'x db \<Rightarrow> (efi_status \<times> 'x db) outcome"

text \<open>Controller, driver image list, remaining device path, recursive.\<close>

type_synonym 'x connect = "ptr \<Rightarrow> ptr list option \<Rightarrow> ptr \<Rightarrow> bool \<Rightarrow> 'x db \<Rightarrow> (efi_status \<times> 'x db) outcome"

section \<open>Opening\<close>

text \<open>The check of the handles that the attribute requires.\<close>

definition validate_all :: "ptr list \<Rightarrow> 'x db \<Rightarrow> efi_status outcome" where
  "validate_all hs s = foldr (\<lambda>h k. bind (CoreValidateHandle h s) (\<lambda>Status.
     if EFI_ERROR Status then Ret Status else k)) hs (Ret EFI_SUCCESS)"

definition Open_validate :: "ptr \<Rightarrow> ptr \<Rightarrow> ptr \<Rightarrow> u32 \<Rightarrow> 'x db \<Rightarrow> efi_status outcome" where
  "Open_validate UserHandle ImageHandle Controller Attributes s =
     bind (CoreValidateHandle UserHandle s) (\<lambda>Status.
     if EFI_ERROR Status then Ret Status
     else if Attributes = EFI_OPEN_PROTOCOL_BY_CHILD_CONTROLLER then
       bind (validate_all [ImageHandle, Controller] s) (\<lambda>Status.
       if EFI_ERROR Status then Ret Status
       else if UserHandle = Controller then Ret EFI_INVALID_PARAMETER else Ret EFI_SUCCESS)
     else if Attributes = EFI_OPEN_PROTOCOL_BY_DRIVER \<or> Attributes = EFI_OPEN_PROTOCOL_BY_DRIVER_EXCLUSIVE then
       validate_all [ImageHandle, Controller] s
     else if Attributes = EFI_OPEN_PROTOCOL_EXCLUSIVE then validate_all [ImageHandle] s
     else if Attributes = EFI_OPEN_PROTOCOL_BY_HANDLE_PROTOCOL \<or> Attributes = EFI_OPEN_PROTOCOL_GET_PROTOCOL \<or>
       Attributes = EFI_OPEN_PROTOCOL_TEST_PROTOCOL then Ret EFI_SUCCESS
     else Ret EFI_INVALID_PARAMETER)"

text \<open>
  The scan of the open list. A record of the same agent, controller and attributes is counted up
  (an exclusive one only when it is also by driver); otherwise the scan reports whether some record
  is by driver and whether some record is exclusive. \<open>pre\<close> is the part already passed.
\<close>

datatype open_scan = Reopened "open_protocol_data list" | Scanned bool bool

fun Open_scan ::
  "ptr \<Rightarrow> ptr \<Rightarrow> u32 \<Rightarrow> bool \<Rightarrow> bool \<Rightarrow> open_protocol_data list \<Rightarrow> open_protocol_data list \<Rightarrow> open_scan" where
  "Open_scan ih ch attr ByDriver Exclusive pre [] = Scanned ByDriver Exclusive"
| "Open_scan ih ch attr ByDriver Exclusive pre (d # ds) =
     (let ExactMatch = AgentHandle d = ih \<and> OAttributes d = attr \<and> ControllerHandle d = ch;
          again = Reopened (pre @ d\<lparr>OpenCount := OpenCount d + 1\<rparr> # ds)
      in if OAttributes d AND EFI_OPEN_PROTOCOL_BY_DRIVER \<noteq> 0 \<and> ExactMatch then again
         else if OAttributes d AND EFI_OPEN_PROTOCOL_EXCLUSIVE \<noteq> 0 then
           Open_scan ih ch attr (ByDriver \<or> OAttributes d AND EFI_OPEN_PROTOCOL_BY_DRIVER \<noteq> 0) True (pre @ [d]) ds
         else if ExactMatch then again
         else Open_scan ih ch attr (ByDriver \<or> OAttributes d AND EFI_OPEN_PROTOCOL_BY_DRIVER \<noteq> 0) Exclusive (pre @ [d]) ds)"

text \<open>The first record that is by driver.\<close>

definition by_driver :: "open_protocol_data list \<Rightarrow> open_protocol_data option" where
  "by_driver ds = find (\<lambda>d. OAttributes d AND EFI_OPEN_PROTOCOL_BY_DRIVER \<noteq> 0) ds"

text \<open>An exclusive open disconnects every driver first.\<close>

fun Open_disconnect ::
  "'x db_restore \<Rightarrow> 'x disconnect \<Rightarrow> nat \<Rightarrow> ptr \<Rightarrow> nat \<Rightarrow> 'x db \<Rightarrow> (efi_status \<times> 'x db) outcome" where
  "Open_disconnect rst disc 0 UserHandle i s = NoFuel"
| "Open_disconnect rst disc (Suc k) UserHandle i s =
     deref (interfaces s i) (\<lambda>Prot.
       case by_driver (OpenList Prot) of None \<Rightarrow> Ret (EFI_SUCCESS, s)
       | Some d \<Rightarrow>
         bind (CoreReleaseProtocolLock rst s) (\<lambda>s1.
         bind (disc UserHandle (AgentHandle d) None s1) (\<lambda>(Status, s2).
         bind (CoreAcquireProtocolLock s2) (\<lambda>s3.
         if EFI_ERROR Status then Ret (EFI_ACCESS_DENIED, s3)
         else Open_disconnect rst disc k UserHandle i s3))))"

text \<open>A new record at the tail of the open list.\<close>

definition Open_record ::
  "alloc \<Rightarrow> nat \<Rightarrow> ptr \<Rightarrow> ptr \<Rightarrow> u32 \<Rightarrow> 'x db \<Rightarrow> (efi_status \<times> 'x db) outcome" where
  "Open_record mem i ImageHandle Controller Attributes s =
     (if ImageHandle = None then Ret (EFI_SUCCESS, s)
      else if \<not> mem AllocOpenData then Ret (EFI_OUT_OF_RESOURCES, s)
      else deref (interfaces s i) (\<lambda>Prot. Ret (EFI_SUCCESS, set_interface i (Prot\<lparr>OpenList := OpenList Prot @
          [\<lparr>AgentHandle = ImageHandle, ControllerHandle = Controller, OAttributes = Attributes, OpenCount = 1\<rparr>],
          OpenListCount := OpenListCount Prot + 1\<rparr>) s)))"

definition Open_apply ::
  "'x db_restore \<Rightarrow> 'x disconnect \<Rightarrow> alloc \<Rightarrow> nat \<Rightarrow> ptr \<Rightarrow> nat \<Rightarrow> ptr \<Rightarrow> ptr \<Rightarrow> u32 \<Rightarrow> 'x db \<Rightarrow>
     (efi_status \<times> 'x db) outcome" where
  "Open_apply rst disc mem k UserHandle i ImageHandle Controller Attributes s =
     deref (interfaces s i) (\<lambda>Prot.
       case Open_scan ImageHandle Controller Attributes False False [] (OpenList Prot) of
         Reopened ds \<Rightarrow> Ret (EFI_SUCCESS, set_interface i (Prot\<lparr>OpenList := ds\<rparr>) s)
       | Scanned ByDriver Exclusive \<Rightarrow>
         if Attributes = EFI_OPEN_PROTOCOL_BY_DRIVER then
           if Exclusive \<or> ByDriver then Ret (EFI_ACCESS_DENIED, s)
           else Open_record mem i ImageHandle Controller Attributes s
         else if Attributes = EFI_OPEN_PROTOCOL_BY_DRIVER_EXCLUSIVE \<or> Attributes = EFI_OPEN_PROTOCOL_EXCLUSIVE then
           if Exclusive then Ret (EFI_ACCESS_DENIED, s)
           else bind (if ByDriver then Open_disconnect rst disc k UserHandle i s else Ret (EFI_SUCCESS, s))
                  (\<lambda>(Status, s1).
                    if EFI_ERROR Status then Ret (Status, s1)
                    else Open_record mem i ImageHandle Controller Attributes s1)
         else Open_record mem i ImageHandle Controller Attributes s)"

text \<open>What is stored through the \<open>Interface\<close> pointer: nothing, or a value.\<close>

definition Open_result :: "u32 \<Rightarrow> efi_status \<Rightarrow> ptr \<Rightarrow> 'x db \<Rightarrow> ptr option outcome" where
  "Open_result Attributes Status found s =
     (if Attributes = EFI_OPEN_PROTOCOL_TEST_PROTOCOL then Ret None
      else if \<not> EFI_ERROR Status \<or> Status = EFI_ALREADY_STARTED then
        ASSERT (found \<noteq> None) (deref (interfaces s (the found)) (\<lambda>Prot. Ret (Some (Interface Prot))))
      else if Status = EFI_UNSUPPORTED then Ret (Some None)
      else Ret None)"

text \<open>\<open>HasInterface\<close> says whether the \<open>Interface\<close> pointer of the caller is not NULL.\<close>

definition CoreOpenProtocol ::
  "'x db_restore \<Rightarrow> 'x disconnect \<Rightarrow> alloc \<Rightarrow> nat \<Rightarrow> ptr \<Rightarrow> guid option \<Rightarrow> bool \<Rightarrow> ptr \<Rightarrow> ptr \<Rightarrow> u32 \<Rightarrow> 'x db \<Rightarrow>
     (efi_status \<times> ptr option \<times> 'x db) outcome" where
  "CoreOpenProtocol rst disc mem k UserHandle Protocol HasInterface ImageHandle Controller Attributes s =
     (case Protocol of None \<Rightarrow> Ret (EFI_INVALID_PARAMETER, None, s)
      | Some g \<Rightarrow>
        if Attributes \<noteq> EFI_OPEN_PROTOCOL_TEST_PROTOCOL \<and> \<not> HasInterface then Ret (EFI_INVALID_PARAMETER, None, s)
        else
          bind (Open_validate UserHandle ImageHandle Controller Attributes s) (\<lambda>Status.
          if EFI_ERROR Status then Ret (Status, None, s)
          else
            bind (CoreAcquireProtocolLock s) (\<lambda>s1.
            bind (CoreGetProtocolInterface UserHandle g s1) (\<lambda>found.
            bind (case found of None \<Rightarrow> Ret (EFI_UNSUPPORTED, s1)
                  | Some i \<Rightarrow> Open_apply rst disc mem k UserHandle i ImageHandle Controller Attributes s1)
              (\<lambda>(Status, s2).
            bind (Open_result Attributes Status found s2) (\<lambda>out.
            bind (CoreReleaseProtocolLock rst s2) (\<lambda>s3. Ret (Status, out, s3))))))))"

definition CoreHandleProtocol ::
  "'x db_restore \<Rightarrow> 'x disconnect \<Rightarrow> alloc \<Rightarrow> nat \<Rightarrow> ptr \<Rightarrow> guid option \<Rightarrow> bool \<Rightarrow> 'x db \<Rightarrow>
     (efi_status \<times> ptr option \<times> 'x db) outcome" where
  "CoreHandleProtocol rst disc mem k UserHandle Protocol HasInterface s =
     CoreOpenProtocol rst disc mem k UserHandle Protocol HasInterface (gDxeCoreImageHandle s) None
       EFI_OPEN_PROTOCOL_BY_HANDLE_PROTOCOL s"

section \<open>Closing and listing\<close>

text \<open>Every record of the agent and controller is removed, and the count goes down with each.\<close>

fun Close_walk :: "ptr \<Rightarrow> ptr \<Rightarrow> efi_status \<Rightarrow> u64 \<Rightarrow> open_protocol_data list \<Rightarrow>
    efi_status \<times> u64 \<times> open_protocol_data list" where
  "Close_walk ah ch Status n [] = (Status, n, [])"
| "Close_walk ah ch Status n (d # ds) =
     (if AgentHandle d = ah \<and> ControllerHandle d = ch then Close_walk ah ch EFI_SUCCESS (n - 1) ds
      else case Close_walk ah ch Status n ds of (st, m, l) \<Rightarrow> (st, m, d # l))"

definition CoreCloseProtocol ::
  "'x db_restore \<Rightarrow> ptr \<Rightarrow> guid option \<Rightarrow> ptr \<Rightarrow> ptr \<Rightarrow> 'x db \<Rightarrow> (efi_status \<times> 'x db) outcome" where
  "CoreCloseProtocol rst UserHandle Protocol Agent Controller s =
     bind (validate_all ([UserHandle, Agent] @ (if Controller \<noteq> None then [Controller] else [])) s) (\<lambda>Status.
     if EFI_ERROR Status then Ret (Status, s)
     else case Protocol of None \<Rightarrow> Ret (EFI_INVALID_PARAMETER, s)
     | Some g \<Rightarrow>
       bind (CoreAcquireProtocolLock s) (\<lambda>s1.
       bind (CoreGetProtocolInterface UserHandle g s1) (\<lambda>found.
       bind (case found of None \<Rightarrow> Ret (EFI_NOT_FOUND, s1)
             | Some i \<Rightarrow> deref (interfaces s1 i) (\<lambda>Prot.
                 case Close_walk Agent Controller EFI_NOT_FOUND (OpenListCount Prot) (OpenList Prot) of
                   (Status, n, l) \<Rightarrow> Ret (Status, set_interface i (Prot\<lparr>OpenList := l, OpenListCount := n\<rparr>) s1)))
         (\<lambda>(Status, s2).
       bind (CoreReleaseProtocolLock rst s2) (\<lambda>s3. Ret (Status, s3))))))"

text \<open>The records of an interface, copied to a new buffer; \<open>None\<close> is the NULL buffer.\<close>

definition CoreOpenProtocolInformation ::
  "'x db_restore \<Rightarrow> alloc \<Rightarrow> ptr \<Rightarrow> guid \<Rightarrow> 'x db \<Rightarrow>
     (efi_status \<times> open_protocol_data list option \<times> u64 \<times> 'x db) outcome" where
  "CoreOpenProtocolInformation rst mem UserHandle g s =
     bind (CoreAcquireProtocolLock s) (\<lambda>s1.
     bind (CoreGetProtocolInterface UserHandle g s1) (\<lambda>found.
     bind (case found of None \<Rightarrow> Ret (EFI_NOT_FOUND, None, 0)
           | Some i \<Rightarrow> deref (interfaces s1 i) (\<lambda>Prot.
               ASSERT (of_nat (length (OpenList Prot)) = OpenListCount Prot)
                 (if \<not> mem AllocBuffer then Ret (EFI_OUT_OF_RESOURCES, None, 0)
                  else Ret (EFI_SUCCESS, Some (OpenList Prot), of_nat (length (OpenList Prot))))))
       (\<lambda>(Status, EntryBuffer, EntryCount).
     bind (CoreReleaseProtocolLock rst s1) (\<lambda>s2. Ret (Status, EntryBuffer, EntryCount, s2)))))"

fun ProtocolIDs_walk ::
  "(nat \<Rightarrow> protocol_interface option) \<Rightarrow> (nat \<Rightarrow> protocol_entry option) \<Rightarrow> nat list \<Rightarrow> guid list outcome" where
  "ProtocolIDs_walk ifs es [] = Ret []"
| "ProtocolIDs_walk ifs es (i # l) =
     deref (ifs i) (\<lambda>Prot. deref (es (IProtocol Prot)) (\<lambda>E.
       bind (ProtocolIDs_walk ifs es l) (\<lambda>gs. Ret (ProtocolID E # gs))))"

text \<open>\<open>HasBuffer\<close>, \<open>HasCount\<close>: the output pointers are not NULL. The result is the GUID list.\<close>

definition CoreProtocolsPerHandle ::
  "'x db_restore \<Rightarrow> alloc \<Rightarrow> ptr \<Rightarrow> bool \<Rightarrow> bool \<Rightarrow> 'x db \<Rightarrow> (efi_status \<times> guid list \<times> 'x db) outcome" where
  "CoreProtocolsPerHandle rst mem UserHandle HasBuffer HasCount s =
     bind (CoreValidateHandle UserHandle s) (\<lambda>Status.
     if EFI_ERROR Status then Ret (Status, [], s)
     else if \<not> HasBuffer \<or> \<not> HasCount then Ret (EFI_INVALID_PARAMETER, [], s)
     else
       bind (CoreAcquireProtocolLock s) (\<lambda>s1.
       deref (handles s1 (the UserHandle)) (\<lambda>H.
       bind (if HProtocols H = [] then Ret (EFI_INVALID_PARAMETER, [])
             else if \<not> mem AllocBuffer then Ret (EFI_OUT_OF_RESOURCES, [])
             else bind (ProtocolIDs_walk (interfaces s1) (prot_entries s1) (HProtocols H)) (\<lambda>gs. Ret (EFI_SUCCESS, gs)))
         (\<lambda>(Status, gs).
       bind (CoreReleaseProtocolLock rst s1) (\<lambda>s2. Ret (Status, gs, s2))))))"

section \<open>Installing\<close>

text \<open>
  The part of \<open>CoreInstallProtocolInterfaceNotify\<close> under the lock. \<open>Status0\<close> is the status so far,
  which is also the one of a failed allocation of the protocol entry. The result is the status, the
  handle, and the state.
\<close>

definition Install_handle ::
  "alloc \<Rightarrow> ptr \<Rightarrow> 'x db \<Rightarrow> (efi_status \<times> ptr \<times> 'x db) outcome" where
  "Install_handle mem UserHandle s =
     (case UserHandle of
        None \<Rightarrow>
          if \<not> mem AllocHandle then Ret (EFI_OUT_OF_RESOURCES, None, s)
          else let h = next_object s; key = gHandleDatabaseKey s + 1
               in Ret (EFI_SUCCESS, Some h,
                    s\<lparr>handles := (handles s)(h := Some \<lparr>HProtocols = [], LocateRequest = 0, Key = key\<rparr>),
                      next_object := h + 1, gHandleDatabaseKey := key, gHandleList := gHandleList s @ [h]\<rparr>)
      | Some h \<Rightarrow> bind (CoreValidateHandle UserHandle s) (\<lambda>Status. Ret (Status, UserHandle, s)))"

definition Install_link ::
  "'x db_restore \<Rightarrow> nat \<Rightarrow> nat \<Rightarrow> nat \<Rightarrow> guid \<Rightarrow> ptr \<Rightarrow> bool \<Rightarrow> 'x db \<Rightarrow> 'x db outcome" where
  "Install_link rst i h e g iface Notify s =
     bind (CoreFindProtocolInterface h g iface s) (\<lambda>found.
     ASSERT (found = None)
       (deref (handles s h) (\<lambda>H.
        deref (prot_entries s e) (\<lambda>E.
        let s1 = set_entry e (E\<lparr>EProtocols := EProtocols E @ [i]\<rparr>)
                   (set_handle h (H\<lparr>HProtocols := i # HProtocols H\<rparr>)
                     (set_interface i \<lparr>IHandle = h, IProtocol = e, Interface = iface, OpenList = [], OpenListCount = 0\<rparr> s))
        in if Notify then CoreNotifyProtocolEntry rst e s1 else Ret s1))))"

definition Install_locked ::
  "'x db_restore \<Rightarrow> alloc \<Rightarrow> efi_status \<Rightarrow> ptr \<Rightarrow> guid \<Rightarrow> ptr \<Rightarrow> bool \<Rightarrow> 'x db \<Rightarrow>
     (efi_status \<times> ptr \<times> 'x db) outcome" where
  "Install_locked rst mem Status0 UserHandle g iface Notify s =
     bind (CoreFindProtocolEntry mem g True s) (\<lambda>(ProtEntry, s1).
     case ProtEntry of None \<Rightarrow> Ret (Status0, None, s1)
     | Some e \<Rightarrow>
       if \<not> mem AllocInterface then Ret (EFI_OUT_OF_RESOURCES, None, s1)
       else
         let i = next_object s1; s2 = s1\<lparr>next_object := i + 1\<rparr>
         in bind (Install_handle mem UserHandle s2) (\<lambda>(Status, Handle, s3).
            if EFI_ERROR Status then Ret (Status, Handle, s3)
            else bind (Install_link rst i (the Handle) e g iface Notify s3) (\<lambda>s4. Ret (EFI_SUCCESS, Handle, s4))))"

text \<open>
  \<open>UserHandle\<close> is \<open>None\<close> for the NULL pointer, else the handle it points to; the second component
  of the result is the handle stored there afterwards. A failed call gives the interface back to the
  allocator, which in the model was never put into the heap.
\<close>

definition CoreInstallProtocolInterfaceNotify ::
  "'x db_restore \<Rightarrow> 'x disconnect \<Rightarrow> alloc \<Rightarrow> nat \<Rightarrow> ptr option \<Rightarrow> guid option \<Rightarrow> u32 \<Rightarrow> ptr \<Rightarrow> bool \<Rightarrow> 'x db \<Rightarrow>
     (efi_status \<times> ptr \<times> 'x db) outcome" where
  "CoreInstallProtocolInterfaceNotify rst disc mem k UserHandle Protocol InterfaceType iface Notify s =
     (case UserHandle of None \<Rightarrow> Ret (EFI_INVALID_PARAMETER, None, s)
      | Some uh \<Rightarrow>
        case Protocol of None \<Rightarrow> Ret (EFI_INVALID_PARAMETER, uh, s)
        | Some g \<Rightarrow>
          if InterfaceType \<noteq> EFI_NATIVE_INTERFACE then Ret (EFI_INVALID_PARAMETER, uh, s)
          else
            bind (if uh \<noteq> None then CoreHandleProtocol rst disc mem k uh Protocol True s
                  else Ret (EFI_OUT_OF_RESOURCES, None, s)) (\<lambda>(Status0, _, s1).
            if uh \<noteq> None \<and> \<not> EFI_ERROR Status0 then Ret (EFI_INVALID_PARAMETER, uh, s1)
            else
              bind (CoreAcquireProtocolLock s1) (\<lambda>s2.
              bind (Install_locked rst mem Status0 uh g iface Notify s2) (\<lambda>(Status, Handle, s3).
              bind (CoreReleaseProtocolLock rst s3) (\<lambda>s4.
              Ret (Status, if EFI_ERROR Status then uh else Handle, s4))))))"

definition CoreInstallProtocolInterface ::
  "'x db_restore \<Rightarrow> 'x disconnect \<Rightarrow> alloc \<Rightarrow> nat \<Rightarrow> ptr option \<Rightarrow> guid option \<Rightarrow> u32 \<Rightarrow> ptr \<Rightarrow> 'x db \<Rightarrow>
     (efi_status \<times> ptr \<times> 'x db) outcome" where
  "CoreInstallProtocolInterface rst disc mem k UserHandle Protocol InterfaceType iface s =
     CoreInstallProtocolInterfaceNotify rst disc mem k UserHandle Protocol InterfaceType iface True s"

section \<open>Uninstalling and reinstalling\<close>

text \<open>The loop that disconnects the drivers of an interface, until one refuses or none is left.\<close>

fun Disconnect_loop ::
  "'x db_restore \<Rightarrow> 'x disconnect \<Rightarrow> nat \<Rightarrow> efi_status \<Rightarrow> ptr \<Rightarrow> nat \<Rightarrow> 'x db \<Rightarrow> (efi_status \<times> 'x db) outcome" where
  "Disconnect_loop rst disc 0 Status UserHandle i s = NoFuel"
| "Disconnect_loop rst disc (Suc k) Status UserHandle i s =
     deref (interfaces s i) (\<lambda>Prot.
       case by_driver (OpenList Prot) of None \<Rightarrow> Ret (Status, s)
       | Some d \<Rightarrow>
         bind (CoreReleaseProtocolLock rst s) (\<lambda>s1.
         bind (disc UserHandle (AgentHandle d) None s1) (\<lambda>(Status, s2).
         bind (CoreAcquireProtocolLock s2) (\<lambda>s3.
         if EFI_ERROR Status then Ret (Status, s3)
         else Disconnect_loop rst disc k Status UserHandle i s3))))"

text \<open>The records that do not bind a driver: by \<open>HandleProtocol\<close>, get and test.\<close>

abbreviation passive_attributes :: u32 where
  "passive_attributes \<equiv> EFI_OPEN_PROTOCOL_BY_HANDLE_PROTOCOL OR EFI_OPEN_PROTOCOL_GET_PROTOCOL OR EFI_OPEN_PROTOCOL_TEST_PROTOCOL"

fun DropPassive_walk :: "u64 \<Rightarrow> open_protocol_data list \<Rightarrow> u64 \<times> open_protocol_data list" where
  "DropPassive_walk n [] = (n, [])"
| "DropPassive_walk n (d # ds) =
     (if OAttributes d AND passive_attributes \<noteq> 0 then DropPassive_walk (n - 1) ds
      else case DropPassive_walk n ds of (m, l) \<Rightarrow> (m, d # l))"

definition CoreDisconnectControllersUsingProtocolInterface ::
  "'x db_restore \<Rightarrow> 'x disconnect \<Rightarrow> 'x connect \<Rightarrow> nat \<Rightarrow> ptr \<Rightarrow> nat \<Rightarrow> 'x db \<Rightarrow> (efi_status \<times> 'x db) outcome" where
  "CoreDisconnectControllersUsingProtocolInterface rst disc conn k UserHandle i s =
     bind (Disconnect_loop rst disc k EFI_SUCCESS UserHandle i s) (\<lambda>(Status, s1).
     bind (if EFI_ERROR Status then Ret s1
           else deref (interfaces s1 i) (\<lambda>Prot.
             case DropPassive_walk (OpenListCount Prot) (OpenList Prot) of
               (n, l) \<Rightarrow> Ret (set_interface i (Prot\<lparr>OpenList := l, OpenListCount := n\<rparr>) s1))) (\<lambda>s2.
     bind (if EFI_ERROR Status then Ret True
           else deref (interfaces s2 i) (\<lambda>Prot. Ret (OpenListCount Prot > 0))) (\<lambda>busy.
     if busy then
       bind (CoreReleaseProtocolLock rst s2) (\<lambda>s3.
       bind (conn UserHandle None None True s3) (\<lambda>(_, s4).
       bind (CoreAcquireProtocolLock s4) (\<lambda>s5. Ret (EFI_ACCESS_DENIED, s5))))
     else Ret (Status, s2))))"

text \<open>Removing the interface from its protocol and its handle, and the handle with its last interface.\<close>

definition Uninstall_remove :: "nat \<Rightarrow> guid \<Rightarrow> ptr \<Rightarrow> 'x db \<Rightarrow> (efi_status \<times> 'x db) outcome" where
  "Uninstall_remove h g iface s =
     bind (CoreRemoveInterfaceFromProtocol h g iface s) (\<lambda>(found, s1).
     bind (case found of None \<Rightarrow> Ret (EFI_NOT_FOUND, s1)
           | Some i \<Rightarrow>
             deref (handles s1 h) (\<lambda>H.
             let key = gHandleDatabaseKey s1 + 1
             in if i \<in> set (HProtocols H)
                then Ret (EFI_SUCCESS,
                  (set_handle h (H\<lparr>Key := key, HProtocols := remove1 i (HProtocols H)\<rparr>)
                    (s1\<lparr>gHandleDatabaseKey := key, interfaces := (interfaces s1)(i := None)\<rparr>)))
                else Fault)) (\<lambda>(Status, s2).
     deref (handles s2 h) (\<lambda>H.
       if HProtocols H \<noteq> [] then Ret (Status, s2)
       else if h \<in> set (gHandleList s2)
       then Ret (Status, s2\<lparr>gHandleList := remove1 h (gHandleList s2), handles := (handles s2)(h := None)\<rparr>)
       else Fault)))"

definition CoreUninstallProtocolInterface ::
  "'x db_restore \<Rightarrow> 'x disconnect \<Rightarrow> 'x connect \<Rightarrow> nat \<Rightarrow> ptr \<Rightarrow> guid option \<Rightarrow> ptr \<Rightarrow> 'x db \<Rightarrow>
     (efi_status \<times> 'x db) outcome" where
  "CoreUninstallProtocolInterface rst disc conn k UserHandle Protocol iface s =
     (case Protocol of None \<Rightarrow> Ret (EFI_INVALID_PARAMETER, s)
      | Some g \<Rightarrow>
        bind (CoreValidateHandle UserHandle s) (\<lambda>Status.
        if EFI_ERROR Status then Ret (Status, s)
        else
          bind (CoreAcquireProtocolLock s) (\<lambda>s1.
          bind (CoreFindProtocolInterface (the UserHandle) g iface s1) (\<lambda>found.
          bind (case found of None \<Rightarrow> Ret (EFI_NOT_FOUND, s1)
                | Some i \<Rightarrow>
                  bind (CoreDisconnectControllersUsingProtocolInterface rst disc conn k UserHandle i s1)
                    (\<lambda>(Status, s2). if EFI_ERROR Status then Ret (Status, s2)
                       else Uninstall_remove (the UserHandle) g iface s2)) (\<lambda>(Status, s3).
          bind (CoreReleaseProtocolLock rst s3) (\<lambda>s4. Ret (Status, s4)))))))"

text \<open>After the removal from the protocol: new interface, tail of the protocol, new key.\<close>

definition Reinstall_replace :: "nat \<Rightarrow> nat \<Rightarrow> ptr \<Rightarrow> 'x db \<Rightarrow> (nat \<times> 'x db) outcome" where
  "Reinstall_replace h i NewInterface s =
     deref (interfaces s i) (\<lambda>Prot.
     deref (prot_entries s (IProtocol Prot)) (\<lambda>E.
     deref (handles s h) (\<lambda>H.
       let key = gHandleDatabaseKey s + 1
       in Ret (IProtocol Prot,
            set_handle h (H\<lparr>Key := key\<rparr>)
              ((set_entry (IProtocol Prot) (E\<lparr>EProtocols := EProtocols E @ [i]\<rparr>)
                (set_interface i (Prot\<lparr>Interface := NewInterface\<rparr>) s))\<lparr>gHandleDatabaseKey := key\<rparr>)))))"

definition CoreReinstallProtocolInterface ::
  "'x db_restore \<Rightarrow> 'x disconnect \<Rightarrow> 'x connect \<Rightarrow> nat \<Rightarrow> ptr \<Rightarrow> guid option \<Rightarrow> ptr \<Rightarrow> ptr \<Rightarrow> 'x db \<Rightarrow>
     (efi_status \<times> 'x db) outcome" where
  "CoreReinstallProtocolInterface rst disc conn k UserHandle Protocol OldInterface NewInterface s =
     bind (CoreValidateHandle UserHandle s) (\<lambda>Status.
     if EFI_ERROR Status then Ret (Status, s)
     else case Protocol of None \<Rightarrow> Ret (EFI_INVALID_PARAMETER, s)
     | Some g \<Rightarrow>
       let h = the UserHandle
       in bind (CoreAcquireProtocolLock s) (\<lambda>s1.
          bind (CoreFindProtocolInterface h g OldInterface s1) (\<lambda>found.
          bind (case found of None \<Rightarrow> Ret (EFI_NOT_FOUND, s1)
                | Some i0 \<Rightarrow>
                  bind (CoreDisconnectControllersUsingProtocolInterface rst disc conn k UserHandle i0 s1)
                    (\<lambda>(Status, s2). if EFI_ERROR Status then Ret (Status, s2)
                       else
                         bind (CoreRemoveInterfaceFromProtocol h g OldInterface s2) (\<lambda>(removed, s3).
                         case removed of None \<Rightarrow> Ret (EFI_NOT_FOUND, s3)
                         | Some i \<Rightarrow>
                           bind (Reinstall_replace h i NewInterface s3) (\<lambda>(e, s4).
                           bind (CoreReleaseProtocolLock rst s4) (\<lambda>s5.
                           bind (conn UserHandle None None True s5) (\<lambda>(_, s6).
                           bind (CoreAcquireProtocolLock s6) (\<lambda>s7.
                           bind (CoreNotifyProtocolEntry rst e s7) (\<lambda>s8. Ret (EFI_SUCCESS, s8)))))))))
            (\<lambda>(Status, s9).
          bind (CoreReleaseProtocolLock rst s9) (\<lambda>s10. Ret (Status, s10))))))"

section \<open>Connecting by key and resetting\<close>

fun HandlesByKey_walk :: "(nat \<Rightarrow> ihandle option) \<Rightarrow> u64 \<Rightarrow> nat list \<Rightarrow> nat list outcome" where
  "HandlesByKey_walk hs key [] = Ret []"
| "HandlesByKey_walk hs key (h # l) =
     deref (hs h) (\<lambda>H. bind (HandlesByKey_walk hs key l) (\<lambda>r. Ret (if Key H > key then h # r else r)))"

fun Connect_walk :: "'x connect \<Rightarrow> nat list \<Rightarrow> 'x db \<Rightarrow> 'x db outcome" where
  "Connect_walk conn [] s = Ret s"
| "Connect_walk conn (h # l) s = bind (conn (Some h) None None True s) (\<lambda>(_, s1). Connect_walk conn l s1)"

definition CoreConnectHandlesByKey :: "'x db_restore \<Rightarrow> 'x connect \<Rightarrow> alloc \<Rightarrow> u64 \<Rightarrow> 'x db \<Rightarrow> 'x db outcome" where
  "CoreConnectHandlesByKey rst conn mem key s =
     bind (CoreAcquireProtocolLock s) (\<lambda>s1.
     bind (HandlesByKey_walk (handles s1) key (gHandleList s1)) (\<lambda>hs.
     bind (CoreReleaseProtocolLock rst s1) (\<lambda>s2.
     if \<not> mem AllocBuffer then Ret s2 else Connect_walk conn hs s2)))"

text \<open>The reset walks the lists and frees every node; it takes no lock.\<close>

fun ResetInterfaces_walk :: "nat list \<Rightarrow> 'x db \<Rightarrow> 'x db outcome" where
  "ResetInterfaces_walk [] s = Ret s"
| "ResetInterfaces_walk (i # l) s =
     deref (interfaces s i) (\<lambda>Prot.
     deref (prot_entries s (IProtocol Prot)) (\<lambda>E.
       if i \<in> set (EProtocols E)
       then ResetInterfaces_walk l
         (set_entry (IProtocol Prot) (E\<lparr>EProtocols := remove1 i (EProtocols E)\<rparr>)
           (s\<lparr>interfaces := (interfaces s)(i := None)\<rparr>))
       else Fault))"

fun ResetHandles_walk :: "nat list \<Rightarrow> 'x db \<Rightarrow> 'x db outcome" where
  "ResetHandles_walk [] s = Ret s"
| "ResetHandles_walk (h # l) s =
     deref (handles s h) (\<lambda>H.
     bind (ResetInterfaces_walk (HProtocols H) s) (\<lambda>s1.
     ResetHandles_walk l (s1\<lparr>gHandleList := remove1 h (gHandleList s1), handles := (handles s1)(h := None)\<rparr>)))"

fun ResetNotifies_walk :: "nat list \<Rightarrow> 'x db \<Rightarrow> 'x db outcome" where
  "ResetNotifies_walk [] s = Ret s"
| "ResetNotifies_walk (n # l) s =
     deref (notifies s n) (\<lambda>_. ResetNotifies_walk l (s\<lparr>notifies := (notifies s)(n := None)\<rparr>))"

fun ResetEntries_walk :: "nat list \<Rightarrow> 'x db \<Rightarrow> 'x db outcome" where
  "ResetEntries_walk [] s = Ret s"
| "ResetEntries_walk (e # l) s =
     deref (prot_entries s e) (\<lambda>E.
     bind (ResetNotifies_walk (ENotify E) s) (\<lambda>s1.
     ResetEntries_walk l
       (s1\<lparr>mProtocolDatabase := remove1 e (mProtocolDatabase s1), prot_entries := (prot_entries s1)(e := None)\<rparr>)))"

definition CoreResetProtocolDatabase :: "'x db \<Rightarrow> 'x db outcome" where
  "CoreResetProtocolDatabase s =
     bind (ResetHandles_walk (gHandleList s) s) (\<lambda>s1.
     bind (ResetEntries_walk (mProtocolDatabase s1) s1) (\<lambda>s2.
     Ret (s2\<lparr>gHandleList := [], mProtocolDatabase := [], gHandleDatabaseKey := 0\<rparr>)))"

end
