(* ===== verification/DevicePath.thy ===== *)
theory DevicePath
  imports Outcome
begin

text \<open>
  The device path library \<open>HostLib/UefiDevicePathLibHost\<close>. A device path is a byte string in memory:
  nodes of the form type, subtype, 16-bit little-endian length, payload, up to a node of type
  \<open>0x7F\<close> and subtype \<open>0xFF\<close>. Memory maps addresses to bytes; a heap is a memory and the address
  from which it is unused, where \<open>AllocatePool\<close> takes the next buffer. Loops that walk a path which
  need not end take fuel. \<open>pcd\<close> is the build constant \<open>PcdMaximumDevicePathNodeCount\<close>.
\<close>

section \<open>Memory\<close>

type_synonym memory = "nat \<Rightarrow> u8"

record heap =
  bytes :: memory
  brk :: nat

definition AllocatePool :: "nat \<Rightarrow> heap \<Rightarrow> nat \<times> heap" where
  "AllocatePool n H = (brk H, H\<lparr>brk := brk H + n\<rparr>)"

definition CopyMem :: "nat \<Rightarrow> nat \<Rightarrow> nat \<Rightarrow> heap \<Rightarrow> heap" where
  "CopyMem dst src n H =
     H\<lparr>bytes := (\<lambda>a. if dst \<le> a \<and> a < dst + n then bytes H (src + (a - dst)) else bytes H a)\<rparr>"

definition ZeroMem :: "nat \<Rightarrow> nat \<Rightarrow> heap \<Rightarrow> heap" where
  "ZeroMem dst n H = H\<lparr>bytes := (\<lambda>a. if dst \<le> a \<and> a < dst + n then 0 else bytes H a)\<rparr>"

definition poke :: "nat \<Rightarrow> u8 \<Rightarrow> heap \<Rightarrow> heap" where
  "poke a b H = H\<lparr>bytes := (bytes H)(a := b)\<rparr>"

section \<open>Nodes\<close>

abbreviation END_DEVICE_PATH_TYPE :: u8 where "END_DEVICE_PATH_TYPE \<equiv> 0x7F"
abbreviation END_ENTIRE_DEVICE_PATH_SUBTYPE :: u8 where "END_ENTIRE_DEVICE_PATH_SUBTYPE \<equiv> 0xFF"
abbreviation END_INSTANCE_DEVICE_PATH_SUBTYPE :: u8 where "END_INSTANCE_DEVICE_PATH_SUBTYPE \<equiv> 0x01"
abbreviation END_DEVICE_PATH_LENGTH :: nat where "END_DEVICE_PATH_LENGTH \<equiv> 4"
abbreviation MEDIA_DEVICE_PATH :: u8 where "MEDIA_DEVICE_PATH \<equiv> 0x04"
abbreviation MEDIA_FILEPATH_DP :: u8 where "MEDIA_FILEPATH_DP \<equiv> 0x04"
abbreviation MAX_UINTN :: nat where "MAX_UINTN \<equiv> 18446744073709551615"

definition DevicePathType :: "memory \<Rightarrow> nat \<Rightarrow> u8" where
  "DevicePathType m Node = m Node"

definition DevicePathSubType :: "memory \<Rightarrow> nat \<Rightarrow> u8" where
  "DevicePathSubType m Node = m (Node + 1)"

definition ReadUnaligned16 :: "memory \<Rightarrow> nat \<Rightarrow> nat" where
  "ReadUnaligned16 m a = unat (m a) + 256 * unat (m (a + 1))"

definition DevicePathNodeLength :: "memory \<Rightarrow> nat \<Rightarrow> nat" where
  "DevicePathNodeLength m Node = ReadUnaligned16 m (Node + 2)"

definition NextDevicePathNode :: "memory \<Rightarrow> nat \<Rightarrow> nat" where
  "NextDevicePathNode m Node = Node + DevicePathNodeLength m Node"

definition IsDevicePathEndType :: "memory \<Rightarrow> nat \<Rightarrow> bool" where
  "IsDevicePathEndType m Node \<longleftrightarrow> DevicePathType m Node = END_DEVICE_PATH_TYPE"

definition IsDevicePathEnd :: "memory \<Rightarrow> nat \<Rightarrow> bool" where
  "IsDevicePathEnd m Node \<longleftrightarrow>
     IsDevicePathEndType m Node \<and> DevicePathSubType m Node = END_ENTIRE_DEVICE_PATH_SUBTYPE"

definition IsDevicePathEndInstance :: "memory \<Rightarrow> nat \<Rightarrow> bool" where
  "IsDevicePathEndInstance m Node \<longleftrightarrow>
     IsDevicePathEndType m Node \<and> DevicePathSubType m Node = END_INSTANCE_DEVICE_PATH_SUBTYPE"

definition WriteUnaligned16 :: "nat \<Rightarrow> nat \<Rightarrow> heap \<Rightarrow> heap" where
  "WriteUnaligned16 a v H = poke (a + 1) (of_nat (v div 256)) (poke a (of_nat (v mod 256)) H)"

definition SetDevicePathNodeLength :: "nat \<Rightarrow> nat \<Rightarrow> heap \<Rightarrow> heap outcome" where
  "SetDevicePathNodeLength Node n H =
     ASSERT (4 \<le> n \<and> n < 65536) (Ret (WriteUnaligned16 (Node + 2) n H))"

text \<open>The end node is copied from a constant of the library.\<close>

definition SetDevicePathEndNode :: "nat \<Rightarrow> heap \<Rightarrow> heap" where
  "SetDevicePathEndNode Node H =
     poke (Node + 3) 0 (poke (Node + 2) 4
       (poke (Node + 1) END_ENTIRE_DEVICE_PATH_SUBTYPE (poke Node END_DEVICE_PATH_TYPE H)))"

section \<open>Validity and size\<close>

text \<open>
  The loop of \<open>IsDevicePathValid\<close>. Every node adds at least 4 to \<open>Size\<close>, which stays 4 below
  \<open>MaxSize\<close>, so it ends.
\<close>

function IsDevicePathValid_loop :: "memory \<Rightarrow> nat \<Rightarrow> nat \<Rightarrow> nat \<Rightarrow> nat \<Rightarrow> nat \<Rightarrow> bool" where
  "IsDevicePathValid_loop m pcd MaxSize Count Size p =
     (if IsDevicePathEnd m p then DevicePathNodeLength m p = END_DEVICE_PATH_LENGTH
      else
        let NodeLength = DevicePathNodeLength m p
        in if NodeLength < 4 then False
           else if NodeLength > MAX_UINTN - Size then False
           else if Size + NodeLength > MaxSize - END_DEVICE_PATH_LENGTH then False
           else if pcd > 0 \<and> Count + 1 \<ge> pcd then False
           else if DevicePathType m p = MEDIA_DEVICE_PATH \<and> DevicePathSubType m p = MEDIA_FILEPATH_DP \<and>
             (m (p + NodeLength - 2) \<noteq> 0 \<or> m (p + NodeLength - 1) \<noteq> 0) then False
           else IsDevicePathValid_loop m pcd MaxSize (if pcd > 0 then Count + 1 else Count)
                  (Size + NodeLength) (NextDevicePathNode m p))"
  by pat_completeness auto

termination
  by (relation "measure (\<lambda>(m, pcd, MaxSize, Count, Size, p). MaxSize - Size)") auto

definition IsDevicePathValid :: "memory \<Rightarrow> nat \<Rightarrow> ptr \<Rightarrow> nat \<Rightarrow> bool" where
  "IsDevicePathValid m pcd DevicePath MaxSize =
     (case DevicePath of None \<Rightarrow> False
      | Some p \<Rightarrow>
        if MaxSize > 0 \<and> MaxSize < END_DEVICE_PATH_LENGTH then False
        else IsDevicePathValid_loop m pcd (if MaxSize = 0 then MAX_UINTN else MaxSize) 0 0 p)"

text \<open>The walk to the first node that satisfies a test.\<close>

fun walk_until :: "(memory \<Rightarrow> nat \<Rightarrow> bool) \<Rightarrow> nat \<Rightarrow> memory \<Rightarrow> nat \<Rightarrow> nat outcome" where
  "walk_until stop 0 m p = NoFuel"
| "walk_until stop (Suc k) m p = (if stop m p then Ret p else walk_until stop k m (NextDevicePathNode m p))"

definition UefiDevicePathLibGetDevicePathSize :: "nat \<Rightarrow> nat \<Rightarrow> memory \<Rightarrow> ptr \<Rightarrow> nat outcome" where
  "UefiDevicePathLibGetDevicePathSize pcd k m DevicePath =
     (case DevicePath of None \<Rightarrow> Ret 0
      | Some Start \<Rightarrow>
        if \<not> IsDevicePathValid m pcd DevicePath 0 then Ret 0
        else bind (walk_until IsDevicePathEnd k m Start) (\<lambda>p. Ret (p - Start + DevicePathNodeLength m p)))"

definition GetDevicePathSize :: "nat \<Rightarrow> nat \<Rightarrow> memory \<Rightarrow> ptr \<Rightarrow> nat outcome" where
  "GetDevicePathSize pcd k m DevicePath = UefiDevicePathLibGetDevicePathSize pcd k m DevicePath"

definition UefiDevicePathLibIsDevicePathMultiInstance :: "nat \<Rightarrow> nat \<Rightarrow> memory \<Rightarrow> ptr \<Rightarrow> bool outcome" where
  "UefiDevicePathLibIsDevicePathMultiInstance pcd k m DevicePath =
     (case DevicePath of None \<Rightarrow> Ret False
      | Some p \<Rightarrow>
        if \<not> IsDevicePathValid m pcd DevicePath 0 then Ret False
        else bind (walk_until (\<lambda>m p. IsDevicePathEnd m p \<or> IsDevicePathEndInstance m p) k m p)
               (\<lambda>q. Ret (\<not> IsDevicePathEnd m q)))"

section \<open>Copies\<close>

text \<open>\<open>ok\<close> says whether the allocation returns memory.\<close>

definition AllocateCopyPool :: "bool \<Rightarrow> nat \<Rightarrow> nat \<Rightarrow> heap \<Rightarrow> ptr \<times> heap" where
  "AllocateCopyPool ok n src H =
     (if \<not> ok then (None, H)
      else case AllocatePool n H of (dst, H1) \<Rightarrow> (Some dst, CopyMem dst src n H1))"

definition UefiDevicePathLibDuplicateDevicePath :: "bool \<Rightarrow> nat \<Rightarrow> nat \<Rightarrow> ptr \<Rightarrow> heap \<Rightarrow> (ptr \<times> heap) outcome" where
  "UefiDevicePathLibDuplicateDevicePath ok pcd k DevicePath H =
     bind (GetDevicePathSize pcd k (bytes H) DevicePath) (\<lambda>Size.
     if Size = 0 then Ret (None, H)
     else Ret (AllocateCopyPool ok Size (the DevicePath) H))"

definition DuplicateDevicePath :: "bool \<Rightarrow> nat \<Rightarrow> nat \<Rightarrow> ptr \<Rightarrow> heap \<Rightarrow> (ptr \<times> heap) outcome" where
  "DuplicateDevicePath ok pcd k DevicePath H = UefiDevicePathLibDuplicateDevicePath ok pcd k DevicePath H"

text \<open>A copy of \<open>mUefiDevicePathLibEndDevicePath\<close>, the end node the library holds as a constant.\<close>

definition DuplicateEndDevicePath :: "bool \<Rightarrow> heap \<Rightarrow> ptr \<times> heap" where
  "DuplicateEndDevicePath ok H =
     (if \<not> ok then (None, H)
      else case AllocatePool END_DEVICE_PATH_LENGTH H of (dst, H1) \<Rightarrow> (Some dst, SetDevicePathEndNode dst H1))"

definition UefiDevicePathLibAppendDevicePath ::
  "bool \<Rightarrow> nat \<Rightarrow> nat \<Rightarrow> ptr \<Rightarrow> ptr \<Rightarrow> heap \<Rightarrow> (ptr \<times> heap) outcome" where
  "UefiDevicePathLibAppendDevicePath ok pcd k First Second H =
     (case First of
        None \<Rightarrow> (case Second of None \<Rightarrow> Ret (DuplicateEndDevicePath ok H)
                 | Some _ \<Rightarrow> DuplicateDevicePath ok pcd k Second H)
      | Some p1 \<Rightarrow>
        case Second of None \<Rightarrow> DuplicateDevicePath ok pcd k First H
        | Some p2 \<Rightarrow>
          if \<not> IsDevicePathValid (bytes H) pcd First 0 \<or> \<not> IsDevicePathValid (bytes H) pcd Second 0 then Ret (None, H)
          else
            bind (GetDevicePathSize pcd k (bytes H) First) (\<lambda>Size1.
            bind (GetDevicePathSize pcd k (bytes H) Second) (\<lambda>Size2.
            if \<not> ok then Ret (None, H)
            else
              case AllocatePool (Size1 + Size2 - END_DEVICE_PATH_LENGTH) H of (new, H1) \<Rightarrow>
                Ret (Some new, CopyMem (new + (Size1 - END_DEVICE_PATH_LENGTH)) p2 Size2 (CopyMem new p1 Size1 H1)))))"

definition AppendDevicePath ::
  "bool \<Rightarrow> nat \<Rightarrow> nat \<Rightarrow> ptr \<Rightarrow> ptr \<Rightarrow> heap \<Rightarrow> (ptr \<times> heap) outcome" where
  "AppendDevicePath ok pcd k First Second H = UefiDevicePathLibAppendDevicePath ok pcd k First Second H"

definition UefiDevicePathLibAppendDevicePathNode ::
  "bool \<Rightarrow> bool \<Rightarrow> nat \<Rightarrow> nat \<Rightarrow> ptr \<Rightarrow> ptr \<Rightarrow> heap \<Rightarrow> (ptr \<times> heap) outcome" where
  "UefiDevicePathLibAppendDevicePathNode ok1 ok2 pcd k DevicePath Node H =
     (case Node of
        None \<Rightarrow> (case DevicePath of None \<Rightarrow> Ret (DuplicateEndDevicePath ok1 H)
                 | Some _ \<Rightarrow> DuplicateDevicePath ok1 pcd k DevicePath H)
      | Some nd \<Rightarrow>
        let NodeLength = DevicePathNodeLength (bytes H) nd
        in if \<not> ok1 then Ret (None, H)
           else
             case AllocatePool (NodeLength + END_DEVICE_PATH_LENGTH) H of (tmp, H1) \<Rightarrow>
               let H2 = CopyMem tmp nd NodeLength H1;
                   H3 = SetDevicePathEndNode (NextDevicePathNode (bytes H2) tmp) H2
               in AppendDevicePath ok2 pcd k DevicePath (Some tmp) H3)"

definition AppendDevicePathNode ::
  "bool \<Rightarrow> bool \<Rightarrow> nat \<Rightarrow> nat \<Rightarrow> ptr \<Rightarrow> ptr \<Rightarrow> heap \<Rightarrow> (ptr \<times> heap) outcome" where
  "AppendDevicePathNode ok1 ok2 pcd k DevicePath Node H =
     UefiDevicePathLibAppendDevicePathNode ok1 ok2 pcd k DevicePath Node H"

definition UefiDevicePathLibAppendDevicePathInstance ::
  "bool \<Rightarrow> nat \<Rightarrow> nat \<Rightarrow> ptr \<Rightarrow> ptr \<Rightarrow> heap \<Rightarrow> (ptr \<times> heap) outcome" where
  "UefiDevicePathLibAppendDevicePathInstance ok pcd k DevicePath Instance H =
     (case DevicePath of None \<Rightarrow> DuplicateDevicePath ok pcd k Instance H
      | Some p \<Rightarrow>
        case Instance of None \<Rightarrow> Ret (None, H)
        | Some q \<Rightarrow>
          if \<not> IsDevicePathValid (bytes H) pcd DevicePath 0 \<or> \<not> IsDevicePathValid (bytes H) pcd Instance 0 then Ret (None, H)
          else
            bind (GetDevicePathSize pcd k (bytes H) DevicePath) (\<lambda>SrcSize.
            bind (GetDevicePathSize pcd k (bytes H) Instance) (\<lambda>InstanceSize.
            if \<not> ok then Ret (None, H)
            else
              case AllocatePool (SrcSize + InstanceSize) H of (new, H1) \<Rightarrow>
                let H2 = CopyMem new p SrcSize H1
                in bind (walk_until IsDevicePathEnd k (bytes H2) new) (\<lambda>e.
                   let H3 = poke (e + 1) END_INSTANCE_DEVICE_PATH_SUBTYPE H2
                   in Ret (Some new, CopyMem (NextDevicePathNode (bytes H3) e) q InstanceSize H3)))))"

definition AppendDevicePathInstance ::
  "bool \<Rightarrow> nat \<Rightarrow> nat \<Rightarrow> ptr \<Rightarrow> ptr \<Rightarrow> heap \<Rightarrow> (ptr \<times> heap) outcome" where
  "AppendDevicePathInstance ok pcd k DevicePath Instance H =
     UefiDevicePathLibAppendDevicePathInstance ok pcd k DevicePath Instance H"

text \<open>
  \<open>GetNextDevicePathInstance\<close> makes the end node of the instance an end of the entire path while it
  copies. The result is the copy, the new value of \<open>*DevicePath\<close>, and what is stored in \<open>*Size\<close>.
\<close>

definition UefiDevicePathLibGetNextDevicePathInstance ::
  "bool \<Rightarrow> nat \<Rightarrow> nat \<Rightarrow> ptr \<Rightarrow> heap \<Rightarrow> (ptr \<times> ptr \<times> nat option \<times> heap) outcome" where
  "UefiDevicePathLibGetNextDevicePathInstance ok pcd k DevicePath H =
     (case DevicePath of None \<Rightarrow> Ret (None, None, Some 0, H)
      | Some p \<Rightarrow>
        if \<not> IsDevicePathValid (bytes H) pcd DevicePath 0 then Ret (None, DevicePath, None, H)
        else
          bind (walk_until IsDevicePathEndType k (bytes H) p) (\<lambda>e.
          let Size = e - p + 4;
              Temp = DevicePathSubType (bytes H) e;
              H1 = poke (e + 1) END_ENTIRE_DEVICE_PATH_SUBTYPE H
          in bind (DuplicateDevicePath ok pcd k DevicePath H1) (\<lambda>(copy, H2).
             let H3 = poke (e + 1) Temp H2
             in Ret (copy,
                  if DevicePathSubType (bytes H3) e = END_ENTIRE_DEVICE_PATH_SUBTYPE then None
                  else Some (NextDevicePathNode (bytes H3) e),
                  Some Size, H3))))"

definition GetNextDevicePathInstance ::
  "bool \<Rightarrow> nat \<Rightarrow> nat \<Rightarrow> ptr \<Rightarrow> heap \<Rightarrow> (ptr \<times> ptr \<times> nat option \<times> heap) outcome" where
  "GetNextDevicePathInstance ok pcd k DevicePath H =
     UefiDevicePathLibGetNextDevicePathInstance ok pcd k DevicePath H"

definition UefiDevicePathLibCreateDeviceNode :: "bool \<Rightarrow> u8 \<Rightarrow> u8 \<Rightarrow> nat \<Rightarrow> heap \<Rightarrow> (ptr \<times> heap) outcome" where
  "UefiDevicePathLibCreateDeviceNode ok NodeType NodeSubType NodeLength H =
     (if NodeLength < 4 then Ret (None, H)
      else if \<not> ok then Ret (None, H)
      else
        case AllocatePool NodeLength H of (new, H1) \<Rightarrow>
          bind (SetDevicePathNodeLength new NodeLength
                  (poke (new + 1) NodeSubType (poke new NodeType (ZeroMem new NodeLength H1))))
            (\<lambda>H2. Ret (Some new, H2)))"

definition CreateDeviceNode :: "bool \<Rightarrow> u8 \<Rightarrow> u8 \<Rightarrow> nat \<Rightarrow> heap \<Rightarrow> (ptr \<times> heap) outcome" where
  "CreateDeviceNode ok NodeType NodeSubType NodeLength H =
     UefiDevicePathLibCreateDeviceNode ok NodeType NodeSubType NodeLength H"

end
