(* ===== verification/ProtocolLocate.thy ===== *)
theory ProtocolLocate
  imports ProtocolOps DevicePath
begin

text \<open>
  The searches of \<open>Locate.c\<close>: all handles, the handles of a protocol, and the handles a registered
  notification has not seen yet, and the searches built on them. While a search runs the lock is
  held and nothing is linked or unlinked, so the position of a search is kept as the list of the
  nodes that follow it.
\<close>

datatype search_type = AllHandles | ByRegisterNotify | ByProtocol | OtherSearch u32

record locate_position =
  SearchKey :: ptr
  Following :: "nat list"

text \<open>The node after a link, NULL for the list head: before the first and after the last node.\<close>

definition next_link :: "ptr \<Rightarrow> nat list \<Rightarrow> ptr outcome" where
  "next_link p l =
     (case p of None \<Rightarrow> Ret (case l of [] \<Rightarrow> None | y # _ \<Rightarrow> Some y)
      | Some x \<Rightarrow>
        case dropWhile (\<lambda>y. y \<noteq> x) l of [] \<Rightarrow> Fault
        | _ # ys \<Rightarrow> Ret (case ys of [] \<Rightarrow> None | y # _ \<Rightarrow> Some y))"

type_synonym 'x get_next =
  "locate_position \<Rightarrow> 'x db \<Rightarrow> (ptr \<times> locate_position \<times> ptr \<times> 'x db) outcome"

text \<open>Each search function returns the handle, the new position and the interface it stores.\<close>

definition CoreGetNextLocateAllHandles :: "'x get_next" where
  "CoreGetNextLocateAllHandles pos s =
     (case Following pos of [] \<Rightarrow> Ret (None, pos, None, s)
      | h # l \<Rightarrow> deref (handles s h) (\<lambda>_. Ret (Some h, pos\<lparr>Following := l\<rparr>, None, s)))"

definition CoreGetNextLocateByRegisterNotify :: "'x get_next" where
  "CoreGetNextLocateByRegisterNotify pos s =
     (case SearchKey pos of None \<Rightarrow> Ret (None, pos, None, s)
      | Some n \<Rightarrow>
        deref (notifies s n) (\<lambda>ProtNotify.
        deref (prot_entries s (NProtocol ProtNotify)) (\<lambda>E.
        bind (next_link (Position ProtNotify) (EProtocols E)) (\<lambda>Link.
        let pos1 = pos\<lparr>SearchKey := None\<rparr>
        in case Link of None \<Rightarrow> Ret (None, pos1, None, s)
           | Some i \<Rightarrow> deref (interfaces s i) (\<lambda>Prot. Ret (Some (IHandle Prot), pos1, Interface Prot, s))))))"

text \<open>A handle that this request has already returned is skipped.\<close>

fun ByProtocol_walk :: "ptr \<Rightarrow> nat list \<Rightarrow> 'x db \<Rightarrow> (ptr \<times> nat list \<times> ptr \<times> 'x db) outcome" where
  "ByProtocol_walk iface [] s = Ret (None, [], iface, s)"
| "ByProtocol_walk iface (i # l) s =
     deref (interfaces s i) (\<lambda>Prot.
     deref (handles s (IHandle Prot)) (\<lambda>H.
       if LocateRequest H \<noteq> mEfiLocateHandleRequest s
       then Ret (Some (IHandle Prot), l, Interface Prot,
         set_handle (IHandle Prot) (H\<lparr>LocateRequest := mEfiLocateHandleRequest s\<rparr>) s)
       else ByProtocol_walk (Interface Prot) l s))"

definition CoreGetNextLocateByProtocol :: "'x get_next" where
  "CoreGetNextLocateByProtocol pos s =
     bind (ByProtocol_walk None (Following pos) s) (\<lambda>(Handle, l, iface, s1).
     Ret (Handle, pos\<lparr>Following := l\<rparr>, iface, s1))"

text \<open>The search function and the initial position of a search type, or the status of a failure.\<close>

definition Locate_start ::
  "search_type \<Rightarrow> guid option \<Rightarrow> ptr \<Rightarrow> 'x db \<Rightarrow> (efi_status + 'x get_next \<times> locate_position) outcome" where
  "Locate_start SearchType Protocol SKey s =
     (case SearchType of
        AllHandles \<Rightarrow> Ret (Inr (CoreGetNextLocateAllHandles, \<lparr>SearchKey = SKey, Following = gHandleList s\<rparr>))
      | ByRegisterNotify \<Rightarrow>
          if SKey = None then Ret (Inl EFI_INVALID_PARAMETER)
          else Ret (Inr (CoreGetNextLocateByRegisterNotify, \<lparr>SearchKey = SKey, Following = gHandleList s\<rparr>))
      | ByProtocol \<Rightarrow>
          (case Protocol of None \<Rightarrow> Ret (Inl EFI_INVALID_PARAMETER)
           | Some g \<Rightarrow>
             bind (CoreFindProtocolEntry (\<lambda>_. False) g False s) (\<lambda>(ProtEntry, _).
             case ProtEntry of None \<Rightarrow> Ret (Inl EFI_NOT_FOUND)
             | Some e \<Rightarrow> deref (prot_entries s e) (\<lambda>E.
                 Ret (Inr (CoreGetNextLocateByProtocol, \<lparr>SearchKey = SKey, Following = EProtocols E\<rparr>)))))
      | OtherSearch _ \<Rightarrow> Ret (Inl EFI_INVALID_PARAMETER))"

text \<open>
  The loop: the size grows with every handle, and handles that fit are stored. A search ends after
  at most as many rounds as there are nodes, plus one for the key and one for the end.
\<close>

fun Locate_loop ::
  "'x get_next \<Rightarrow> nat \<Rightarrow> locate_position \<Rightarrow> u64 \<Rightarrow> u64 \<Rightarrow> nat list \<Rightarrow> 'x db \<Rightarrow> (u64 \<times> nat list \<times> 'x db) outcome" where
  "Locate_loop GetNext 0 pos BufferSize ResultSize buf s = NoFuel"
| "Locate_loop GetNext (Suc k) pos BufferSize ResultSize buf s =
     bind (GetNext pos s) (\<lambda>(Handle, pos1, iface, s1).
     case Handle of None \<Rightarrow> Ret (ResultSize, buf, s1)
     | Some h \<Rightarrow>
       let sz = ResultSize + 8
       in Locate_loop GetNext k pos1 BufferSize sz (if sz \<le> BufferSize then buf @ [h] else buf) s1)"

text \<open>A notify position moves to the next interface.\<close>

definition Locate_advance :: "nat \<Rightarrow> 'x db \<Rightarrow> 'x db outcome" where
  "Locate_advance n s =
     deref (notifies s n) (\<lambda>ProtNotify.
     deref (prot_entries s (NProtocol ProtNotify)) (\<lambda>E.
     bind (next_link (Position ProtNotify) (EProtocols E)) (\<lambda>Link.
     Ret (set_notify n (ProtNotify\<lparr>Position := Link\<rparr>) s))))"

text \<open>
  \<open>BufferSize\<close> is \<open>None\<close> for the NULL pointer; \<open>HasBuffer\<close> says whether \<open>Buffer\<close> is not NULL. The
  result is the status, the new \<open>*BufferSize\<close> and the handles stored in the buffer.
\<close>

definition CoreLocateHandle ::
  "'x db_restore \<Rightarrow> search_type \<Rightarrow> guid option \<Rightarrow> ptr \<Rightarrow> u64 option \<Rightarrow> bool \<Rightarrow> 'x db \<Rightarrow>
     (efi_status \<times> u64 \<times> nat list \<times> 'x db) outcome" where
  "CoreLocateHandle rst SearchType Protocol SKey BufferSize HasBuffer s =
     (case BufferSize of None \<Rightarrow> Ret (EFI_INVALID_PARAMETER, 0, [], s)
      | Some sz \<Rightarrow>
        if sz > 0 \<and> \<not> HasBuffer then Ret (EFI_INVALID_PARAMETER, sz, [], s)
        else
          bind (CoreAcquireProtocolLock s) (\<lambda>s1.
          bind (Locate_start SearchType Protocol SKey s1) (\<lambda>start.
          case start of Inl Status \<Rightarrow> bind (CoreReleaseProtocolLock rst s1) (\<lambda>s2. Ret (Status, sz, [], s2))
          | Inr (GetNext, pos) \<Rightarrow>
            bind (Locate_loop GetNext (length (Following pos) + 2) pos sz 0 []
                    (s1\<lparr>mEfiLocateHandleRequest := mEfiLocateHandleRequest s1 + 1\<rparr>)) (\<lambda>(ResultSize, buf, s2).
            if ResultSize = 0 then
              bind (CoreReleaseProtocolLock rst s2) (\<lambda>s3. Ret (EFI_NOT_FOUND, sz, buf, s3))
            else
              let Status = (if ResultSize > sz then EFI_BUFFER_TOO_SMALL else EFI_SUCCESS)
              in bind (if SearchType = ByRegisterNotify \<and> \<not> EFI_ERROR Status
                       then ASSERT (SKey \<noteq> None) (Locate_advance (the SKey) s2) else Ret s2) (\<lambda>s3.
                 bind (CoreReleaseProtocolLock rst s3) (\<lambda>s4. Ret (Status, ResultSize, buf, s4)))))))"

text \<open>The first call asks for the size, the second fills the buffer; the lock is free in between.\<close>

definition CoreLocateHandleBuffer ::
  "'x db_restore \<Rightarrow> alloc \<Rightarrow> search_type \<Rightarrow> guid option \<Rightarrow> ptr \<Rightarrow> bool \<Rightarrow> bool \<Rightarrow> 'x db \<Rightarrow>
     (efi_status \<times> u64 \<times> nat list option \<times> 'x db) outcome" where
  "CoreLocateHandleBuffer rst mem SearchType Protocol SKey HasNumber HasBuffer s =
     (if \<not> HasNumber \<or> \<not> HasBuffer then Ret (EFI_INVALID_PARAMETER, 0, None, s)
      else
        bind (CoreLocateHandle rst SearchType Protocol SKey (Some 0) False s) (\<lambda>(Status, sz, _, s1).
        if EFI_ERROR Status \<and> Status \<noteq> EFI_BUFFER_TOO_SMALL
        then Ret (if Status \<noteq> EFI_INVALID_PARAMETER then EFI_NOT_FOUND else Status, 0, None, s1)
        else if \<not> mem AllocBuffer then Ret (EFI_OUT_OF_RESOURCES, 0, None, s1)
        else
          bind (CoreLocateHandle rst SearchType Protocol SKey (Some sz) True s1) (\<lambda>(Status, sz, buf, s2).
          Ret (if EFI_ERROR Status then (Status, 0, None, s2) else (Status, sz div 8, Some buf, s2)))))"

text \<open>\<open>HasInterface\<close>: the \<open>Interface\<close> pointer is not NULL; the result has the value stored there.\<close>

definition CoreLocateProtocol ::
  "'x db_restore \<Rightarrow> guid option \<Rightarrow> ptr \<Rightarrow> bool \<Rightarrow> 'x db \<Rightarrow> (efi_status \<times> ptr option \<times> 'x db) outcome" where
  "CoreLocateProtocol rst Protocol Registration HasInterface s =
     (case Protocol of None \<Rightarrow> Ret (EFI_INVALID_PARAMETER, None, s)
      | Some g \<Rightarrow>
        if \<not> HasInterface then Ret (EFI_INVALID_PARAMETER, None, s)
        else
          bind (CoreAcquireLockOrFail gProtocolDatabaseLock s) (\<lambda>(Status, s1).
          if EFI_ERROR Status then Ret (EFI_NOT_FOUND, Some None, s1)
          else
            let s2 = s1\<lparr>mEfiLocateHandleRequest := mEfiLocateHandleRequest s1 + 1\<rparr>;
                pos = \<lparr>SearchKey = Registration, Following = gHandleList s2\<rparr>
            in bind (if Registration = None then
                       bind (CoreFindProtocolEntry (\<lambda>_. False) g False s2) (\<lambda>(ProtEntry, s3).
                       case ProtEntry of None \<Rightarrow> Ret (EFI_NOT_FOUND, None, s3)
                       | Some e \<Rightarrow>
                         deref (prot_entries s3 e) (\<lambda>E.
                         bind (CoreGetNextLocateByProtocol (pos\<lparr>Following := EProtocols E\<rparr>) s3) (\<lambda>(Handle, _, iface, s4).
                         Ret (if Handle = None then EFI_NOT_FOUND else EFI_SUCCESS, iface, s4))))
                     else
                       bind (CoreGetNextLocateByRegisterNotify pos s2) (\<lambda>(Handle, _, iface, s3).
                       if Handle = None then Ret (EFI_NOT_FOUND, iface, s3)
                       else bind (Locate_advance (the Registration) s3) (\<lambda>s4. Ret (EFI_SUCCESS, iface, s4))))
                (\<lambda>(Status, iface, s5).
               bind (CoreReleaseProtocolLock rst s5) (\<lambda>s6. Ret (Status, Some iface, s6)))))"

section \<open>Device paths\<close>

text \<open>
  The best match among the handles: the longest device path that is a prefix of the source. Two
  handles whose matching paths are equally long as the best so far fail an assertion.
\<close>

fun BestMatch_loop ::
  "'x db_restore \<Rightarrow> 'x disconnect \<Rightarrow> alloc \<Rightarrow> nat \<Rightarrow> nat \<Rightarrow> nat \<Rightarrow> nat \<Rightarrow> int \<Rightarrow> ptr \<Rightarrow> nat list \<Rightarrow> 'x db \<Rightarrow>
     (int \<times> ptr \<times> 'x db) outcome" where
  "BestMatch_loop rst disc mem k pcd src SourceSize BestMatch BestDevice [] s = Ret (BestMatch, BestDevice, s)"
| "BestMatch_loop rst disc mem k pcd src SourceSize BestMatch BestDevice (h # l) s =
     bind (CoreHandleProtocol rst disc mem k (Some h) (Some gEfiDevicePathProtocolGuid) True s) (\<lambda>(Status, out, s1).
     if EFI_ERROR Status then BestMatch_loop rst disc mem k pcd src SourceSize BestMatch BestDevice l s1
     else
       let tmp = the out
       in bind (GetDevicePathSize pcd k (memory s1) tmp) (\<lambda>n.
          let Size = int n - 4
          in ASSERT (Size \<ge> 0)
               (if Size \<le> int SourceSize \<and> (\<forall>i < nat Size. memory s1 (src + i) = memory s1 (the tmp + i)) then
                  ASSERT (Size \<noteq> BestMatch)
                    (if Size > BestMatch
                     then BestMatch_loop rst disc mem k pcd src SourceSize Size (Some h) l s1
                     else BestMatch_loop rst disc mem k pcd src SourceSize BestMatch BestDevice l s1)
                else BestMatch_loop rst disc mem k pcd src SourceSize BestMatch BestDevice l s1)))"

text \<open>\<open>DevicePath\<close> is \<open>None\<close> for the NULL pointer, else what it points to; the result has the status,
  the device and the remaining path.\<close>

definition CoreLocateDevicePath ::
  "'x db_restore \<Rightarrow> 'x disconnect \<Rightarrow> alloc \<Rightarrow> nat \<Rightarrow> nat \<Rightarrow> guid option \<Rightarrow> ptr option \<Rightarrow> bool \<Rightarrow> 'x db \<Rightarrow>
     (efi_status \<times> ptr \<times> ptr \<times> 'x db) outcome" where
  "CoreLocateDevicePath rst disc mem k pcd Protocol DevicePath HasDevice s =
     (if Protocol = None then Ret (EFI_INVALID_PARAMETER, None, None, s)
      else case DevicePath of None \<Rightarrow> Ret (EFI_INVALID_PARAMETER, None, None, s)
      | Some None \<Rightarrow> Ret (EFI_INVALID_PARAMETER, None, None, s)
      | Some (Some src) \<Rightarrow>
        bind (walk_until (\<lambda>m p. IsDevicePathEnd m p \<or> IsDevicePathEndInstance m p) k (memory s) src) (\<lambda>tmp.
        bind (CoreLocateHandleBuffer rst mem ByProtocol Protocol None True True s) (\<lambda>(Status, HandleCount, Handles, s1).
        if EFI_ERROR Status \<or> HandleCount = 0 then Ret (EFI_NOT_FOUND, None, Some src, s1)
        else
          bind (BestMatch_loop rst disc mem k pcd src (tmp - src) (- 1) None (the Handles) s1)
            (\<lambda>(BestMatch, BestDevice, s2).
          if BestMatch = - 1 then Ret (EFI_NOT_FOUND, None, Some src, s2)
          else if \<not> HasDevice then Ret (EFI_INVALID_PARAMETER, None, Some src, s2)
          else Ret (EFI_SUCCESS, BestDevice, Some (src + nat BestMatch), s2)))))"

section \<open>Installing and uninstalling several interfaces\<close>

text \<open>
  The variadic argument list is the list of GUID and interface pairs; its end is the NULL GUID.
  \<open>Index\<close> counts the rounds, so after a failure one pair less than the rounds was installed.
\<close>

fun InstallMultiple_loop ::
  "'x db_restore \<Rightarrow> 'x disconnect \<Rightarrow> (nat \<Rightarrow> alloc) \<Rightarrow> nat \<Rightarrow> nat \<Rightarrow> nat \<Rightarrow> ptr \<Rightarrow> (guid \<times> ptr) list \<Rightarrow> 'x db \<Rightarrow>
     (efi_status \<times> nat \<times> ptr \<times> 'x db) outcome" where
  "InstallMultiple_loop rst disc mem k pcd Index Handle [] s = Ret (EFI_SUCCESS, Index, Handle, s)"
| "InstallMultiple_loop rst disc mem k pcd Index Handle ((g, iface) # l) s =
     bind (if g = gEfiDevicePathProtocolGuid
           then bind (CoreLocateDevicePath rst disc (mem Index) k pcd (Some g) (Some iface) True s) (\<lambda>(_, _, _, s1). Ret s1)
           else Ret s) (\<lambda>s1.
     bind (CoreInstallProtocolInterface rst disc (mem Index) k (Some Handle) (Some g) EFI_NATIVE_INTERFACE iface s1)
       (\<lambda>(Status, Handle1, s2).
     if EFI_ERROR Status then Ret (Status, Index + 1, Handle1, s2)
     else InstallMultiple_loop rst disc mem k pcd (Index + 1) Handle1 l s2))"

fun Rollback_install ::
  "'x db_restore \<Rightarrow> 'x disconnect \<Rightarrow> 'x connect \<Rightarrow> nat \<Rightarrow> ptr \<Rightarrow> (guid \<times> ptr) list \<Rightarrow> 'x db \<Rightarrow> 'x db outcome" where
  "Rollback_install rst disc conn k Handle [] s = Ret s"
| "Rollback_install rst disc conn k Handle ((g, iface) # l) s =
     bind (CoreUninstallProtocolInterface rst disc conn k Handle (Some g) iface s) (\<lambda>(_, s1).
     Rollback_install rst disc conn k Handle l s1)"

definition CoreInstallMultipleProtocolInterfaces ::
  "'x db_restore \<Rightarrow> 'x disconnect \<Rightarrow> 'x connect \<Rightarrow> (nat \<Rightarrow> alloc) \<Rightarrow> nat \<Rightarrow> nat \<Rightarrow> ptr option \<Rightarrow> (guid \<times> ptr) list \<Rightarrow>
     'x db \<Rightarrow> (efi_status \<times> ptr \<times> 'x db) outcome" where
  "CoreInstallMultipleProtocolInterfaces rst disc conn mem k pcd Handle args s =
     (case Handle of None \<Rightarrow> Ret (EFI_INVALID_PARAMETER, None, s)
      | Some OldHandle \<Rightarrow>
        bind (CoreRaiseTpl TPL_NOTIFY s) (\<lambda>(OldTpl, s1).
        bind (InstallMultiple_loop rst disc mem k pcd 0 OldHandle args s1) (\<lambda>(Status, Index, Handle1, s2).
        bind (if EFI_ERROR Status then Rollback_install rst disc conn k Handle1 (take (Index - 1) args) s2
              else Ret s2) (\<lambda>s3.
        bind (rst OldTpl s3) (\<lambda>s4.
        Ret (Status, if EFI_ERROR Status then OldHandle else Handle1, s4))))))"

fun UninstallMultiple_loop ::
  "'x db_restore \<Rightarrow> 'x disconnect \<Rightarrow> 'x connect \<Rightarrow> nat \<Rightarrow> nat \<Rightarrow> ptr \<Rightarrow> (guid \<times> ptr) list \<Rightarrow> 'x db \<Rightarrow>
     (efi_status \<times> nat \<times> 'x db) outcome" where
  "UninstallMultiple_loop rst disc conn k Index Handle [] s = Ret (EFI_SUCCESS, Index, s)"
| "UninstallMultiple_loop rst disc conn k Index Handle ((g, iface) # l) s =
     bind (CoreUninstallProtocolInterface rst disc conn k Handle (Some g) iface s) (\<lambda>(Status, s1).
     if EFI_ERROR Status then Ret (Status, Index + 1, s1)
     else UninstallMultiple_loop rst disc conn k (Index + 1) Handle l s1)"

text \<open>The handle is the parameter of the service, so an install of the rollback may replace it.\<close>

fun Rollback_uninstall ::
  "'x db_restore \<Rightarrow> 'x disconnect \<Rightarrow> (nat \<Rightarrow> alloc) \<Rightarrow> nat \<Rightarrow> ptr \<Rightarrow> (guid \<times> ptr) list \<Rightarrow> 'x db \<Rightarrow> 'x db outcome" where
  "Rollback_uninstall rst disc mem k Handle [] s = Ret s"
| "Rollback_uninstall rst disc mem k Handle ((g, iface) # l) s =
     bind (CoreInstallProtocolInterface rst disc (mem (length l)) k (Some Handle) (Some g) EFI_NATIVE_INTERFACE iface s)
       (\<lambda>(_, Handle1, s1). Rollback_uninstall rst disc mem k Handle1 l s1)"

definition CoreUninstallMultipleProtocolInterfaces ::
  "'x db_restore \<Rightarrow> 'x disconnect \<Rightarrow> 'x connect \<Rightarrow> (nat \<Rightarrow> alloc) \<Rightarrow> nat \<Rightarrow> ptr \<Rightarrow> (guid \<times> ptr) list \<Rightarrow> 'x db \<Rightarrow>
     (efi_status \<times> 'x db) outcome" where
  "CoreUninstallMultipleProtocolInterfaces rst disc conn mem k Handle args s =
     bind (UninstallMultiple_loop rst disc conn k 0 Handle args s) (\<lambda>(Status, Index, s1).
     if EFI_ERROR Status then
       bind (Rollback_uninstall rst disc mem k Handle (take (Index - 1) args) s1) (\<lambda>s2. Ret (EFI_INVALID_PARAMETER, s2))
     else Ret (EFI_SUCCESS, s1))"

end
