(* ===== verification/ProtocolInv.thy ===== *)
theory ProtocolInv
  imports ProtocolLocate
begin

text \<open>
  The invariant of the protocol database: every link has its counterpart, and no list holds a freed
  object. Critical sections of the database lock that signal nothing leave the TPL without running
  any notification, so their effect is exact.
\<close>

section \<open>Critical sections\<close>

text \<open>The caller may use the database: no lock of the database is held and the TPL is not too high.\<close>

definition may_enter :: "'x db \<Rightarrow> bool" where
  "may_enter s \<longleftrightarrow> core_inv s \<and> \<not> held s gProtocolDatabaseLock \<and> gEfiCurrentTpl s \<le> TPL_NOTIFY"

definition inside :: "'x db \<Rightarrow> 'x db" where
  "inside s = locked gProtocolDatabaseLock s"

definition left :: "'x db \<Rightarrow> 'x db \<Rightarrow> 'x db" where
  "left s u = (unlocked gProtocolDatabaseLock u)\<lparr>gEfiCurrentTpl := gEfiCurrentTpl s\<rparr>"

text \<open>\<open>u\<close> differs from \<open>s\<close> in the database only.\<close>

definition db_only :: "'x db \<Rightarrow> 'x db \<Rightarrow> bool" where
  "db_only s u \<longleftrightarrow> core.truncate u = core.truncate s"

lemma core_inv_truncate: "core_inv (core.truncate s) = core_inv s"
  by (simp add: core_inv_def event_inv_def tpl_inv_def lock_inv_def core.truncate_def)

lemma db_only_fields:
  assumes "db_only s u"
  shows "core_inv u = core_inv s" "gEfiCurrentTpl u = gEfiCurrentTpl s" "locks u = locks s"
    "gEventPending u = gEventPending s" "gPendingTimerDuration u = gPendingTimerDuration s" "events u = events s"
proof -
  show "core_inv u = core_inv s"
    using assms core_inv_truncate[of u] core_inv_truncate[of s] by (simp add: db_only_def)
  show "gEfiCurrentTpl u = gEfiCurrentTpl s" "locks u = locks s"
    "gEventPending u = gEventPending s" "gPendingTimerDuration u = gPendingTimerDuration s" "events u = events s"
    using assms by (simp_all add: db_only_def core.truncate_def)
qed

lemma db_only_simps [simp]:
  "db_only s s" "db_only s (u\<lparr>handles := a\<rparr>) = db_only s u" "db_only s (u\<lparr>gHandleList := l\<rparr>) = db_only s u"
  "db_only s (u\<lparr>prot_entries := b\<rparr>) = db_only s u" "db_only s (u\<lparr>mProtocolDatabase := l\<rparr>) = db_only s u"
  "db_only s (u\<lparr>interfaces := c\<rparr>) = db_only s u" "db_only s (u\<lparr>notifies := d\<rparr>) = db_only s u"
  "db_only s (u\<lparr>next_object := n\<rparr>) = db_only s u" "db_only s (u\<lparr>gHandleDatabaseKey := k\<rparr>) = db_only s u"
  "db_only s (u\<lparr>mEfiLocateHandleRequest := r\<rparr>) = db_only s u"
  "db_only s (set_handle h H u) = db_only s u" "db_only s (set_entry e E u) = db_only s u"
  "db_only s (set_interface i I u) = db_only s u" "db_only s (set_notify x N u) = db_only s u"
  by (simp_all add: db_only_def core.truncate_def set_handle_def set_entry_def set_interface_def set_notify_def)

lemma set_simps [simp]:
  "handles (set_handle h H u) = (handles u)(h \<mapsto> H)" "handles (set_entry e E u) = handles u"
  "handles (set_interface i I u) = handles u" "handles (set_notify x N u) = handles u"
  "prot_entries (set_entry e E u) = (prot_entries u)(e \<mapsto> E)" "prot_entries (set_handle h H u) = prot_entries u"
  "prot_entries (set_interface i I u) = prot_entries u" "prot_entries (set_notify x N u) = prot_entries u"
  "interfaces (set_interface i I u) = (interfaces u)(i \<mapsto> I)" "interfaces (set_handle h H u) = interfaces u"
  "interfaces (set_entry e E u) = interfaces u" "interfaces (set_notify x N u) = interfaces u"
  "notifies (set_notify x N u) = (notifies u)(x \<mapsto> N)" "notifies (set_handle h H u) = notifies u"
  "notifies (set_entry e E u) = notifies u" "notifies (set_interface i I u) = notifies u"
  "gHandleList (set_handle h H u) = gHandleList u" "gHandleList (set_entry e E u) = gHandleList u"
  "gHandleList (set_interface i I u) = gHandleList u" "gHandleList (set_notify x N u) = gHandleList u"
  "mProtocolDatabase (set_handle h H u) = mProtocolDatabase u" "mProtocolDatabase (set_entry e E u) = mProtocolDatabase u"
  "mProtocolDatabase (set_interface i I u) = mProtocolDatabase u" "mProtocolDatabase (set_notify x N u) = mProtocolDatabase u"
  "next_object (set_handle h H u) = next_object u" "next_object (set_entry e E u) = next_object u"
  "next_object (set_interface i I u) = next_object u" "next_object (set_notify x N u) = next_object u"
  "gHandleDatabaseKey (set_handle h H u) = gHandleDatabaseKey u" "gHandleDatabaseKey (set_entry e E u) = gHandleDatabaseKey u"
  "gHandleDatabaseKey (set_interface i I u) = gHandleDatabaseKey u" "gHandleDatabaseKey (set_notify x N u) = gHandleDatabaseKey u"
  "mEfiLocateHandleRequest (set_handle h H u) = mEfiLocateHandleRequest u"
  "mEfiLocateHandleRequest (set_entry e E u) = mEfiLocateHandleRequest u"
  "mEfiLocateHandleRequest (set_interface i I u) = mEfiLocateHandleRequest u"
  "mEfiLocateHandleRequest (set_notify x N u) = mEfiLocateHandleRequest u"
  "locks (set_handle h H u) = locks u" "locks (set_entry e E u) = locks u"
  "locks (set_interface i I u) = locks u" "locks (set_notify x N u) = locks u"
  by (simp_all add: set_handle_def set_entry_def set_interface_def set_notify_def)

lemma inside_simps [simp]:
  "handles (inside s) = handles s" "gHandleList (inside s) = gHandleList s" "prot_entries (inside s) = prot_entries s"
  "mProtocolDatabase (inside s) = mProtocolDatabase s" "interfaces (inside s) = interfaces s" "notifies (inside s) = notifies s"
  "next_object (inside s) = next_object s" "gHandleDatabaseKey (inside s) = gHandleDatabaseKey s"
  "mEfiLocateHandleRequest (inside s) = mEfiLocateHandleRequest s" "gDxeCoreImageHandle (inside s) = gDxeCoreImageHandle s"
  "memory (inside s) = memory s" "events (inside s) = events s" "held (inside s) gProtocolDatabaseLock"
  by (simp_all add: inside_def locked_def)

lemma left_simps [simp]:
  "handles (left s u) = handles u" "gHandleList (left s u) = gHandleList u" "prot_entries (left s u) = prot_entries u"
  "mProtocolDatabase (left s u) = mProtocolDatabase u" "interfaces (left s u) = interfaces u" "notifies (left s u) = notifies u"
  "next_object (left s u) = next_object u" "gHandleDatabaseKey (left s u) = gHandleDatabaseKey u"
  "mEfiLocateHandleRequest (left s u) = mEfiLocateHandleRequest u" "gDxeCoreImageHandle (left s u) = gDxeCoreImageHandle u"
  "memory (left s u) = memory u" "events (left s u) = events u" "gEfiCurrentTpl (left s u) = gEfiCurrentTpl s"
  by (simp_all add: left_def unlocked_def)

lemma acquire_eq: "may_enter s \<Longrightarrow> CoreAcquireProtocolLock s = Ret (inside s)"
  unfolding CoreAcquireProtocolLock_def inside_def may_enter_def
  by (intro AcquireLock_eq) (simp_all add: core_inv_def)

lemma locked_assert [simp]: "held u gProtocolDatabaseLock \<Longrightarrow> ASSERT_LOCKED gProtocolDatabaseLock u k = k"
  by (simp add: ASSERT_LOCKED_def)

lemma release_section:
  assumes r: "tpl_restore_total rst" and s: "may_enter s" and i: "in_section gProtocolDatabaseLock s u"
    and na: "nothing_above (gEfiCurrentTpl s) u"
  shows "CoreReleaseProtocolLock rst u = Ret (left s u)" and "svc s (left s u)"
proof -
  have r0: "tpl_restore rst" using r by (simp add: tpl_restore_total_def)
  have h: "gEfiCurrentTpl s \<le> lock_tpl gProtocolDatabaseLock" "core_inv s" "\<not> held s gProtocolDatabaseLock"
    using s by (simp_all add: may_enter_def)
  have "CoreReleaseLock rst gProtocolDatabaseLock u = Ret (left s u) \<and> svc s (left s u)"
    using tpl_restore.safe_leave[OF r0 h(2,3,1) i] tpl_restore.safe_leave_quiet[OF r0 i h(1) na]
      tpl_restore_total.nf_leave[OF r i h(1) na]
    by (cases "CoreReleaseLock rst gProtocolDatabaseLock u") (auto simp: left_def)
  then show "CoreReleaseProtocolLock rst u = Ret (left s u)" "svc s (left s u)"
    by (simp_all add: CoreReleaseProtocolLock_def)
qed

lemma inside_section: "may_enter s \<Longrightarrow> in_section gProtocolDatabaseLock s (inside s)"
  unfolding inside_def may_enter_def by (intro in_section_locked) simp_all

lemma db_only_section:
  assumes "may_enter s" and "db_only (inside s) u"
  shows "in_section gProtocolDatabaseLock s u" and "nothing_above (gEfiCurrentTpl s) u" and "held u gProtocolDatabaseLock"
proof -
  note f = db_only_fields[OF assms(2)] and d = in_sectionD[OF inside_section[OF assms(1)]]
  show "in_section gProtocolDatabaseLock s u"
    using inside_section[OF assms(1)] f by (simp add: in_section_def locks_kept_def)
  show "nothing_above (gEfiCurrentTpl s) u"
    by (rule nothing_above_same) (use assms(1) f in \<open>simp_all add: may_enter_def inside_def\<close>)
  show "held u gProtocolDatabaseLock" using f(3) d(3) by simp
qed

lemma release_db_only:
  assumes "tpl_restore_total rst" and "may_enter s" and "db_only (inside s) u"
  shows "CoreReleaseProtocolLock rst u = Ret (left s u)" and "svc s (left s u)"
  using release_section[OF assms(1,2) db_only_section(1,2)[OF assms(2,3)]] .

text \<open>At most levels up to \<open>t\<close> have become pending, and no time.\<close>

definition quiet_to :: "nat \<Rightarrow> 'x core_scheme \<Rightarrow> 'x core_scheme \<Rightarrow> bool" where
  "quiet_to t s s' \<longleftrightarrow> gPendingTimerDuration s' = gPendingTimerDuration s \<and>
     (\<forall>p. bit (gEventPending s') p \<longrightarrow> bit (gEventPending s) p \<or> p \<le> t)"

lemma quiet_to_refl [simp]: "quiet_to t s s"
  by (simp add: quiet_to_def)

lemma quiet_to_trans: "quiet_to t s s1 \<Longrightarrow> quiet_to t s1 s' \<Longrightarrow> quiet_to t s s'"
  by (auto simp: quiet_to_def)

lemma quiet_to_left:
  assumes "db_only (inside s) u"
  shows "quiet_to t s (left s u)"
  using db_only_fields(4,5)[OF assms] by (simp add: quiet_to_def left_def unlocked_def inside_def locked_def)

lemma may_enter_svc: "may_enter s \<Longrightarrow> svc s s' \<Longrightarrow> may_enter s'"
  using svcD[of s s'] by (simp add: may_enter_def)

lemma may_enter_left:
  fixes s :: "'x db" and rst :: "'x db_restore"
  assumes "tpl_restore_total rst" and "may_enter s" and "db_only (inside s) u"
  shows "may_enter (left s u)"
  using may_enter_svc[OF assms(2) release_db_only(2)[OF assms]] .

section \<open>The invariant\<close>

definition handle_inv :: "'x db \<Rightarrow> bool" where
  "handle_inv s \<longleftrightarrow> distinct (gHandleList s) \<and> (\<forall>h. h \<in> set (gHandleList s) \<longleftrightarrow> handles s h \<noteq> None) \<and>
     (\<forall>h H. handles s h = Some H \<longrightarrow> distinct (HProtocols H) \<and> HProtocols H \<noteq> [] \<and>
        (\<forall>i \<in> set (HProtocols H). \<exists>I. interfaces s i = Some I \<and> IHandle I = h))"

definition entry_inv :: "'x db \<Rightarrow> bool" where
  "entry_inv s \<longleftrightarrow> distinct (mProtocolDatabase s) \<and>
     (\<forall>e. e \<in> set (mProtocolDatabase s) \<longleftrightarrow> prot_entries s e \<noteq> None) \<and>
     (\<forall>e E e' E'. prot_entries s e = Some E \<longrightarrow> prot_entries s e' = Some E' \<longrightarrow>
        ProtocolID E = ProtocolID E' \<longrightarrow> e = e') \<and>
     (\<forall>e E. prot_entries s e = Some E \<longrightarrow> distinct (EProtocols E) \<and> distinct (ENotify E) \<and>
        (\<forall>i \<in> set (EProtocols E). \<exists>I. interfaces s i = Some I \<and> IProtocol I = e) \<and>
        (\<forall>n \<in> set (ENotify E). \<exists>N. notifies s n = Some N \<and> NProtocol N = e))"

definition interface_inv :: "'x db \<Rightarrow> bool" where
  "interface_inv s \<longleftrightarrow>
     (\<forall>i I. interfaces s i = Some I \<longrightarrow>
        (\<exists>H. handles s (IHandle I) = Some H \<and> i \<in> set (HProtocols H)) \<and>
        (\<exists>E. prot_entries s (IProtocol I) = Some E \<and> i \<in> set (EProtocols E)) \<and>
        OpenListCount I = of_nat (length (OpenList I))) \<and>
     (\<forall>i I j J. interfaces s i = Some I \<longrightarrow> interfaces s j = Some J \<longrightarrow>
        IHandle I = IHandle J \<longrightarrow> IProtocol I = IProtocol J \<longrightarrow> i = j)"

definition notify_inv :: "'x db \<Rightarrow> bool" where
  "notify_inv s \<longleftrightarrow> (\<forall>n N. notifies s n = Some N \<longrightarrow>
     (\<exists>E. prot_entries s (NProtocol N) = Some E \<and> n \<in> set (ENotify E) \<and>
        (\<forall>i. Position N = Some i \<longrightarrow> i \<in> set (EProtocols E))))"

definition fresh_inv :: "'x db \<Rightarrow> bool" where
  "fresh_inv s \<longleftrightarrow> (\<forall>x \<ge> next_object s. handles s x = None \<and> prot_entries s x = None \<and>
     interfaces s x = None \<and> notifies s x = None)"

definition db_inv :: "'x db \<Rightarrow> bool" where
  "db_inv s \<longleftrightarrow> handle_inv s \<and> entry_inv s \<and> interface_inv s \<and> notify_inv s \<and> fresh_inv s"

text \<open>The invariant only reads the database.\<close>

lemma db_inv_cong:
  assumes "handles s' = handles s" "gHandleList s' = gHandleList s" "prot_entries s' = prot_entries s"
    "mProtocolDatabase s' = mProtocolDatabase s" "interfaces s' = interfaces s" "notifies s' = notifies s"
    "next_object s' = next_object s"
  shows "db_inv s' = db_inv s"
  using assms by (simp add: db_inv_def handle_inv_def entry_inv_def interface_inv_def notify_inv_def fresh_inv_def)

lemma db_inv_simps [simp]:
  "db_inv (inside s) = db_inv s" "db_inv (left s u) = db_inv u"
  "db_inv (s\<lparr>gHandleDatabaseKey := k\<rparr>) = db_inv s" "db_inv (s\<lparr>mEfiLocateHandleRequest := r\<rparr>) = db_inv s"
  by (rule db_inv_cong; simp)+

lemma handle_invD:
  assumes "db_inv s"
  shows "distinct (gHandleList s)" "h \<in> set (gHandleList s) \<longleftrightarrow> handles s h \<noteq> None"
    "handles s h = Some H \<Longrightarrow> distinct (HProtocols H)" "handles s h = Some H \<Longrightarrow> HProtocols H \<noteq> []"
    "handles s h = Some H \<Longrightarrow> i \<in> set (HProtocols H) \<Longrightarrow> \<exists>I. interfaces s i = Some I \<and> IHandle I = h"
  using assms by (simp_all add: db_inv_def handle_inv_def)

lemma entry_invD:
  assumes "db_inv s"
  shows "distinct (mProtocolDatabase s)" "e \<in> set (mProtocolDatabase s) \<longleftrightarrow> prot_entries s e \<noteq> None"
    "prot_entries s e = Some E \<Longrightarrow> prot_entries s e' = Some E' \<Longrightarrow> ProtocolID E = ProtocolID E' \<Longrightarrow> e = e'"
    "prot_entries s e = Some E \<Longrightarrow> distinct (EProtocols E)" "prot_entries s e = Some E \<Longrightarrow> distinct (ENotify E)"
    "prot_entries s e = Some E \<Longrightarrow> i \<in> set (EProtocols E) \<Longrightarrow> \<exists>I. interfaces s i = Some I \<and> IProtocol I = e"
    "prot_entries s e = Some E \<Longrightarrow> n \<in> set (ENotify E) \<Longrightarrow> \<exists>N. notifies s n = Some N \<and> NProtocol N = e"
proof -
  show "prot_entries s e = Some E \<Longrightarrow> prot_entries s e' = Some E' \<Longrightarrow> ProtocolID E = ProtocolID E' \<Longrightarrow> e = e'"
    using assms unfolding db_inv_def entry_inv_def by blast
qed (use assms in \<open>simp_all add: db_inv_def entry_inv_def\<close>)

lemma interface_invD:
  assumes "db_inv s" and "interfaces s i = Some I"
  shows "\<exists>H. handles s (IHandle I) = Some H \<and> i \<in> set (HProtocols H)"
    "\<exists>E. prot_entries s (IProtocol I) = Some E \<and> i \<in> set (EProtocols E)"
    "OpenListCount I = of_nat (length (OpenList I))"
    "interfaces s j = Some J \<Longrightarrow> IHandle I = IHandle J \<Longrightarrow> IProtocol I = IProtocol J \<Longrightarrow> i = j"
proof -
  show "interfaces s j = Some J \<Longrightarrow> IHandle I = IHandle J \<Longrightarrow> IProtocol I = IProtocol J \<Longrightarrow> i = j"
    using assms unfolding db_inv_def interface_inv_def by blast
qed (use assms in \<open>simp_all add: db_inv_def interface_inv_def\<close>)

lemma notify_invD:
  assumes "db_inv s" and "notifies s n = Some N"
  shows "\<exists>E. prot_entries s (NProtocol N) = Some E \<and> n \<in> set (ENotify E) \<and>
        (\<forall>i. Position N = Some i \<longrightarrow> i \<in> set (EProtocols E))"
  using assms by (simp add: db_inv_def notify_inv_def)

lemma fresh_invD:
  assumes "db_inv s" and "next_object s \<le> x"
  shows "handles s x = None" "prot_entries s x = None" "interfaces s x = None" "notifies s x = None"
  using assms by (simp_all add: db_inv_def fresh_inv_def)

end
