(* ===== verification/ProtocolFacts.thy ===== *)
theory ProtocolFacts
  imports ProtocolInv
begin

text \<open>
  The lookups of the protocol database in terms of its content: under the invariant they return what
  the abstract view \<open>iface_at\<close> / \<open>provides\<close> says, and never fault. Then the services that only
  change one interface record: opening and closing.
\<close>

section \<open>Lookups\<close>

lemma find_unique:
  assumes "x \<in> set l" and "P x" and u: "\<And>y. y \<in> set l \<Longrightarrow> P y \<Longrightarrow> y = x"
  shows "find P l = Some x"
proof -
  have "find P l \<noteq> None" using assms(1,2) by (auto simp: find_None_iff)
  then obtain y where y: "find P l = Some y" by blast
  then have "y \<in> set l" "P y" by (auto simp: find_Some_iff)
  with y u show ?thesis by blast
qed

lemma find_none: "(\<And>y. y \<in> set l \<Longrightarrow> \<not> P y) \<Longrightarrow> find P l = None"
  by (auto simp: find_None_iff)

lemma Validate_walk_eq:
  "\<forall>h \<in> set l. hs h \<noteq> None \<Longrightarrow> Validate_walk hs uh l = Ret (if uh \<in> set l then EFI_SUCCESS else EFI_INVALID_PARAMETER)"
  by (induction l) auto

lemma FindEntry_walk_eq:
  "\<forall>e \<in> set l. es e \<noteq> None \<Longrightarrow>
     FindEntry_walk es g l = Ret (find (\<lambda>e. \<exists>E. es e = Some E \<and> ProtocolID E = g) l)"
  by (induction l) auto

lemma FindInterface_walk_eq:
  "\<forall>i \<in> set l. ifs i \<noteq> None \<Longrightarrow>
     FindInterface_walk ifs v e l = Ret (find (\<lambda>i. \<exists>I. ifs i = Some I \<and> Interface I = v \<and> IProtocol I = e) l)"
  by (induction l) auto

lemma GetInterface_walk_eq:
  "\<forall>i \<in> set l. \<exists>I. ifs i = Some I \<and> es (IProtocol I) \<noteq> None \<Longrightarrow>
     GetInterface_walk ifs es g l =
       Ret (find (\<lambda>i. \<exists>I E. ifs i = Some I \<and> es (IProtocol I) = Some E \<and> ProtocolID E = g) l)"
  by (induction l) auto

text \<open>Interface \<open>i\<close> is the one of protocol \<open>g\<close> on handle \<open>h\<close>.\<close>

definition iface_at :: "'x db \<Rightarrow> nat \<Rightarrow> guid \<Rightarrow> nat \<Rightarrow> bool" where
  "iface_at s h g i \<longleftrightarrow> (\<exists>I E. interfaces s i = Some I \<and> IHandle I = h \<and>
     prot_entries s (IProtocol I) = Some E \<and> ProtocolID E = g)"

text \<open>The abstract view: which interface a handle provides for a protocol.\<close>

definition provides :: "'x db \<Rightarrow> nat \<Rightarrow> guid \<Rightarrow> ptr \<Rightarrow> bool" where
  "provides s h g v \<longleftrightarrow> (\<exists>i I. iface_at s h g i \<and> interfaces s i = Some I \<and> Interface I = v)"

lemma iface_at_unique:
  assumes "db_inv s" and "iface_at s h g i" and "iface_at s h g j"
  shows "i = j"
proof -
  obtain I E where I: "interfaces s i = Some I" "IHandle I = h" "prot_entries s (IProtocol I) = Some E" "ProtocolID E = g"
    using assms(2) by (auto simp: iface_at_def)
  obtain J F where J: "interfaces s j = Some J" "IHandle J = h" "prot_entries s (IProtocol J) = Some F" "ProtocolID F = g"
    using assms(3) by (auto simp: iface_at_def)
  have "IProtocol I = IProtocol J" using entry_invD(3)[OF assms(1) I(3) J(3)] I(4) J(4) by simp
  then show ?thesis using interface_invD(4)[OF assms(1) I(1) J(1)] I(2) J(2) by simp
qed

lemma provides_unique: "db_inv s \<Longrightarrow> provides s h g v \<Longrightarrow> provides s h g w \<Longrightarrow> v = w"
  using iface_at_unique by (fastforce simp: provides_def)

lemma ValidateHandle_eq:
  assumes "db_inv s"
  shows "CoreValidateHandle p s =
    Ret (if \<exists>h. p = Some h \<and> handles s h \<noteq> None then EFI_SUCCESS else EFI_INVALID_PARAMETER)"
proof (cases p)
  case (Some h)
  have "\<forall>h \<in> set (rev (gHandleList s)). handles s h \<noteq> None" using handle_invD(2)[OF assms] by simp
  from Validate_walk_eq[OF this, of h] show ?thesis
    using handle_invD(2)[OF assms, of h] Some by (simp add: CoreValidateHandle_def)
qed (simp add: CoreValidateHandle_def)

lemma FindEntry_some:
  assumes "db_inv s" and "prot_entries s e = Some E" and "ProtocolID E = g"
  shows "FindEntry_walk (prot_entries s) g (mProtocolDatabase s) = Ret (Some e)"
proof -
  have "\<forall>e \<in> set (mProtocolDatabase s). prot_entries s e \<noteq> None" using entry_invD(2)[OF assms(1)] by simp
  moreover have "find (\<lambda>e. \<exists>E. prot_entries s e = Some E \<and> ProtocolID E = g) (mProtocolDatabase s) = Some e"
  proof (rule find_unique)
    show "e \<in> set (mProtocolDatabase s)" using entry_invD(2)[OF assms(1), of e] assms(2) by simp
    fix y assume "\<exists>E. prot_entries s y = Some E \<and> ProtocolID E = g"
    then obtain F where "prot_entries s y = Some F" "ProtocolID F = g" by blast
    then show "y = e" using entry_invD(3)[OF assms(1) _ assms(2), of y F] assms(3) by simp
  qed (use assms(2,3) in simp)
  ultimately show ?thesis by (simp add: FindEntry_walk_eq)
qed

lemma FindEntry_none:
  assumes "db_inv s" and "\<And>e E. prot_entries s e = Some E \<Longrightarrow> ProtocolID E \<noteq> g"
  shows "FindEntry_walk (prot_entries s) g (mProtocolDatabase s) = Ret None"
proof -
  have "\<forall>e \<in> set (mProtocolDatabase s). prot_entries s e \<noteq> None" using entry_invD(2)[OF assms(1)] by simp
  then show ?thesis using assms(2) by (simp add: FindEntry_walk_eq find_none)
qed

lemma HProtocols_live:
  assumes inv: "db_inv s" and H: "handles s h = Some H"
  shows "\<forall>i \<in> set (HProtocols H). \<exists>I. interfaces s i = Some I \<and> IHandle I = h \<and> prot_entries s (IProtocol I) \<noteq> None"
proof
  fix i assume "i \<in> set (HProtocols H)"
  then obtain I where I: "interfaces s i = Some I" "IHandle I = h" using handle_invD(5)[OF inv H] by blast
  then show "\<exists>I. interfaces s i = Some I \<and> IHandle I = h \<and> prot_entries s (IProtocol I) \<noteq> None"
    using interface_invD(2)[OF inv I(1)] by auto
qed

lemma iface_at_mem:
  assumes inv: "db_inv s" and H: "handles s h = Some H"
  shows "i \<in> set (HProtocols H) \<and> (\<exists>I E. interfaces s i = Some I \<and> prot_entries s (IProtocol I) = Some E \<and> ProtocolID E = g)
    \<longleftrightarrow> iface_at s h g i"
proof
  assume "iface_at s h g i"
  then obtain I E where I: "interfaces s i = Some I" "IHandle I = h" "prot_entries s (IProtocol I) = Some E" "ProtocolID E = g"
    by (auto simp: iface_at_def)
  then show "i \<in> set (HProtocols H) \<and> (\<exists>I E. interfaces s i = Some I \<and> prot_entries s (IProtocol I) = Some E \<and> ProtocolID E = g)"
    using interface_invD(1)[OF inv I(1)] H by auto
next
  assume "i \<in> set (HProtocols H) \<and> (\<exists>I E. interfaces s i = Some I \<and> prot_entries s (IProtocol I) = Some E \<and> ProtocolID E = g)"
  then show "iface_at s h g i" using handle_invD(5)[OF inv H, of i] by (auto simp: iface_at_def)
qed

lemma GetInterface_eq:
  assumes inv: "db_inv s"
  shows "CoreGetProtocolInterface p g s = Ret (case p of None \<Rightarrow> None | Some h \<Rightarrow>
      if \<exists>i. iface_at s h g i then Some (THE i. iface_at s h g i) else None)"
proof (cases "\<exists>h H. p = Some h \<and> handles s h = Some H")
  case False
  then have "\<not> iface_at s h g i" if "p = Some h" for h i
    using that interface_invD(1)[OF inv] by (fastforce simp: iface_at_def)
  then show ?thesis using False
    by (auto simp: CoreGetProtocolInterface_def ValidateHandle_eq[OF inv] split: option.split)
next
  case True
  then obtain h H where h: "p = Some h" "handles s h = Some H" by blast
  let ?P = "\<lambda>i. \<exists>I E. interfaces s i = Some I \<and> prot_entries s (IProtocol I) = Some E \<and> ProtocolID E = g"
  have w: "GetInterface_walk (interfaces s) (prot_entries s) g (HProtocols H) = Ret (find ?P (HProtocols H))"
    using HProtocols_live[OF inv h(2)] by (intro GetInterface_walk_eq) blast
  have "find ?P (HProtocols H) = (if \<exists>i. iface_at s h g i then Some (THE i. iface_at s h g i) else None)"
  proof (cases "\<exists>i. iface_at s h g i")
    case True
    then obtain i where i: "iface_at s h g i" by blast
    then have "(THE i. iface_at s h g i) = i" using iface_at_unique[OF inv] by blast
    moreover have "find ?P (HProtocols H) = Some i"
      using iface_at_mem[OF inv h(2), of _ g] i iface_at_unique[OF inv i] by (intro find_unique) blast+
    ultimately show ?thesis using True by simp
  next
    case False
    then have "find ?P (HProtocols H) = None" using iface_at_mem[OF inv h(2), of _ g] by (intro find_none) blast
    then show ?thesis using False by simp
  qed
  with w h show ?thesis by (simp add: CoreGetProtocolInterface_def ValidateHandle_eq[OF inv])
qed

lemma GetInterface_some:
  assumes "db_inv s" and "iface_at s h g i"
  shows "CoreGetProtocolInterface (Some h) g s = Ret (Some i)"
proof -
  have "(THE i. iface_at s h g i) = i" using iface_at_unique[OF assms(1)] assms(2) by blast
  then show ?thesis using assms by (auto simp: GetInterface_eq)
qed

lemma GetInterface_none:
  "db_inv s \<Longrightarrow> (\<And>i. \<not> iface_at s h g i) \<Longrightarrow> CoreGetProtocolInterface (Some h) g s = Ret None"
  by (simp add: GetInterface_eq)

lemma FindInterface_some:
  assumes inv: "db_inv s" and "held s gProtocolDatabaseLock" and i: "iface_at s h g i" and I: "interfaces s i = Some I" "Interface I = v"
  shows "CoreFindProtocolInterface h g v s = Ret (Some i)"
proof -
  obtain E where E: "IHandle I = h" "prot_entries s (IProtocol I) = Some E" "ProtocolID E = g"
    using i I(1) by (auto simp: iface_at_def)
  obtain H where H: "handles s h = Some H" "i \<in> set (HProtocols H)" using interface_invD(1)[OF inv I(1)] E(1) by auto
  let ?P = "\<lambda>i. \<exists>J. interfaces s i = Some J \<and> Interface J = v \<and> IProtocol J = IProtocol I"
  have "find ?P (HProtocols H) = Some i"
  proof (rule find_unique[OF H(2)])
    fix j assume "j \<in> set (HProtocols H)" "?P j"
    then have "iface_at s h g j" using iface_at_mem[OF inv H(1), of j g] E(2,3) by fastforce
    then show "j = i" using iface_at_unique[OF inv i] by blast
  qed (use I in blast)
  moreover have "\<forall>i \<in> set (HProtocols H). interfaces s i \<noteq> None" using HProtocols_live[OF inv H(1)] by blast
  ultimately show ?thesis
    using FindEntry_some[OF inv E(2,3)] assms(2) H(1)
    by (simp add: CoreFindProtocolInterface_def CoreFindProtocolEntry_def FindInterface_walk_eq)
qed

lemma FindInterface_none:
  assumes inv: "db_inv s" and "held s gProtocolDatabaseLock" and H: "handles s h = Some H" and no: "\<not> provides s h g v"
  shows "CoreFindProtocolInterface h g v s = Ret None"
proof (cases "\<exists>e E. prot_entries s e = Some E \<and> ProtocolID E = g")
  case False
  then show ?thesis
    using FindEntry_none[OF inv, of g] assms(2) by (auto simp: CoreFindProtocolInterface_def CoreFindProtocolEntry_def)
next
  case True
  then obtain e E where E: "prot_entries s e = Some E" "ProtocolID E = g" by blast
  have "\<not> (\<exists>I. interfaces s i = Some I \<and> Interface I = v \<and> IProtocol I = e)" if "i \<in> set (HProtocols H)" for i
    using iface_at_mem[OF inv H, of i g] that no E by (auto simp: provides_def)
  then have "find (\<lambda>i. \<exists>I. interfaces s i = Some I \<and> Interface I = v \<and> IProtocol I = e) (HProtocols H) = None"
    by (intro find_none)
  moreover have "\<forall>i \<in> set (HProtocols H). interfaces s i \<noteq> None" using HProtocols_live[OF inv H] by blast
  ultimately show ?thesis
    using FindEntry_some[OF inv E] assms(2) H
    by (simp add: CoreFindProtocolInterface_def CoreFindProtocolEntry_def FindInterface_walk_eq)
qed

end
