(* ===== verification/ProtocolOpen.thy ===== *)
theory ProtocolOpen
  imports ProtocolFacts
begin

text \<open>
  Opening and closing protocols: the exact effect of \<open>CoreOpenProtocol\<close>, \<open>CoreHandleProtocol\<close> and
  \<open>CoreCloseProtocol\<close> on the open list of an interface, for opens that disconnect no driver, and
  the relation \<open>opens_only\<close>: nothing but open lists changes.
\<close>

section \<open>One interface record changes\<close>

definition live :: "'x db \<Rightarrow> ptr \<Rightarrow> bool" where
  "live s p \<longleftrightarrow> (\<exists>h. p = Some h \<and> handles s h \<noteq> None)"

lemma live_simps [simp]:
  "live (inside s) = live s" "live (left s u) = live u" "live (set_interface i I s) = live s"
  "\<not> live s None" "live s (Some h) = (handles s h \<noteq> None)"
  by (auto simp: live_def)

lemma ValidateHandle_live:
  "db_inv s \<Longrightarrow> CoreValidateHandle p s = Ret (if live s p then EFI_SUCCESS else EFI_INVALID_PARAMETER)"
  by (simp add: ValidateHandle_eq live_def)

lemma status_facts [simp]: "\<not> EFI_ERROR EFI_SUCCESS" "EFI_ERROR EFI_INVALID_PARAMETER" "EFI_ERROR EFI_NOT_FOUND"
  "EFI_ERROR EFI_ACCESS_DENIED" "EFI_ERROR EFI_OUT_OF_RESOURCES" "EFI_ERROR EFI_UNSUPPORTED"
  by (simp_all add: EFI_ERROR_def)

lemma iface_live: "db_inv s \<Longrightarrow> iface_at s h g i \<Longrightarrow> live s (Some h)"
  using interface_invD(1) by (fastforce simp: iface_at_def)

text \<open>The links of the database depend on which handle and protocol an interface belongs to only.\<close>

lemma db_inv_set_interface:
  assumes inv: "db_inv s" and I: "interfaces s i = Some I"
    and J: "IHandle J = IHandle I" "IProtocol J = IProtocol I" "OpenListCount J = of_nat (length (OpenList J))"
  shows "db_inv (set_interface i J s)"
proof -
  let ?u = "set_interface i J s"
  have "handle_inv ?u"
  proof -
    have "\<exists>K. interfaces ?u j = Some K \<and> IHandle K = h" if "handles s h = Some H" "j \<in> set (HProtocols H)" for h H j
      using handle_invD(5)[OF inv that] I J by auto
    then show ?thesis using inv unfolding db_inv_def handle_inv_def by simp
  qed
  moreover have "entry_inv ?u"
  proof -
    have "\<exists>K. interfaces ?u j = Some K \<and> IProtocol K = e" if "prot_entries s e = Some E" "j \<in> set (EProtocols E)" for e E j
      using entry_invD(6)[OF inv that] I J by auto
    moreover have "e = e'" if "prot_entries s e = Some E" "prot_entries s e' = Some E'" "ProtocolID E = ProtocolID E'" for e E e' E'
      using entry_invD(3)[OF inv that] .
    ultimately show ?thesis using inv unfolding db_inv_def entry_inv_def by simp
  qed
  moreover have "interface_inv ?u"
    unfolding interface_inv_def
  proof (intro conjI allI impI)
    fix j K assume K: "interfaces ?u j = Some K"
    show "\<exists>H. handles ?u (IHandle K) = Some H \<and> j \<in> set (HProtocols H)"
      using K I J interface_invD(1)[OF inv, of j] by (auto split: if_splits)
    show "\<exists>E. prot_entries ?u (IProtocol K) = Some E \<and> j \<in> set (EProtocols E)"
      using K I J interface_invD(2)[OF inv, of j] by (auto split: if_splits)
    show "OpenListCount K = of_nat (length (OpenList K))"
      using K J interface_invD(3)[OF inv, of j] by (auto split: if_splits)
    fix j' K' assume K': "interfaces ?u j' = Some K'" and eq: "IHandle K = IHandle K'" "IProtocol K = IProtocol K'"
    obtain L where L: "interfaces s j = Some L" "IHandle L = IHandle K" "IProtocol L = IProtocol K"
      using K I J by (auto split: if_splits)
    obtain L' where L': "interfaces s j' = Some L'" "IHandle L' = IHandle K'" "IProtocol L' = IProtocol K'"
      using K' I J by (auto split: if_splits)
    show "j = j'" using interface_invD(4)[OF inv L(1) L'(1)] L L' eq by simp
  qed
  moreover have "notify_inv ?u" using inv by (simp add: db_inv_def notify_inv_def)
  moreover have "fresh_inv ?u"
  proof -
    have "\<not> next_object s \<le> i" using fresh_invD(3)[OF inv, of i] I by fastforce
    then show ?thesis using inv by (auto simp: db_inv_def fresh_inv_def)
  qed
  ultimately show ?thesis by (simp add: db_inv_def)
qed

lemma iface_at_set_interface:
  assumes I: "interfaces s i = Some I" and J: "IHandle J = IHandle I" "IProtocol J = IProtocol I"
  shows "iface_at (set_interface i J s) = iface_at s"
  using assms by (auto simp: iface_at_def fun_eq_iff)

lemma provides_set_interface:
  assumes I: "interfaces s i = Some I" and J: "IHandle J = IHandle I" "IProtocol J = IProtocol I" "Interface J = Interface I"
  shows "provides (set_interface i J s) = provides s"
  using assms iface_at_set_interface[OF I J(1,2)] by (auto simp: provides_def fun_eq_iff)

lemma set_interface_same: "interfaces s i = Some I \<Longrightarrow> set_interface i I s = s"
  by (simp add: set_interface_def fun_upd_idem)

section \<open>Opening\<close>

text \<open>A record of the same agent, controller and attributes.\<close>

definition same_open :: "ptr \<Rightarrow> ptr \<Rightarrow> u32 \<Rightarrow> open_protocol_data \<Rightarrow> bool" where
  "same_open ih ch attr d \<longleftrightarrow> AgentHandle d = ih \<and> OAttributes d = attr \<and> ControllerHandle d = ch"

text \<open>Every attribute but exclusive alone lets an identical open count up.\<close>

definition may_recount :: "u32 \<Rightarrow> bool" where
  "may_recount attr \<longleftrightarrow> attr AND EFI_OPEN_PROTOCOL_BY_DRIVER \<noteq> 0 \<or> attr AND EFI_OPEN_PROTOCOL_EXCLUSIVE = 0"

definition is_by_driver :: "open_protocol_data \<Rightarrow> bool" where
  "is_by_driver d \<longleftrightarrow> OAttributes d AND EFI_OPEN_PROTOCOL_BY_DRIVER \<noteq> 0"

definition is_exclusive :: "open_protocol_data \<Rightarrow> bool" where
  "is_exclusive d \<longleftrightarrow> OAttributes d AND EFI_OPEN_PROTOCOL_EXCLUSIVE \<noteq> 0"

fun count_up :: "(open_protocol_data \<Rightarrow> bool) \<Rightarrow> open_protocol_data list \<Rightarrow> open_protocol_data list" where
  "count_up P [] = []"
| "count_up P (d # ds) = (if P d then d\<lparr>OpenCount := OpenCount d + 1\<rparr> # ds else d # count_up P ds)"

lemma length_count_up [simp]: "length (count_up P ds) = length ds"
  by (induction ds) simp_all

lemma Open_scan_eq:
  "Open_scan ih ch attr bd ex pre ds =
     (if may_recount attr \<and> (\<exists>d \<in> set ds. same_open ih ch attr d) then Reopened (pre @ count_up (same_open ih ch attr) ds)
      else Scanned (bd \<or> (\<exists>d \<in> set ds. is_by_driver d)) (ex \<or> (\<exists>d \<in> set ds. is_exclusive d)))"
proof (induction ds arbitrary: bd ex pre)
  case (Cons d ds)
  have a: "same_open ih ch attr d \<Longrightarrow> may_recount attr \<longleftrightarrow> is_by_driver d \<or> \<not> is_exclusive d"
    by (auto simp: same_open_def may_recount_def is_by_driver_def is_exclusive_def)
  have e: "Open_scan ih ch attr bd ex pre (d # ds) =
     (if same_open ih ch attr d \<and> (is_by_driver d \<or> \<not> is_exclusive d)
      then Reopened (pre @ count_up (same_open ih ch attr) (d # ds))
      else Open_scan ih ch attr (bd \<or> is_by_driver d) (ex \<or> is_exclusive d) (pre @ [d]) ds)"
    by (cases "is_by_driver d"; cases "is_exclusive d"; cases "same_open ih ch attr d")
      (simp_all only: Open_scan.simps Let_def is_by_driver_def is_exclusive_def same_open_def count_up.simps
        simp_thms if_True if_False)
  show ?case
    by (cases "same_open ih ch attr d") (simp_all add: e Cons.IH a ac_simps del: Open_scan.simps)
qed simp

text \<open>What an open that disconnects nobody does to the open list.\<close>

definition denied :: "u32 \<Rightarrow> open_protocol_data list \<Rightarrow> bool" where
  "denied attr ds \<longleftrightarrow>
     attr AND EFI_OPEN_PROTOCOL_EXCLUSIVE \<noteq> 0 \<and> (\<exists>d \<in> set ds. is_exclusive d) \<or>
     attr = EFI_OPEN_PROTOCOL_BY_DRIVER \<and> (\<exists>d \<in> set ds. is_exclusive d \<or> is_by_driver d)"

definition opened :: "bool \<Rightarrow> ptr \<Rightarrow> ptr \<Rightarrow> u32 \<Rightarrow> open_protocol_data list \<Rightarrow> efi_status \<times> open_protocol_data list" where
  "opened mem ih ch attr ds =
     (if may_recount attr \<and> (\<exists>d \<in> set ds. same_open ih ch attr d) then (EFI_SUCCESS, count_up (same_open ih ch attr) ds)
      else if denied attr ds then (EFI_ACCESS_DENIED, ds)
      else if ih = None then (EFI_SUCCESS, ds)
      else if \<not> mem then (EFI_OUT_OF_RESOURCES, ds)
      else (EFI_SUCCESS, ds @ [\<lparr>AgentHandle = ih, ControllerHandle = ch, OAttributes = attr, OpenCount = 1\<rparr>]))"

definition valid_attributes :: "u32 list" where
  "valid_attributes = [EFI_OPEN_PROTOCOL_BY_HANDLE_PROTOCOL, EFI_OPEN_PROTOCOL_GET_PROTOCOL, EFI_OPEN_PROTOCOL_TEST_PROTOCOL,
     EFI_OPEN_PROTOCOL_BY_CHILD_CONTROLLER, EFI_OPEN_PROTOCOL_BY_DRIVER, EFI_OPEN_PROTOCOL_EXCLUSIVE,
     EFI_OPEN_PROTOCOL_BY_DRIVER_EXCLUSIVE]"

text \<open>The handles an open needs.\<close>

definition open_valid :: "ptr \<Rightarrow> ptr \<Rightarrow> ptr \<Rightarrow> u32 \<Rightarrow> 'x db \<Rightarrow> bool" where
  "open_valid uh ih ch attr s \<longleftrightarrow> live s uh \<and> attr \<in> set valid_attributes \<and>
     (attr AND (EFI_OPEN_PROTOCOL_BY_CHILD_CONTROLLER OR EFI_OPEN_PROTOCOL_BY_DRIVER OR EFI_OPEN_PROTOCOL_EXCLUSIVE) \<noteq> 0 \<longrightarrow> live s ih) \<and>
     (attr AND (EFI_OPEN_PROTOCOL_BY_CHILD_CONTROLLER OR EFI_OPEN_PROTOCOL_BY_DRIVER) \<noteq> 0 \<longrightarrow> live s ch) \<and>
     (attr = EFI_OPEN_PROTOCOL_BY_CHILD_CONTROLLER \<longrightarrow> uh \<noteq> ch)"

lemma Open_validate_eq:
  "db_inv s \<Longrightarrow> Open_validate uh ih ch attr s = Ret (if open_valid uh ih ch attr s then EFI_SUCCESS else EFI_INVALID_PARAMETER)"
  by (auto simp: Open_validate_def validate_all_def ValidateHandle_live open_valid_def valid_attributes_def)

text \<open>An exclusive open of an interface that a driver has opened disconnects the driver first.\<close>

definition must_disconnect :: "u32 \<Rightarrow> open_protocol_data list \<Rightarrow> bool" where
  "must_disconnect attr ds \<longleftrightarrow> attr AND EFI_OPEN_PROTOCOL_EXCLUSIVE \<noteq> 0 \<and> (\<exists>d \<in> set ds. is_by_driver d)"

definition with_opens :: "open_protocol_data list \<Rightarrow> protocol_interface \<Rightarrow> protocol_interface" where
  "with_opens ds I = I\<lparr>OpenList := ds, OpenListCount := of_nat (length ds)\<rparr>"

lemma with_opens_simps [simp]:
  "IHandle (with_opens ds I) = IHandle I" "IProtocol (with_opens ds I) = IProtocol I"
  "Interface (with_opens ds I) = Interface I" "OpenList (with_opens ds I) = ds"
  "OpenListCount (with_opens ds I) = of_nat (length ds)"
  by (simp_all add: with_opens_def)

lemma with_opens_same: "OpenListCount I = of_nat (length (OpenList I)) \<Longrightarrow> with_opens (OpenList I) I = I"
  by (simp add: with_opens_def)

lemma length_opened: "length (snd (opened mem ih ch attr ds)) \<le> Suc (length ds)"
  by (simp add: opened_def)

lemma Open_apply_eq:
  assumes I: "interfaces s i = Some I" and n: "OpenListCount I = of_nat (length (OpenList I))"
    and attr: "attr \<in> set valid_attributes" and nd: "\<not> must_disconnect attr (OpenList I)"
  shows "Open_apply rst disc mem k uh i ih ch attr s = (case opened (mem AllocOpenData) ih ch attr (OpenList I) of
    (st, ds) \<Rightarrow> Ret (st, set_interface i (with_opens ds I) s))"
proof -
  have same: "set_interface i (with_opens (OpenList I) I) s = s"
    using I n by (simp add: with_opens_same set_interface_same)
  have r: "Open_record mem i ih ch attr s =
      (if ih = None then Ret (EFI_SUCCESS, set_interface i (with_opens (OpenList I) I) s)
       else if \<not> mem AllocOpenData then Ret (EFI_OUT_OF_RESOURCES, set_interface i (with_opens (OpenList I) I) s)
       else Ret (EFI_SUCCESS, set_interface i (with_opens (OpenList I @
          [\<lparr>AgentHandle = ih, ControllerHandle = ch, OAttributes = attr, OpenCount = 1\<rparr>]) I) s))"
    using I n by (simp add: Open_record_def same) (simp add: with_opens_def add.commute)
  have c: "I\<lparr>OpenList := count_up P (OpenList I)\<rparr> = with_opens (count_up P (OpenList I)) I" for P
    using n by (simp add: with_opens_def)
  show ?thesis
  proof (cases "may_recount attr \<and> (\<exists>d \<in> set (OpenList I). same_open ih ch attr d)")
    case True
    then show ?thesis using I c by (simp add: Open_apply_def Open_scan_eq opened_def)
  next
    case False
    define B where "B \<longleftrightarrow> (\<exists>d \<in> set (OpenList I). is_by_driver d)"
    define E where "E \<longleftrightarrow> (\<exists>d \<in> set (OpenList I). is_exclusive d)"
    have scan: "Open_scan ih ch attr False False [] (OpenList I) = Scanned B E"
      using False by (simp only: Open_scan_eq if_False B_def E_def simp_thms)
    have den: "denied attr (OpenList I) \<longleftrightarrow> attr AND EFI_OPEN_PROTOCOL_EXCLUSIVE \<noteq> 0 \<and> E \<or> attr = EFI_OPEN_PROTOCOL_BY_DRIVER \<and> (E \<or> B)"
      by (auto simp: denied_def B_def E_def)
    have nd': "attr AND EFI_OPEN_PROTOCOL_EXCLUSIVE \<noteq> 0 \<longrightarrow> \<not> B" using nd unfolding must_disconnect_def B_def by blast
    have "Open_apply rst disc mem k uh i ih ch attr s =
        (if denied attr (OpenList I) then Ret (EFI_ACCESS_DENIED, s) else Open_record mem i ih ch attr s)"
      using attr nd' unfolding Open_apply_def den by (auto simp: I scan valid_attributes_def)
    then show ?thesis unfolding opened_def if_not_P[OF False] r by (simp add: same)
  qed
qed

lemma section_set_interface:
  fixes rst :: "'x db_restore"
  assumes "tpl_restore_total rst" and "may_enter s"
  shows "CoreReleaseProtocolLock rst (set_interface i I (inside s)) = Ret (left s (set_interface i I (inside s)))"
    and "CoreReleaseProtocolLock rst (inside s) = Ret (left s (inside s))"
  by (rule release_db_only(1)[OF assms]; simp)+

lemma GetInterface_inside:
  "db_inv s \<Longrightarrow> iface_at s h g i \<Longrightarrow> CoreGetProtocolInterface (Some h) g (inside s) = Ret (Some i)"
  "db_inv s \<Longrightarrow> (\<And>i. \<not> iface_at s h g i) \<Longrightarrow> CoreGetProtocolInterface (Some h) g (inside s) = Ret None"
  by (rule GetInterface_some GetInterface_none; simp add: iface_at_def)+

definition open_output :: "u32 \<Rightarrow> efi_status \<Rightarrow> ptr \<Rightarrow> ptr option" where
  "open_output attr st v = (if attr = EFI_OPEN_PROTOCOL_TEST_PROTOCOL \<or> EFI_ERROR st then None else Some v)"

lemma OpenProtocol_eq:
  fixes s :: "'x db" and rst :: "'x db_restore"
  assumes r: "tpl_restore_total rst" and s: "may_enter s" and inv: "db_inv s"
    and v: "open_valid (Some h) ih ch attr s" and o: "attr \<noteq> EFI_OPEN_PROTOCOL_TEST_PROTOCOL \<longrightarrow> out"
    and i: "iface_at s h g i" and I: "interfaces s i = Some I" and nd: "\<not> must_disconnect attr (OpenList I)"
  shows "CoreOpenProtocol rst disc mem k (Some h) (Some g) out ih ch attr s =
    (case opened (mem AllocOpenData) ih ch attr (OpenList I) of (st, ds) \<Rightarrow>
       Ret (st, open_output attr st (Interface I), left s (set_interface i (with_opens ds I) (inside s))))"
proof -
  have a: "Open_apply rst disc mem k (Some h) i ih ch attr (inside s) = (case opened (mem AllocOpenData) ih ch attr (OpenList I) of
    (st, ds) \<Rightarrow> Ret (st, set_interface i (with_opens ds I) (inside s)))"
    using I v nd interface_invD(3)[OF inv I] by (intro Open_apply_eq) (simp_all add: open_valid_def)
  obtain st ds where st: "opened (mem AllocOpenData) ih ch attr (OpenList I) = (st, ds)" by (cases "opened (mem AllocOpenData) ih ch attr (OpenList I)")
  have "st \<in> {EFI_SUCCESS, EFI_ACCESS_DENIED, EFI_OUT_OF_RESOURCES}"
    using st by (auto simp: opened_def split: if_splits)
  then have "Open_result attr st (Some i) (set_interface i (with_opens ds I) (inside s)) = Ret (open_output attr st (Interface I))"
    by (auto simp: Open_result_def open_output_def)
  then show ?thesis
    using v o by (auto simp: CoreOpenProtocol_def Open_validate_eq[OF inv] acquire_eq[OF s] GetInterface_inside(1)[OF inv i] a st
        section_set_interface[OF r s])
qed

lemma OpenProtocol_absent:
  fixes s :: "'x db" and rst :: "'x db_restore"
  assumes r: "tpl_restore_total rst" and s: "may_enter s" and inv: "db_inv s"
    and v: "open_valid (Some h) ih ch attr s" and o: "attr \<noteq> EFI_OPEN_PROTOCOL_TEST_PROTOCOL \<longrightarrow> out"
    and i: "\<And>i. \<not> iface_at s h g i"
  shows "CoreOpenProtocol rst disc mem k (Some h) (Some g) out ih ch attr s =
    Ret (EFI_UNSUPPORTED, if attr = EFI_OPEN_PROTOCOL_TEST_PROTOCOL then None else Some None, left s (inside s))"
  using v o by (simp add: CoreOpenProtocol_def Open_validate_eq[OF inv] acquire_eq[OF s] GetInterface_inside(2)[OF inv i]
      section_set_interface[OF r s] Open_result_def)

lemma OpenProtocol_invalid:
  "db_inv s \<Longrightarrow> \<not> open_valid uh ih ch attr s \<Longrightarrow>
     CoreOpenProtocol rst disc mem k uh p out ih ch attr s = Ret (EFI_INVALID_PARAMETER, None, s)"
  by (simp add: CoreOpenProtocol_def Open_validate_eq split: option.split)

section \<open>Services that only change the open lists\<close>

definition opens_only :: "'x db \<Rightarrow> 'x db \<Rightarrow> bool" where
  "opens_only s s' \<longleftrightarrow> svc s s' \<and> db_inv s' \<and> handles s' = handles s \<and> gHandleList s' = gHandleList s \<and>
     prot_entries s' = prot_entries s \<and> mProtocolDatabase s' = mProtocolDatabase s \<and> notifies s' = notifies s \<and>
     next_object s' = next_object s \<and> gHandleDatabaseKey s' = gHandleDatabaseKey s \<and> events s' = events s \<and>
     memory s' = memory s \<and> gDxeCoreImageHandle s' = gDxeCoreImageHandle s \<and>
     mEfiLocateHandleRequest s' = mEfiLocateHandleRequest s \<and> (\<forall>t. quiet_to t s s') \<and>
     (\<forall>i. map_option (with_opens []) (interfaces s' i) = map_option (with_opens []) (interfaces s i))"

lemma opens_only_left:
  fixes s :: "'x db" and rst :: "'x db_restore"
  assumes "tpl_restore_total rst" and "may_enter s" and inv: "db_inv s"
    and I: "interfaces s i = Some I"
  shows "opens_only s (left s (set_interface i (with_opens ds I) (inside s)))"
proof -
  have "db_inv (set_interface i (with_opens ds I) (inside s))"
    using db_inv_set_interface[of "inside s" i I] inv I by simp
  moreover have "svc s (left s (set_interface i (with_opens ds I) (inside s)))"
    by (rule release_db_only(2)[OF assms(1,2)]) simp
  moreover have "events (left s (set_interface i (with_opens ds I) (inside s))) = events s"
    "memory (left s (set_interface i (with_opens ds I) (inside s))) = memory s"
    "gDxeCoreImageHandle (left s (set_interface i (with_opens ds I) (inside s))) = gDxeCoreImageHandle s"
    by (simp_all add: set_interface_def)
  moreover have "quiet_to t s (left s (set_interface i (with_opens ds I) (inside s)))" for t
    by (rule quiet_to_left) simp
  ultimately show ?thesis using I by (simp add: opens_only_def with_opens_def)
qed

lemma opens_only_same:
  fixes s :: "'x db" and rst :: "'x db_restore"
  assumes "tpl_restore_total rst" and "may_enter s" and "db_inv s"
  shows "opens_only s (left s (inside s))"
  using release_db_only(2)[OF assms(1,2), of "inside s"] assms(3) quiet_to_left[of s "inside s"]
  by (simp add: opens_only_def)

lemma opens_onlyD:
  assumes "opens_only s s'"
  shows "svc s s'" "db_inv s'" "handles s' = handles s" "gHandleList s' = gHandleList s"
    "prot_entries s' = prot_entries s" "mProtocolDatabase s' = mProtocolDatabase s" "notifies s' = notifies s"
    "next_object s' = next_object s" "events s' = events s" "memory s' = memory s"
    "gDxeCoreImageHandle s' = gDxeCoreImageHandle s" "gHandleDatabaseKey s' = gHandleDatabaseKey s"
    "mEfiLocateHandleRequest s' = mEfiLocateHandleRequest s" "quiet_to t s s'"
  using assms by (simp_all add: opens_only_def)

lemma opens_only_interface:
  assumes "opens_only s s'" and "interfaces s i = Some I"
  shows "\<exists>ds n. interfaces s' i = Some (I\<lparr>OpenList := ds, OpenListCount := n\<rparr>)"
proof -
  have "map_option (with_opens []) (interfaces s' i) = Some (with_opens [] I)" using assms by (simp add: opens_only_def)
  then obtain J where J: "interfaces s' i = Some J" "with_opens [] J = with_opens [] I" by blast
  then have "J = I\<lparr>OpenList := OpenList J, OpenListCount := OpenListCount J\<rparr>"
    by (cases I; cases J) (simp add: with_opens_def)
  then show ?thesis using J(1) by metis
qed

lemma opens_only_sym_interface:
  assumes "opens_only s s'" and "interfaces s' i = Some J"
  shows "\<exists>I. interfaces s i = Some I \<and> IHandle I = IHandle J \<and> IProtocol I = IProtocol J \<and> Interface I = Interface J"
proof -
  have "map_option (with_opens []) (interfaces s i) = Some (with_opens [] J)"
    using assms by (metis opens_only_def option.simps(9))
  then obtain I where "interfaces s i = Some I" "with_opens [] I = with_opens [] J" by blast
  then show ?thesis by (metis with_opens_simps(1,2,3))
qed

lemma opens_only_provides:
  assumes "opens_only s s'"
  shows "iface_at s' = iface_at s" and "provides s' = provides s"
proof -
  have e: "prot_entries s' = prot_entries s" using opens_onlyD[OF assms] by simp
  have 1: "iface_at s' h g i \<longleftrightarrow> iface_at s h g i" for h g i
    using opens_only_interface[OF assms, of i] opens_only_sym_interface[OF assms, of i] unfolding iface_at_def e by fastforce
  then show "iface_at s' = iface_at s" by (simp add: fun_eq_iff)
  have "provides s' h g v \<longleftrightarrow> provides s h g v" for h g v
    using opens_only_interface[OF assms] opens_only_sym_interface[OF assms] unfolding provides_def 1 by fastforce
  then show "provides s' = provides s" by (simp add: fun_eq_iff)
qed

lemma opens_only_refl: "may_enter s \<Longrightarrow> db_inv s \<Longrightarrow> opens_only s s"
  by (simp add: opens_only_def may_enter_def svc_refl)

lemma opens_only_trans: "opens_only s t \<Longrightarrow> opens_only t u \<Longrightarrow> opens_only s u"
  using svc_trans quiet_to_trans by (fastforce simp: opens_only_def)

lemma opens_only_enter: "may_enter s \<Longrightarrow> opens_only s s' \<Longrightarrow> may_enter s'"
  using may_enter_svc opens_onlyD(1) by blast

lemma OpenProtocol_opens_only:
  fixes s :: "'x db" and rst :: "'x db_restore"
  assumes r: "tpl_restore_total rst" and s: "may_enter s" and inv: "db_inv s"
    and o: "attr \<noteq> EFI_OPEN_PROTOCOL_TEST_PROTOCOL \<longrightarrow> out"
    and nd: "\<And>h i I. uh = Some h \<Longrightarrow> iface_at s h g i \<Longrightarrow> interfaces s i = Some I \<Longrightarrow> \<not> must_disconnect attr (OpenList I)"
  shows "\<exists>st v s'. CoreOpenProtocol rst disc mem k uh (Some g) out ih ch attr s = Ret (st, v, s') \<and> opens_only s s'"
proof (cases "open_valid uh ih ch attr s")
  case False
  then show ?thesis using OpenProtocol_invalid[OF inv] opens_only_refl[OF s inv] by blast
next
  case True
  then obtain h where h: "uh = Some h" by (auto simp: open_valid_def live_def)
  show ?thesis
  proof (cases "\<exists>i. iface_at s h g i")
    case False
    then show ?thesis using OpenProtocol_absent[OF r s inv _ o, of h ih ch g] True h opens_only_same[OF r s inv] by blast
  next
    case hit: True
    then obtain i I where i: "iface_at s h g i" "interfaces s i = Some I" by (auto simp: iface_at_def)
    obtain st ds where st: "opened (mem AllocOpenData) ih ch attr (OpenList I) = (st, ds)"
      by (cases "opened (mem AllocOpenData) ih ch attr (OpenList I)")
    show ?thesis using OpenProtocol_eq[OF r s inv True[unfolded h] o i nd[OF h i], of disc mem k] h st opens_only_left[OF r s inv i(2)] by simp
  qed
qed

text \<open>Nobody but \<open>HandleProtocol\<close> and get and test opens use the interface.\<close>

definition all_passive :: "protocol_interface \<Rightarrow> bool" where
  "all_passive I \<longleftrightarrow> (\<forall>d \<in> set (OpenList I). OAttributes d AND passive_attributes \<noteq> 0 \<and> \<not> is_by_driver d)"

definition idle_on :: "'x db \<Rightarrow> nat \<Rightarrow> guid \<Rightarrow> bool" where
  "idle_on s h g \<longleftrightarrow> (\<exists>i I. iface_at s h g i \<and> interfaces s i = Some I \<and> all_passive I)"

lemma count_up_mem: "d \<in> set (count_up P ds) \<Longrightarrow> \<exists>d0 \<in> set ds. OAttributes d = OAttributes d0"
  by (induction ds) (auto split: if_splits)

lemma all_passive_opened:
  assumes "all_passive I"
  shows "all_passive (with_opens (snd (opened m ih ch EFI_OPEN_PROTOCOL_BY_HANDLE_PROTOCOL (OpenList I))) I)"
proof -
  have "OAttributes d AND passive_attributes \<noteq> 0 \<and> OAttributes d AND EFI_OPEN_PROTOCOL_BY_DRIVER = 0"
    if "d \<in> set (count_up P (OpenList I))" for d P
    using count_up_mem[OF that] assms by (auto simp: all_passive_def is_by_driver_def)
  then show ?thesis using assms by (auto simp: all_passive_def opened_def is_by_driver_def)
qed

lemma HandleProtocol_eq:
  fixes s :: "'x db" and rst :: "'x db_restore"
  assumes r: "tpl_restore_total rst" and s: "may_enter s" and inv: "db_inv s"
    and m: "mem AllocOpenData \<or> gDxeCoreImageHandle s = None"
  shows "\<exists>s'. CoreHandleProtocol rst disc mem k uh (Some g) True s =
     Ret (if \<not> live s uh then (EFI_INVALID_PARAMETER, None, s')
          else if \<exists>v. provides s (the uh) g v then (EFI_SUCCESS, Some (THE v. provides s (the uh) g v), s')
          else (EFI_UNSUPPORTED, Some None, s')) \<and> opens_only s s' \<and> (\<forall>h g'. idle_on s h g' \<longrightarrow> idle_on s' h g')"
proof (cases "live s uh")
  case False
  then have "\<not> open_valid uh (gDxeCoreImageHandle s) None EFI_OPEN_PROTOCOL_BY_HANDLE_PROTOCOL s" by (simp add: open_valid_def)
  then show ?thesis using False opens_only_refl[OF s inv] by (auto simp: CoreHandleProtocol_def OpenProtocol_invalid[OF inv])
next
  case True
  then obtain h where h: "uh = Some h" by (auto simp: live_def)
  have v: "open_valid (Some h) ih None EFI_OPEN_PROTOCOL_BY_HANDLE_PROTOCOL s" for ih
    using True h by (simp add: open_valid_def valid_attributes_def)
  show ?thesis
  proof (cases "\<exists>i. iface_at s h g i")
    case False
    then have "\<not> provides s h g v" for v by (simp add: provides_def)
    then show ?thesis using OpenProtocol_absent[OF r s inv v, of True g] False True h opens_only_same[OF r s inv]
      by (simp add: CoreHandleProtocol_def idle_on_def iface_at_def)
  next
    case hit: True
    then obtain i I where i: "iface_at s h g i" "interfaces s i = Some I" by (auto simp: iface_at_def)
    then have p: "provides s h g (Interface I)" by (auto simp: provides_def)
    then have "(THE v. provides s h g v) = Interface I" using provides_unique[OF inv] by blast
    moreover have "fst (opened (mem AllocOpenData) (gDxeCoreImageHandle s) None EFI_OPEN_PROTOCOL_BY_HANDLE_PROTOCOL (OpenList I)) = EFI_SUCCESS"
      using m by (auto simp: opened_def denied_def)
    then obtain ds where "opened (mem AllocOpenData) (gDxeCoreImageHandle s) None EFI_OPEN_PROTOCOL_BY_HANDLE_PROTOCOL (OpenList I) = (EFI_SUCCESS, ds)"
      by (metis prod.collapse)
    moreover have "idle_on (left s (set_interface i (with_opens ds I) (inside s))) h' g'"
      if ds: "opened (mem AllocOpenData) (gDxeCoreImageHandle s) None EFI_OPEN_PROTOCOL_BY_HANDLE_PROTOCOL (OpenList I) = (EFI_SUCCESS, ds)"
        and id: "idle_on s h' g'" for ds h' g'
    proof -
      obtain j J where J: "iface_at s h' g' j" "interfaces s j = Some J" "all_passive J" using id by (auto simp: idle_on_def)
      have "all_passive (with_opens ds J)" if "j = i"
        using all_passive_opened[OF J(3), of "mem AllocOpenData" "gDxeCoreImageHandle s" None] ds that i(2) J(2) by simp
      then show ?thesis using J i(2)
        by (cases "j = i") (auto simp: idle_on_def iface_at_def intro!: exI[of _ j])
    qed
    ultimately show ?thesis
      using OpenProtocol_eq[OF r s inv v _ i, of True disc mem k] p True h opens_only_left[OF r s inv i(2), of ds]
      by (auto simp: CoreHandleProtocol_def open_output_def must_disconnect_def)
  qed
qed

section \<open>Closing\<close>

definition closes :: "ptr \<Rightarrow> ptr \<Rightarrow> open_protocol_data \<Rightarrow> bool" where
  "closes ah ch d \<longleftrightarrow> AgentHandle d = ah \<and> ControllerHandle d = ch"

lemma Close_walk_eq:
  "Close_walk ah ch st n ds = (if \<exists>d \<in> set ds. closes ah ch d then EFI_SUCCESS else st,
     n - of_nat (length (filter (closes ah ch) ds)), filter (\<lambda>d. \<not> closes ah ch d) ds)"
  by (induction ds arbitrary: st n) (auto simp: closes_def)

lemma filtered_count:
  "(of_nat (length ds) :: u64) - of_nat (length (filter P ds)) = of_nat (length (filter (\<lambda>d. \<not> P d) ds))"
proof -
  have "(of_nat (length ds) :: u64) = of_nat (length (filter P ds)) + of_nat (length (filter (\<lambda>d. \<not> P d) ds))"
    by (metis of_nat_add sum_length_filter_compl)
  then show ?thesis by simp
qed

definition closed_opens :: "ptr \<Rightarrow> ptr \<Rightarrow> protocol_interface \<Rightarrow> protocol_interface" where
  "closed_opens ah ch I = with_opens (filter (\<lambda>d. \<not> closes ah ch d) (OpenList I)) I"

definition close_valid :: "ptr \<Rightarrow> ptr \<Rightarrow> ptr \<Rightarrow> 'x db \<Rightarrow> bool" where
  "close_valid uh ah ch s \<longleftrightarrow> live s uh \<and> live s ah \<and> (ch \<noteq> None \<longrightarrow> live s ch)"

lemma close_validate_eq:
  "db_inv s \<Longrightarrow> validate_all ([uh, ah] @ (if ch \<noteq> None then [ch] else [])) s =
     Ret (if close_valid uh ah ch s then EFI_SUCCESS else EFI_INVALID_PARAMETER)"
  by (simp add: validate_all_def ValidateHandle_live close_valid_def)

lemma CloseProtocol_eq:
  fixes s :: "'x db" and rst :: "'x db_restore"
  assumes r: "tpl_restore_total rst" and s: "may_enter s" and inv: "db_inv s"
    and v: "close_valid (Some h) ah ch s" and i: "iface_at s h g i" and I: "interfaces s i = Some I"
  shows "CoreCloseProtocol rst (Some h) (Some g) ah ch s =
    Ret (if \<exists>d \<in> set (OpenList I). closes ah ch d then EFI_SUCCESS else EFI_NOT_FOUND,
      left s (set_interface i (closed_opens ah ch I) (inside s)))"
proof -
  have c: "Close_walk ah ch EFI_NOT_FOUND (OpenListCount I) (OpenList I) =
    (if \<exists>d \<in> set (OpenList I). closes ah ch d then EFI_SUCCESS else EFI_NOT_FOUND,
      OpenListCount (closed_opens ah ch I), OpenList (closed_opens ah ch I))"
    by (simp add: Close_walk_eq interface_invD(3)[OF inv I] filtered_count closed_opens_def)
  have "I\<lparr>OpenList := OpenList (closed_opens ah ch I), OpenListCount := OpenListCount (closed_opens ah ch I)\<rparr> = closed_opens ah ch I"
    by (simp add: closed_opens_def with_opens_def)
  then show ?thesis
    unfolding CoreCloseProtocol_def close_validate_eq[OF inv]
    using v by (simp add: acquire_eq[OF s] GetInterface_inside(1)[OF inv i] I c section_set_interface[OF r s])
qed

lemma CloseProtocol_invalid:
  assumes "db_inv s" and "\<not> close_valid uh ah ch s"
  shows "CoreCloseProtocol rst uh p ah ch s = Ret (EFI_INVALID_PARAMETER, s)"
  unfolding CoreCloseProtocol_def close_validate_eq[OF assms(1)] using assms(2) by simp

lemma CloseProtocol_absent:
  fixes s :: "'x db" and rst :: "'x db_restore"
  assumes r: "tpl_restore_total rst" and s: "may_enter s" and inv: "db_inv s"
    and v: "close_valid (Some h) ah ch s" and i: "\<And>i. \<not> iface_at s h g i"
  shows "CoreCloseProtocol rst (Some h) (Some g) ah ch s = Ret (EFI_NOT_FOUND, left s (inside s))"
  unfolding CoreCloseProtocol_def close_validate_eq[OF inv]
  using v by (simp add: acquire_eq[OF s] GetInterface_inside(2)[OF inv i] section_set_interface[OF r s])

lemma CloseProtocol_opens_only:
  fixes s :: "'x db" and rst :: "'x db_restore"
  assumes r: "tpl_restore_total rst" and s: "may_enter s" and inv: "db_inv s"
  shows "\<exists>st s'. CoreCloseProtocol rst uh (Some g) ah ch s = Ret (st, s') \<and> opens_only s s'"
proof (cases "close_valid uh ah ch s")
  case False
  then show ?thesis using CloseProtocol_invalid[OF inv] opens_only_refl[OF s inv] by blast
next
  case True
  then obtain h where h: "uh = Some h" by (auto simp: close_valid_def live_def)
  show ?thesis
  proof (cases "\<exists>i. iface_at s h g i")
    case False
    then show ?thesis using CloseProtocol_absent[OF r s inv, of h] True h opens_only_same[OF r s inv] by blast
  next
    case hit: True
    then obtain i I where i: "iface_at s h g i" "interfaces s i = Some I" by (auto simp: iface_at_def)
    show ?thesis using CloseProtocol_eq[OF r s inv True[unfolded h] i] h opens_only_left[OF r s inv i(2)]
      unfolding closed_opens_def by blast
  qed
qed

end
