(* ===== verification/ProtocolLink.thy ===== *)
theory ProtocolLink
  imports ProtocolOpen
begin

text \<open>
  The writes of an installation - a new handle, a new protocol entry, the links of a new interface -
  and what they do to the invariant; and the notification of the watchers of a protocol when it runs
  nothing.
\<close>

section \<open>Linking a new interface\<close>

text \<open>Handle \<open>h\<close> may be empty: between its creation and its first interface, and between the removal
  of its last interface and its release.\<close>

definition db_inv_but :: "nat \<Rightarrow> 'x db \<Rightarrow> bool" where
  "db_inv_but h s \<longleftrightarrow> distinct (gHandleList s) \<and> (\<forall>h. h \<in> set (gHandleList s) \<longleftrightarrow> handles s h \<noteq> None) \<and>
     (\<forall>h' H. handles s h' = Some H \<longrightarrow> distinct (HProtocols H) \<and> (h' = h \<or> HProtocols H \<noteq> []) \<and>
        (\<forall>i \<in> set (HProtocols H). \<exists>I. interfaces s i = Some I \<and> IHandle I = h')) \<and>
     entry_inv s \<and> interface_inv s \<and> notify_inv s \<and> fresh_inv s"

lemma db_inv_but:
  "db_inv s \<longleftrightarrow> db_inv_but h s \<and> (\<forall>H. handles s h = Some H \<longrightarrow> HProtocols H \<noteq> [])"
  unfolding db_inv_def db_inv_but_def handle_inv_def by blast

lemma db_inv_butI: "db_inv s \<Longrightarrow> db_inv_but h s"
  using db_inv_but by blast

lemma db_inv_but_cong:
  assumes "handles s' = handles s" "gHandleList s' = gHandleList s" "prot_entries s' = prot_entries s"
    "mProtocolDatabase s' = mProtocolDatabase s" "interfaces s' = interfaces s" "notifies s' = notifies s"
    "next_object s' = next_object s"
  shows "db_inv_but h s' = db_inv_but h s"
  using assms by (simp add: db_inv_but_def entry_inv_def interface_inv_def notify_inv_def fresh_inv_def)

text \<open>The writes of \<open>Install_link\<close>.\<close>

definition linked :: "nat \<Rightarrow> nat \<Rightarrow> nat \<Rightarrow> ptr \<Rightarrow> 'x db \<Rightarrow> 'x db" where
  "linked i h e v s = (case (handles s h, prot_entries s e) of
     (Some H, Some E) \<Rightarrow> set_entry e (E\<lparr>EProtocols := EProtocols E @ [i]\<rparr>)
       (set_handle h (H\<lparr>HProtocols := i # HProtocols H\<rparr>)
         (set_interface i \<lparr>IHandle = h, IProtocol = e, Interface = v, OpenList = [], OpenListCount = 0\<rparr> s))
   | _ \<Rightarrow> s)"

definition new_handle :: "'x db \<Rightarrow> 'x db" where
  "new_handle s = s\<lparr>handles := (handles s)(next_object s := Some \<lparr>HProtocols = [], LocateRequest = 0, Key = gHandleDatabaseKey s + 1\<rparr>),
     next_object := next_object s + 1, gHandleDatabaseKey := gHandleDatabaseKey s + 1, gHandleList := gHandleList s @ [next_object s]\<rparr>"

definition new_entry :: "guid \<Rightarrow> 'x db \<Rightarrow> 'x db" where
  "new_entry g s = s\<lparr>prot_entries := (prot_entries s)(next_object s := Some \<lparr>ProtocolID = g, EProtocols = [], ENotify = []\<rparr>),
     next_object := next_object s + 1, mProtocolDatabase := mProtocolDatabase s @ [next_object s]\<rparr>"

lemma db_inv_butD:
  assumes "db_inv_but h s"
  shows "distinct (gHandleList s)" "h' \<in> set (gHandleList s) \<longleftrightarrow> handles s h' \<noteq> None"
    "handles s h' = Some H \<Longrightarrow> distinct (HProtocols H)"
    "handles s h' = Some H \<Longrightarrow> h' = h \<or> HProtocols H \<noteq> []"
    "handles s h' = Some H \<Longrightarrow> i \<in> set (HProtocols H) \<Longrightarrow> \<exists>I. interfaces s i = Some I \<and> IHandle I = h'"
    "entry_inv s" "interface_inv s" "notify_inv s" "fresh_inv s"
proof -
  show "handles s h' = Some H \<Longrightarrow> h' = h \<or> HProtocols H \<noteq> []"
    using assms unfolding db_inv_but_def by blast
qed (use assms in \<open>simp_all add: db_inv_but_def\<close>)

lemma entry_inv_dest:
  assumes "entry_inv s"
  shows "distinct (mProtocolDatabase s)" "e \<in> set (mProtocolDatabase s) \<longleftrightarrow> prot_entries s e \<noteq> None"
    "prot_entries s e = Some E \<Longrightarrow> prot_entries s e' = Some E' \<Longrightarrow> ProtocolID E = ProtocolID E' \<Longrightarrow> e = e'"
    "prot_entries s e = Some E \<Longrightarrow> distinct (EProtocols E)" "prot_entries s e = Some E \<Longrightarrow> distinct (ENotify E)"
    "prot_entries s e = Some E \<Longrightarrow> i \<in> set (EProtocols E) \<Longrightarrow> \<exists>I. interfaces s i = Some I \<and> IProtocol I = e"
    "prot_entries s e = Some E \<Longrightarrow> n \<in> set (ENotify E) \<Longrightarrow> \<exists>N. notifies s n = Some N \<and> NProtocol N = e"
proof -
  show "prot_entries s e = Some E \<Longrightarrow> prot_entries s e' = Some E' \<Longrightarrow> ProtocolID E = ProtocolID E' \<Longrightarrow> e = e'"
    using assms unfolding entry_inv_def by blast
qed (use assms in \<open>simp_all add: entry_inv_def\<close>)

lemma entry_invI:
  assumes "distinct (mProtocolDatabase s)" and "\<And>e. e \<in> set (mProtocolDatabase s) \<longleftrightarrow> prot_entries s e \<noteq> None"
    and "\<And>e E e' E'. prot_entries s e = Some E \<Longrightarrow> prot_entries s e' = Some E' \<Longrightarrow> ProtocolID E = ProtocolID E' \<Longrightarrow> e = e'"
    and "\<And>e E. prot_entries s e = Some E \<Longrightarrow> distinct (EProtocols E) \<and> distinct (ENotify E)"
    and "\<And>e E i. prot_entries s e = Some E \<Longrightarrow> i \<in> set (EProtocols E) \<Longrightarrow> \<exists>I. interfaces s i = Some I \<and> IProtocol I = e"
    and "\<And>e E n. prot_entries s e = Some E \<Longrightarrow> n \<in> set (ENotify E) \<Longrightarrow> \<exists>N. notifies s n = Some N \<and> NProtocol N = e"
  shows "entry_inv s"
  unfolding entry_inv_def using assms by blast

lemma interface_inv_dest:
  assumes "interface_inv s" and "interfaces s i = Some I"
  shows "\<exists>H. handles s (IHandle I) = Some H \<and> i \<in> set (HProtocols H)"
    "\<exists>E. prot_entries s (IProtocol I) = Some E \<and> i \<in> set (EProtocols E)"
    "OpenListCount I = of_nat (length (OpenList I))"
    "interfaces s j = Some J \<Longrightarrow> IHandle I = IHandle J \<Longrightarrow> IProtocol I = IProtocol J \<Longrightarrow> i = j"
proof -
  show "interfaces s j = Some J \<Longrightarrow> IHandle I = IHandle J \<Longrightarrow> IProtocol I = IProtocol J \<Longrightarrow> i = j"
    using assms unfolding interface_inv_def by blast
qed (use assms in \<open>simp_all add: interface_inv_def\<close>)

lemma interface_invI:
  assumes "\<And>i I. interfaces s i = Some I \<Longrightarrow> \<exists>H. handles s (IHandle I) = Some H \<and> i \<in> set (HProtocols H)"
    and "\<And>i I. interfaces s i = Some I \<Longrightarrow> \<exists>E. prot_entries s (IProtocol I) = Some E \<and> i \<in> set (EProtocols E)"
    and "\<And>i I. interfaces s i = Some I \<Longrightarrow> OpenListCount I = of_nat (length (OpenList I))"
    and "\<And>i I j J. interfaces s i = Some I \<Longrightarrow> interfaces s j = Some J \<Longrightarrow>
        IHandle I = IHandle J \<Longrightarrow> IProtocol I = IProtocol J \<Longrightarrow> i = j"
  shows "interface_inv s"
  unfolding interface_inv_def using assms by blast

lemma fresh_inv_dest:
  assumes "fresh_inv s" and "next_object s \<le> x"
  shows "handles s x = None" "prot_entries s x = None" "interfaces s x = None" "notifies s x = None"
  using assms by (simp_all add: fresh_inv_def)

lemma linked_inv:
  assumes inv: "db_inv_but h s" and H: "handles s h = Some H" and E: "prot_entries s e = Some E"
    and i: "interfaces s i = None" "i < next_object s"
    and new: "\<And>j J. interfaces s j = Some J \<Longrightarrow> IHandle J = h \<Longrightarrow> IProtocol J \<noteq> e"
  shows "db_inv (linked i h e v s)"
proof -
  note d = db_inv_butD[OF inv]
  note de = entry_inv_dest[OF d(6)] and di = interface_inv_dest[OF d(7)]
  let ?u = "linked i h e v s"
  let ?N = "\<lparr>IHandle = h, IProtocol = e, Interface = v, OpenList = [], OpenListCount = 0\<rparr>"
  have u: "handles ?u = (handles s)(h \<mapsto> H\<lparr>HProtocols := i # HProtocols H\<rparr>)"
    "prot_entries ?u = (prot_entries s)(e \<mapsto> E\<lparr>EProtocols := EProtocols E @ [i]\<rparr>)"
    "interfaces ?u = (interfaces s)(i \<mapsto> ?N)" "notifies ?u = notifies s" "gHandleList ?u = gHandleList s"
    "mProtocolDatabase ?u = mProtocolDatabase s" "next_object ?u = next_object s"
    by (simp_all add: linked_def H E)
  have iH: "i \<notin> set (HProtocols H')" if "handles s h' = Some H'" for h' H' using d(5)[OF that] i(1) by fastforce
  have iE: "i \<notin> set (EProtocols E')" if "prot_entries s e' = Some E'" for e' E' using de(6)[OF that] i(1) by fastforce
  have ifs: "\<exists>J. interfaces ?u j = Some J \<and> IHandle J = IHandle I \<and> IProtocol J = IProtocol I" if "interfaces s j = Some I" for j I
    using that i(1) by (auto simp: u)
  have "handle_inv ?u" unfolding handle_inv_def
  proof (intro conjI allI impI)
    show "distinct (gHandleList ?u)" by (simp add: u d(1))
    show "(h' \<in> set (gHandleList ?u)) = (handles ?u h' \<noteq> None)" for h' using d(2)[of h'] H by (simp add: u)
    fix h' H' assume H': "handles ?u h' = Some H'"
    show "distinct (HProtocols H')" using H' d(3)[of h'] d(3)[OF H] iH[OF H] by (auto simp: u split: if_splits)
    show "HProtocols H' \<noteq> []" using H' d(4)[of h'] by (auto simp: u split: if_splits)
    show "\<forall>j\<in>set (HProtocols H'). \<exists>I. interfaces ?u j = Some I \<and> IHandle I = h'"
    proof
      fix j assume j: "j \<in> set (HProtocols H')"
      show "\<exists>I. interfaces ?u j = Some I \<and> IHandle I = h'"
      proof (cases "j = i")
        case True
        then have "h' = h" using j H' iH[of h' H'] by (auto simp: u split: if_splits)
        then show ?thesis using True by (simp add: u)
      next
        case False
        then have "\<exists>H0. handles s h' = Some H0 \<and> j \<in> set (HProtocols H0)" using j H' H by (auto simp: u split: if_splits)
        then show ?thesis using d(5) False by (auto simp: u)
      qed
    qed
  qed
  moreover have "entry_inv ?u"
  proof (rule entry_invI)
    show "distinct (mProtocolDatabase ?u)" by (simp add: u de(1))
    show "(x \<in> set (mProtocolDatabase ?u)) = (prot_entries ?u x \<noteq> None)" for x using de(2)[of x] E by (simp add: u)
    have old: "\<exists>X0. prot_entries s x = Some X0 \<and> ProtocolID X0 = ProtocolID X \<and> ENotify X0 = ENotify X" if "prot_entries ?u x = Some X" for x X
      using that E by (auto simp: u split: if_splits)
    show "x = y" if xy: "prot_entries ?u x = Some X" "prot_entries ?u y = Some Y" "ProtocolID X = ProtocolID Y" for x X y Y
      using old[OF xy(1)] old[OF xy(2)] xy(3) de(3) by metis
    show "distinct (EProtocols X) \<and> distinct (ENotify X)" if "prot_entries ?u x = Some X" for x X
      using that de(4,5)[of x] de(4,5)[OF E] iE[OF E] by (auto simp: u split: if_splits)
    show "\<exists>I. interfaces ?u j = Some I \<and> IProtocol I = x" if X: "prot_entries ?u x = Some X" "j \<in> set (EProtocols X)" for x X j
    proof (cases "j = i")
      case True
      then have "x = e" using X iE[of x X] by (auto simp: u split: if_splits)
      then show ?thesis using True by (simp add: u)
    next
      case False
      then have "\<exists>X0. prot_entries s x = Some X0 \<and> j \<in> set (EProtocols X0)" using X E by (auto simp: u split: if_splits)
      then show ?thesis using de(6) False by (auto simp: u)
    qed
    show "\<exists>N. notifies ?u n = Some N \<and> NProtocol N = x" if X: "prot_entries ?u x = Some X" "n \<in> set (ENotify X)" for x X n
      using old[OF X(1)] de(7) X(2) by (auto simp: u)
  qed
  moreover have "interface_inv ?u"
  proof (rule interface_invI)
    fix j J assume J: "interfaces ?u j = Some J"
    show "\<exists>H. handles ?u (IHandle J) = Some H \<and> j \<in> set (HProtocols H)"
      using J di(1)[of j J] H by (cases "j = i") (auto simp: u)
    show "\<exists>E. prot_entries ?u (IProtocol J) = Some E \<and> j \<in> set (EProtocols E)"
      using J di(2)[of j J] E by (cases "j = i") (auto simp: u)
    show "OpenListCount J = of_nat (length (OpenList J))" using J di(3)[of j J] by (cases "j = i") (auto simp: u)
    fix k K assume K: "interfaces ?u k = Some K" "IHandle J = IHandle K" "IProtocol J = IProtocol K"
    show "j = k"
    proof (cases "j = i \<or> k = i")
      case True
      then show ?thesis using J K new[of j J] new[of k K] by (auto simp: u split: if_splits)
    next
      case False
      then show ?thesis using J K di(4)[of j J k K] by (simp add: u)
    qed
  qed
  moreover have "notify_inv ?u" using d(8) E unfolding notify_inv_def by (fastforce simp: u)
  moreover have "fresh_inv ?u"
    using d(9) H E i(2) fresh_inv_dest(1,2)[OF d(9)] by (auto simp: fresh_inv_def u)
  ultimately show ?thesis by (simp add: db_inv_def)
qed

lemma new_handle_simps [simp]:
  "handles (new_handle s) = (handles s)(next_object s \<mapsto> \<lparr>HProtocols = [], LocateRequest = 0, Key = gHandleDatabaseKey s + 1\<rparr>)"
  "gHandleList (new_handle s) = gHandleList s @ [next_object s]" "prot_entries (new_handle s) = prot_entries s"
  "mProtocolDatabase (new_handle s) = mProtocolDatabase s" "interfaces (new_handle s) = interfaces s"
  "notifies (new_handle s) = notifies s" "next_object (new_handle s) = next_object s + 1" "locks (new_handle s) = locks s"
  "db_only u (new_handle s) = db_only u s" "events (new_handle s) = events s" "memory (new_handle s) = memory s"
  by (simp_all add: new_handle_def)

lemma new_entry_simps [simp]:
  "prot_entries (new_entry g s) = (prot_entries s)(next_object s \<mapsto> \<lparr>ProtocolID = g, EProtocols = [], ENotify = []\<rparr>)"
  "mProtocolDatabase (new_entry g s) = mProtocolDatabase s @ [next_object s]" "handles (new_entry g s) = handles s"
  "gHandleList (new_entry g s) = gHandleList s" "interfaces (new_entry g s) = interfaces s"
  "notifies (new_entry g s) = notifies s" "next_object (new_entry g s) = next_object s + 1" "locks (new_entry g s) = locks s"
  "db_only u (new_entry g s) = db_only u s" "events (new_entry g s) = events s" "memory (new_entry g s) = memory s"
  by (simp_all add: new_entry_def)

lemma new_handle_inv:
  assumes inv: "db_inv s"
  shows "db_inv_but (next_object s) (new_handle s)"
proof -
  let ?u = "new_handle s" and ?h = "next_object s"
  note d = handle_invD[OF inv]
  have old: "handles s ?h = None" using fresh_invD(1)[OF inv] by simp
  have nl: "?h \<notin> set (gHandleList s)" using d(2) old by simp
  have "entry_inv ?u" using inv by (simp add: db_inv_def entry_inv_def)
  moreover have "interface_inv ?u"
    using interface_invD[OF inv] old by (intro interface_invI) fastforce+
  moreover have "notify_inv ?u" using inv by (simp add: db_inv_def notify_inv_def)
  moreover have "fresh_inv ?u" using inv by (simp add: db_inv_def fresh_inv_def)
  moreover have "distinct (gHandleList ?u)" using d(1) nl by simp
  moreover have "\<forall>h. h \<in> set (gHandleList ?u) \<longleftrightarrow> handles ?u h \<noteq> None" using d(2) by simp
  moreover have "distinct (HProtocols H) \<and> (h' = ?h \<or> HProtocols H \<noteq> []) \<and>
        (\<forall>i \<in> set (HProtocols H). \<exists>I. interfaces ?u i = Some I \<and> IHandle I = h')" if "handles ?u h' = Some H" for h' H
    using that d(3,4,5)[of h' H] by (cases "h' = ?h") auto
  ultimately show ?thesis unfolding db_inv_but_def by blast
qed

lemma new_entry_inv:
  assumes inv: "db_inv s" and new: "\<And>e E. prot_entries s e = Some E \<Longrightarrow> ProtocolID E \<noteq> g"
  shows "db_inv (new_entry g s)"
proof -
  let ?u = "new_entry g s" and ?e = "next_object s"
  note d = entry_invD[OF inv]
  have old: "prot_entries s ?e = None" using fresh_invD(2)[OF inv] by simp
  have "handle_inv ?u" using inv by (simp add: db_inv_def handle_inv_def)
  moreover have "entry_inv ?u"
  proof (rule entry_invI)
    show "distinct (mProtocolDatabase ?u)" using d(1,2) old by simp
    show "(x \<in> set (mProtocolDatabase ?u)) = (prot_entries ?u x \<noteq> None)" for x using d(2)[of x] by simp
    show "x = y" if "prot_entries ?u x = Some X" "prot_entries ?u y = Some Y" "ProtocolID X = ProtocolID Y" for x X y Y
      using that d(3)[of x X y Y] new[of x X] new[of y Y] by (auto split: if_splits)
    show "distinct (EProtocols X) \<and> distinct (ENotify X)" if "prot_entries ?u x = Some X" for x X
      using that d(4,5)[of x X] by (auto split: if_splits)
    show "\<exists>I. interfaces ?u j = Some I \<and> IProtocol I = x" if "prot_entries ?u x = Some X" "j \<in> set (EProtocols X)" for x X j
      using that d(6)[of x X j] by (auto split: if_splits)
    show "\<exists>N. notifies ?u n = Some N \<and> NProtocol N = x" if "prot_entries ?u x = Some X" "n \<in> set (ENotify X)" for x X n
      using that d(7)[of x X n] by (auto split: if_splits)
  qed
  moreover have "interface_inv ?u"
  proof (rule interface_invI)
    fix i I assume I: "interfaces ?u i = Some I"
    then have I': "interfaces s i = Some I" by simp
    note di = interface_invD[OF inv I']
    show "\<exists>H. handles ?u (IHandle I) = Some H \<and> i \<in> set (HProtocols H)" using di(1) by simp
    show "\<exists>E. prot_entries ?u (IProtocol I) = Some E \<and> i \<in> set (EProtocols E)" using di(2) old by auto
    show "OpenListCount I = of_nat (length (OpenList I))" using di(3) .
    show "i = j" if "interfaces ?u j = Some J" "IHandle I = IHandle J" "IProtocol I = IProtocol J" for j J
      using di(4)[of j J] that by simp
  qed
  moreover have "notify_inv ?u" using notify_invD[OF inv] old unfolding notify_inv_def by fastforce
  moreover have "fresh_inv ?u" using inv by (simp add: db_inv_def fresh_inv_def)
  ultimately show ?thesis by (simp add: db_inv_def)
qed

lemma next_object_inv:
  assumes "db_inv s" and "next_object s \<le> n"
  shows "db_inv (s\<lparr>next_object := n\<rparr>)"
  using assms by (simp add: db_inv_def handle_inv_def entry_inv_def interface_inv_def notify_inv_def fresh_inv_def)

section \<open>Notifying without running anything\<close>

text \<open>Signalling the event at this level only queues its notification, at level \<open>t\<close> or below.\<close>

definition quiet_event :: "nat \<Rightarrow> 'x core_scheme \<Rightarrow> nat \<Rightarrow> bool" where
  "quiet_event t s e \<longleftrightarrow> (\<exists>ev. events s e = Some ev \<and> ExFlag ev AND EVT_EXFLAG_EVENT_GROUP = 0 \<and>
     (Type ev AND EVT_NOTIFY_SIGNAL \<noteq> 0 \<longrightarrow> NotifyTpl ev \<le> t))"

lemma quiet_event_frame:
  assumes "sig_frame s s'" and "quiet_event t s e"
  shows "quiet_event t s' e"
proof -
  have "same_but_signal (events s e) (events s' e)" using assms(1) by (simp add: sig_frame_def)
  then show ?thesis using assms(2) by (auto simp: quiet_event_def same_but_signal_def option_rel_Some1)
qed

lemma sig_frame_db:
  assumes "sig_frame s (s' :: 'x db)"
  shows "handles s' = handles s" "gHandleList s' = gHandleList s" "prot_entries s' = prot_entries s"
    "mProtocolDatabase s' = mProtocolDatabase s" "interfaces s' = interfaces s" "notifies s' = notifies s"
    "next_object s' = next_object s" "gHandleDatabaseKey s' = gHandleDatabaseKey s"
    "mEfiLocateHandleRequest s' = mEfiLocateHandleRequest s" "gDxeCoreImageHandle s' = gDxeCoreImageHandle s"
    "memory s' = memory s" "gPendingTimerDuration s' = gPendingTimerDuration s"
proof -
  have s': "s' = s\<lparr>events := events s', gEventQueue := gEventQueue s', gEventPending := gEventPending s',
            gEfiCurrentTpl := gEfiCurrentTpl s', locks := locks s'\<rparr>" using assms by (simp add: sig_frame_def)
  show "handles s' = handles s" "gHandleList s' = gHandleList s" "prot_entries s' = prot_entries s"
    "mProtocolDatabase s' = mProtocolDatabase s" "interfaces s' = interfaces s" "notifies s' = notifies s"
    "next_object s' = next_object s" "gHandleDatabaseKey s' = gHandleDatabaseKey s"
    "mEfiLocateHandleRequest s' = mEfiLocateHandleRequest s" "gDxeCoreImageHandle s' = gDxeCoreImageHandle s"
    "memory s' = memory s" "gPendingTimerDuration s' = gPendingTimerDuration s"
    by (subst s'; simp)+
qed

lemma NotifyProtocol_walk_quiet:
  fixes s :: "'x db" and rst :: "'x db_restore"
  assumes r: "tpl_restore_total rst"
  shows "core_inv s \<Longrightarrow> \<not> held s gEventQueueLock \<Longrightarrow> t \<le> gEfiCurrentTpl s \<Longrightarrow>
    \<forall>n \<in> set l. \<exists>N. notifies s n = Some N \<and> quiet_event t s (NEvent N) \<Longrightarrow>
    \<exists>s'. NotifyProtocol_walk rst l s = Ret s' \<and> svc s s' \<and> sig_frame s s' \<and>
      (\<forall>p. bit (gEventPending s') p \<longrightarrow> bit (gEventPending s) p \<or> p \<le> t)"
proof (induction l arbitrary: s)
  case Nil
  then show ?case by (simp add: svc_refl)
next
  case (Cons n l)
  obtain N ev where N: "notifies s n = Some N" "events s (NEvent N) = Some ev" "ExFlag ev AND EVT_EXFLAG_EVENT_GROUP = 0"
    "Type ev AND EVT_NOTIFY_SIGNAL \<noteq> 0 \<longrightarrow> NotifyTpl ev \<le> t"
    using Cons.prems(4) by (auto simp: quiet_event_def)
  have q: "Type ev AND EVT_NOTIFY_SIGNAL \<noteq> 0 \<longrightarrow> NotifyTpl ev \<le> gEfiCurrentTpl s" using N(4) Cons.prems(3) by auto
  obtain s1 where s1: "CoreSignalEvent rst (Some (NEvent N)) s = Ret (EFI_SUCCESS, s1)" "svc s s1" "sig_frame s s1"
    "\<forall>p. bit (gEventPending s1) p \<longrightarrow> bit (gEventPending s) p \<or> Type ev AND EVT_NOTIFY_SIGNAL \<noteq> 0 \<and> p = NotifyTpl ev"
    using tpl_restore_total.SignalEvent_quiet[OF r Cons.prems(1,2) N(2,3) q] by blast
  note d = svcD[OF s1(2)]
  have p1: "bit (gEventPending s1) p \<Longrightarrow> bit (gEventPending s) p \<or> p \<le> t" for p using s1(4) N(4) by blast
  obtain s' where s': "NotifyProtocol_walk rst l s1 = Ret s'" "svc s1 s'" "sig_frame s1 s'"
      "\<forall>p. bit (gEventPending s') p \<longrightarrow> bit (gEventPending s1) p \<or> p \<le> t"
  proof -
    have "\<exists>s'. NotifyProtocol_walk rst l s1 = Ret s' \<and> svc s1 s' \<and> sig_frame s1 s' \<and>
      (\<forall>p. bit (gEventPending s') p \<longrightarrow> bit (gEventPending s1) p \<or> p \<le> t)"
    proof (rule Cons.IH)
      show "\<forall>n \<in> set l. \<exists>N. notifies s1 n = Some N \<and> quiet_event t s1 (NEvent N)"
        using Cons.prems(4) quiet_event_frame[OF s1(3)] sig_frame_db(6)[OF s1(3)] by auto
    qed (use d Cons.prems in simp_all)
    then show thesis using that by blast
  qed
  have "bit (gEventPending s') p \<longrightarrow> bit (gEventPending s) p \<or> p \<le> t" for p using s'(4) p1 by blast
  then show ?case using N(1) s1(1) s' svc_trans[OF s1(2) s'(2)] sig_frame_trans[OF s1(3) s'(3)] by simp
qed

end
