(* ===== verification/ProtocolView.thy ===== *)
theory ProtocolView
  imports ProtocolLink
begin

text \<open>
  The abstract view of the database: for each protocol the list of its instances - a handle and an
  interface - in the order of installation, and the list of its notify records; for each notify record
  the instances it has not been told of yet.
\<close>

section \<open>The instances of a protocol\<close>

definition entry_at :: "'x db \<Rightarrow> guid \<Rightarrow> nat option" where
  "entry_at s g = find (\<lambda>e. case prot_entries s e of None \<Rightarrow> False | Some E \<Rightarrow> ProtocolID E = g) (mProtocolDatabase s)"

definition instance_of :: "'x db \<Rightarrow> nat \<Rightarrow> nat \<times> ptr" where
  "instance_of s i = (case interfaces s i of None \<Rightarrow> (0, None) | Some I \<Rightarrow> (IHandle I, Interface I))"

text \<open>The abstract view of the database: each protocol has a list of handles with their interfaces,
  in the order of installation.\<close>

definition instances :: "'x db \<Rightarrow> guid \<Rightarrow> (nat \<times> ptr) list" where
  "instances s g = (case entry_at s g of None \<Rightarrow> []
     | Some e \<Rightarrow> (case prot_entries s e of None \<Rightarrow> [] | Some E \<Rightarrow> map (instance_of s) (EProtocols E)))"

lemma entry_at_some:
  assumes inv: "db_inv s" and E: "prot_entries s e = Some E" "ProtocolID E = g"
  shows "entry_at s g = Some e"
  unfolding entry_at_def
proof (rule find_unique)
  show "e \<in> set (mProtocolDatabase s)" using entry_invD(2)[OF inv, of e] E by simp
  fix y assume "case prot_entries s y of None \<Rightarrow> False | Some E \<Rightarrow> ProtocolID E = g"
  then obtain Y where "prot_entries s y = Some Y" "ProtocolID Y = g" by (auto split: option.splits)
  then show "y = e" using entry_invD(3)[OF inv _ E(1)] E(2) by simp
qed (use E in simp)

lemma entry_at_none:
  assumes "\<And>e E. prot_entries s e = Some E \<Longrightarrow> ProtocolID E \<noteq> g"
  shows "entry_at s g = None"
  unfolding entry_at_def by (rule find_none) (auto split: option.splits dest: assms)

lemma entry_at_cases [consumes 1, case_names none some]:
  assumes "db_inv s"
  obtains (none) "entry_at s g = None" "\<And>e E. prot_entries s e = Some E \<Longrightarrow> ProtocolID E \<noteq> g"
    | (some) e E where "entry_at s g = Some e" "prot_entries s e = Some E" "ProtocolID E = g"
proof (cases "\<exists>e E. prot_entries s e = Some E \<and> ProtocolID E = g")
  case True
  then show thesis using some entry_at_some[OF assms] by blast
next
  case False
  then have no: "ProtocolID E \<noteq> g" if "prot_entries s e = Some E" for e E using that by blast
  show thesis by (rule none[OF entry_at_none[OF no] no])
qed

lemma instances_some:
  assumes "db_inv s" and "prot_entries s e = Some E" and "ProtocolID E = g"
  shows "instances s g = map (instance_of s) (EProtocols E)"
  using entry_at_some[OF assms] assms(2) by (simp add: instances_def)

lemma instances_none:
  "(\<And>e E. prot_entries s e = Some E \<Longrightarrow> ProtocolID E \<noteq> g) \<Longrightarrow> instances s g = []"
  by (simp add: instances_def entry_at_none)

lemma instances_cong:
  assumes "interfaces s' = interfaces s" and "prot_entries s' = prot_entries s" and "mProtocolDatabase s' = mProtocolDatabase s"
  shows "instances s' = instances s"
proof -
  have io: "instance_of s' = instance_of s" by (simp add: instance_of_def[abs_def] assms(1))
  show ?thesis unfolding instances_def[abs_def] entry_at_def assms(2,3) io by (rule refl)
qed

lemma instances_simps [simp]:
  "instances (inside s) = instances s" "instances (left s u) = instances u" "instances (new_handle s) = instances s"
  "instances (s\<lparr>next_object := n\<rparr>) = instances s" "instances (s\<lparr>mEfiLocateHandleRequest := r\<rparr>) = instances s"
  "instances (set_handle h H s) = instances s" "instances (set_notify k N s) = instances s"
  by (rule instances_cong; simp)+

lemma instance_of_live:
  "interfaces s i = Some I \<Longrightarrow> instance_of s i = (IHandle I, Interface I)"
  by (simp add: instance_of_def)

lemma provides_instances:
  assumes inv: "db_inv s"
  shows "provides s h g v \<longleftrightarrow> (h, v) \<in> set (instances s g)"
proof
  assume "provides s h g v"
  then obtain i I E where I: "interfaces s i = Some I" "IHandle I = h" "Interface I = v" "prot_entries s (IProtocol I) = Some E" "ProtocolID E = g"
    by (auto simp: provides_def iface_at_def)
  then have "i \<in> set (EProtocols E)" using interface_invD(2)[OF inv I(1)] by simp
  then show "(h, v) \<in> set (instances s g)"
    using instances_some[OF inv I(4,5)] instance_of_live[OF I(1)] I(2,3) by force
next
  assume mem: "(h, v) \<in> set (instances s g)"
  then have "instances s g \<noteq> []" by auto
  then obtain e E where e: "prot_entries s e = Some E" "ProtocolID E = g"
    using instances_none[of s g] by blast
  then obtain i where i: "i \<in> set (EProtocols E)" "instance_of s i = (h, v)" using mem instances_some[OF inv e] by auto
  obtain I where I: "interfaces s i = Some I" "IProtocol I = e" using entry_invD(6)[OF inv e(1) i(1)] by blast
  then show "provides s h g v" using i(2) e by (auto simp: provides_def iface_at_def instance_of_live)
qed

lemma distinct_instances:
  assumes inv: "db_inv s"
  shows "distinct (map fst (instances s g))"
proof (cases "\<exists>e E. prot_entries s e = Some E \<and> ProtocolID E = g")
  case True
  then obtain e E where e: "prot_entries s e = Some E" "ProtocolID E = g" by blast
  have "inj_on (fst \<circ> instance_of s) (set (EProtocols E))"
  proof (rule inj_onI)
    fix i j assume ij: "i \<in> set (EProtocols E)" "j \<in> set (EProtocols E)" "(fst \<circ> instance_of s) i = (fst \<circ> instance_of s) j"
    obtain I where I: "interfaces s i = Some I" "IProtocol I = e" using entry_invD(6)[OF inv e(1) ij(1)] by blast
    obtain J where J: "interfaces s j = Some J" "IProtocol J = e" using entry_invD(6)[OF inv e(1) ij(2)] by blast
    have "IHandle I = IHandle J" using ij(3) I(1) J(1) by (simp add: instance_of_live)
    then show "i = j" by (rule interface_invD(4)[OF inv I(1) J(1)]) (simp add: I J)
  qed
  then show ?thesis using entry_invD(4)[OF inv e(1)] instances_some[OF inv e] by (simp add: distinct_map)
next
  case False
  then have "instances s g = []" by (intro instances_none) blast
  then show ?thesis by simp
qed

lemma instances_handle_live:
  assumes "db_inv s" and "(h, v) \<in> set (instances s g)"
  shows "handles s h \<noteq> None"
  using assms iface_live provides_instances[OF assms(1)] by (fastforce simp: provides_def)

lemma instances_new_entry:
  assumes inv: "db_inv s" and new: "\<And>e E. prot_entries s e = Some E \<Longrightarrow> ProtocolID E \<noteq> g"
  shows "instances (new_entry g s) = instances s"
proof
  fix g'
  note inv' = new_entry_inv[OF inv new]
  have old: "prot_entries s (next_object s) = None" using fresh_invD(2)[OF inv] by simp
  have io: "instance_of (new_entry g s) = instance_of s" by (simp add: instance_of_def[abs_def] fun_eq_iff)
  show "instances (new_entry g s) g' = instances s g'"
  using inv proof (cases rule: entry_at_cases[where g = g'])
    case none
    then have i0: "instances s g' = []" by (intro instances_none) blast
    show ?thesis
    proof (cases "g' = g")
      case True
      have "prot_entries (new_entry g s) (next_object s) = Some \<lparr>ProtocolID = g, EProtocols = [], ENotify = []\<rparr>" by simp
      from instances_some[OF inv' this] True i0 show ?thesis by simp
    next
      case False
      have "instances (new_entry g s) g' = []" by (rule instances_none) (use none(2) False in \<open>auto split: if_splits\<close>)
      then show ?thesis using i0 by simp
    qed
  next
    case (some e E)
    then have "e \<noteq> next_object s" using old by auto
    then have "prot_entries (new_entry g s) e = Some E" using some by simp
    from instances_some[OF inv' this some(3)] instances_some[OF inv some(2,3)] io show ?thesis by simp
  qed
qed

lemma instances_linked:
  assumes inv: "db_inv s" and inv0: "db_inv (linked i h e v s0)"
    and s0: "instances s0 = instances s" "prot_entries s0 = prot_entries s" "interfaces s0 = interfaces s"
    and H: "handles s0 h = Some H" and E: "prot_entries s e = Some E"
    and i: "interfaces s i = None"
  shows "instances (linked i h e v s0) g = instances s g @ (if g = ProtocolID E then [(h, v)] else [])"
proof -
  let ?u = "linked i h e v s0"
  have u: "prot_entries ?u = (prot_entries s)(e \<mapsto> E\<lparr>EProtocols := EProtocols E @ [i]\<rparr>)"
    "interfaces ?u = (interfaces s)(i \<mapsto> \<lparr>IHandle = h, IProtocol = e, Interface = v, OpenList = [], OpenListCount = 0\<rparr>)"
    by (simp_all add: linked_def H E s0)
  have io: "map (instance_of ?u) (EProtocols F) = map (instance_of s) (EProtocols F)" if F: "prot_entries s f = Some F" for f F
  proof (rule map_cong[OF refl])
    fix j assume "j \<in> set (EProtocols F)"
    then have "interfaces s j \<noteq> None" using entry_invD(6)[OF inv F] by blast
    then have "j \<noteq> i" using i by auto
    then show "instance_of ?u j = instance_of s j" by (simp add: instance_of_def u)
  qed
  show ?thesis
  using inv proof (cases rule: entry_at_cases[where g = g])
    case none
    have ne: "g \<noteq> ProtocolID E" using none(2)[OF E] by metis
    have "ProtocolID X \<noteq> g" if "prot_entries ?u x = Some X" for x X
      using that none(2)[of x X] ne by (auto simp: u split: if_splits)
    then have "instances ?u g = []" by (rule instances_none)
    moreover have "instances s g = []" using none(2) by (rule instances_none)
    ultimately show ?thesis using ne by simp
  next
    case (some f F)
    show ?thesis
    proof (cases "f = e")
      case True
      then have F: "F = E" using some E by simp
      have "instances ?u g = map (instance_of ?u) (EProtocols E @ [i])"
        using instances_some[OF inv0, of e "E\<lparr>EProtocols := EProtocols E @ [i]\<rparr>" g] some F by (simp add: u)
      moreover have "instance_of ?u i = (h, v)" by (simp add: instance_of_def u)
      ultimately show ?thesis using instances_some[OF inv some(2,3)] io[OF E] some F by simp
    next
      case False
      then have "g \<noteq> ProtocolID E" using entry_invD(3)[OF inv some(2) E] some(3) by auto
      moreover have "instances ?u g = map (instance_of ?u) (EProtocols F)"
        using instances_some[OF inv0, of f F g] some False by (simp add: u)
      ultimately show ?thesis using instances_some[OF inv some(2,3)] io[OF some(2)] by simp
    qed
  qed
qed

text \<open>The notify records of a protocol, in the order of registration.\<close>

definition watchers :: "'x db \<Rightarrow> guid \<Rightarrow> nat list" where
  "watchers s g = (case entry_at s g of None \<Rightarrow> []
     | Some e \<Rightarrow> (case prot_entries s e of None \<Rightarrow> [] | Some E \<Rightarrow> ENotify E))"

lemma watchers_some:
  assumes "db_inv s" and "prot_entries s e = Some E" and "ProtocolID E = g"
  shows "watchers s g = ENotify E"
  using entry_at_some[OF assms] assms(2) by (simp add: watchers_def)

lemma watchers_none:
  "(\<And>e E. prot_entries s e = Some E \<Longrightarrow> ProtocolID E \<noteq> g) \<Longrightarrow> watchers s g = []"
  by (simp add: watchers_def entry_at_none)

lemma watchers_cong:
  assumes "prot_entries s' = prot_entries s" and "mProtocolDatabase s' = mProtocolDatabase s"
  shows "watchers s' = watchers s"
  unfolding watchers_def[abs_def] entry_at_def assms by (rule refl)

lemma watchers_simps [simp]:
  "watchers (inside s) = watchers s" "watchers (left s u) = watchers u" "watchers (new_handle s) = watchers s"
  "watchers (s\<lparr>next_object := n\<rparr>) = watchers s" "watchers (s\<lparr>mEfiLocateHandleRequest := r\<rparr>) = watchers s"
  "watchers (set_handle h H s) = watchers s" "watchers (set_interface i I s) = watchers s" "watchers (set_notify k N s) = watchers s"
  by (rule watchers_cong; simp)+

lemma watchers_by_entries:
  assumes inv: "db_inv s" and inv': "db_inv s'"
    and to: "\<And>e E. prot_entries s e = Some E \<Longrightarrow> \<exists>E'. prot_entries s' e = Some E' \<and> ProtocolID E' = ProtocolID E \<and> ENotify E' = ENotify E"
    and bk: "\<And>e E'. prot_entries s' e = Some E' \<Longrightarrow>
      ENotify E' = [] \<or> (\<exists>E. prot_entries s e = Some E \<and> ProtocolID E' = ProtocolID E)"
  shows "watchers s' = watchers s"
proof
  fix g
  show "watchers s' g = watchers s g"
    using inv
  proof (cases rule: entry_at_cases[where g = g])
    case none
    have w: "watchers s g = []" using none(2) by (rule watchers_none)
    show ?thesis
      using inv'
    proof (cases rule: entry_at_cases[where g = g])
      case none': none
      have "watchers s' g = []" using none'(2) by (rule watchers_none)
      then show ?thesis using w by simp
    next
      case (some e E')
      have "\<not> (\<exists>E. prot_entries s e = Some E \<and> ProtocolID E' = ProtocolID E)" using none(2)[of e] some(3) by auto
      then have "ENotify E' = []" using bk[OF some(2)] by blast
      then show ?thesis using watchers_some[OF inv' some(2,3)] w by simp
    qed
  next
    case (some e E)
    obtain E' where E': "prot_entries s' e = Some E'" "ProtocolID E' = ProtocolID E" "ENotify E' = ENotify E"
      using to[OF some(2)] by blast
    show ?thesis using watchers_some[OF inv some(2,3)] watchers_some[OF inv' E'(1)] E'(2,3) some(3) by simp
  qed
qed

definition quiet_watchers :: "nat \<Rightarrow> 'x db \<Rightarrow> guid \<Rightarrow> bool" where
  "quiet_watchers t s g \<longleftrightarrow> (\<forall>n \<in> set (watchers s g). \<exists>N. notifies s n = Some N \<and> quiet_event t s (NEvent N))"

lemma quiet_watchersD:
  assumes "quiet_watchers t s g" and "db_inv s" and "prot_entries s e = Some E" and "ProtocolID E = g"
  shows "\<forall>n \<in> set (ENotify E). \<exists>N. notifies s n = Some N \<and> quiet_event t s (NEvent N)"
  using assms(1) unfolding quiet_watchers_def watchers_some[OF assms(2,3,4)] .

section \<open>The position of a registration\<close>

text \<open>The nodes that follow a link, the list head being NULL.\<close>

definition rest_after :: "ptr \<Rightarrow> nat list \<Rightarrow> nat list" where
  "rest_after p l = (case p of None \<Rightarrow> l | Some i \<Rightarrow> tl (dropWhile (\<lambda>x. x \<noteq> i) l))"

definition on_list :: "ptr \<Rightarrow> nat list \<Rightarrow> bool" where
  "on_list p l \<longleftrightarrow> (\<forall>i. p = Some i \<longrightarrow> i \<in> set l)"

lemma rest_after_split:
  assumes "on_list p l"
  obtains xs where "l = xs @ rest_after p l" "\<And>i. p = Some i \<Longrightarrow> xs \<noteq> [] \<and> last xs = i"
proof (cases p)
  case None
  then show thesis using that[of "[]"] by (simp add: rest_after_def)
next
  case (Some i)
  then have "i \<in> set l" using assms by (simp add: on_list_def)
  then obtain ys zs where l: "l = ys @ i # zs" "i \<notin> set ys" by (meson split_list_first)
  have "dropWhile (\<lambda>x. x \<noteq> i) l = i # zs" using l by (simp add: dropWhile_append)
  then show thesis using that[of "ys @ [i]"] l Some by (simp add: rest_after_def)
qed

lemma next_link_rest:
  "on_list p l \<Longrightarrow> next_link p l = Ret (case rest_after p l of [] \<Rightarrow> None | y # _ \<Rightarrow> Some y)"
proof (cases p)
  case (Some i)
  assume "on_list p l"
  then have "i \<in> set l" using Some by (simp add: on_list_def)
  then obtain ys zs where l: "l = ys @ i # zs" "i \<notin> set ys" by (meson split_list_first)
  have "dropWhile (\<lambda>x. x \<noteq> i) l = i # zs" using l by (simp add: dropWhile_append)
  then show ?thesis using Some by (simp add: next_link_def rest_after_def)
qed (simp add: next_link_def rest_after_def)

lemma rest_after_next:
  assumes "distinct l" and "on_list p l" and "rest_after p l = i # r"
  shows "rest_after (Some i) l = r" and "i \<in> set l"
proof -
  obtain xs where xs: "l = xs @ rest_after p l" using rest_after_split[OF assms(2)] by blast
  then have l: "l = xs @ i # r" using assms(3) by simp
  then have "i \<notin> set xs" using assms(1) by auto
  then have "dropWhile (\<lambda>x. x \<noteq> i) l = i # r" using l by (simp add: dropWhile_append)
  then show "rest_after (Some i) l = r" "i \<in> set l" using l by (simp_all add: rest_after_def)
qed

lemma rest_after_snoc: "on_list p l \<Longrightarrow> rest_after p (l @ [i]) = rest_after p l @ [i]"
proof (cases p)
  case (Some j)
  assume "on_list p l"
  then have "j \<in> set l" using Some by (simp add: on_list_def)
  then obtain ys zs where l: "l = ys @ j # zs" "j \<notin> set ys" by (meson split_list_first)
  then show ?thesis using Some by (simp add: rest_after_def dropWhile_append)
qed (simp add: rest_after_def)

lemma rest_after_remove:
  assumes "distinct l" and "i \<in> set l" and "on_list p l"
  shows "rest_after (if p = Some i then prev_link i l else p) (remove1 i l) = removeAll i (rest_after p l)"
proof -
  obtain ys zs where l: "l = ys @ i # zs" "i \<notin> set ys" using split_list_first[OF assms(2)] by blast
  have zs: "i \<notin> set zs" and dis: "distinct ys" "distinct zs" "set ys \<inter> set zs = {}" using assms(1) l by auto
  have rm: "remove1 i l = ys @ zs" using l by (simp add: remove1_append)
  have tk: "takeWhile (\<lambda>x. x \<noteq> i) l = ys" using l by (simp add: takeWhile_append)
  have dr: "dropWhile (\<lambda>x. x \<noteq> i) l = i # zs" using l by (simp add: dropWhile_append)
  show ?thesis
  proof (cases "p = Some i")
    case True
    have a: "rest_after p l = zs" using True dr by (simp add: rest_after_def)
    have "rest_after (prev_link i l) (ys @ zs) = zs"
    proof (cases ys rule: rev_cases)
      case Nil
      then show ?thesis by (simp add: prev_link_def tk rest_after_def)
    next
      case (snoc ys' j)
      have "prev_link i l = Some j" using snoc by (cases ys') (simp_all add: prev_link_def tk)
      moreover have "j \<notin> set ys'" using dis(1) snoc by simp
      ultimately show ?thesis using snoc by (simp add: rest_after_def dropWhile_append)
    qed
    then show ?thesis using True a rm zs by simp
  next
    case False
    show ?thesis
    proof (cases p)
      case None
      then show ?thesis using l rm zs by (simp add: rest_after_def)
    next
      case (Some j)
      then have j: "j \<in> set l" "j \<noteq> i" using assms(3) False by (simp_all add: on_list_def)
      show ?thesis
      proof (cases "j \<in> set ys")
        case True
        then obtain us vs where y: "ys = us @ j # vs" "j \<notin> set us" by (meson split_list_first)
        then have "i \<notin> set vs" "i \<notin> set us" using l(2) by auto
        then show ?thesis using Some False y l(1) rm zs j by (simp add: rest_after_def dropWhile_append)
      next
        case False
        then have jz: "j \<in> set zs" using j l by auto
        then obtain us vs where y: "zs = us @ j # vs" "j \<notin> set us" by (meson split_list_first)
        have "dropWhile (\<lambda>x. x \<noteq> j) ys = []" using False by auto
        then have "rest_after p (ys @ zs) = vs" "rest_after p l = vs"
          using Some y l(1) j False by (simp_all add: rest_after_def dropWhile_append)
        moreover have "i \<notin> set vs" using zs y by auto
        ultimately show ?thesis using \<open>p \<noteq> Some i\<close> rm by simp
      qed
    qed
  qed
qed

text \<open>What a registration has not been told of yet.\<close>

definition unseen :: "'x db \<Rightarrow> nat \<Rightarrow> (nat \<times> ptr) list" where
  "unseen s n = (case notifies s n of None \<Rightarrow> []
     | Some N \<Rightarrow> (case prot_entries s (NProtocol N) of None \<Rightarrow> []
        | Some E \<Rightarrow> map (instance_of s) (rest_after (Position N) (EProtocols E))))"

lemma unseen_eq:
  "notifies s n = Some N \<Longrightarrow> prot_entries s (NProtocol N) = Some E \<Longrightarrow>
     unseen s n = map (instance_of s) (rest_after (Position N) (EProtocols E))"
  by (simp add: unseen_def)

lemma registration:
  assumes "db_inv s" and "notifies s n = Some N"
  obtains E where "prot_entries s (NProtocol N) = Some E" "n \<in> set (ENotify E)" "on_list (Position N) (EProtocols E)"
    "distinct (EProtocols E)"
proof -
  obtain E where E: "prot_entries s (NProtocol N) = Some E" "n \<in> set (ENotify E)"
      "\<forall>i. Position N = Some i \<longrightarrow> i \<in> set (EProtocols E)" using notify_invD[OF assms] by blast
  then show thesis using that entry_invD(4)[OF assms(1) E(1)] by (simp add: on_list_def)
qed

lemma unseen_cong:
  assumes "notifies s' = notifies s" and "prot_entries s' = prot_entries s" and "instance_of s' = instance_of s"
  shows "unseen s' = unseen s"
  unfolding unseen_def[abs_def] assms by (rule refl)

lemma instance_of_simps [simp]:
  "instance_of (s\<lparr>mEfiLocateHandleRequest := r\<rparr>) = instance_of s" "instance_of (inside s) = instance_of s"
  "instance_of (left s u) = instance_of u" "instance_of (new_handle s) = instance_of s"
  "instance_of (new_entry g s) = instance_of s" "instance_of (s\<lparr>next_object := n\<rparr>) = instance_of s"
  "instance_of (set_notify k N s) = instance_of s"
  by (simp_all add: instance_of_def[abs_def])

lemma unseen_simps [simp]:
  "unseen (inside s) = unseen s" "unseen (left s u) = unseen u" "unseen (new_handle s) = unseen s"
  "unseen (s\<lparr>next_object := n\<rparr>) = unseen s" "unseen (s\<lparr>mEfiLocateHandleRequest := r\<rparr>) = unseen s"
  by (rule unseen_cong; simp)+

lemma watchers_mem:
  assumes inv: "db_inv s" and N: "notifies s n = Some N" and E: "prot_entries s (NProtocol N) = Some E"
  shows "n \<in> set (watchers s g) \<longleftrightarrow> ProtocolID E = g"
proof
  assume n: "n \<in> set (watchers s g)"
  then have "watchers s g \<noteq> []" by auto
  then obtain f F where F: "prot_entries s f = Some F" "ProtocolID F = g" using watchers_none[of s g] by blast
  then have "n \<in> set (ENotify F)" using watchers_some[OF inv F] n by simp
  then have "NProtocol N = f" using entry_invD(7)[OF inv F(1), of n] N by auto
  then show "ProtocolID E = g" using E F by simp
next
  assume g: "ProtocolID E = g"
  then show "n \<in> set (watchers s g)" using registration[OF inv N] watchers_some[OF inv E g] E by fastforce
qed

lemma watchers_live:
  assumes inv: "db_inv s" and n: "n \<in> set (watchers s g)"
  shows "notifies s n \<noteq> None"
proof -
  have "watchers s g \<noteq> []" using n by auto
  then obtain f F where F: "prot_entries s f = Some F" "ProtocolID F = g" using watchers_none[of s g] by blast
  then have "n \<in> set (ENotify F)" using watchers_some[OF inv F] n by simp
  then show ?thesis using entry_invD(7)[OF inv F(1), of n] by auto
qed

lemma unseen_new_entry:
  assumes inv: "db_inv s"
  shows "unseen (new_entry g s) = unseen s"
proof
  fix n
  show "unseen (new_entry g s) n = unseen s n"
  proof (cases "notifies s n")
    case None
    then show ?thesis by (simp add: unseen_def)
  next
    case (Some N)
    then obtain E where E: "prot_entries s (NProtocol N) = Some E" using registration[OF inv] by blast
    then have "NProtocol N \<noteq> next_object s" using fresh_invD(2)[OF inv, of "next_object s"] by auto
    then show ?thesis using Some E by (simp add: unseen_def)
  qed
qed

lemma unseen_linked:
  assumes inv: "db_inv s" and s0: "prot_entries s0 = prot_entries s" "interfaces s0 = interfaces s" "notifies s0 = notifies s"
    and H: "handles s0 h = Some H" and E: "prot_entries s e = Some E" and i: "interfaces s i = None"
  shows "unseen (linked i h e v s0) n = unseen s n @ (if n \<in> set (watchers s (ProtocolID E)) then [(h, v)] else [])"
proof -
  let ?u = "linked i h e v s0"
  have u: "prot_entries ?u = (prot_entries s)(e \<mapsto> E\<lparr>EProtocols := EProtocols E @ [i]\<rparr>)"
    "interfaces ?u = (interfaces s)(i \<mapsto> \<lparr>IHandle = h, IProtocol = e, Interface = v, OpenList = [], OpenListCount = 0\<rparr>)"
    "notifies ?u = notifies s" by (simp_all add: linked_def H E s0)
  show ?thesis
  proof (cases "notifies s n")
    case None
    then show ?thesis using watchers_live[OF inv, of n] u(3) by (auto simp: unseen_def)
  next
    case (Some N)
    then obtain F where F: "prot_entries s (NProtocol N) = Some F" "on_list (Position N) (EProtocols F)"
      using registration[OF inv] by blast
    note wm = watchers_mem[OF inv Some F(1), of "ProtocolID E"] and un = unseen_eq[OF Some F(1)]
    have io: "map (instance_of ?u) (rest_after (Position N) (EProtocols F)) = map (instance_of s) (rest_after (Position N) (EProtocols F))"
    proof (rule map_cong[OF refl])
      fix j assume "j \<in> set (rest_after (Position N) (EProtocols F))"
      then have "j \<in> set (EProtocols F)" using rest_after_split[OF F(2)] by (metis Un_iff set_append)
      then have "interfaces s j \<noteq> None" using entry_invD(6)[OF inv F(1)] by blast
      then have "j \<noteq> i" using i by auto
      then show "instance_of ?u j = instance_of s j" by (simp add: instance_of_def u)
    qed
    have iv: "instance_of ?u i = (h, v)" by (simp add: instance_of_def u)
    show ?thesis
    proof (cases "NProtocol N = e")
      case True
      then have "F = E" using F(1) E by simp
      then show ?thesis using Some True u(1,3) wm un io iv rest_after_snoc[OF F(2), of i] by (simp add: unseen_def)
    next
      case False
      then have "ProtocolID F \<noteq> ProtocolID E" using entry_invD(3)[OF inv F(1) E] by blast
      then show ?thesis using Some False F(1) u(1,3) wm un io by (simp add: unseen_def)
    qed
  qed
qed

text \<open>No handle carries the number of a later search.\<close>

definition request_inv :: "'x db \<Rightarrow> bool" where
  "request_inv s \<longleftrightarrow> (\<forall>h H. handles s h = Some H \<longrightarrow> unat (LocateRequest H) \<le> unat (mEfiLocateHandleRequest s))"

lemma request_inv_cong:
  "handles s' = handles s \<Longrightarrow> mEfiLocateHandleRequest s' = mEfiLocateHandleRequest s \<Longrightarrow> request_inv s' = request_inv s"
  by (simp add: request_inv_def)

lemma request_inv_simps [simp]:
  "request_inv (inside s) = request_inv s" "request_inv (left s u) = request_inv u"
  "request_inv (s\<lparr>next_object := n\<rparr>) = request_inv s"
  by (rule request_inv_cong; simp)+

text \<open>Protocol entries stay.\<close>

definition same_ids :: "'x db \<Rightarrow> 'x db \<Rightarrow> bool" where
  "same_ids s s' \<longleftrightarrow> (\<forall>e E. prot_entries s e = Some E \<longrightarrow> (\<exists>E'. prot_entries s' e = Some E' \<and> ProtocolID E' = ProtocolID E))"

lemma same_ids_eq: "prot_entries s' = prot_entries s \<Longrightarrow> same_ids s s'"
  by (simp add: same_ids_def)

lemma same_ids_trans: "same_ids s s1 \<Longrightarrow> same_ids s1 s' \<Longrightarrow> same_ids s s'"
  unfolding same_ids_def by metis

text \<open>Which event a registration signals.\<close>

definition notify_events :: "'x db \<Rightarrow> nat \<Rightarrow> nat option" where
  "notify_events s n = map_option NEvent (notifies s n)"

lemma notify_events_eq: "notifies s' = notifies s \<Longrightarrow> notify_events s' = notify_events s"
  by (simp add: notify_events_def[abs_def])

lemma quiet_watchers_events:
  "quiet_watchers t s g \<longleftrightarrow> (\<forall>n \<in> set (watchers s g). \<exists>e. notify_events s n = Some e \<and> quiet_event t s e)"
  unfolding quiet_watchers_def notify_events_def by auto

text \<open>What every operation keeps, after at most \<open>k\<close> searches.\<close>

definition kept :: "nat \<Rightarrow> 'x db \<Rightarrow> 'x db \<Rightarrow> bool" where
  "kept k s s' \<longleftrightarrow> svc s s' \<and> db_inv s' \<and> same_ids s s' \<and> (request_inv s \<longrightarrow> request_inv s') \<and>
     unat (mEfiLocateHandleRequest s') \<le> unat (mEfiLocateHandleRequest s) + k \<and>
     (\<forall>t e. quiet_event t s e \<longrightarrow> quiet_event t s' e) \<and> memory s' = memory s \<and>
     gDxeCoreImageHandle s' = gDxeCoreImageHandle s"

lemma keptD:
  assumes "kept k s s'"
  shows "svc s s'" "db_inv s'" "request_inv s \<Longrightarrow> request_inv s'"
    "unat (mEfiLocateHandleRequest s') \<le> unat (mEfiLocateHandleRequest s) + k"
    "quiet_event t s e \<Longrightarrow> quiet_event t s' e" "memory s' = memory s" "gDxeCoreImageHandle s' = gDxeCoreImageHandle s" "same_ids s s'"
  using assms by (simp_all add: kept_def)

lemma kept_trans:
  assumes "kept a s t" and "kept b t u"
  shows "kept (a + b) s u"
  using assms svc_trans[of s t u] same_ids_trans[of s t u] by (auto simp: kept_def)

lemma kept_enter: "may_enter s \<Longrightarrow> kept k s s' \<Longrightarrow> may_enter s'"
  using may_enter_svc keptD(1) by blast

lemma quiet_event_cong: "events s' = events s \<Longrightarrow> quiet_event t s' e = quiet_event t s e"
  by (simp add: quiet_event_def)

lemma opens_only_kept: "opens_only s s' \<Longrightarrow> kept 0 s s'"
  using opens_onlyD[of s s'] quiet_event_cong[of s' s] same_ids_eq[of s' s] by (simp add: kept_def request_inv_def)

end
