(* ===== verification/ProtocolInstall.thy ===== *)
theory ProtocolInstall
  imports ProtocolView
begin

text \<open>
  The installation of an interface in terms of the abstract view.
\<close>

section \<open>Installing\<close>

lemma FindEntry_create:
  assumes inv: "db_inv s" and h: "held s gProtocolDatabaseLock"
  shows "(\<exists>e E. prot_entries s e = Some E \<and> ProtocolID E = g \<and> CoreFindProtocolEntry mem g True s = Ret (Some e, s)) \<or>
    (\<forall>e E. prot_entries s e = Some E \<longrightarrow> ProtocolID E \<noteq> g) \<and>
     CoreFindProtocolEntry mem g True s = Ret (if mem AllocEntry then (Some (next_object s), new_entry g s) else (None, s))"
proof (cases "\<exists>e E. prot_entries s e = Some E \<and> ProtocolID E = g")
  case True
  then obtain e E where E: "prot_entries s e = Some E" "ProtocolID E = g" by blast
  have "CoreFindProtocolEntry mem g True s = Ret (Some e, s)"
    using FindEntry_some[OF inv E] h by (simp add: CoreFindProtocolEntry_def)
  then show ?thesis using E by blast
next
  case False
  then have no: "ProtocolID E \<noteq> g" if "prot_entries s e = Some E" for e E using that by blast
  have "CoreFindProtocolEntry mem g True s = Ret (if mem AllocEntry then (Some (next_object s), new_entry g s) else (None, s))"
    using FindEntry_none[OF inv no] h by (simp add: CoreFindProtocolEntry_def new_entry_def Let_def)
  then show ?thesis using no by blast
qed

text \<open>The state with an entry for the protocol.\<close>

lemma entry_step:
  assumes inv: "db_inv s" and h: "held s gProtocolDatabaseLock" and m: "mem AllocEntry \<or> entry_at s g \<noteq> None"
  shows "\<exists>e E s1. CoreFindProtocolEntry mem g True s = Ret (Some e, s1) \<and> db_inv s1 \<and> prot_entries s1 e = Some E \<and>
    ProtocolID E = g \<and> instances s1 = instances s \<and> watchers s1 = watchers s \<and> unseen s1 = unseen s \<and> handles s1 = handles s \<and>
    gHandleList s1 = gHandleList s \<and> interfaces s1 = interfaces s \<and> notifies s1 = notifies s \<and>
    (\<forall>u. db_only u s1 = db_only u s) \<and> same_ids s s1 \<and> locks s1 = locks s \<and> mEfiLocateHandleRequest s1 = mEfiLocateHandleRequest s \<and> memory s1 = memory s \<and> events s1 = events s \<and>
    gDxeCoreImageHandle s1 = gDxeCoreImageHandle s"
  using FindEntry_create[OF inv h, of g mem]
proof (elim disjE exE conjE)
  fix e E assume "prot_entries s e = Some E" "ProtocolID E = g" "CoreFindProtocolEntry mem g True s = Ret (Some e, s)"
  then show ?thesis using inv same_ids_eq[of s s] by blast
next
  assume no: "\<forall>e E. prot_entries s e = Some E \<longrightarrow> ProtocolID E \<noteq> g"
    and c: "CoreFindProtocolEntry mem g True s = Ret (if mem AllocEntry then (Some (next_object s), new_entry g s) else (None, s))"
  have new: "ProtocolID E \<noteq> g" if "prot_entries s e = Some E" for e E using no that by blast
  note ni = new_entry_inv[OF inv new]
  have "entry_at s g = None" by (rule entry_at_none) (rule new)
  then have mm: "mem AllocEntry" using m by simp
  have old: "prot_entries s (next_object s) = None" using fresh_invD(2)[OF inv] by simp
  have w: "watchers (new_entry g s) = watchers s"
  proof (rule watchers_by_entries[OF inv ni])
    show "\<exists>E'. prot_entries (new_entry g s) e = Some E' \<and> ProtocolID E' = ProtocolID E \<and> ENotify E' = ENotify E"
      if "prot_entries s e = Some E" for e E using that old by auto
    show "ENotify E' = [] \<or> (\<exists>E. prot_entries s e = Some E \<and> ProtocolID E' = ProtocolID E)"
      if "prot_entries (new_entry g s) e = Some E'" for e E' using that by (auto split: if_splits)
  qed
  have e: "prot_entries (new_entry g s) (next_object s) = Some \<lparr>ProtocolID = g, EProtocols = [], ENotify = []\<rparr>" by simp
  have f: "gDxeCoreImageHandle (new_entry g s) = gDxeCoreImageHandle s"
    "mEfiLocateHandleRequest (new_entry g s) = mEfiLocateHandleRequest s" by (simp_all add: new_entry_def)
  have sid: "same_ids s (new_entry g s)" using old by (auto simp: same_ids_def)
  have c': "CoreFindProtocolEntry mem g True s = Ret (Some (next_object s), new_entry g s)" using c mm by simp
  show ?thesis
    by (rule exI[of _ "next_object s"], rule exI[of _ "\<lparr>ProtocolID = g, EProtocols = [], ENotify = []\<rparr>"],
        rule exI[of _ "new_entry g s"]) (simp add: c' ni w f sid instances_new_entry[OF inv new] unseen_new_entry[OF inv])
qed

text \<open>The handle an interface may be installed on: a new one, or a live one without the protocol.\<close>

definition install_target :: "alloc \<Rightarrow> 'x db \<Rightarrow> guid \<Rightarrow> ptr \<Rightarrow> bool" where
  "install_target mem s g uh \<longleftrightarrow>
     (case uh of None \<Rightarrow> mem AllocHandle | Some h \<Rightarrow> handles s h \<noteq> None \<and> h \<notin> fst ` set (instances s g))"

lemma handle_step:
  assumes inv: "db_inv s" and lk: "held s gProtocolDatabaseLock" and t: "install_target mem s g uh"
    and E: "prot_entries s e = Some E" "ProtocolID E = g"
  shows "\<exists>h H s3. Install_handle mem uh s = Ret (EFI_SUCCESS, Some h, s3) \<and> db_inv_but h s3 \<and> handles s3 h = Some H \<and>
    CoreFindProtocolInterface h g v s3 = Ret None \<and> (uh = None \<longrightarrow> handles s h = None) \<and> (uh \<noteq> None \<longrightarrow> uh = Some h) \<and>
    (\<forall>j J. interfaces s j = Some J \<longrightarrow> IHandle J = h \<longrightarrow> IProtocol J \<noteq> e) \<and>
    instances s3 = instances s \<and> watchers s3 = watchers s \<and> unseen s3 = unseen s \<and> prot_entries s3 = prot_entries s \<and> interfaces s3 = interfaces s \<and>
    notifies s3 = notifies s \<and> next_object s \<le> next_object s3 \<and> (\<forall>x. x \<noteq> h \<longrightarrow> handles s3 x = handles s x) \<and>
    gHandleList s3 = gHandleList s @ (if uh = None then [h] else []) \<and> (\<forall>u. db_only u s3 = db_only u s) \<and>
    locks s3 = locks s \<and> (request_inv s \<longrightarrow> request_inv s3) \<and> mEfiLocateHandleRequest s3 = mEfiLocateHandleRequest s \<and> memory s3 = memory s \<and> events s3 = events s \<and> gDxeCoreImageHandle s3 = gDxeCoreImageHandle s"
proof (cases uh)
  case None
  let ?h = "next_object s" and ?u = "new_handle s"
  have old: "handles s ?h = None" using fresh_invD(1)[OF inv] by simp
  have c: "Install_handle mem uh s = Ret (EFI_SUCCESS, Some ?h, ?u)"
    using None t by (simp add: Install_handle_def install_target_def new_handle_def Let_def)
  have f: "CoreFindProtocolInterface ?h g v ?u = Ret None"
    using FindEntry_some[OF inv E] lk by (simp add: CoreFindProtocolInterface_def CoreFindProtocolEntry_def)
  have j: "IProtocol J \<noteq> e" if "interfaces s j = Some J" "IHandle J = ?h" for j J
    using interface_invD(1)[OF inv that(1)] that(2) old by simp
  have g: "gDxeCoreImageHandle ?u = gDxeCoreImageHandle s" "mEfiLocateHandleRequest ?u = mEfiLocateHandleRequest s"
    by (simp_all add: new_handle_def)
  show ?thesis
    by (rule exI[of _ ?h], rule exI[of _ "\<lparr>HProtocols = [], LocateRequest = 0, Key = gHandleDatabaseKey s + 1\<rparr>"],
        rule exI[of _ ?u]) (use j in \<open>auto simp: c[unfolded None] f g None old new_handle_inv[OF inv] request_inv_def\<close>)
next
  case (Some h)
  then obtain H where H: "handles s h = Some H" using t by (auto simp: install_target_def)
  have np: "\<not> provides s h g v" for v
    using t Some provides_instances[OF inv, of h g] by (force simp: install_target_def)
  have c: "Install_handle mem uh s = Ret (EFI_SUCCESS, Some h, s)"
    using Some H by (simp add: Install_handle_def ValidateHandle_live[OF inv])
  have f: "CoreFindProtocolInterface h g v s = Ret None" by (rule FindInterface_none[OF inv lk H np])
  have j: "IProtocol J \<noteq> e" if "interfaces s j = Some J" "IHandle J = h" for j J
    using np[of "Interface J"] that E by (auto simp: provides_def iface_at_def)
  show ?thesis
    by (rule exI[of _ h], rule exI[of _ H], rule exI[of _ s]) (use j H in \<open>simp add: c[unfolded Some] f Some db_inv_butI[OF inv]\<close>)
qed

text \<open>What an installation makes of the abstract view.\<close>

definition installed :: "nat \<Rightarrow> guid \<Rightarrow> ptr \<Rightarrow> 'x db \<Rightarrow> 'x db \<Rightarrow> bool" where
  "installed h g v s s' \<longleftrightarrow> kept 0 s s' \<and> instances s' = (instances s)(g := instances s g @ [(h, v)]) \<and>
     watchers s' = watchers s \<and> notifies s' = notifies s \<and>
     unseen s' = (\<lambda>n. unseen s n @ (if n \<in> set (watchers s g) then [(h, v)] else [])) \<and>
     gHandleList s' = gHandleList s @ (if h \<in> set (gHandleList s) then [] else [h]) \<and>
     (\<exists>i e E. interfaces s i = None \<and> prot_entries s' e = Some E \<and> ProtocolID E = g \<and> interfaces s' = (interfaces s)
        (i \<mapsto> \<lparr>IHandle = h, IProtocol = e, Interface = v, OpenList = [], OpenListCount = 0\<rparr>))"

lemma linked_simps [simp]:
  "db_only u (linked i h e v s) = db_only u s" "notifies (linked i h e v s) = notifies s"
  "gHandleList (linked i h e v s) = gHandleList s" "locks (linked i h e v s) = locks s"
  "memory (linked i h e v s) = memory s" "events (linked i h e v s) = events s"
  "gDxeCoreImageHandle (linked i h e v s) = gDxeCoreImageHandle s"
  "mEfiLocateHandleRequest (linked i h e v s) = mEfiLocateHandleRequest s"
  by (simp_all add: linked_def set_handle_def set_entry_def set_interface_def split: option.split)

lemma request_linked: "request_inv s \<Longrightarrow> request_inv (linked i h e v s)"
  by (auto simp: linked_def request_inv_def split: option.splits)

lemma watchers_linked:
  assumes "db_inv s" and "db_inv (linked i h e v s0)" and "prot_entries s0 = prot_entries s"
    and "handles s0 h = Some H" and "prot_entries s e = Some E"
  shows "watchers (linked i h e v s0) = watchers s"
  by (rule watchers_by_entries[OF assms(1,2)]) (use assms(3-) in \<open>auto simp: linked_def split: if_splits\<close>)

lemma linked_step:
  fixes s :: "'x db"
  assumes inv: "db_inv s" and lk: "held s gProtocolDatabaseLock" and t: "install_target mem s g uh"
    and m: "mem AllocInterface" "mem AllocEntry \<or> entry_at s g \<noteq> None"
  shows "\<exists>h e E u. Install_locked rst mem st uh g v N s =
      bind (if N then CoreNotifyProtocolEntry rst e u else Ret u) (\<lambda>s4. Ret (EFI_SUCCESS, Some h, s4)) \<and>
    db_inv u \<and> prot_entries u e = Some E \<and> ProtocolID E = g \<and> (uh = None \<longrightarrow> handles s h = None) \<and> (uh \<noteq> None \<longrightarrow> uh = Some h) \<and>
    instances u = (instances s)(g := instances s g @ [(h, v)]) \<and> watchers u = watchers s \<and> notifies u = notifies s \<and>
    unseen u = (\<lambda>n. unseen s n @ (if n \<in> set (watchers s g) then [(h, v)] else [])) \<and>
    gHandleList u = gHandleList s @ (if h \<in> set (gHandleList s) then [] else [h]) \<and> (\<forall>w. db_only w u = db_only w s) \<and>
    (\<exists>i. interfaces s i = None \<and> interfaces u = (interfaces s)
        (i \<mapsto> \<lparr>IHandle = h, IProtocol = e, Interface = v, OpenList = [], OpenListCount = 0\<rparr>)) \<and>
    (request_inv s \<longrightarrow> request_inv u) \<and> mEfiLocateHandleRequest u = mEfiLocateHandleRequest s \<and> same_ids s u \<and>
    locks u = locks s \<and> memory u = memory s \<and> events u = events s \<and> gDxeCoreImageHandle u = gDxeCoreImageHandle s"
proof -
  obtain e E s1 where c1: "CoreFindProtocolEntry mem g True s = Ret (Some e, s1)" and i1: "db_inv s1"
    and E: "prot_entries s1 e = Some E" "ProtocolID E = g"
    and k1: "instances s1 = instances s" "watchers s1 = watchers s" "unseen s1 = unseen s" "handles s1 = handles s" "gHandleList s1 = gHandleList s"
      "same_ids s s1" "interfaces s1 = interfaces s" "mEfiLocateHandleRequest s1 = mEfiLocateHandleRequest s"
      "notifies s1 = notifies s" "\<forall>u. db_only u s1 = db_only u s" "locks s1 = locks s" "memory s1 = memory s"
      "events s1 = events s" "gDxeCoreImageHandle s1 = gDxeCoreImageHandle s"
    using entry_step[where mem = mem, OF inv lk m(2)] by blast
  let ?i = "next_object s1" and ?s2 = "s1\<lparr>next_object := next_object s1 + 1\<rparr>"
  have i2: "db_inv ?s2" by (rule next_object_inv[OF i1]) simp
  have t2: "install_target mem ?s2 g uh" using t k1 by (simp add: install_target_def split: option.splits)
  have iN: "interfaces s1 ?i = None" using fresh_invD(3)[OF i1] by simp
  obtain h H s3 where c3: "Install_handle mem uh ?s2 = Ret (EFI_SUCCESS, Some h, s3)" and i3: "db_inv_but h s3"
    and H: "handles s3 h = Some H" and f: "CoreFindProtocolInterface h g v s3 = Ret None"
    and h: "uh = None \<longrightarrow> handles ?s2 h = None" "uh \<noteq> None \<longrightarrow> uh = Some h"
    and j: "\<forall>j J. interfaces ?s2 j = Some J \<longrightarrow> IHandle J = h \<longrightarrow> IProtocol J \<noteq> e"
    and k3: "instances s3 = instances ?s2" "watchers s3 = watchers ?s2" "unseen s3 = unseen ?s2" "prot_entries s3 = prot_entries ?s2"
      "interfaces s3 = interfaces ?s2" "notifies s3 = notifies ?s2" "next_object ?s2 \<le> next_object s3"
      "gHandleList s3 = gHandleList ?s2 @ (if uh = None then [h] else [])" "\<forall>u. db_only u s3 = db_only u ?s2"
      "request_inv ?s2 \<longrightarrow> request_inv s3" "mEfiLocateHandleRequest s3 = mEfiLocateHandleRequest ?s2"
      "locks s3 = locks ?s2" "memory s3 = memory ?s2" "events s3 = events ?s2" "gDxeCoreImageHandle s3 = gDxeCoreImageHandle ?s2"
  proof -
    have "held ?s2 gProtocolDatabaseLock" "prot_entries ?s2 e = Some E" using lk k1 E by simp_all
    from handle_step[OF i2 this(1) t2 this(2) E(2), of v] show thesis by (elim exE conjE) (rule that)
  qed
  let ?u = "linked ?i h e v s3"
  have E3: "prot_entries s3 e = Some E" using k3 E by simp
  have i4: "db_inv ?u"
  proof (rule linked_inv[OF i3 H E3])
    show "interfaces s3 ?i = None" using k3 iN by simp
    show "?i < next_object s3" using k3 by simp
    show "IProtocol J \<noteq> e" if "interfaces s3 j = Some J" "IHandle J = h" for j J using j that k3 by simp
  qed
  have ins: "instances ?u = (instances s)(g := instances s g @ [(h, v)])"
  proof
    fix g'
    have "instances ?u g' = instances s1 g' @ (if g' = ProtocolID E then [(h, v)] else [])"
      using k3 by (intro instances_linked[OF i1 i4 _ _ _ H E(1) iN]) simp_all
    then show "instances ?u g' = ((instances s)(g := instances s g @ [(h, v)])) g'" using k1 E(2) by simp
  qed
  have w: "watchers ?u = watchers s" using watchers_linked[OF i1 i4 _ H E(1)] k1 k3 by simp
  have ifs: "interfaces s3 = interfaces s1" "notifies s3 = notifies s1" "prot_entries s3 = prot_entries s1" using k3 by simp_all
  have un: "unseen ?u = (\<lambda>n. unseen s n @ (if n \<in> set (watchers s g) then [(h, v)] else []))"
    using unseen_linked[OF i1 ifs(3,1,2) H E(1) iN, of v] E(2) k1(2,3) by (simp add: fun_eq_iff)
  have hl: "h \<in> set (gHandleList s) \<longleftrightarrow> uh \<noteq> None"
    using handle_invD(2)[OF inv, of h] h k1 t by (cases uh) (simp_all add: install_target_def)
  have iu: "interfaces ?u = (interfaces s)(?i \<mapsto> \<lparr>IHandle = h, IProtocol = e, Interface = v, OpenList = [], OpenListCount = 0\<rparr>)"
    using k1 k3 E(1) by (simp add: linked_def H)
  have rq: "request_inv s \<longrightarrow> request_inv ?u"
    using k3 request_linked[of s3] request_inv_cong[of s1 s] k1 by simp
  have "same_ids s1 ?u" using k3(4) E3 by (auto simp: same_ids_def linked_def H)
  then have sid: "same_ids s ?u" using same_ids_trans k1 by blast
  have iN': "interfaces s ?i = None" using iN k1 by simp
  have l: "Install_link rst ?i h e g v N s3 = (if N then CoreNotifyProtocolEntry rst e ?u else Ret ?u)"
    by (simp add: Install_link_def f H E3 linked_def)
  have c: "Install_locked rst mem st uh g v N s =
      bind (if N then CoreNotifyProtocolEntry rst e ?u else Ret ?u) (\<lambda>s4. Ret (EFI_SUCCESS, Some h, s4))"
    using m(1) by (simp add: Install_locked_def c1 c3 l del: One_nat_def)
  have Eu: "prot_entries ?u e = Some (E\<lparr>EProtocols := EProtocols E @ [?i]\<rparr>)" by (simp add: linked_def H E3)
  show ?thesis
    by (rule exI[of _ h], rule exI[of _ e], rule exI[of _ "E\<lparr>EProtocols := EProtocols E @ [?i]\<rparr>"], rule exI[of _ ?u])
      (use c i4 Eu E h ins w un hl k1 k3 rq sid exI[of "\<lambda>i. interfaces s i = None \<and> interfaces ?u = (interfaces s)
        (i \<mapsto> \<lparr>IHandle = h, IProtocol = e, Interface = v, OpenList = [], OpenListCount = 0\<rparr>)" ?i] iu iN' in simp)
qed

lemma opens_only_view:
  assumes "opens_only s s'"
  shows "instances s' = instances s" and "watchers s' = watchers s" and "unseen s' = unseen s"
proof -
  note d = opens_onlyD[OF assms]
  have "instance_of s' i = instance_of s i" for i
  proof (cases "interfaces s i")
    case None
    then have "interfaces s' i = None" using opens_only_sym_interface[OF assms, of i] by (cases "interfaces s' i") auto
    then show ?thesis using None by (simp add: instance_of_def)
  next
    case (Some I)
    then show ?thesis using opens_only_interface[OF assms Some] by (auto simp: instance_of_def)
  qed
  then have io: "instance_of s' = instance_of s" by (rule ext)
  show "instances s' = instances s"
    unfolding instances_def[abs_def] entry_at_def d(5,6) io by (rule refl)
  show "watchers s' = watchers s" by (rule watchers_cong) (simp_all add: d)
  show "unseen s' = unseen s" by (rule unseen_cong) (simp_all add: d io)
qed

lemma may_enter_locks:
  assumes "may_enter s"
  shows "\<not> held (inside s) gEventQueueLock" "core_inv (inside s)" "gEfiCurrentTpl (inside s) = TPL_NOTIFY"
proof -
  note d = in_sectionD[OF inside_section[OF assms]]
  show "core_inv (inside s)" "gEfiCurrentTpl (inside s) = TPL_NOTIFY" using d(1,2) by simp_all
  then show "\<not> held (inside s) gEventQueueLock" by (auto simp: core_inv_def lock_inv_def)
qed

lemma notify_step:
  fixes s :: "'x db" and rst :: "'x db_restore"
  assumes r: "tpl_restore_total rst" and s: "may_enter s" and inv: "db_inv u" and o: "db_only (inside s) u"
    and E: "prot_entries u e = Some E" "ProtocolID E = g" and t: "t \<le> gEfiCurrentTpl s" and q: "quiet_watchers t u g"
  shows "\<exists>u'. CoreNotifyProtocolEntry rst e u = Ret u' \<and> sig_frame u u' \<and>
    CoreReleaseProtocolLock rst u' = Ret (left s u') \<and> svc s (left s u') \<and> quiet_to t s (left s u')"
proof -
  note f = db_only_fields[OF o] and m = may_enter_locks[OF s] and sec = db_only_section[OF s o]
  have le: "gEfiCurrentTpl s \<le> TPL_NOTIFY" using s by (simp add: may_enter_def)
  obtain u' where u': "NotifyProtocol_walk rst (ENotify E) u = Ret u'" "svc u u'" "sig_frame u u'"
    "\<forall>p. bit (gEventPending u') p \<longrightarrow> bit (gEventPending u) p \<or> p \<le> t"
    using NotifyProtocol_walk_quiet[OF r _ _ _ quiet_watchersD[OF q inv E]] f m le t by auto
  have i': "in_section gProtocolDatabaseLock s u'" by (rule in_section_svc[OF sec(1) u'(2)])
  have "nothing_above (gEfiCurrentTpl s) u'"
    using sec(2) u'(4) sig_frame_db(12)[OF u'(3)] in_sectionD(2)[OF i'] le t by (auto simp: nothing_above_def)
  moreover have "quiet_to t s (left s u')"
    using u'(4) sig_frame_db(12)[OF u'(3)] quiet_to_left[OF o, of t]
    by (auto simp: quiet_to_def left_def unlocked_def)
  ultimately show ?thesis
    using release_section[OF r s i'] u'(1,3) E(1) sec(3) by (simp add: CoreNotifyProtocolEntry_def)
qed

lemma quiet_watchers_keep:
  assumes "watchers s' g = watchers s g" and "notifies s' = notifies s" and "\<And>e. quiet_event t s e \<Longrightarrow> quiet_event t s' e"
    and "quiet_watchers t s g"
  shows "quiet_watchers t s' g"
  using assms unfolding quiet_watchers_def by metis

lemma installed_section:
  fixes s :: "'x db" and rst :: "'x db_restore"
  assumes r: "tpl_restore_total rst" and s: "may_enter s" and inv: "db_inv s" and t: "install_target mem s g uh"
    and m: "mem AllocInterface" "mem AllocEntry \<or> entry_at s g \<noteq> None"
    and l: "l \<le> gEfiCurrentTpl s" and q: "N \<longrightarrow> quiet_watchers l s g"
  shows "\<exists>h u. Install_locked rst mem st uh g v N (inside s) = Ret (EFI_SUCCESS, Some h, u) \<and>
    CoreReleaseProtocolLock rst u = Ret (left s u) \<and> quiet_to l s (left s u) \<and> installed h g v s (left s u) \<and>
    (uh = None \<longrightarrow> handles s h = None) \<and> (uh \<noteq> None \<longrightarrow> uh = Some h)"
proof -
  have i0: "db_inv (inside s)" "held (inside s) gProtocolDatabaseLock" "install_target mem (inside s) g uh"
    using inv t by (simp_all add: install_target_def split: option.splits)
  have m0: "mem AllocEntry \<or> entry_at (inside s) g \<noteq> None" using m(2) by (simp add: entry_at_def)
  obtain h e E u where c: "Install_locked rst mem st uh g v N (inside s) =
      bind (if N then CoreNotifyProtocolEntry rst e u else Ret u) (\<lambda>s4. Ret (EFI_SUCCESS, Some h, s4))"
    and i: "db_inv u" and E: "prot_entries u e = Some E" "ProtocolID E = g"
    and h0: "uh = None \<longrightarrow> handles (inside s) h = None" and h1: "uh \<noteq> None \<longrightarrow> uh = Some h"
    and k0: "instances u = (instances (inside s))(g := instances (inside s) g @ [(h, v)])" "watchers u = watchers (inside s)"
      "notifies u = notifies (inside s)"
      "unseen u = (\<lambda>n. unseen (inside s) n @ (if n \<in> set (watchers (inside s) g) then [(h, v)] else []))"
      "gHandleList u = gHandleList (inside s) @ (if h \<in> set (gHandleList (inside s)) then [] else [h])"
      "\<exists>i. interfaces (inside s) i = None \<and> interfaces u = (interfaces (inside s))
        (i \<mapsto> \<lparr>IHandle = h, IProtocol = e, Interface = v, OpenList = [], OpenListCount = 0\<rparr>)"
      "same_ids (inside s) u" "request_inv (inside s) \<longrightarrow> request_inv u" "mEfiLocateHandleRequest u = mEfiLocateHandleRequest (inside s)"
      "\<forall>w. db_only w u = db_only w (inside s)" "memory u = memory (inside s)" "events u = events (inside s)"
      "gDxeCoreImageHandle u = gDxeCoreImageHandle (inside s)"
    using linked_step[where mem = mem, OF i0 m(1) m0, of rst st v N] by blast
  have h: "uh = None \<longrightarrow> handles s h = None" "uh \<noteq> None \<longrightarrow> uh = Some h" using h0 h1 by simp_all
  have k: "instances u = (instances s)(g := instances s g @ [(h, v)])" "watchers u = watchers s" "notifies u = notifies s"
      "unseen u = (\<lambda>n. unseen s n @ (if n \<in> set (watchers s g) then [(h, v)] else []))"
      "gHandleList u = gHandleList s @ (if h \<in> set (gHandleList s) then [] else [h])" "db_only (inside s) u"
      "memory u = memory s" "events u = events s" "gDxeCoreImageHandle u = gDxeCoreImageHandle s"
      "\<exists>i e E. interfaces s i = None \<and> prot_entries u e = Some E \<and> ProtocolID E = g \<and> interfaces u = (interfaces s)
        (i \<mapsto> \<lparr>IHandle = h, IProtocol = e, Interface = v, OpenList = [], OpenListCount = 0\<rparr>)"
      "mEfiLocateHandleRequest u = mEfiLocateHandleRequest s"
    using k0 E by auto
  have sid: "same_ids s (left s u)" using k0 by (simp add: same_ids_def)
  have rq: "request_inv s \<longrightarrow> request_inv u" using k0 by simp
  have qe: "quiet_event t u x = quiet_event t s x" for t x by (rule quiet_event_cong) (simp add: k)
  have rel: "\<exists>u'. (if N then CoreNotifyProtocolEntry rst e u else Ret u) = Ret u' \<and> sig_frame u u' \<and>
      CoreReleaseProtocolLock rst u' = Ret (left s u') \<and> svc s (left s u') \<and> quiet_to l s (left s u')"
  proof (cases N)
    case True
    have "quiet_watchers l u g"
      by (rule quiet_watchers_keep[where s = s]) (use q True k qe in simp_all)
    from notify_step[OF r s i k(6) E l this] True show ?thesis by simp
  next
    case False
    then show ?thesis using release_db_only[OF r s k(6)] quiet_to_left[OF k(6)] by simp
  qed
  then obtain u' where u': "(if N then CoreNotifyProtocolEntry rst e u else Ret u) = Ret u'" "sig_frame u u'"
      "CoreReleaseProtocolLock rst u' = Ret (left s u')" "svc s (left s u')" "quiet_to l s (left s u')" by blast
  note f = sig_frame_db[OF u'(2)]
  have io: "instance_of u' = instance_of u" by (simp add: instance_of_def[abs_def] f)
  have "instances u' = instances u" "watchers u' = watchers u" "unseen u' = unseen u"
    by (rule instances_cong watchers_cong unseen_cong; simp add: f io)+
  moreover have "db_inv u'" using i db_inv_cong[of u' u] f by simp
  moreover have "quiet_event t s x \<Longrightarrow> quiet_event t (left s u') x" for t x
    using quiet_event_frame[OF u'(2), of t x] qe by (simp add: quiet_event_def)
  ultimately have "installed h g v s (left s u')"
    using u'(4) k f rq sid request_inv_cong[of u' u] by (simp add: installed_def kept_def same_ids_def)
  then show ?thesis using c u'(1,3,5) h by auto
qed

lemma install_target_keep:
  "opens_only s s' \<Longrightarrow> install_target mem s' g uh = install_target mem s g uh"
  using opens_only_view(1)[of s s'] opens_onlyD(3)[of s s'] by (simp add: install_target_def split: option.split)

lemma installed_after_opens:
  assumes o: "opens_only s s1" and i: "installed h g v s1 s'" and ifs: "interfaces s1 = interfaces s"
  shows "installed h g v s s'"
proof -
  note d = opens_onlyD[OF o] and vw = opens_only_view[OF o]
  have "quiet_event t s x = quiet_event t s1 x" for t x by (rule quiet_event_cong) (simp add: d)
  then show ?thesis using i svc_trans[OF d(1)] ifs request_inv_cong[of s1 s] by (simp add: installed_def kept_def same_ids_def d vw)
qed

text \<open>An installation that has a place and memory succeeds and appends to the list of its protocol.\<close>

lemma Install_succeeds:
  fixes s :: "'x db" and rst :: "'x db_restore"
  assumes r: "tpl_restore_total rst" and s: "may_enter s" and inv: "db_inv s" and t: "install_target mem s g uh"
    and m: "mem AllocInterface" "mem AllocEntry \<or> entry_at s g \<noteq> None"
    and l: "l \<le> gEfiCurrentTpl s" and q: "N \<longrightarrow> quiet_watchers l s g"
  shows "\<exists>h s'. CoreInstallProtocolInterfaceNotify rst disc mem k (Some uh) (Some g) EFI_NATIVE_INTERFACE v N s =
      Ret (EFI_SUCCESS, Some h, s') \<and> installed h g v s s' \<and> quiet_to l s s' \<and>
      (uh = None \<longrightarrow> handles s h = None) \<and> (uh \<noteq> None \<longrightarrow> uh = Some h)"
proof (cases uh)
  case None
  obtain h u where "Install_locked rst mem EFI_OUT_OF_RESOURCES uh g v N (inside s) = Ret (EFI_SUCCESS, Some h, u)"
    "CoreReleaseProtocolLock rst u = Ret (left s u)" "quiet_to l s (left s u)" "installed h g v s (left s u)"
    "uh = None \<longrightarrow> handles s h = None" "uh \<noteq> None \<longrightarrow> uh = Some h"
    using installed_section[OF r s inv t m l q] by blast
  then show ?thesis using None by (simp add: CoreInstallProtocolInterfaceNotify_def acquire_eq[OF s])
next
  case (Some x)
  have lx: "live s (Some x)" using t Some by (simp add: install_target_def)
  have np: "\<not> iface_at s x g i" for i
    using t Some provides_instances[OF inv, of x g] by (force simp: install_target_def provides_def iface_at_def)
  let ?s1 = "left s (inside s)"
  have v: "open_valid (Some x) ih None EFI_OPEN_PROTOCOL_BY_HANDLE_PROTOCOL s" for ih
    using lx by (simp add: open_valid_def valid_attributes_def)
  have c0: "CoreHandleProtocol rst disc mem k uh (Some g) True s = Ret (EFI_UNSUPPORTED, Some None, ?s1)"
    using OpenProtocol_absent[OF r s inv v _ np, of True] Some by (simp add: CoreHandleProtocol_def)
  have o: "opens_only s ?s1" by (rule opens_only_same[OF r s inv])
  note s1 = opens_only_enter[OF s o] and i1 = opens_onlyD(2)[OF o]
  have t1: "install_target mem ?s1 g uh" using t install_target_keep[OF o] by simp
  have m1: "mem AllocEntry \<or> entry_at ?s1 g \<noteq> None" using m(2) by (simp add: entry_at_def)
  have l1: "l \<le> gEfiCurrentTpl ?s1" using l by simp
  have q1: "N \<longrightarrow> quiet_watchers l ?s1 g"
    using q by (simp add: quiet_watchers_def quiet_event_def)
  obtain h u where i: "Install_locked rst mem EFI_UNSUPPORTED uh g v N (inside ?s1) = Ret (EFI_SUCCESS, Some h, u)"
    "CoreReleaseProtocolLock rst u = Ret (left ?s1 u)" "quiet_to l ?s1 (left ?s1 u)" "installed h g v ?s1 (left ?s1 u)"
    "uh = None \<longrightarrow> handles ?s1 h = None" "uh \<noteq> None \<longrightarrow> uh = Some h"
    using installed_section[OF r s1 i1 t1 m(1) m1 l1 q1] by blast
  then show ?thesis using Some c0 installed_after_opens[OF o i(4)] quiet_to_trans[OF opens_onlyD(14)[OF o] i(3)]
    by (simp add: CoreInstallProtocolInterfaceNotify_def acquire_eq[OF s1])
qed

end
