(* ===== verification/ProtocolUninstall.thy ===== *)
theory ProtocolUninstall
  imports ProtocolInstall
begin

text \<open>
  The removal of an interface: the links it takes back, the handle it frees, and
  \<open>CoreUninstallProtocolInterface\<close> in terms of the abstract view when no driver has to be
  disconnected.
\<close>

section \<open>Unlinking an interface\<close>

lemma set_frame [simp]:
  "events (set_interface i I s) = events s" "memory (set_interface i I s) = memory s"
  "gDxeCoreImageHandle (set_interface i I s) = gDxeCoreImageHandle s" "events (set_handle h H s) = events s"
  "memory (set_handle h H s) = memory s" "gDxeCoreImageHandle (set_handle h H s) = gDxeCoreImageHandle s"
  "events (set_entry e E s) = events s" "memory (set_entry e E s) = memory s"
  "gDxeCoreImageHandle (set_entry e E s) = gDxeCoreImageHandle s" "events (set_notify n N s) = events s"
  "memory (set_notify n N s) = memory s" "gDxeCoreImageHandle (set_notify n N s) = gDxeCoreImageHandle s"
  by (simp_all add: set_interface_def set_handle_def set_entry_def set_notify_def)

definition backed_up :: "nat \<Rightarrow> ptr \<Rightarrow> nat list \<Rightarrow> 'x db \<Rightarrow> 'x db" where
  "backed_up i p l s = s\<lparr>notifies := \<lambda>n. if n \<in> set l
     then map_option (\<lambda>N. if Position N = Some i then N\<lparr>Position := p\<rparr> else N) (notifies s n) else notifies s n\<rparr>"

lemma backed_up_simps [simp]:
  "handles (backed_up i p l s) = handles s" "gHandleList (backed_up i p l s) = gHandleList s"
  "prot_entries (backed_up i p l s) = prot_entries s" "mProtocolDatabase (backed_up i p l s) = mProtocolDatabase s"
  "interfaces (backed_up i p l s) = interfaces s" "next_object (backed_up i p l s) = next_object s"
  "locks (backed_up i p l s) = locks s" "db_only u (backed_up i p l s) = db_only u s" "events (backed_up i p l s) = events s"
  "memory (backed_up i p l s) = memory s" "gDxeCoreImageHandle (backed_up i p l s) = gDxeCoreImageHandle s"
  "gHandleDatabaseKey (backed_up i p l s) = gHandleDatabaseKey s"
  "mEfiLocateHandleRequest (backed_up i p l s) = mEfiLocateHandleRequest s"
  by (simp_all add: backed_up_def db_only_def core.truncate_def)

lemma BackUp_walk_eq:
  "distinct l \<Longrightarrow> \<forall>n \<in> set l. notifies s n \<noteq> None \<Longrightarrow> BackUp_walk i p l s = Ret (backed_up i p l s)"
proof (induction l arbitrary: s)
  case Nil
  then show ?case by (simp add: backed_up_def)
next
  case (Cons n l)
  obtain N where N: "notifies s n = Some N" using Cons.prems(2) by auto
  let ?s1 = "if Position N = Some i then set_notify n (N\<lparr>Position := p\<rparr>) s else s"
  have "\<forall>m \<in> set l. notifies ?s1 m \<noteq> None" using Cons.prems by (auto simp: set_notify_def)
  then have "BackUp_walk i p l ?s1 = Ret (backed_up i p l ?s1)" using Cons.IH[of ?s1] Cons.prems(1) by simp
  moreover have "backed_up i p l ?s1 = backed_up i p (n # l) s"
    using Cons.prems(1) N by (auto simp: backed_up_def set_notify_def fun_eq_iff intro!: protocol_db.unfold_congs)
  ultimately show ?case using N by simp
qed

text \<open>The writes of a removal.\<close>

definition unlinked :: "nat \<Rightarrow> nat \<Rightarrow> nat \<Rightarrow> 'x db \<Rightarrow> 'x db" where
  "unlinked i h e s = (case (handles s h, prot_entries s e) of
     (Some H, Some E) \<Rightarrow>
       (let s1 = set_entry e (E\<lparr>EProtocols := remove1 i (EProtocols E)\<rparr>)
                   (backed_up i (prev_link i (EProtocols E)) (ENotify E) s);
            s2 = set_handle h (H\<lparr>Key := gHandleDatabaseKey s + 1, HProtocols := remove1 i (HProtocols H)\<rparr>)
                   (s1\<lparr>gHandleDatabaseKey := gHandleDatabaseKey s + 1, interfaces := (interfaces s)(i := None)\<rparr>)
        in if remove1 i (HProtocols H) \<noteq> [] then s2
           else s2\<lparr>gHandleList := remove1 h (gHandleList s), handles := (handles s2)(h := None)\<rparr>)
   | _ \<Rightarrow> s)"

lemma prev_link_mem:
  assumes "prev_link i l = Some p"
  shows "p \<in> set l" "p \<noteq> i"
proof -
  obtain ys where y: "takeWhile (\<lambda>x. x \<noteq> i) l = ys" "ys \<noteq> []" "p = last ys"
    using assms by (auto simp: prev_link_def split: list.splits)
  then have "p \<in> set (takeWhile (\<lambda>x. x \<noteq> i) l)" by simp
  then show "p \<in> set l" "p \<noteq> i" by (auto dest: set_takeWhileD)
qed

lemma unlinked_fields:
  assumes "handles s h = Some H" and "prot_entries s e = Some E"
  shows "prot_entries (unlinked i h e s) = (prot_entries s)(e \<mapsto> E\<lparr>EProtocols := remove1 i (EProtocols E)\<rparr>)"
    "mProtocolDatabase (unlinked i h e s) = mProtocolDatabase s" "next_object (unlinked i h e s) = next_object s"
    "interfaces (unlinked i h e s) = (interfaces s)(i := None)"
    "notifies (unlinked i h e s) = notifies (backed_up i (prev_link i (EProtocols E)) (ENotify E) s)"
    "handles (unlinked i h e s) = (handles s)(h := if remove1 i (HProtocols H) = [] then None
       else Some (H\<lparr>Key := gHandleDatabaseKey s + 1, HProtocols := remove1 i (HProtocols H)\<rparr>))"
    "gHandleList (unlinked i h e s) = (if remove1 i (HProtocols H) = [] then remove1 h (gHandleList s) else gHandleList s)"
    "db_only u (unlinked i h e s) = db_only u s" "locks (unlinked i h e s) = locks s" "events (unlinked i h e s) = events s"
    "mEfiLocateHandleRequest (unlinked i h e s) = mEfiLocateHandleRequest s"
    "memory (unlinked i h e s) = memory s" "gDxeCoreImageHandle (unlinked i h e s) = gDxeCoreImageHandle s"
  using assms by (simp_all add: unlinked_def Let_def fun_upd_idem_iff)

lemma notifies_backed_up:
  assumes "notifies (backed_up i p l s) n = Some N"
  shows "\<exists>N0. notifies s n = Some N0 \<and> NProtocol N = NProtocol N0 \<and> NEvent N = NEvent N0 \<and>
    Position N = (if n \<in> set l \<and> Position N0 = Some i then p else Position N0)"
proof -
  obtain N0 where N0: "notifies s n = Some N0" "N = (if n \<in> set l \<and> Position N0 = Some i then N0\<lparr>Position := p\<rparr> else N0)"
    using assms by (cases "n \<in> set l") (auto simp: backed_up_def)
  then show ?thesis by (cases "n \<in> set l \<and> Position N0 = Some i") auto
qed

lemma unlinked_inv:
  assumes inv: "db_inv s" and I: "interfaces s i = Some I"
  shows "db_inv (unlinked i (IHandle I) (IProtocol I) s)"
proof -
  let ?h = "IHandle I" and ?e = "IProtocol I"
  let ?u = "unlinked i ?h ?e s"
  obtain H where H: "handles s ?h = Some H" "i \<in> set (HProtocols H)" using interface_invD(1)[OF inv I] by blast
  obtain E where E: "prot_entries s ?e = Some E" "i \<in> set (EProtocols E)" using interface_invD(2)[OF inv I] by blast
  note u = unlinked_fields[where i = i, OF H(1) E(1)]
  note d = handle_invD[OF inv] and de = entry_invD[OF inv]
  have dH: "distinct (HProtocols H)" and dE: "distinct (EProtocols E)" using d(3)[OF H(1)] de(4)[OF E(1)] by simp_all
  have hold: "\<exists>H0. handles s x = Some H0 \<and> set (HProtocols X) = set (HProtocols H0) - {i} \<and> distinct (HProtocols X) \<and> HProtocols X \<noteq> []"
    if "handles ?u x = Some X" for x X
  proof (cases "x = ?h")
    case True
    then have "HProtocols X = remove1 i (HProtocols H)" "remove1 i (HProtocols H) \<noteq> []" using that by (auto simp: u split: if_splits)
    then show ?thesis using True H dH by (simp add: set_remove1_eq)
  next
    case False
    then have x: "handles s x = Some X" using that by (simp add: u)
    have "i \<notin> set (HProtocols X)" using d(5)[OF x, of i] I False by auto
    then show ?thesis using x d(3,4)[OF x] by simp
  qed
  have eold: "\<exists>E0. prot_entries s x = Some E0 \<and> set (EProtocols X) = set (EProtocols E0) - {i} \<and> distinct (EProtocols X) \<and>
      ENotify X = ENotify E0 \<and> ProtocolID X = ProtocolID E0" if "prot_entries ?u x = Some X" for x X
  proof (cases "x = ?e")
    case True
    then have "X = E\<lparr>EProtocols := remove1 i (EProtocols E)\<rparr>" using that by (simp add: u)
    then show ?thesis using True E dE by (simp add: set_remove1_eq)
  next
    case False
    then have x: "prot_entries s x = Some X" using that by (simp add: u)
    have "i \<notin> set (EProtocols X)" using de(6)[OF x, of i] I False by auto
    then show ?thesis using x de(4)[OF x] by simp
  qed
  have "handle_inv ?u" unfolding handle_inv_def
  proof (intro conjI allI impI)
    show "distinct (gHandleList ?u)" using d(1) by (simp add: u)
    show "(x \<in> set (gHandleList ?u)) = (handles ?u x \<noteq> None)" for x using d(1) d(2)[of x] H by (auto simp: u set_remove1_eq)
    fix x X assume X: "handles ?u x = Some X"
    obtain H0 where H0: "handles s x = Some H0" "set (HProtocols X) = set (HProtocols H0) - {i}" "distinct (HProtocols X)" "HProtocols X \<noteq> []"
      using hold[OF X] by blast
    show "distinct (HProtocols X)" "HProtocols X \<noteq> []" using H0 by simp_all
    show "\<forall>j\<in>set (HProtocols X). \<exists>J. interfaces ?u j = Some J \<and> IHandle J = x" using H0 d(5)[OF H0(1)] by (auto simp: u)
  qed
  moreover have "entry_inv ?u"
  proof (rule entry_invI)
    show "distinct (mProtocolDatabase ?u)" using de(1) by (simp add: u)
    show "(x \<in> set (mProtocolDatabase ?u)) = (prot_entries ?u x \<noteq> None)" for x using de(2)[of x] E by (simp add: u)
    show "x = y" if xy: "prot_entries ?u x = Some X" "prot_entries ?u y = Some Y" "ProtocolID X = ProtocolID Y" for x X y Y
      using eold[OF xy(1)] eold[OF xy(2)] xy(3) de(3) by metis
    fix x X assume X: "prot_entries ?u x = Some X"
    obtain E0 where E0: "prot_entries s x = Some E0" "set (EProtocols X) = set (EProtocols E0) - {i}" "distinct (EProtocols X)"
      "ENotify X = ENotify E0" using eold[OF X] by blast
    show "distinct (EProtocols X) \<and> distinct (ENotify X)" using E0 de(5)[OF E0(1)] by simp
    show "\<exists>J. interfaces ?u j = Some J \<and> IProtocol J = x" if "j \<in> set (EProtocols X)" for j using that E0 de(6)[OF E0(1), of j] by (simp add: u)
    show "\<exists>N. notifies ?u n = Some N \<and> NProtocol N = x" if n: "n \<in> set (ENotify X)" for n
    proof -
      obtain N0 where "notifies s n = Some N0" "NProtocol N0 = x" using n E0(4) de(7)[OF E0(1), of n] by auto
      then show ?thesis by (simp add: u backed_up_def)
    qed
  qed
  moreover have "interface_inv ?u"
  proof (rule interface_invI)
    fix j J assume J: "interfaces ?u j = Some J"
    then have J': "interfaces s j = Some J" "j \<noteq> i" by (auto simp: u split: if_splits)
    note di = interface_invD[OF inv J'(1)]
    obtain HJ where HJ: "handles s (IHandle J) = Some HJ" "j \<in> set (HProtocols HJ)" using di(1) by blast
    show "\<exists>H. handles ?u (IHandle J) = Some H \<and> j \<in> set (HProtocols H)"
    proof (cases "IHandle J = ?h")
      case True
      then have "j \<in> set (remove1 i (HProtocols H))" using HJ H(1) J'(2) dH by (simp add: set_remove1_eq)
      then show ?thesis using True by (auto simp: u)
    next
      case False
      then show ?thesis using HJ by (simp add: u)
    qed
    show "\<exists>E. prot_entries ?u (IProtocol J) = Some E \<and> j \<in> set (EProtocols E)"
      using di(2) E J'(2) dE by (auto simp: u set_remove1_eq)
    show "OpenListCount J = of_nat (length (OpenList J))" using di(3) .
    fix k K assume K: "interfaces ?u k = Some K" "IHandle J = IHandle K" "IProtocol J = IProtocol K"
    have "interfaces s k = Some K" using K(1) by (auto simp: u split: if_splits)
    then show "j = k" using di(4)[OF _ K(2,3)] by blast
  qed
  moreover have "notify_inv ?u" unfolding notify_inv_def
  proof (intro allI impI)
    fix n N assume N: "notifies ?u n = Some N"
    obtain N0 where N0: "notifies s n = Some N0" "NProtocol N = NProtocol N0" "NEvent N = NEvent N0"
      "Position N = (if n \<in> set (ENotify E) \<and> Position N0 = Some i then prev_link i (EProtocols E) else Position N0)"
      using notifies_backed_up N unfolding u by blast
    obtain E0 where E0: "prot_entries s (NProtocol N0) = Some E0" "n \<in> set (ENotify E0)"
      "\<forall>j. Position N0 = Some j \<longrightarrow> j \<in> set (EProtocols E0)" using notify_invD[OF inv N0(1)] by blast
    show "\<exists>E. prot_entries ?u (NProtocol N) = Some E \<and> n \<in> set (ENotify E) \<and> (\<forall>j. Position N = Some j \<longrightarrow> j \<in> set (EProtocols E))"
    proof (cases "NProtocol N0 = ?e")
      case True
      then have EE: "E0 = E" using E0(1) E(1) by simp
      have "j \<in> set (remove1 i (EProtocols E))" if j: "Position N = Some j" for j
      proof (cases "Position N0 = Some i")
        case True
        then have "prev_link i (EProtocols E) = Some j" using j N0(4) E0(2) EE by simp
        then show ?thesis using prev_link_mem[of i "EProtocols E" j] dE by (simp add: set_remove1_eq)
      next
        case False
        then show ?thesis using j N0(4) E0(3) EE dE by (auto simp: set_remove1_eq)
      qed
      then show ?thesis using True E0(2) EE N0(2) by (simp add: u)
    next
      case False
      have "Position N0 \<noteq> Some i"
      proof
        assume "Position N0 = Some i"
        then have "i \<in> set (EProtocols E0)" using E0(3) by blast
        then show False using de(6)[OF E0(1), of i] I False by auto
      qed
      then show ?thesis using False E0 N0(2,4) by (simp add: u)
    qed
  qed
  moreover have "fresh_inv ?u"
    unfolding fresh_inv_def
  proof (intro allI impI)
    fix x assume "next_object ?u \<le> x"
    then have x: "next_object s \<le> x" by (simp add: u)
    note f = fresh_invD[OF inv x]
    have "x \<noteq> ?h" "x \<noteq> ?e" using f H E by auto
    then show "handles ?u x = None \<and> prot_entries ?u x = None \<and> interfaces ?u x = None \<and> notifies ?u x = None"
      using f by (simp add: u backed_up_def)
  qed
  ultimately show ?thesis by (simp add: db_inv_def)
qed

lemma instances_unlinked:
  assumes inv: "db_inv s" and I: "interfaces s i = Some I" and E: "prot_entries s (IProtocol I) = Some E"
  shows "instances (unlinked i (IHandle I) (IProtocol I) s) =
    (instances s)(ProtocolID E := filter (\<lambda>x. fst x \<noteq> IHandle I) (instances s (ProtocolID E)))"
proof
  fix g
  let ?e = "IProtocol I"
  let ?u = "unlinked i (IHandle I) ?e s"
  obtain H where H: "handles s (IHandle I) = Some H" using interface_invD(1)[OF inv I] by blast
  have iE: "i \<in> set (EProtocols E)" using interface_invD(2)[OF inv I] E by simp
  note u = unlinked_fields[where i = i, OF H E] and inv' = unlinked_inv[OF inv I] and de = entry_invD[OF inv]
  have io: "instance_of ?u j = instance_of s j" if "j \<noteq> i" for j using that by (simp add: instance_of_def u)
  have ent: "entry_at ?u g' = entry_at s g'" for g'
    unfolding entry_at_def u(1,2) by (rule arg_cong[where f = "\<lambda>P. find P _"]) (simp add: fun_eq_iff E split: option.split)
  show "instances ?u g = ((instances s)(ProtocolID E := filter (\<lambda>x. fst x \<noteq> IHandle I) (instances s (ProtocolID E)))) g"
    using inv
  proof (cases rule: entry_at_cases[where g = g])
    case none
    then have "g \<noteq> ProtocolID E" using E by metis
    then show ?thesis using none(1) by (simp add: instances_def ent)
  next
    case (some f F)
    show ?thesis
    proof (cases "f = ?e")
      case False
      then have "g \<noteq> ProtocolID E" using de(3)[OF some(2) E] some(3) by auto
      moreover have "instances ?u g = map (instance_of ?u) (EProtocols F)"
        using some False by (intro instances_some[OF inv', of f]) (simp_all add: u)
      moreover have "map (instance_of ?u) (EProtocols F) = map (instance_of s) (EProtocols F)"
      proof (rule map_cong[OF refl])
        fix j assume "j \<in> set (EProtocols F)"
        then have "j \<noteq> i" using de(6)[OF some(2), of j] I False by auto
        then show "instance_of ?u j = instance_of s j" by (rule io)
      qed
      ultimately show ?thesis using instances_some[OF inv some(2,3)] by simp
    next
      case True
      then have F: "F = E" "g = ProtocolID E" using some E by simp_all
      have dE: "distinct (EProtocols E)" using de(4)[OF E] .
      have "instances ?u g = map (instance_of ?u) (remove1 i (EProtocols E))"
        using F(2) by (subst instances_some[OF inv', of ?e "E\<lparr>EProtocols := remove1 i (EProtocols E)\<rparr>"]) (simp_all add: u)
      also have "\<dots> = map (instance_of s) (remove1 i (EProtocols E))"
        by (rule map_cong[OF refl]) (use dE in \<open>simp add: io set_remove1_eq\<close>)
      also have "remove1 i (EProtocols E) = filter (\<lambda>j. fst (instance_of s j) \<noteq> IHandle I) (EProtocols E)"
        unfolding distinct_remove1_removeAll[OF dE] removeAll_filter_not_eq
      proof (rule filter_cong[OF refl])
        fix j assume j: "j \<in> set (EProtocols E)"
        obtain J where J: "interfaces s j = Some J" "IProtocol J = ?e" using de(6)[OF E j] by blast
        show "(i \<noteq> j) = (fst (instance_of s j) \<noteq> IHandle I)"
          using interface_invD(4)[OF inv I J(1)] J I by (auto simp: instance_of_def)
      qed
      also have "map (instance_of s) \<dots> = filter (\<lambda>x. fst x \<noteq> IHandle I) (instances s g)"
        using instances_some[OF inv E] F(2) by (simp add: filter_map comp_def)
      finally show ?thesis using F(2) by simp
    qed
  qed
qed

lemma watchers_unlinked:
  assumes "db_inv s" and "interfaces s i = Some I"
  shows "watchers (unlinked i (IHandle I) (IProtocol I) s) = watchers s"
proof -
  obtain H where H: "handles s (IHandle I) = Some H" using interface_invD(1)[OF assms] by blast
  obtain E where E: "prot_entries s (IProtocol I) = Some E" using interface_invD(2)[OF assms] by blast
  show ?thesis
    by (rule watchers_by_entries[OF assms(1) unlinked_inv[OF assms]])
      (use E in \<open>auto simp: unlinked_fields[OF H E] split: if_splits\<close>)
qed

lemma unseen_unlinked:
  assumes inv: "db_inv s" and I: "interfaces s i = Some I" and E: "prot_entries s (IProtocol I) = Some E"
  shows "unseen (unlinked i (IHandle I) (IProtocol I) s) n =
    (if n \<in> set (watchers s (ProtocolID E)) then filter (\<lambda>x. fst x \<noteq> IHandle I) (unseen s n) else unseen s n)"
proof -
  let ?e = "IProtocol I"
  let ?u = "unlinked i (IHandle I) ?e s"
  obtain H where H: "handles s (IHandle I) = Some H" using interface_invD(1)[OF inv I] by blast
  have iE: "i \<in> set (EProtocols E)" using interface_invD(2)[OF inv I] E by simp
  note u = unlinked_fields[where i = i, OF H E] and de = entry_invD[OF inv]
  have io: "instance_of ?u j = instance_of s j" if "j \<noteq> i" for j using that by (simp add: instance_of_def u)
  show ?thesis
  proof (cases "notifies s n")
    case None
    then show ?thesis by (simp add: unseen_def u backed_up_def)
  next
    case (Some N)
    obtain F where F: "prot_entries s (NProtocol N) = Some F" "n \<in> set (ENotify F)" "on_list (Position N) (EProtocols F)" "distinct (EProtocols F)"
      using registration[OF inv Some] by blast
    note wm = watchers_mem[OF inv Some F(1), of "ProtocolID E"] and un = unseen_eq[OF Some F(1)]
    have sub: "set (rest_after (Position N) (EProtocols F)) \<subseteq> set (EProtocols F)"
      using rest_after_split[OF F(3)] by (metis Un_upper2 set_append)
    show ?thesis
    proof (cases "NProtocol N = ?e")
      case True
      then have FE: "F = E" using F(1) E by simp
      let ?p = "if Position N = Some i then prev_link i (EProtocols E) else Position N"
      obtain M where M: "notifies ?u n = Some M" "NProtocol M = ?e" "Position M = ?p"
      proof -
        have "notifies ?u n = Some (if Position N = Some i then N\<lparr>Position := prev_link i (EProtocols E)\<rparr> else N)"
          using Some F(2) FE by (simp add: u backed_up_def)
        then show thesis using that True by auto
      qed
      have "unseen ?u n = map (instance_of ?u) (rest_after ?p (remove1 i (EProtocols E)))"
        using unseen_eq[OF M(1)] M(2,3) u(1) by simp
      also have "\<dots> = map (instance_of ?u) (removeAll i (rest_after (Position N) (EProtocols E)))"
        using rest_after_remove[of "EProtocols E" i "Position N"] F(3,4) FE iE by simp
      also have "\<dots> = map (instance_of s) (removeAll i (rest_after (Position N) (EProtocols E)))"
        by (rule map_cong[OF refl]) (simp add: io)
      also have "removeAll i (rest_after (Position N) (EProtocols E)) =
          filter (\<lambda>j. fst (instance_of s j) \<noteq> IHandle I) (rest_after (Position N) (EProtocols E))"
        unfolding removeAll_filter_not_eq
      proof (rule filter_cong[OF refl])
        fix j assume "j \<in> set (rest_after (Position N) (EProtocols E))"
        then have j: "j \<in> set (EProtocols E)" using sub FE by auto
        obtain J where J: "interfaces s j = Some J" "IProtocol J = ?e" using de(6)[OF E j] by blast
        show "(i \<noteq> j) = (fst (instance_of s j) \<noteq> IHandle I)"
          using interface_invD(4)[OF inv I J(1)] J I by (auto simp: instance_of_def)
      qed
      also have "map (instance_of s) \<dots> = filter (\<lambda>x. fst x \<noteq> IHandle I) (unseen s n)"
        using un FE by (simp add: filter_map comp_def)
      finally show ?thesis using wm FE by simp
    next
      case False
      then have ne: "ProtocolID F \<noteq> ProtocolID E" using de(3)[OF F(1) E] by blast
      have "i \<notin> set (EProtocols F)" using de(6)[OF F(1), of i] I False by auto
      then have p: "Position N \<noteq> Some i" "i \<notin> set (rest_after (Position N) (EProtocols F))" using F(3) sub by (auto simp: on_list_def)
      have "notifies ?u n = Some N" using Some p(1) by (simp add: u backed_up_def)
      moreover have "map (instance_of ?u) (rest_after (Position N) (EProtocols F)) = map (instance_of s) (rest_after (Position N) (EProtocols F))"
        by (rule map_cong[OF refl]) (use p(2) io in metis)
      ultimately have "unseen ?u n = unseen s n" using unseen_eq[of ?u n N F] F(1) False un by (simp add: u)
      then show ?thesis using wm ne by simp
    qed
  qed
qed

text \<open>A handle is live exactly while it has an instance.\<close>

lemma live_iff_instances:
  assumes inv: "db_inv s"
  shows "handles s h \<noteq> None \<longleftrightarrow> (\<exists>g v. (h, v) \<in> set (instances s g))"
proof
  assume "handles s h \<noteq> None"
  then obtain H where H: "handles s h = Some H" by blast
  then obtain i where i: "i \<in> set (HProtocols H)" using handle_invD(4)[OF inv H] by (meson last_in_set)
  obtain I where I: "interfaces s i = Some I" "IHandle I = h" using handle_invD(5)[OF inv H i] by blast
  obtain E where "prot_entries s (IProtocol I) = Some E" using interface_invD(2)[OF inv I(1)] by blast
  then have "provides s h (ProtocolID E) (Interface I)" using I by (auto simp: provides_def iface_at_def)
  then show "\<exists>g v. (h, v) \<in> set (instances s g)" using provides_instances[OF inv] by blast
qed (use instances_handle_live[OF inv] in blast)

section \<open>Uninstalling\<close>

lemma DropPassive_walk_all:
  "\<forall>d \<in> set ds. OAttributes d AND passive_attributes \<noteq> 0 \<Longrightarrow> DropPassive_walk n ds = (n - of_nat (length ds), [])"
  by (induction ds arbitrary: n) (simp_all add: diff_diff_eq)

lemma by_driver_none: "\<forall>d \<in> set ds. \<not> is_by_driver d \<Longrightarrow> by_driver ds = None"
  unfolding by_driver_def is_by_driver_def by (simp add: find_None_iff)

lemma DisconnectControllers_passive:
  assumes I: "interfaces s i = Some I" and n: "OpenListCount I = of_nat (length (OpenList I))" and p: "all_passive I"
  shows "CoreDisconnectControllersUsingProtocolInterface rst disc conn (Suc k) uh i s =
    Ret (EFI_SUCCESS, set_interface i (with_opens [] I) s)"
proof -
  have "DropPassive_walk (OpenListCount I) (OpenList I) = (0, [])"
    using p n DropPassive_walk_all[of "OpenList I" "OpenListCount I"] by (simp add: all_passive_def)
  moreover have "by_driver (OpenList I) = None" using p by (intro by_driver_none) (simp add: all_passive_def)
  ultimately show ?thesis using I by (simp add: CoreDisconnectControllersUsingProtocolInterface_def with_opens_def)
qed

lemma Uninstall_remove_eq:
  assumes inv: "db_inv s" and lk: "held s gProtocolDatabaseLock" and i: "iface_at s h g i" and I: "interfaces s i = Some I" "Interface I = v"
  shows "Uninstall_remove h g v s = Ret (EFI_SUCCESS, unlinked i h (IProtocol I) s)"
proof -
  have h: "IHandle I = h" using i I by (auto simp: iface_at_def)
  obtain H where H: "handles s h = Some H" "i \<in> set (HProtocols H)" using interface_invD(1)[OF inv I(1)] h by auto
  obtain E where E: "prot_entries s (IProtocol I) = Some E" "i \<in> set (EProtocols E)" using interface_invD(2)[OF inv I(1)] by blast
  have hl: "h \<in> set (gHandleList s)" using handle_invD(2)[OF inv, of h] H by simp
  have b: "BackUp_walk i (prev_link i (EProtocols E)) (ENotify E) s = Ret (backed_up i (prev_link i (EProtocols E)) (ENotify E) s)"
    using entry_invD(5,7)[OF inv E(1)] by (intro BackUp_walk_eq) auto
  have r: "CoreRemoveInterfaceFromProtocol h g v s = Ret (Some i, set_entry (IProtocol I)
      (E\<lparr>EProtocols := remove1 i (EProtocols E)\<rparr>) (backed_up i (prev_link i (EProtocols E)) (ENotify E) s))"
    using FindInterface_some[OF inv lk i I] lk I(1) E b by (simp add: CoreRemoveInterfaceFromProtocol_def)
  have dH: "distinct (HProtocols H)" using handle_invD(3)[OF inv H(1)] .
  show ?thesis
    using H(2) hl by (simp add: Uninstall_remove_def r H(1) Let_def unlinked_def E(1))
qed

definition uninstalled :: "nat \<Rightarrow> guid \<Rightarrow> 'x db \<Rightarrow> 'x db \<Rightarrow> bool" where
  "uninstalled h g s s' \<longleftrightarrow> kept 0 s s' \<and> instances s' = (instances s)(g := filter (\<lambda>x. fst x \<noteq> h) (instances s g)) \<and> watchers s' = watchers s \<and>
     unseen s' = (\<lambda>n. if n \<in> set (watchers s g) then filter (\<lambda>x. fst x \<noteq> h) (unseen s n) else unseen s n) \<and>
     notify_events s' = notify_events s \<and>
     gHandleList s' = filter (\<lambda>x. handles s' x \<noteq> None) (gHandleList s) \<and> events s' = events s \<and>
     (\<forall>l. quiet_to l s s') \<and> (\<forall>j J. interfaces s j = Some J \<longrightarrow> iface_at s h g j \<or> interfaces s' j = Some J)"

lemma unlinked_handles:
  assumes inv: "db_inv s" and H: "handles s h = Some H" and E: "prot_entries s e = Some E"
  shows "gHandleList (unlinked i h e s) = filter (\<lambda>x. handles (unlinked i h e s) x \<noteq> None) (gHandleList s)"
proof -
  note u = unlinked_fields[where i = i, OF H E] and d = handle_invD[OF inv]
  show ?thesis
  proof (cases "remove1 i (HProtocols H) = []")
    case True
    have "filter (\<lambda>x. handles (unlinked i h e s) x \<noteq> None) (gHandleList s) = filter (\<lambda>x. h \<noteq> x) (gHandleList s)"
      using True d(2) by (intro filter_cong[OF refl]) (auto simp: u)
    then show ?thesis using True by (simp add: u distinct_remove1_removeAll[OF d(1)] removeAll_filter_not_eq)
  next
    case False
    have "filter (\<lambda>x. handles (unlinked i h e s) x \<noteq> None) (gHandleList s) = gHandleList s"
      using False d(2) by (simp add: filter_id_conv u)
    then show ?thesis using False by (simp add: u)
  qed
qed

lemma instances_set_interface:
  assumes "interfaces s i = Some I" and "IHandle J = IHandle I" "Interface J = Interface I"
  shows "instances (set_interface i J s) = instances s"
proof -
  have io: "instance_of (set_interface i J s) = instance_of s"
    using assms by (simp add: fun_eq_iff instance_of_def)
  show ?thesis unfolding instances_def[abs_def] entry_at_def set_simps io by (rule refl)
qed

text \<open>An interface that no driver and no child uses is removed, and the handle with its last one.\<close>

lemma Uninstall_succeeds:
  fixes s :: "'x db" and rst :: "'x db_restore"
  assumes r: "tpl_restore_total rst" and s: "may_enter s" and inv: "db_inv s"
    and i: "iface_at s h g i" and I: "interfaces s i = Some I" "Interface I = v" and p: "all_passive I"
  shows "\<exists>s'. CoreUninstallProtocolInterface rst disc conn (Suc k) (Some h) (Some g) v s = Ret (EFI_SUCCESS, s') \<and>
    uninstalled h g s s' \<and> next_object s' = next_object s"
proof -
  let ?u = "inside s" let ?J = "with_opens [] I"
  let ?w = "set_interface i ?J ?u"
  let ?x = "unlinked i h (IProtocol I) ?w"
  have inv0: "db_inv ?u" and lk0: "held ?u gProtocolDatabaseLock" using inv by simp_all
  have i0: "iface_at ?u h g i" using i by (simp add: iface_at_def)
  have h: "IHandle I = h" using i I by (auto simp: iface_at_def)
  have invw: "db_inv ?w" using db_inv_set_interface[OF inv0, of i I ?J] I by simp
  have iw: "iface_at ?w h g i" using i0 I iface_at_set_interface[of ?u i I ?J] by simp
  have lv: "live s (Some h)" by (rule iface_live[OF inv i])
  obtain H where H: "handles ?w h = Some H" using lv by auto
  obtain E where E: "prot_entries ?w (IProtocol ?J) = Some E" "ProtocolID E = g" using i I by (auto simp: iface_at_def)
  have n: "OpenListCount I = of_nat (length (OpenList I))" by (rule interface_invD(3)[OF inv I(1)])
  have c: "CoreDisconnectControllersUsingProtocolInterface rst disc conn (Suc k) (Some h) i ?u = Ret (EFI_SUCCESS, ?w)"
    using DisconnectControllers_passive[of ?u i I] I n p by simp
  have rm: "Uninstall_remove h g v ?w = Ret (EFI_SUCCESS, ?x)"
    using Uninstall_remove_eq[OF invw _ iw, of ?J v] I by simp
  note ux = unlinked_fields[where i = i, OF H E(1), simplified]
  have o: "db_only ?u ?x" by (simp add: ux)
  have invx: "db_inv ?x" using unlinked_inv[OF invw, of i ?J] h by simp
  have ins: "instances ?x = (instances s)(g := filter (\<lambda>x. fst x \<noteq> h) (instances s g))"
    using instances_unlinked[OF invw, of i ?J E] E h instances_set_interface[of ?u i I ?J] I by simp
  have wt: "watchers ?x = watchers s" using watchers_unlinked[OF invw, of i ?J] h by simp
  have un: "unseen ?x = (\<lambda>n. if n \<in> set (watchers s g) then filter (\<lambda>x. fst x \<noteq> h) (unseen s n) else unseen s n)"
  proof
    fix n
    have uw: "unseen ?w = unseen s" "watchers ?w = watchers s"
      using opens_only_view[OF opens_only_left[OF r s inv I(1), of "[]"]] by simp_all
    show "unseen ?x n = (if n \<in> set (watchers s g) then filter (\<lambda>x. fst x \<noteq> h) (unseen s n) else unseen s n)"
      using unseen_unlinked[OF invw, of i ?J E n] E h uw by simp
  qed
  have keep: "\<forall>j J. interfaces s j = Some J \<longrightarrow> iface_at s h g j \<or> interfaces (left s ?x) j = Some J"
    using i by (auto simp: ux)
  have sid: "same_ids s (left s ?x)" using E(1) by (auto simp: same_ids_def ux)
  have rq: "request_inv s \<longrightarrow> request_inv ?x"
    using H by (auto simp: request_inv_def ux split: if_splits)
  have nt: "notify_events (left s ?x) = notify_events s"
    by (auto simp: fun_eq_iff notify_events_def ux backed_up_def option.map_comp comp_def intro!: option.map_cong)
  have hl: "gHandleList ?x = filter (\<lambda>x. handles ?x x \<noteq> None) (gHandleList s)"
    using unlinked_handles[OF invw H E(1), of i] by simp
  have f: "CoreFindProtocolInterface h g v ?u = Ret (Some i)" using FindInterface_some[OF inv0 lk0 i0, of I v] I by simp
  have "CoreUninstallProtocolInterface rst disc conn (Suc k) (Some h) (Some g) v s = Ret (EFI_SUCCESS, left s ?x)"
    using lv release_db_only(1)[OF r s o]
    by (simp add: CoreUninstallProtocolInterface_def ValidateHandle_live[OF inv] acquire_eq[OF s] f c rm)
  moreover have "uninstalled h g s (left s ?x)"
    using release_db_only(2)[OF r s o] invx ins wt un nt hl ux rq quiet_event_cong[of "left s ?x" s] quiet_to_left[OF o] sid keep
    by (simp add: uninstalled_def kept_def)
  moreover have "next_object (left s ?x) = next_object s" by (simp add: ux)
  ultimately show ?thesis by blast
qed

end
