(* ===== verification/ProtocolSearch.thy ===== *)
theory ProtocolSearch
  imports ProtocolUninstall
begin

text \<open>
  The searches by protocol in terms of the abstract view: \<open>CoreLocateHandle\<close>,
  \<open>CoreLocateHandleBuffer\<close> and \<open>CoreLocateProtocol\<close> return the instances in order, and change
  nothing but the request numbers that keep a search from returning a handle twice.
\<close>

section \<open>Searching by protocol\<close>

text \<open>A search marks the handles it returns with its number.\<close>

definition mark :: "u64 \<Rightarrow> nat set \<Rightarrow> 'x db \<Rightarrow> 'x db" where
  "mark r hs u = u\<lparr>handles := \<lambda>h. if h \<in> hs then map_option (\<lambda>H. H\<lparr>LocateRequest := r\<rparr>) (handles u h) else handles u h\<rparr>"

lemma mark_simps [simp]:
  "gHandleList (mark r hs u) = gHandleList u" "prot_entries (mark r hs u) = prot_entries u"
  "mProtocolDatabase (mark r hs u) = mProtocolDatabase u" "interfaces (mark r hs u) = interfaces u"
  "notifies (mark r hs u) = notifies u" "next_object (mark r hs u) = next_object u"
  "gHandleDatabaseKey (mark r hs u) = gHandleDatabaseKey u" "mEfiLocateHandleRequest (mark r hs u) = mEfiLocateHandleRequest u"
  "locks (mark r hs u) = locks u" "events (mark r hs u) = events u" "memory (mark r hs u) = memory u"
  "gDxeCoreImageHandle (mark r hs u) = gDxeCoreImageHandle u" "db_only v (mark r hs u) = db_only v u"
  "mark r {} u = u"
  by (simp_all add: mark_def db_only_def core.truncate_def)

lemma handles_mark: "handles (mark r hs u) h = (if h \<in> hs then map_option (\<lambda>H. H\<lparr>LocateRequest := r\<rparr>) (handles u h) else handles u h)"
  by (simp add: mark_def)

lemma set_handle_mark:
  "handles u h = Some H \<Longrightarrow> set_handle h (H\<lparr>LocateRequest := r\<rparr>) u = mark r {h} u"
  by (auto simp: set_handle_def mark_def fun_eq_iff intro!: protocol_db.unfold_congs)

lemma mark_mark: "mark r hs (mark r hs' u) = mark r (hs \<union> hs') u"
  by (auto simp: mark_def fun_eq_iff option.map_comp comp_def intro!: protocol_db.unfold_congs)

lemma mark_inv:
  assumes inv: "db_inv s"
  shows "db_inv (mark r hs s)"
proof -
  let ?u = "mark r hs s"
  have h: "\<exists>H0. handles s h = Some H0 \<and> HProtocols H = HProtocols H0" if "handles ?u h = Some H" for h H
    using that by (auto simp: handles_mark split: if_splits)
  have h': "\<exists>H'. handles ?u h = Some H' \<and> HProtocols H' = HProtocols H" if "handles s h = Some H" for h H
    using that by (simp add: handles_mark)
  have n: "handles ?u h = None \<longleftrightarrow> handles s h = None" for h by (simp add: handles_mark)
  have "handle_inv ?u" unfolding handle_inv_def
  proof (intro conjI allI impI)
    fix x X assume "handles ?u x = Some X"
    then obtain H0 where H0: "handles s x = Some H0" "HProtocols X = HProtocols H0" using h by blast
    show "distinct (HProtocols X)" "HProtocols X \<noteq> []" using handle_invD(3,4)[OF inv H0(1)] H0(2) by simp_all
    show "\<forall>i\<in>set (HProtocols X). \<exists>I. interfaces ?u i = Some I \<and> IHandle I = x" using handle_invD(5)[OF inv H0(1)] H0(2) by simp
  qed (use handle_invD(1,2)[OF inv] n in simp_all)
  moreover have "entry_inv ?u" using inv by (simp add: db_inv_def entry_inv_def)
  moreover have "interface_inv ?u"
  proof (rule interface_invI)
    fix i I assume "interfaces ?u i = Some I"
    then have I: "interfaces s i = Some I" by simp
    note di = interface_invD[OF inv I]
    show "\<exists>H. handles ?u (IHandle I) = Some H \<and> i \<in> set (HProtocols H)" using di(1) h' by metis
    show "\<exists>E. prot_entries ?u (IProtocol I) = Some E \<and> i \<in> set (EProtocols E)" using di(2) by simp
    show "OpenListCount I = of_nat (length (OpenList I))" using di(3) .
    show "i = j" if "interfaces ?u j = Some J" "IHandle I = IHandle J" "IProtocol I = IProtocol J" for j J
      using di(4)[of j J] that by simp
  qed
  moreover have "notify_inv ?u" using inv by (simp add: db_inv_def notify_inv_def)
  moreover have "fresh_inv ?u" using inv n by (simp add: db_inv_def fresh_inv_def)
  ultimately show ?thesis by (simp add: db_inv_def)
qed

lemma instance_of_mark [simp]: "instance_of (mark r hs s) = instance_of s"
  by (simp add: instance_of_def[abs_def])

text \<open>The interface addresses of a protocol that a search may visit: live, on handles not yet marked.\<close>

definition searchable :: "'x db \<Rightarrow> nat list \<Rightarrow> bool" where
  "searchable u l \<longleftrightarrow> (\<forall>i \<in> set l. \<exists>I H. interfaces u i = Some I \<and> handles u (IHandle I) = Some H \<and>
     LocateRequest H \<noteq> mEfiLocateHandleRequest u) \<and> distinct (map (fst \<circ> instance_of u) l)"

lemma searchable_mark:
  assumes "searchable u (i # l)"
  shows "searchable (mark r {fst (instance_of u i)} u) l"
proof -
  have "\<exists>I H. interfaces u j = Some I \<and> handles (mark r {fst (instance_of u i)} u) (IHandle I) = Some H \<and> LocateRequest H \<noteq> mEfiLocateHandleRequest u"
    if j: "j \<in> set l" for j
  proof -
    obtain I H where I: "interfaces u j = Some I" "handles u (IHandle I) = Some H" "LocateRequest H \<noteq> mEfiLocateHandleRequest u"
      using assms j by (fastforce simp: searchable_def)
    have "fst (instance_of u i) \<noteq> fst (instance_of u j)" using assms j by (force simp: searchable_def)
    then show ?thesis using I by (simp add: handles_mark instance_of_live)
  qed
  then show ?thesis using assms by (simp add: searchable_def)
qed

lemma ByProtocol_step:
  assumes "searchable u (i # l)"
  shows "CoreGetNextLocateByProtocol (pos\<lparr>Following := i # l\<rparr>) u =
    Ret (Some (fst (instance_of u i)), pos\<lparr>Following := l\<rparr>, snd (instance_of u i),
      mark (mEfiLocateHandleRequest u) {fst (instance_of u i)} u)"
proof -
  obtain I H where I: "interfaces u i = Some I" "handles u (IHandle I) = Some H" "LocateRequest H \<noteq> mEfiLocateHandleRequest u"
    using assms by (auto simp: searchable_def)
  then show ?thesis by (simp add: CoreGetNextLocateByProtocol_def instance_of_live set_handle_mark)
qed

lemma unat_of_nat_u64: "n < 2 ^ 64 \<Longrightarrow> unat (of_nat n :: u64) = n"
  by (simp add: unsigned_of_nat take_bit_nat_eq_self)

lemma size_step:
  assumes "8 * Suc m < 2 ^ 64"
  shows "(of_nat (8 * m) :: u64) + 8 = of_nat (8 * Suc m)" and "(of_nat (8 * Suc m) :: u64) \<le> sz \<longleftrightarrow> Suc m \<le> unat sz div 8"
proof -
  have "unat (of_nat (8 * Suc m) :: u64) = 8 * Suc m" using assms by (rule unat_of_nat_u64)
  then show "(of_nat (8 * Suc m) :: u64) \<le> sz \<longleftrightarrow> Suc m \<le> unat sz div 8" 
    by (simp only: word_le_nat_alt less_eq_div_iff_mult_less_eq[of 8] mult.commute[of _ 8])
qed simp

lemma Locate_loop_ByProtocol:
  "searchable u l \<Longrightarrow> 8 * (m + length l) < 2 ^ 64 \<Longrightarrow> length l < k \<Longrightarrow>
   Locate_loop CoreGetNextLocateByProtocol k (pos\<lparr>Following := l\<rparr>) sz (of_nat (8 * m)) buf u =
     Ret (of_nat (8 * (m + length l)), buf @ take (unat sz div 8 - m) (map (fst \<circ> instance_of u) l),
       mark (mEfiLocateHandleRequest u) (set (map (fst \<circ> instance_of u) l)) u)"
proof (induction l arbitrary: u m buf k)
  case Nil
  then obtain k' where "k = Suc k'" by (cases k) auto
  then show ?case by (simp add: CoreGetNextLocateByProtocol_def)
next
  case (Cons i l)
  obtain k' where k: "k = Suc k'" "length l < k'" using Cons.prems(3) by (cases k) auto
  let ?h = "fst (instance_of u i)" and ?r = "mEfiLocateHandleRequest u"
  let ?u = "mark ?r {?h} u"
  have lt: "8 * (Suc m + length l) < 2 ^ 64" "8 * Suc m < 2 ^ 64" using Cons.prems(2) by simp_all
  note sz = size_step[OF lt(2)]
  let ?buf = "if Suc m \<le> unat sz div 8 then buf @ [?h] else buf"
  have "Locate_loop CoreGetNextLocateByProtocol k (pos\<lparr>Following := i # l\<rparr>) sz (of_nat (8 * m)) buf u =
      Locate_loop CoreGetNextLocateByProtocol k' (pos\<lparr>Following := l\<rparr>) sz (of_nat (8 * Suc m)) ?buf ?u"
    by (simp only: k Locate_loop.simps ByProtocol_step[OF Cons.prems(1)] bind.simps prod.case option.case Let_def sz)
  also have "\<dots> = Ret (of_nat (8 * (Suc m + length l)), ?buf @ take (unat sz div 8 - Suc m) (map (fst \<circ> instance_of u) l),
       mark ?r (set (map (fst \<circ> instance_of u) l)) ?u)"
    using Cons.IH[OF searchable_mark[OF Cons.prems(1)] lt(1) k(2), of ?buf ?r] by (simp only: instance_of_mark mark_simps)
  also have "?buf @ take (unat sz div 8 - Suc m) (map (fst \<circ> instance_of u) l) =
      buf @ take (unat sz div 8 - m) (map (fst \<circ> instance_of u) (i # l))"
  proof (cases "Suc m \<le> unat sz div 8")
    case True
    then have "unat sz div 8 - m = Suc (unat sz div 8 - Suc m)" by simp
    then show ?thesis using True by simp
  qed simp
  also have "mark ?r (set (map (fst \<circ> instance_of u) l)) ?u = mark ?r (set (map (fst \<circ> instance_of u) (i # l))) u"
    by (simp add: mark_mark insert_commute)
  finally show ?case by simp
qed

text \<open>A search changes nothing but the request numbers.\<close>

definition searched :: "'x db \<Rightarrow> 'x db \<Rightarrow> bool" where
  "searched s s' \<longleftrightarrow> kept 1 s s' \<and> instances s' = instances s \<and> watchers s' = watchers s \<and>
     unseen s' = unseen s \<and> notifies s' = notifies s \<and> gHandleList s' = gHandleList s \<and> prot_entries s' = prot_entries s \<and>
     interfaces s' = interfaces s \<and> next_object s' = next_object s \<and> events s' = events s \<and>
     (\<forall>h. handles s' h \<noteq> None \<longleftrightarrow> handles s h \<noteq> None)"

abbreviation next_request :: "'x db \<Rightarrow> 'x db" where
  "next_request s \<equiv> (inside s)\<lparr>mEfiLocateHandleRequest := mEfiLocateHandleRequest s + 1\<rparr>"

lemma unat_next:
  fixes x :: u64
  assumes "unat x + 1 < 2 ^ 64"
  shows "unat (x + 1) = unat x + 1"
proof -
  have "unat (x + 1) = (unat x + 1) mod 2 ^ 64" by (simp add: unat_word_ariths)
  then show ?thesis using assms by simp
qed

lemma instances_searchable:
  assumes inv: "db_inv s" and q: "request_inv s" and w: "unat (mEfiLocateHandleRequest s) + 1 < 2 ^ 64"
    and E: "prot_entries s e = Some E"
  shows "searchable (next_request s) (EProtocols E)"
proof -
  have "\<exists>I H. interfaces s i = Some I \<and> handles s (IHandle I) = Some H \<and> LocateRequest H \<noteq> mEfiLocateHandleRequest s + 1"
    if i: "i \<in> set (EProtocols E)" for i
  proof -
    obtain I where I: "interfaces s i = Some I" using entry_invD(6)[OF inv E i] by blast
    obtain H where H: "handles s (IHandle I) = Some H" using interface_invD(1)[OF inv I] by blast
    have "unat (LocateRequest H) \<le> unat (mEfiLocateHandleRequest s)" using q H by (simp add: request_inv_def)
    then have "LocateRequest H \<noteq> mEfiLocateHandleRequest s + 1" using unat_next[OF w] by auto
    then show ?thesis using I H by blast
  qed
  moreover have "distinct (map (fst \<circ> instance_of s) (EProtocols E))"
    using distinct_instances[OF inv, of "ProtocolID E"] instances_some[OF inv E refl] by simp
  ultimately show ?thesis by (simp add: searchable_def)
qed

lemma searched_left:
  fixes s :: "'x db" and rst :: "'x db_restore"
  assumes r: "tpl_restore_total rst" and s: "may_enter s" and inv: "db_inv s" and q: "request_inv s"
    and w: "unat (mEfiLocateHandleRequest s) + 1 < 2 ^ 64"
  shows "CoreReleaseProtocolLock rst (mark (mEfiLocateHandleRequest s + 1) hs (next_request s)) =
      Ret (left s (mark (mEfiLocateHandleRequest s + 1) hs (next_request s)))"
    and "searched s (left s (mark (mEfiLocateHandleRequest s + 1) hs (next_request s)))"
proof -
  let ?u = "mark (mEfiLocateHandleRequest s + 1) hs (next_request s)"
  have o: "db_only (inside s) ?u" by simp
  show "CoreReleaseProtocolLock rst ?u = Ret (left s ?u)" by (rule release_db_only(1)[OF r s o])
  have i: "instances ?u = instances s" "watchers ?u = watchers s" "unseen ?u = unseen s"
    by (rule instances_cong watchers_cong unseen_cong; simp)+
  have iu: "db_inv ?u" using inv by (intro mark_inv) simp
  have "request_inv (left s ?u)"
    using q unat_next[OF w] by (fastforce simp: request_inv_def handles_mark split: if_splits)
  then show "searched s (left s ?u)"
    using release_db_only(2)[OF r s o] i iu unat_next[OF w] quiet_event_cong[of "left s ?u" s] same_ids_eq[of "left s ?u" s]
    by (simp add: searched_def kept_def handles_mark)
qed

lemma searched_same:
  fixes s :: "'x db" and rst :: "'x db_restore"
  assumes "tpl_restore_total rst" and "may_enter s" and "db_inv s" and "request_inv s"
  shows "searched s (left s (inside s))"
  using release_db_only(2)[OF assms(1,2), of "inside s"] assms(3,4) quiet_event_cong[of "left s (inside s)" s] same_ids_eq[of "left s (inside s)" s]
  by (simp add: searched_def kept_def)

lemma LocateHandle_ByProtocol:
  fixes s :: "'x db" and rst :: "'x db_restore"
  assumes r: "tpl_restore_total rst" and s: "may_enter s" and inv: "db_inv s" and q: "request_inv s"
    and w: "unat (mEfiLocateHandleRequest s) + 1 < 2 ^ 64" and n: "8 * length (instances s g) < 2 ^ 64"
    and b: "sz = 0 \<or> hb"
  shows "\<exists>s'. CoreLocateHandle rst ByProtocol (Some g) key (Some sz) hb s =
    Ret (if instances s g = [] then (EFI_NOT_FOUND, sz, [], s')
         else (if 8 * length (instances s g) \<le> unat sz then EFI_SUCCESS else EFI_BUFFER_TOO_SMALL,
               of_nat (8 * length (instances s g)), take (unat sz div 8) (map fst (instances s g)), s')) \<and> searched s s'"
proof -
  have b': "\<not> (0 < sz \<and> \<not> hb)" using b by auto
  show ?thesis
    using inv
  proof (cases rule: entry_at_cases[where g = g])
    case none
    have "CoreFindProtocolEntry (\<lambda>_. False) g False (inside s) = Ret (None, inside s)"
      using FindEntry_none[of "inside s" g] inv none(2) by (simp add: CoreFindProtocolEntry_def)
    moreover have "instances s g = []" using none(2) by (rule instances_none)
    ultimately show ?thesis
      using b' searched_same[OF r s inv q] by (simp add: CoreLocateHandle_def acquire_eq[OF s] Locate_start_def section_set_interface[OF r s])
  next
    case (some e E)
    let ?u = "next_request s" and ?l = "EProtocols E"
    let ?pos = "\<lparr>SearchKey = key, Following = ?l\<rparr>"
    let ?n = "length (instances s g)" and ?hs = "map fst (instances s g)"
    have ins: "instances s g = map (instance_of s) ?l" by (rule instances_some[OF inv some(2,3)])
    have f: "CoreFindProtocolEntry (\<lambda>_. False) g False (inside s) = Ret (Some e, inside s)"
      using FindEntry_some[of "inside s" e E g] inv some by (simp add: CoreFindProtocolEntry_def)
    have lp: "Locate_loop CoreGetNextLocateByProtocol (length ?l + 2) ?pos sz 0 [] ?u =
        Ret (of_nat (8 * ?n), take (unat sz div 8) ?hs, mark (mEfiLocateHandleRequest s + 1) (set ?hs) ?u)"
      using Locate_loop_ByProtocol[OF instances_searchable[OF inv q w some(2)], of 0 "length ?l + 2" ?pos sz "[]"] n
      by (simp add: ins)
    have z: "(of_nat (8 * ?n) :: u64) = 0 \<longleftrightarrow> instances s g = []"
      using unat_of_nat_u64[OF n] by (metis length_0_conv mult_eq_0_iff of_nat_0 unat_0 zero_neq_numeral)
    have gt: "(of_nat (8 * ?n) :: u64) > sz \<longleftrightarrow> \<not> 8 * ?n \<le> unat sz"
      using unat_of_nat_u64[OF n] by (simp add: word_less_nat_alt not_le)
    note sl = searched_left[OF r s inv q w, of "set ?hs"]
    show ?thesis
      using b' sl by (cases "instances s g = []"; cases "8 * ?n \<le> unat sz")
        (simp_all add: CoreLocateHandle_def acquire_eq[OF s] Locate_start_def f some(2) lp z gt
          del: Locate_loop.simps of_nat_mult add_2_eq_Suc')
  qed
qed

text \<open>Asking for the size first and for the handles afterwards returns all of them.\<close>

lemma LocateHandleBuffer_ByProtocol:
  fixes s :: "'x db" and rst :: "'x db_restore"
  assumes r: "tpl_restore_total rst" and s: "may_enter s" and inv: "db_inv s" and q: "request_inv s"
    and w: "unat (mEfiLocateHandleRequest s) + 2 < 2 ^ 64" and n: "8 * length (instances s g) < 2 ^ 64"
    and m: "mem AllocBuffer"
  shows "\<exists>s'. CoreLocateHandleBuffer rst mem ByProtocol (Some g) key True True s =
    Ret (if instances s g = [] then (EFI_NOT_FOUND, 0, None, s')
         else (EFI_SUCCESS, of_nat (length (instances s g)), Some (map fst (instances s g)), s')) \<and>
    db_inv s' \<and> svc s s' \<and> instances s' = instances s \<and> memory s' = memory s \<and>
    (\<forall>h. handles s' h \<noteq> None \<longleftrightarrow> handles s h \<noteq> None)"
proof -
  let ?l = "instances s g" and ?n = "length (instances s g)"
  obtain s1 where s1: "CoreLocateHandle rst ByProtocol (Some g) key (Some 0) False s =
      Ret (if ?l = [] then (EFI_NOT_FOUND, 0, [], s1)
         else (if 8 * ?n \<le> unat (0 :: u64) then EFI_SUCCESS else EFI_BUFFER_TOO_SMALL,
               of_nat (8 * ?n), take (unat (0 :: u64) div 8) (map fst ?l), s1))" "searched s s1"
    using LocateHandle_ByProtocol[OF r s inv q _ n, of 0 False key] w by auto
  show ?thesis
  proof (cases "?l = []")
    case True
    then show ?thesis using s1 by (simp add: CoreLocateHandleBuffer_def searched_def kept_def)
  next
    case False
    have st: "CoreLocateHandle rst ByProtocol (Some g) key (Some 0) False s = Ret (EFI_BUFFER_TOO_SMALL, of_nat (8 * ?n), [], s1)"
      using s1(1) False by simp
    have d: "db_inv s1" "request_inv s1" "instances s1 = instances s" "svc s s1"
      "unat (mEfiLocateHandleRequest s1) \<le> unat (mEfiLocateHandleRequest s) + 1" "memory s1 = memory s"
      "\<forall>h. handles s1 h \<noteq> None \<longleftrightarrow> handles s h \<noteq> None"
      using s1(2) q by (simp_all add: searched_def kept_def)
    have m1: "may_enter s1" by (rule may_enter_svc[OF s d(4)])
    have u: "unat (of_nat (8 * ?n) :: u64) = 8 * ?n" by (rule unat_of_nat_u64[OF n])
    obtain s2 where s2: "CoreLocateHandle rst ByProtocol (Some g) key (Some (of_nat (8 * ?n))) True s1 =
      Ret (EFI_SUCCESS, of_nat (8 * ?n), map fst ?l, s2)" "searched s1 s2"
      using LocateHandle_ByProtocol[OF r m1 d(1,2), of g "of_nat (8 * ?n)" True key] w n False d(3,5) u by auto
    have "(of_nat (8 * ?n) :: u64) div 8 = of_nat ?n"
    proof (rule word_unat_eq_iff[THEN iffD2])
      show "unat ((of_nat (8 * ?n) :: u64) div 8) = unat (of_nat ?n :: u64)"
        using n u unat_of_nat_u64[of ?n] by (simp add: unat_div del: of_nat_mult)
    qed
    then show ?thesis
      using False st s2 m d svc_trans[OF d(4), of s2]
      by (simp add: CoreLocateHandleBuffer_def searched_def kept_def EFI_ERROR_def del: of_nat_mult)
  qed
qed

lemma LocateProtocol_first:
  fixes s :: "'x db" and rst :: "'x db_restore"
  assumes r: "tpl_restore_total rst" and s: "may_enter s" and inv: "db_inv s" and q: "request_inv s"
    and w: "unat (mEfiLocateHandleRequest s) + 1 < 2 ^ 64"
  shows "\<exists>s'. CoreLocateProtocol rst (Some g) None True s =
    Ret (case instances s g of [] \<Rightarrow> (EFI_NOT_FOUND, Some None, s') | x # _ \<Rightarrow> (EFI_SUCCESS, Some (snd x), s')) \<and> searched s s'"
proof -
  have a: "CoreAcquireLockOrFail gProtocolDatabaseLock s = Ret (EFI_SUCCESS, inside s)"
    using acquire_eq[OF s] s
    by (cases "Lock (locks s gProtocolDatabaseLock)"; cases "CoreRaiseTpl (Tpl (locks s gProtocolDatabaseLock)) s")
      (auto simp: CoreAcquireLockOrFail_def CoreAcquireProtocolLock_def CoreAcquireLock_def may_enter_def)
  note sl = searched_left[OF r s inv q w]
  show ?thesis
    using inv
  proof (cases rule: entry_at_cases[where g = g])
    case none
    have "CoreFindProtocolEntry (\<lambda>_. False) g False (next_request s) = Ret (None, next_request s)"
      using FindEntry_none[of s g] inv none(2) by (simp add: CoreFindProtocolEntry_def)
    moreover have "instances s g = []" using none(2) by (rule instances_none)
    ultimately show ?thesis
      using sl[of "{}"] by (simp add: CoreLocateProtocol_def a Let_def)
  next
    case (some e E)
    have ins: "instances s g = map (instance_of s) (EProtocols E)" by (rule instances_some[OF inv some(2,3)])
    have f: "CoreFindProtocolEntry (\<lambda>_. False) g False (next_request s) = Ret (Some e, next_request s)"
      using FindEntry_some[of s e E g] inv some by (simp add: CoreFindProtocolEntry_def)
    show ?thesis
    proof (cases "EProtocols E")
      case Nil
      then show ?thesis using sl[of "{}"] ins
        by (simp add: CoreLocateProtocol_def a Let_def f some(2) CoreGetNextLocateByProtocol_def)
    next
      case (Cons i l)
      note se = instances_searchable[OF inv q w some(2), unfolded Cons]
      show ?thesis using sl[of "{fst (instance_of s i)}"] ins Cons
        by (simp add: CoreLocateProtocol_def a Let_def f some(2) ByProtocol_step[OF se, of "\<lparr>SearchKey = None, Following = []\<rparr>", simplified])
    qed
  qed
qed

end
