(* ===== verification/ProtocolNotify.thy ===== *)
theory ProtocolNotify
  imports ProtocolSearch
begin

text \<open>
  Registrations as queues: a registration starts with the instances of its protocol, every
  installation appends one, and every search by registration reports and removes the first.
\<close>

section \<open>Searching by registration\<close>

lemma ByRegisterNotify_eq:
  assumes inv: "db_inv s" and N: "notifies s n = Some N" and k: "SearchKey pos = Some n"
    and u: "prot_entries u = prot_entries s" "interfaces u = interfaces s" "notifies u = notifies s"
  shows "CoreGetNextLocateByRegisterNotify pos u = Ret (case unseen s n of [] \<Rightarrow> (None, pos\<lparr>SearchKey := None\<rparr>, None, u)
    | (h, v) # _ \<Rightarrow> (Some h, pos\<lparr>SearchKey := None\<rparr>, v, u))"
proof -
  obtain E where E: "prot_entries s (NProtocol N) = Some E" "n \<in> set (ENotify E)" "on_list (Position N) (EProtocols E)"
    "distinct (EProtocols E)" using registration[OF inv N] by blast
  note nl = next_link_rest[OF E(3)] and un = unseen_eq[OF N E(1)]
  show ?thesis
  proof (cases "rest_after (Position N) (EProtocols E)")
    case Nil
    then show ?thesis using k N E(1) nl un u by (simp add: CoreGetNextLocateByRegisterNotify_def Let_def)
  next
    case (Cons i r)
    then have "i \<in> set (EProtocols E)" using rest_after_next(2)[OF E(4,3)] by blast
    then obtain I where "interfaces s i = Some I" using entry_invD(6)[OF inv E(1)] by blast
    then show ?thesis using Cons k N E(1) nl un u
      by (simp add: CoreGetNextLocateByRegisterNotify_def Let_def instance_of_live)
  qed
qed

text \<open>The registration steps over one instance.\<close>

lemma Locate_advance_eq:
  assumes inv: "db_inv s" and N: "notifies s n = Some N"
    and u: "prot_entries u = prot_entries s" "notifies u = notifies s"
  shows "\<exists>p. Locate_advance n u = Ret (set_notify n (N\<lparr>Position := p\<rparr>) u) \<and>
    (unseen s n \<noteq> [] \<longrightarrow> on_list p (EProtocols (the (prot_entries s (NProtocol N)))) \<and>
       map (instance_of s) (rest_after p (EProtocols (the (prot_entries s (NProtocol N))))) = tl (unseen s n))"
proof -
  obtain E where E: "prot_entries s (NProtocol N) = Some E" "on_list (Position N) (EProtocols E)" "distinct (EProtocols E)"
    using registration[OF inv N] by blast
  note nl = next_link_rest[OF E(2)] and un = unseen_eq[OF N E(1)]
  show ?thesis
  proof (cases "rest_after (Position N) (EProtocols E)")
    case Nil
    then have "Locate_advance n u = Ret (set_notify n (N\<lparr>Position := None\<rparr>) u)"
      using N E(1) nl u by (simp add: Locate_advance_def)
    then show ?thesis using Nil un by auto
  next
    case (Cons i r)
    note a = rest_after_next[OF E(3,2) Cons]
    have "Locate_advance n u = Ret (set_notify n (N\<lparr>Position := Some i\<rparr>) u)"
      using Cons N E(1) nl u by (simp add: Locate_advance_def)
    then show ?thesis using a un Cons E(1) by (auto simp: on_list_def)
  qed
qed

lemma set_notify_inv:
  assumes inv: "db_inv s" and N: "notifies s n = Some N" and E: "prot_entries s (NProtocol N) = Some E"
    and p: "on_list p (EProtocols E)"
  shows "db_inv (set_notify n (N\<lparr>Position := p\<rparr>) s)"
proof -
  let ?u = "set_notify n (N\<lparr>Position := p\<rparr>) s"
  have n: "\<exists>M. notifies ?u m = Some M \<and> NProtocol M = NProtocol M0" if "notifies s m = Some M0" for m M0
    using that N by auto
  have "handle_inv ?u" using inv by (simp add: db_inv_def handle_inv_def)
  moreover have "entry_inv ?u"
  proof (rule entry_invI)
    note de = entry_invD[OF inv]
    show "distinct (mProtocolDatabase ?u)" using de(1) by simp
    show "(x \<in> set (mProtocolDatabase ?u)) = (prot_entries ?u x \<noteq> None)" for x using de(2) by simp
    show "x = y" if "prot_entries ?u x = Some X" "prot_entries ?u y = Some Y" "ProtocolID X = ProtocolID Y" for x X y Y
      using de(3)[of x X y Y] that by simp
    show "distinct (EProtocols X) \<and> distinct (ENotify X)" if "prot_entries ?u x = Some X" for x X using de(4,5)[of x X] that by simp
    show "\<exists>J. interfaces ?u j = Some J \<and> IProtocol J = x" if "prot_entries ?u x = Some X" "j \<in> set (EProtocols X)" for x X j
      using de(6)[of x X j] that by simp
    show "\<exists>M. notifies ?u m = Some M \<and> NProtocol M = x" if X: "prot_entries ?u x = Some X" "m \<in> set (ENotify X)" for x X m
    proof -
      have "prot_entries s x = Some X" using X(1) by simp
      then obtain M0 where "notifies s m = Some M0" "NProtocol M0 = x" using de(7)[of x X m] X(2) by blast
      then show ?thesis using n by blast
    qed
  qed
  moreover have "interface_inv ?u" using inv by (simp add: db_inv_def interface_inv_def)
  moreover have "notify_inv ?u"
    unfolding notify_inv_def
  proof (intro allI impI)
    fix m M assume M: "notifies ?u m = Some M"
    show "\<exists>E. prot_entries ?u (NProtocol M) = Some E \<and> m \<in> set (ENotify E) \<and> (\<forall>i. Position M = Some i \<longrightarrow> i \<in> set (EProtocols E))"
    proof (cases "m = n")
      case True
      then show ?thesis using M notify_invD[OF inv N] E p by (auto simp: on_list_def)
    next
      case False
      then show ?thesis using M notify_invD[OF inv, of m M] by simp
    qed
  qed
  moreover have "fresh_inv ?u"
  proof -
    have "\<not> next_object s \<le> n" using fresh_invD(4)[OF inv, of n] N by auto
    then show ?thesis using fresh_invD[OF inv] by (auto simp: fresh_inv_def)
  qed
  ultimately show ?thesis by (simp add: db_inv_def)
qed

definition registered :: "'x db \<Rightarrow> nat \<Rightarrow> bool" where
  "registered s n \<longleftrightarrow> notifies s n \<noteq> None"

lemma registered_events: "registered s n \<longleftrightarrow> notify_events s n \<noteq> None"
  by (simp add: registered_def notify_events_def)

text \<open>A search by registration reports the first instance it has not been told of, and moves on.\<close>

definition notified :: "nat \<Rightarrow> 'x db \<Rightarrow> 'x db \<Rightarrow> bool" where
  "notified n s s' \<longleftrightarrow> kept 1 s s' \<and> instances s' = instances s \<and> watchers s' = watchers s \<and>
     unseen s' = (unseen s)(n := tl (unseen s n)) \<and> notify_events s' = notify_events s \<and>
     interfaces s' = interfaces s \<and> gHandleList s' = gHandleList s"

lemma numbered_kept:
  assumes w: "unat (mEfiLocateHandleRequest s) + 1 < 2 ^ 64"
    and "svc s s'" "db_inv s'" "handles s' = handles s" "mEfiLocateHandleRequest s' = mEfiLocateHandleRequest s + 1"
      "same_ids s s'" "events s' = events s" "memory s' = memory s" "gDxeCoreImageHandle s' = gDxeCoreImageHandle s"
  shows "kept 1 s s'"
  using assms(2-) unat_next[OF w] quiet_event_cong[of s' s] by (fastforce simp: kept_def request_inv_def)

lemma notified_left:
  fixes s :: "'x db" and rst :: "'x db_restore"
  assumes r: "tpl_restore_total rst" and s: "may_enter s" and inv: "db_inv s" and N: "notifies s n = Some N"
    and w: "unat (mEfiLocateHandleRequest s) + 1 < 2 ^ 64" and ne: "unseen s n \<noteq> []"
  shows "\<exists>u. Locate_advance n (next_request s) = Ret u \<and> CoreReleaseProtocolLock rst u = Ret (left s u) \<and> notified n s (left s u)"
proof -
  obtain p where p: "Locate_advance n (next_request s) = Ret (set_notify n (N\<lparr>Position := p\<rparr>) (next_request s))"
    "on_list p (EProtocols (the (prot_entries s (NProtocol N))))"
    "map (instance_of s) (rest_after p (EProtocols (the (prot_entries s (NProtocol N))))) = tl (unseen s n)"
    using Locate_advance_eq[OF inv N, of "next_request s"] ne by auto
  obtain E where E: "prot_entries s (NProtocol N) = Some E" using registration[OF inv N] by blast
  let ?u = "set_notify n (N\<lparr>Position := p\<rparr>) (next_request s)"
  have o: "db_only (inside s) ?u" by simp
  have iu: "db_inv ?u" using set_notify_inv[of "next_request s" n N E p] inv N E p(2) by simp
  have io: "instance_of (left s ?u) = instance_of s" by (simp add: instance_of_def[abs_def])
  have pe: "prot_entries (left s ?u) = prot_entries s" by simp
  have un: "unseen (left s ?u) = (unseen s)(n := tl (unseen s n))"
  proof
    fix m
    show "unseen (left s ?u) m = ((unseen s)(n := tl (unseen s n))) m"
      unfolding unseen_def io pe using p(3) E by (cases "m = n") (simp_all add: unseen_def)
  qed
  have "kept 1 s (left s ?u)"
    using release_db_only(2)[OF r s o] iu numbered_kept[OF w, of "left s ?u"] same_ids_eq[of "left s ?u" s] by simp
  then have "notified n s (left s ?u)" using un N by (simp add: notified_def notify_events_def fun_eq_iff)
  then show ?thesis using p(1) release_db_only(1)[OF r s o] by blast
qed

lemma ByRegisterNotify_done:
  "SearchKey pos = None \<Longrightarrow> CoreGetNextLocateByRegisterNotify pos u = Ret (None, pos, None, u)"
  by (simp add: CoreGetNextLocateByRegisterNotify_def)

lemma LocateHandle_ByRegisterNotify:
  fixes s :: "'x db" and rst :: "'x db_restore"
  assumes r: "tpl_restore_total rst" and s: "may_enter s" and inv: "db_inv s" and n: "registered s n"
    and w: "unat (mEfiLocateHandleRequest s) + 1 < 2 ^ 64"
  shows "\<exists>s'. CoreLocateHandle rst ByRegisterNotify p (Some n) (Some 8) True s =
    Ret (case unseen s n of [] \<Rightarrow> (EFI_NOT_FOUND, 8, [], s') | x # _ \<Rightarrow> (EFI_SUCCESS, 8, [fst x], s')) \<and> notified n s s'"
proof -
  obtain N where N: "notifies s n = Some N" using n by (auto simp: registered_def)
  let ?u = "next_request s"
  let ?pos = "\<lparr>SearchKey = Some n, Following = gHandleList s\<rparr>"
  have e: "CoreGetNextLocateByRegisterNotify ?pos ?u = Ret (case unseen s n of [] \<Rightarrow> (None, ?pos\<lparr>SearchKey := None\<rparr>, None, ?u)
    | (h, v) # _ \<Rightarrow> (Some h, ?pos\<lparr>SearchKey := None\<rparr>, v, ?u))"
    by (rule ByRegisterNotify_eq[OF inv N]) simp_all
  show ?thesis
  proof (cases "unseen s n")
    case Nil
    have o: "db_only (inside s) ?u" by simp
    have "kept 1 s (left s ?u)"
      using release_db_only(2)[OF r s o] inv numbered_kept[OF w, of "left s ?u"] same_ids_eq[of "left s ?u" s] by simp
    then have "notified n s (left s ?u)" using Nil by (simp add: notified_def notify_events_def fun_eq_iff)
    moreover have "CoreReleaseProtocolLock rst ?u = Ret (left s ?u)" by (rule release_db_only(1)[OF r s o])
    ultimately show ?thesis using e Nil
      by (simp add: CoreLocateHandle_def acquire_eq[OF s] Locate_start_def)
  next
    case (Cons x l)
    obtain h v where x: "x = (h, v)" by (cases x)
    obtain w where w: "Locate_advance n ?u = Ret w" "CoreReleaseProtocolLock rst w = Ret (left s w)" "notified n s (left s w)"
      using notified_left[OF r s inv N w] Cons by auto
    show ?thesis using e Cons x w
      by (simp add: CoreLocateHandle_def acquire_eq[OF s] Locate_start_def ByRegisterNotify_done)
  qed
qed

text \<open>A new registration starts with everything that is there.\<close>

definition enrolled :: "nat \<Rightarrow> guid \<Rightarrow> nat \<Rightarrow> 'x db \<Rightarrow> 'x db \<Rightarrow> bool" where
  "enrolled n g e s s' \<longleftrightarrow> kept 0 s s' \<and> instances s' = instances s \<and>
     watchers s' = (watchers s)(g := watchers s g @ [n]) \<and> unseen s' = (unseen s)(n := instances s g) \<and>
     notify_events s n = None \<and> notify_events s' = (notify_events s)(n \<mapsto> e) \<and>
     interfaces s' = interfaces s \<and> gHandleList s' = gHandleList s"

definition new_notify :: "nat \<Rightarrow> nat \<Rightarrow> protocol_entry \<Rightarrow> 'x db \<Rightarrow> 'x db" where
  "new_notify e p E s = set_entry p (E\<lparr>ENotify := ENotify E @ [next_object s]\<rparr>)
     (s\<lparr>notifies := (notifies s)(next_object s := Some \<lparr>NProtocol = p, NEvent = e, Position = None\<rparr>),
        next_object := next_object s + 1\<rparr>)"

lemma new_notify_simps [simp]:
  "handles (new_notify e p E s) = handles s" "gHandleList (new_notify e p E s) = gHandleList s"
  "prot_entries (new_notify e p E s) = (prot_entries s)(p \<mapsto> E\<lparr>ENotify := ENotify E @ [next_object s]\<rparr>)"
  "mProtocolDatabase (new_notify e p E s) = mProtocolDatabase s" "interfaces (new_notify e p E s) = interfaces s"
  "notifies (new_notify e p E s) = (notifies s)(next_object s \<mapsto> \<lparr>NProtocol = p, NEvent = e, Position = None\<rparr>)"
  "next_object (new_notify e p E s) = next_object s + 1" "locks (new_notify e p E s) = locks s"
  "memory (new_notify e p E s) = memory s" "events (new_notify e p E s) = events s"
  "mEfiLocateHandleRequest (new_notify e p E s) = mEfiLocateHandleRequest s"
  "gDxeCoreImageHandle (new_notify e p E s) = gDxeCoreImageHandle s" "db_only u (new_notify e p E s) = db_only u s"
  by (simp_all add: new_notify_def)

lemma new_notify_inv:
  assumes inv: "db_inv s" and E: "prot_entries s p = Some E"
  shows "db_inv (new_notify e p E s)"
proof -
  let ?u = "new_notify e p E s" and ?n = "next_object s"
  note de = entry_invD[OF inv]
  have nN: "notifies s ?n = None" using fresh_invD(4)[OF inv] by simp
  have old: "\<exists>X0. prot_entries s x = Some X0 \<and> ProtocolID X0 = ProtocolID X \<and> EProtocols X0 = EProtocols X \<and>
      ENotify X = ENotify X0 @ (if x = p then [?n] else [])" if "prot_entries ?u x = Some X" for x X
    using that E by (auto split: if_splits)
  have "handle_inv ?u" using inv by (simp add: db_inv_def handle_inv_def)
  moreover have "entry_inv ?u"
  proof (rule entry_invI)
    show "distinct (mProtocolDatabase ?u)" using de(1) by simp
    show "(x \<in> set (mProtocolDatabase ?u)) = (prot_entries ?u x \<noteq> None)" for x using de(2)[of x] E by simp
    show "x = y" if xy: "prot_entries ?u x = Some X" "prot_entries ?u y = Some Y" "ProtocolID X = ProtocolID Y" for x X y Y
      using old[OF xy(1)] old[OF xy(2)] xy(3) de(3) by metis
    fix x X assume X: "prot_entries ?u x = Some X"
    obtain X0 where X0: "prot_entries s x = Some X0" "EProtocols X0 = EProtocols X"
      "ENotify X = ENotify X0 @ (if x = p then [?n] else [])" using old[OF X] by blast
    have "?n \<notin> set (ENotify X0)" using de(7)[OF X0(1), of ?n] nN by auto
    then show "distinct (EProtocols X) \<and> distinct (ENotify X)" using X0 de(4,5)[OF X0(1)] by simp
    show "\<exists>J. interfaces ?u j = Some J \<and> IProtocol J = x" if "j \<in> set (EProtocols X)" for j using de(6)[OF X0(1), of j] that X0(2) by simp
    show "\<exists>M. notifies ?u m = Some M \<and> NProtocol M = x" if m: "m \<in> set (ENotify X)" for m
    proof (cases "m = ?n")
      case True
      then have "x = p" using m X0(3) \<open>?n \<notin> set (ENotify X0)\<close> by (auto split: if_splits)
      then show ?thesis using True by simp
    next
      case False
      then have "m \<in> set (ENotify X0)" using m X0(3) by (auto split: if_splits)
      then show ?thesis using de(7)[OF X0(1), of m] False by simp
    qed
  qed
  moreover have "interface_inv ?u"
  proof (rule interface_invI)
    fix i I assume "interfaces ?u i = Some I"
    then have I: "interfaces s i = Some I" by simp
    note di = interface_invD[OF inv I]
    show "\<exists>H. handles ?u (IHandle I) = Some H \<and> i \<in> set (HProtocols H)" using di(1) by simp
    show "\<exists>E. prot_entries ?u (IProtocol I) = Some E \<and> i \<in> set (EProtocols E)" using di(2) E by auto
    show "OpenListCount I = of_nat (length (OpenList I))" using di(3) .
    show "i = j" if "interfaces ?u j = Some J" "IHandle I = IHandle J" "IProtocol I = IProtocol J" for j J
      using di(4)[of j J] that by simp
  qed
  moreover have "notify_inv ?u" unfolding notify_inv_def
  proof (intro allI impI)
    fix m M assume M: "notifies ?u m = Some M"
    show "\<exists>E. prot_entries ?u (NProtocol M) = Some E \<and> m \<in> set (ENotify E) \<and> (\<forall>i. Position M = Some i \<longrightarrow> i \<in> set (EProtocols E))"
    proof (cases "m = ?n")
      case True
      then have "M = \<lparr>NProtocol = p, NEvent = e, Position = None\<rparr>" using M by simp
      then show ?thesis using True by simp
    next
      case False
      then show ?thesis using M notify_invD[OF inv, of m M] E by auto
    qed
  qed
  moreover have "fresh_inv ?u"
  proof -
    have "\<not> next_object s \<le> p" using fresh_invD(2)[OF inv, of p] E by auto
    then show ?thesis using fresh_invD[OF inv] by (auto simp: fresh_inv_def)
  qed
  ultimately show ?thesis by (simp add: db_inv_def)
qed

lemma new_notify_view:
  assumes inv: "db_inv s" and E: "prot_entries s p = Some E" "ProtocolID E = g"
  shows "instances (new_notify e p E s) = instances s" "watchers (new_notify e p E s) = (watchers s)(g := watchers s g @ [next_object s])"
    "unseen (new_notify e p E s) = (unseen s)(next_object s := instances s g)"
proof -
  let ?u = "new_notify e p E s"
  note inv' = new_notify_inv[OF inv E(1), of e]
  have io: "instance_of ?u = instance_of s" by (simp add: instance_of_def[abs_def])
  have ent: "entry_at ?u g' = entry_at s g'" for g'
    unfolding entry_at_def new_notify_simps by (rule arg_cong[where f = "\<lambda>P. find P _"]) (simp add: fun_eq_iff E split: option.split)
  have "instances ?u g' = instances s g' \<and> watchers ?u g' = ((watchers s)(g := watchers s g @ [next_object s])) g'" for g'
    using inv
  proof (cases rule: entry_at_cases[where g = g'])
    case none
    then have "g' \<noteq> g" using E by metis
    then show ?thesis using none(1) by (simp add: instances_def watchers_def ent)
  next
    case (some f F)
    show ?thesis
    proof (cases "f = p")
      case True
      then have F: "F = E" "g' = g" using some E by simp_all
      have "prot_entries ?u p = Some (E\<lparr>ENotify := ENotify E @ [next_object s]\<rparr>)" by simp
      from instances_some[OF inv' this, of g] watchers_some[OF inv' this, of g] show ?thesis
        using instances_some[OF inv E] watchers_some[OF inv E] F(2) E(2) io by simp
    next
      case False
      then have "g' \<noteq> g" using entry_invD(3)[OF inv some(2) E(1)] some(3) E(2) by auto
      moreover have "prot_entries ?u f = Some F" using some False by simp
      ultimately show ?thesis
        using instances_some[OF inv' _ some(3)] watchers_some[OF inv' _ some(3)] instances_some[OF inv some(2,3)]
          watchers_some[OF inv some(2,3)] io by simp
    qed
  qed
  then show "instances ?u = instances s" "watchers ?u = (watchers s)(g := watchers s g @ [next_object s])"
    by (simp_all add: fun_eq_iff)
  show "unseen ?u = (unseen s)(next_object s := instances s g)"
  proof
    fix n
    show "unseen ?u n = ((unseen s)(next_object s := instances s g)) n"
    proof (cases "n = next_object s")
      case True
      then show ?thesis using instances_some[OF inv E] by (simp add: unseen_def io rest_after_def)
    next
      case False
      then show ?thesis
      proof (cases "notifies s n")
        case (Some N)
        then obtain F where "prot_entries s (NProtocol N) = Some F" using registration[OF inv] by blast
        then show ?thesis using Some False E(1) unfolding unseen_def io by (cases "NProtocol N = p") simp_all
      qed (simp add: unseen_def)
    qed
  qed
qed

lemma Register_enrolls:
  fixes s :: "'x db" and rst :: "'x db_restore"
  assumes r: "tpl_restore_total rst" and s: "may_enter s" and inv: "db_inv s"
    and m: "mem AllocNotify" "mem AllocEntry \<or> entry_at s g \<noteq> None" and ev: "events s e \<noteq> None"
  shows "\<exists>n s'. CoreRegisterProtocolNotify rst mem (Some g) (Some e) True s = Ret (EFI_SUCCESS, Some n, s') \<and> enrolled n g e s s'"
proof -
  have i0: "db_inv (inside s)" "held (inside s) gProtocolDatabaseLock" using inv by simp_all
  have m0: "mem AllocEntry \<or> entry_at (inside s) g \<noteq> None" using m(2) by (simp add: entry_at_def)
  obtain p E s2 where c: "CoreFindProtocolEntry mem g True (inside s) = Ret (Some p, s2)" and i2: "db_inv s2"
    and E: "prot_entries s2 p = Some E" "ProtocolID E = g"
    and k: "instances s2 = instances (inside s)" "watchers s2 = watchers (inside s)" "unseen s2 = unseen (inside s)"
      "same_ids (inside s) s2" "handles s2 = handles (inside s)" "mEfiLocateHandleRequest s2 = mEfiLocateHandleRequest (inside s)"
      "gHandleList s2 = gHandleList (inside s)" "notifies s2 = notifies (inside s)" "\<forall>u. db_only u s2 = db_only u (inside s)"
      "memory s2 = memory (inside s)" "events s2 = events (inside s)" "gDxeCoreImageHandle s2 = gDxeCoreImageHandle (inside s)"
      "interfaces s2 = interfaces (inside s)"
    using entry_step[where mem = mem, OF i0 m0] by blast
  obtain v where v: "events s2 e = Some v" using ev k by auto
  let ?v = "v\<lparr>ExFlag := ExFlag v OR EVT_EXFLAG_EVENT_PROTOCOL_NOTIFICATION\<rparr>"
  let ?n = "next_object s2"
  let ?u = "set_event e ?v (new_notify e p E s2)"
  have o: "db_only (inside s) s2" using k by simp
  note sec = db_only_section[OF s o]
  have u: "?u = set_event e ?v (new_notify e p E s2)" by (rule refl)
  have nn: "core.truncate (new_notify e p E s2) = core.truncate s2"
  proof -
    have "db_only s2 (new_notify e p E s2)" by simp
    then show ?thesis by (simp only: db_only_def)
  qed
  have ci: "core_inv ?u"
  proof (rule core_inv_flag)
    show "core_inv (new_notify e p E s2)" using in_sectionD(1)[OF sec(1)] nn core_inv_truncate by metis
  qed (simp add: v)
  have sec': "in_section gProtocolDatabaseLock s (new_notify e p E s2)" "nothing_above (gEfiCurrentTpl s) (new_notify e p E s2)"
    by (rule db_only_section[OF s]; simp add: o)+
  have iu: "in_section gProtocolDatabaseLock s ?u"
    using sec'(1) ci by (simp add: in_section_def locks_kept_def set_event_def)
  have na: "nothing_above (gEfiCurrentTpl s) ?u" using sec'(2) by (simp add: nothing_above_def set_event_def)
  note rel = release_section[OF r s iu na]
  have dbu: "handles ?u = handles (new_notify e p E s2)" "gHandleList ?u = gHandleList (new_notify e p E s2)"
    "prot_entries ?u = prot_entries (new_notify e p E s2)" "mProtocolDatabase ?u = mProtocolDatabase (new_notify e p E s2)"
    "interfaces ?u = interfaces (new_notify e p E s2)" "notifies ?u = notifies (new_notify e p E s2)"
    "next_object ?u = next_object (new_notify e p E s2)" "memory ?u = memory (new_notify e p E s2)"
    "gDxeCoreImageHandle ?u = gDxeCoreImageHandle (new_notify e p E s2)"
    by (simp_all add: set_event_def)
  have hd: "handles s2 = handles s" "request_inv s \<longrightarrow> request_inv (left s ?u)" "mEfiLocateHandleRequest (left s ?u) = mEfiLocateHandleRequest s"
    using k dbu(1) request_inv_cong[of ?u s] by (simp_all add: set_event_def)
  have "same_ids s s2" using k by (simp add: same_ids_def)
  moreover have "same_ids s2 (left s ?u)" using E(1) dbu(3) by (simp add: same_ids_def)
  ultimately have sid: "same_ids s (left s ?u)" by (rule same_ids_trans)
  have inv': "db_inv ?u" using new_notify_inv[OF i2 E(1), of e] db_inv_cong[OF dbu(1-7)] by simp
  have io: "instance_of ?u = instance_of (new_notify e p E s2)" by (simp add: instance_of_def[abs_def] dbu)
  have vw: "instances ?u = instances s" "watchers ?u = (watchers s)(g := watchers s g @ [?n])" "unseen ?u = (unseen s)(?n := instances s g)"
    using new_notify_view[OF i2 E, of e] instances_cong[OF dbu(5,3,4)] watchers_cong[OF dbu(3,4)] unseen_cong[OF dbu(6,3) io] k by simp_all
  have fr: "notifies s ?n = None" using fresh_invD(4)[OF i2, of ?n] k by simp
  have q: "quiet_event t s x \<Longrightarrow> quiet_event t (left s ?u) x" for t x
    using v k by (auto simp: quiet_event_def set_event_def bit.conj_disj_distrib2)
  have reg: "notify_events (left s ?u) = (notify_events s)(?n \<mapsto> e)" "notify_events s ?n = None"
    using k dbu fr by (simp_all add: fun_eq_iff notify_events_def)
  have "enrolled ?n g e s (left s ?u)"
    using rel(2) inv' vw q reg dbu k hd sid by (simp add: enrolled_def kept_def)
  moreover have "CoreRegisterProtocolNotify rst mem (Some g) (Some e) True s = Ret (EFI_SUCCESS, Some ?n, left s ?u)"
  proof -
    have "set_entry p (E\<lparr>ENotify := ENotify E @ [?n]\<rparr>)
            ((set_event e ?v s2)\<lparr>notifies := (notifies (set_event e ?v s2))(?n := Some \<lparr>NProtocol = p, NEvent = e, Position = None\<rparr>),
               next_object := ?n + 1\<rparr>) = ?u"
      by (simp add: new_notify_def set_event_def set_entry_def)
    then show ?thesis using m(1) v E(1) rel(1)
      by (simp add: CoreRegisterProtocolNotify_def acquire_eq[OF s] c Let_def del: One_nat_def)
  qed
  ultimately show ?thesis by blast
qed

end
