(* ===== verification/ProtocolContract.thy ===== *)
theory ProtocolContract
  imports ProtocolNotify
begin

text \<open>
  The contract of the database: installing and uninstalling are total when there is memory and nobody
  has to be disconnected - they succeed or refuse, and the abstract view says which - and the
  interface \<open>instance_store\<close> under which a group of installations can be taken back.
\<close>

section \<open>Installations that fail\<close>

definition same_view :: "'x db \<Rightarrow> 'x db \<Rightarrow> bool" where
  "same_view s s' \<longleftrightarrow> kept 0 s s' \<and> instances s' = instances s \<and> watchers s' = watchers s \<and> unseen s' = unseen s \<and>
     notifies s' = notifies s \<and> gHandleList s' = gHandleList s \<and> (\<forall>h. handles s' h \<noteq> None \<longleftrightarrow> handles s h \<noteq> None)"

lemma opens_only_same_view: "opens_only s s' \<Longrightarrow> same_view s s'"
  using opens_only_view[of s s'] opens_only_kept[of s s'] opens_onlyD[of s s'] by (simp add: same_view_def)

lemma idle_on_ids:
  assumes "idle_on s h g" and "same_ids s s'" and "\<And>i I. interfaces s i = Some I \<Longrightarrow> iface_at s h g i \<Longrightarrow> interfaces s' i = Some I"
  shows "idle_on s' h g"
proof -
  obtain i I where i: "iface_at s h g i" "interfaces s i = Some I" "all_passive I" using assms(1) by (auto simp: idle_on_def)
  then obtain E where E: "prot_entries s (IProtocol I) = Some E" "ProtocolID E = g" "IHandle I = h" by (auto simp: iface_at_def)
  then obtain E' where "prot_entries s' (IProtocol I) = Some E'" "ProtocolID E' = g" using assms(2) by (auto simp: same_ids_def)
  moreover have "interfaces s' i = Some I" using assms(3) i by blast
  ultimately show ?thesis using i E by (auto simp: idle_on_def iface_at_def)
qed

text \<open>With memory for everything, an interface is refused exactly when the handle is not valid or
  has the protocol already; then nothing changes but the open list of that protocol.\<close>

lemma Install_refuses:
  fixes s :: "'x db" and rst :: "'x db_restore"
  assumes r: "tpl_restore_total rst" and s: "may_enter s" and inv: "db_inv s" and m: "\<forall>x. mem x"
    and t: "\<not> install_target mem s g uh"
  shows "\<exists>s'. CoreInstallProtocolInterfaceNotify rst disc mem k (Some uh) (Some g) EFI_NATIVE_INTERFACE v N s =
      Ret (EFI_INVALID_PARAMETER, uh, s') \<and> same_view s s' \<and> quiet_to l s s' \<and> (\<forall>h g'. idle_on s h g' \<longrightarrow> idle_on s' h g')"
proof -
  obtain h where h: "uh = Some h" using t m by (cases uh) (auto simp: install_target_def)
  obtain s1 where s1: "CoreHandleProtocol rst disc mem k uh (Some g) True s =
     Ret (if \<not> live s uh then (EFI_INVALID_PARAMETER, None, s1)
          else if \<exists>v. provides s (the uh) g v then (EFI_SUCCESS, Some (THE v. provides s (the uh) g v), s1)
          else (EFI_UNSUPPORTED, Some None, s1))" "opens_only s s1"
    and id1: "\<forall>h g'. idle_on s h g' \<longrightarrow> idle_on s1 h g'"
    using HandleProtocol_eq[where mem = mem, OF r s inv] m by blast
  show ?thesis
  proof (cases "handles s h = None")
    case False
    then have "h \<in> fst ` set (instances s g)" using t h by (auto simp: install_target_def)
    then have "\<exists>v. provides s h g v" using provides_instances[OF inv] by force
    then have "CoreHandleProtocol rst disc mem k uh (Some g) True s = Ret (EFI_SUCCESS, Some (THE v. provides s h g v), s1)"
      using s1(1) h False by simp
    then show ?thesis using h opens_only_same_view[OF s1(2)] opens_onlyD(14)[OF s1(2)] id1
      by (simp add: CoreInstallProtocolInterfaceNotify_def)
  next
    case True
    have c0: "CoreHandleProtocol rst disc mem k uh (Some g) True s = Ret (EFI_INVALID_PARAMETER, None, s1)"
      using s1(1) h True by simp
    note m1 = opens_only_enter[OF s s1(2)] and d = opens_onlyD[OF s1(2)]
    have i0: "db_inv (inside s1)" "held (inside s1) gProtocolDatabaseLock" using d(2) by simp_all
    have me: "mem AllocEntry \<or> entry_at (inside s1) g \<noteq> None" using m by simp
    obtain e E s2 where c: "CoreFindProtocolEntry mem g True (inside s1) = Ret (Some e, s2)" and i2: "db_inv s2"
      and k: "instances s2 = instances (inside s1)" "watchers s2 = watchers (inside s1)" "unseen s2 = unseen (inside s1)"
        "same_ids (inside s1) s2" "interfaces s2 = interfaces (inside s1)" "handles s2 = handles (inside s1)" "gHandleList s2 = gHandleList (inside s1)" "notifies s2 = notifies (inside s1)"
        "\<forall>u. db_only u s2 = db_only u (inside s1)" "mEfiLocateHandleRequest s2 = mEfiLocateHandleRequest (inside s1)"
        "memory s2 = memory (inside s1)" "events s2 = events (inside s1)" "gDxeCoreImageHandle s2 = gDxeCoreImageHandle (inside s1)"
      using entry_step[where mem = mem, OF i0 me] by blast
    let ?u = "s2\<lparr>next_object := Suc (next_object s2)\<rparr>"
    have iu: "db_inv ?u" by (rule next_object_inv[OF i2]) simp
    have hn: "handles ?u h = None" using True k d by simp
    have l: "Install_locked rst mem EFI_INVALID_PARAMETER uh g v N (inside s1) = Ret (EFI_INVALID_PARAMETER, uh, ?u)"
      using m hn h ValidateHandle_live[OF iu, of uh] by (simp add: Install_locked_def c Install_handle_def Let_def)
    have o: "db_only (inside s1) ?u" using k by simp
    have "kept 0 s1 (left s1 ?u)"
      using release_db_only(2)[OF r m1 o] iu k quiet_event_cong[of "left s1 ?u" s1] request_inv_cong[of s2 s1]
      by (simp add: kept_def same_ids_def)
    then have "same_view s1 (left s1 ?u)" using k by (simp add: same_view_def)
    moreover have "same_view s s1" by (rule opens_only_same_view[OF s1(2)])
    ultimately have "same_view s (left s1 ?u)"
      using svc_trans[of s s1 "left s1 ?u"] d k same_ids_trans[of s s1 "left s1 ?u"] by (simp add: same_view_def kept_def)
    moreover have "quiet_to l s (left s1 ?u)" using quiet_to_trans[OF d(14) quiet_to_left[OF o]] .
    moreover have "idle_on s h' g' \<Longrightarrow> idle_on (left s1 ?u) h' g'" for h' g'
    proof -
      assume "idle_on s h' g'"
      then have "idle_on s1 h' g'" using id1 by blast
      moreover have "same_ids s1 (left s1 ?u)" using k by (simp add: same_ids_def)
      ultimately show "idle_on (left s1 ?u) h' g'" by (rule idle_on_ids) (use k in simp)
    qed
    ultimately show ?thesis using h c0 l release_db_only(1)[OF r m1 o] by (simp add: CoreInstallProtocolInterfaceNotify_def acquire_eq[OF m1])
  qed
qed

lemma installed_idle:
  assumes "installed h g v s s'"
  shows "idle_on s' h g" and "idle_on s h' g' \<Longrightarrow> idle_on s' h' g'"
proof -
  obtain i e E where i: "interfaces s i = None" "prot_entries s' e = Some E" "ProtocolID E = g" "interfaces s' = (interfaces s)
        (i \<mapsto> \<lparr>IHandle = h, IProtocol = e, Interface = v, OpenList = [], OpenListCount = 0\<rparr>)"
    using assms by (auto simp: installed_def)
  then show "idle_on s' h g" by (auto simp: idle_on_def iface_at_def all_passive_def intro!: exI[of _ i])
  have "same_ids s s'" using assms by (simp add: installed_def kept_def)
  then show "idle_on s h' g' \<Longrightarrow> idle_on s' h' g'" by (rule idle_on_ids[rotated]) (use i in auto)
qed

lemma uninstalled_idle:
  assumes u: "uninstalled h g s s'" and id: "idle_on s h' g'" and ne: "(h', g') \<noteq> (h, g)"
  shows "idle_on s' h' g'"
proof (rule idle_on_ids[OF id])
  show "same_ids s s'" using u by (simp add: uninstalled_def kept_def)
  fix i I assume i: "interfaces s i = Some I" "iface_at s h' g' i"
  then have "\<not> iface_at s h g i" using ne by (auto simp: iface_at_def)
  then show "interfaces s' i = Some I" using u i(1) unfolding uninstalled_def by blast
qed

text \<open>Uninstalling in terms of the view: an idle interface goes, anything else is refused.\<close>

lemma Uninstall_idle:
  fixes s :: "'x db" and rst :: "'x db_restore"
  assumes r: "tpl_restore_total rst" and s: "may_enter s" and inv: "db_inv s"
    and v: "(h, v) \<in> set (instances s g)" and id: "idle_on s h g"
  shows "\<exists>s'. CoreUninstallProtocolInterface rst disc conn (Suc k) (Some h) (Some g) v s = Ret (EFI_SUCCESS, s') \<and>
    uninstalled h g s s'"
proof -
  obtain i I where i: "iface_at s h g i" "interfaces s i = Some I" "all_passive I" using id by (auto simp: idle_on_def)
  have "provides s h g (Interface I)" using i by (auto simp: provides_def)
  then have "Interface I = v" using provides_unique[OF inv] provides_instances[OF inv] v by blast
  then show ?thesis using Uninstall_succeeds[OF r s inv i(1,2) _ i(3)] by blast
qed

lemma Uninstall_refuses:
  fixes s :: "'x db" and rst :: "'x db_restore"
  assumes r: "tpl_restore_total rst" and s: "may_enter s" and inv: "db_inv s"
    and v: "\<forall>h. uh = Some h \<longrightarrow> (h, v) \<notin> set (instances s g)"
  shows "\<exists>s'. CoreUninstallProtocolInterface rst disc conn k uh (Some g) v s =
    Ret (if live s uh then EFI_NOT_FOUND else EFI_INVALID_PARAMETER, s') \<and> same_view s s' \<and> interfaces s' = interfaces s"
proof (cases "live s uh")
  case False
  then show ?thesis
    using opens_only_same_view[OF opens_only_refl[OF s inv]] by (simp add: CoreUninstallProtocolInterface_def ValidateHandle_live[OF inv])
next
  case True
  then obtain h H where h: "uh = Some h" "handles s h = Some H" by (auto simp: live_def)
  have np: "\<not> provides (inside s) h g v" using v h provides_instances[of "inside s"] inv by simp
  have "CoreFindProtocolInterface h g v (inside s) = Ret None"
    using FindInterface_none[OF _ _ _ np] inv h by simp
  then show ?thesis
    using True h opens_only_same_view[OF opens_only_same[OF r s inv]] section_set_interface(2)[OF r s]
    by (simp add: CoreUninstallProtocolInterface_def ValidateHandle_live[OF inv] acquire_eq[OF s])
qed

section \<open>The interface of a store of instances\<close>

text \<open>A client puts instances on handles and takes idle ones back.\<close>

locale instance_store =
  fixes view :: "'s \<Rightarrow> 'g \<Rightarrow> ('h \<times> 'v) list"
    and idle :: "'s \<Rightarrow> 'h \<Rightarrow> 'g \<Rightarrow> bool"
    and put :: "'h \<Rightarrow> 'g \<Rightarrow> 'v \<Rightarrow> 's \<Rightarrow> 's \<Rightarrow> bool"
    and take_back :: "'h \<Rightarrow> 'g \<Rightarrow> 's \<Rightarrow> 's \<Rightarrow> bool"
  assumes put_view: "put h g v s s' \<Longrightarrow> view s' = (view s)(g := view s g @ [(h, v)])"
    and put_idle: "put h g v s s' \<Longrightarrow> idle s' h g"
    and put_idle_other: "put h g v s s' \<Longrightarrow> idle s h' g' \<Longrightarrow> idle s' h' g'"
    and back_view: "take_back h g s s' \<Longrightarrow> view s' = (view s)(g := filter (\<lambda>x. fst x \<noteq> h) (view s g))"
    and back_idle: "take_back h g s s' \<Longrightarrow> idle s h' g' \<Longrightarrow> (h', g') \<noteq> (h, g) \<Longrightarrow> idle s' h' g'"
begin

text \<open>The instances \<open>gs\<close> have been put on \<open>h\<close>, which had none of their protocols, and nobody uses them.\<close>

definition added :: "'h \<Rightarrow> ('g \<times> 'v) list \<Rightarrow> ('g \<Rightarrow> ('h \<times> 'v) list) \<Rightarrow> 's \<Rightarrow> bool" where
  "added h gs w s \<longleftrightarrow> distinct (map fst gs) \<and> (\<forall>g \<in> fst ` set gs. h \<notin> fst ` set (w g) \<and> idle s h g) \<and>
     view s = (\<lambda>g. w g @ (case map_of gs g of None \<Rightarrow> [] | Some v \<Rightarrow> [(h, v)]))"

lemma added_Nil: "added h [] (view s) s"
  by (simp add: added_def)

lemma added_view: "added h gs w s \<Longrightarrow> view s g = w g @ (case map_of gs g of None \<Rightarrow> [] | Some v \<Rightarrow> [(h, v)])"
  by (simp add: added_def)

lemma added_mem: "added h gs w s \<Longrightarrow> (g, v) \<in> set gs \<Longrightarrow> (h, v) \<in> set (view s g) \<and> idle s h g"
  by (force simp: added_def map_of_is_SomeI)

lemma added_put:
  assumes a: "added h gs w s" and p: "put h g v s s'" and new: "h \<notin> fst ` set (view s g)"
  shows "added h (gs @ [(g, v)]) w s'"
proof -
  have g: "g \<notin> fst ` set gs" using added_mem[OF a, of g] new by force
  then have "map_of gs g = None" by (simp add: map_of_eq_None_iff)
  then have "h \<notin> fst ` set (w g)" using new added_view[OF a, of g] by simp
  moreover have "map_of (gs @ [(g, v)]) x = (if x = g then Some v else map_of gs x)" for x
    using \<open>map_of gs g = None\<close> by (auto simp: map_add_def split: option.split)
  ultimately show ?thesis
    using a g put_view[OF p] put_idle[OF p] put_idle_other[OF p] \<open>map_of gs g = None\<close>
    by (auto simp: added_def fun_eq_iff)
qed

lemma added_other:
  assumes "added h gs w s" and "view s' = view s" and "\<And>g. idle s h g \<Longrightarrow> idle s' h g"
  shows "added h gs w s'"
  using assms by (auto simp: added_def)

lemma added_take_back:
  assumes a: "added h ((g, v) # gs) w s" and b: "take_back h g s s'"
  shows "added h gs w s'"
proof -
  have g: "g \<notin> fst ` set gs" "h \<notin> fst ` set (w g)" using a by (auto simp: added_def)
  then have "filter (\<lambda>x. fst x \<noteq> h) (w g) = w g" by (auto simp: filter_id_conv)
  moreover have "idle s' h g'" if "g' \<in> fst ` set gs" for g'
    using a that g(1) back_idle[OF b, of h g'] by (auto simp: added_def)
  moreover have "map_of gs g = None" using g(1) by (simp add: map_of_eq_None_iff)
  ultimately show ?thesis using a back_view[OF b] by (auto simp: added_def fun_eq_iff)
qed

end

interpretation store: instance_store instances idle_on installed uninstalled
  by unfold_locales
    (simp add: installed_def, erule installed_idle(1), erule installed_idle(2), assumption, simp add: uninstalled_def,
     erule uninstalled_idle)

end
