(* ===== verification/ProtocolMultiple.thy ===== *)
theory ProtocolMultiple
  imports ProtocolContract
begin

text \<open>
  The multiple installation at its raised TPL: all interfaces or none; and the multiple removal, whose
  rollback fails when it has freed the handle.
\<close>

section \<open>Installing several interfaces\<close>

text \<open>The raised level of the multiple installation, and its end.\<close>

lemma raise_notify:
  assumes "may_enter s"
  shows "CoreRaiseTpl TPL_NOTIFY s = Ret (gEfiCurrentTpl s, s\<lparr>gEfiCurrentTpl := TPL_NOTIFY\<rparr>)"
    and "may_enter (s\<lparr>gEfiCurrentTpl := TPL_NOTIFY\<rparr>)"
proof -
  have le: "gEfiCurrentTpl s \<le> TPL_NOTIFY" using assms by (simp add: may_enter_def)
  then show "CoreRaiseTpl TPL_NOTIFY s = Ret (gEfiCurrentTpl s, s\<lparr>gEfiCurrentTpl := TPL_NOTIFY\<rparr>)"
    by (simp add: CoreRaiseTpl_def VALID_TPL_def)
  show "may_enter (s\<lparr>gEfiCurrentTpl := TPL_NOTIFY\<rparr>)"
    using assms le by (fastforce simp: may_enter_def core_inv_def event_inv_def tpl_inv_def lock_inv_def)
qed

lemma lower_again:
  fixes s :: "'x db" and rst :: "'x db_restore"
  assumes r: "tpl_restore_total rst" and s: "may_enter s" and v: "svc (s\<lparr>gEfiCurrentTpl := TPL_NOTIFY\<rparr>) u"
    and q: "quiet_to (gEfiCurrentTpl s) (s\<lparr>gEfiCurrentTpl := TPL_NOTIFY\<rparr>) u"
  shows "rst (gEfiCurrentTpl s) u = Ret (u\<lparr>gEfiCurrentTpl := gEfiCurrentTpl s\<rparr>)"
    and "svc s (u\<lparr>gEfiCurrentTpl := gEfiCurrentTpl s\<rparr>)"
proof -
  let ?t = "gEfiCurrentTpl s"
  have r0: "tpl_restore rst" using r by (simp add: tpl_restore_total_def)
  have inv: "core_inv s" and le: "?t \<le> TPL_NOTIFY" using s by (simp_all add: may_enter_def)
  note d = svcD[OF v]
  have lk: "locks_kept s u" using v by (simp add: svc_def locks_kept_def)
  have ci: "core_inv u" and tu: "gEfiCurrentTpl u = TPL_NOTIFY" using d by simp_all
  have "bit (gEventPending s) p \<Longrightarrow> p \<le> ?t" for p using inv by (simp add: core_inv_def tpl_inv_def)
  then have na: "nothing_above ?t u" using q tu by (auto simp: nothing_above_def quiet_to_def)
  have fr: "free_above ?t u" using lk inv by (auto simp: free_above_def locks_kept_def core_inv_def lock_inv_def)
  have ti: "tpl_inv u" using ci by (simp add: core_inv_def)
  have "safe (\<lambda>s'. core_inv s' \<and> gEfiCurrentTpl s' = ?t \<and> locks_kept u s') (rst ?t u)"
    using tpl_restore.rst_safe[OF r0 ci _ fr] le tu by simp
  moreover have "safe (\<lambda>s'. s' = u\<lparr>gEfiCurrentTpl := ?t\<rparr>) (rst ?t u)"
    using tpl_restore.rst_quiet[OF r0 ti _ na] le tu by simp
  moreover have "rst ?t u \<noteq> NoFuel" using tpl_restore_total.rst_total[OF r ti _ na] le tu by simp
  ultimately have e: "rst ?t u = Ret (u\<lparr>gEfiCurrentTpl := ?t\<rparr>) \<and> core_inv (u\<lparr>gEfiCurrentTpl := ?t\<rparr>) \<and> locks_kept u (u\<lparr>gEfiCurrentTpl := ?t\<rparr>)"
    by (cases "rst ?t u") auto
  then show "rst ?t u = Ret (u\<lparr>gEfiCurrentTpl := ?t\<rparr>)" by simp
  show "svc s (u\<lparr>gEfiCurrentTpl := ?t\<rparr>)" using e lk by (simp add: svc_def locks_kept_def)
qed

text \<open>The instances of the group so far, on the handle of the call.\<close>

definition held_by :: "(guid \<Rightarrow> (nat \<times> ptr) list) \<Rightarrow> ptr \<Rightarrow> (guid \<times> ptr) list \<Rightarrow> 'x db \<Rightarrow> bool" where
  "held_by w H gs s \<longleftrightarrow> (if gs = [] then instances s = w else \<exists>h. H = Some h \<and> store.added h gs w s)"

lemma target_new:
  assumes inv: "db_inv s" and t: "install_target mem s g uh" and h: "uh = None \<longrightarrow> handles s h = None" "uh \<noteq> None \<longrightarrow> uh = Some h"
  shows "h \<notin> fst ` set (instances s g)"
proof (cases uh)
  case None
  then show ?thesis using h instances_handle_live[OF inv, of h _ g] by force
next
  case (Some x)
  then show ?thesis using t h by (simp add: install_target_def)
qed

lemma held_by_put:
  assumes a: "held_by w H gs s" and p: "installed h g v s s'" and new: "h \<notin> fst ` set (instances s g)"
    and H: "H \<noteq> None \<longrightarrow> H = Some h"
  shows "held_by w (Some h) (gs @ [(g, v)]) s'"
proof -
  have "store.added h gs w s"
    using a H store.added_Nil[of h s] by (auto simp: held_by_def split: if_splits)
  from store.added_put[OF this p new] show ?thesis by (simp add: held_by_def)
qed

lemma quiet_watchers_after:
  assumes "kept k s s'" and "watchers s' = watchers s" and "notifies s' = notifies s" and "quiet_watchers l s g"
  shows "quiet_watchers l s' g"
  by (rule quiet_watchers_keep[OF _ assms(3) _ assms(4)]) (use assms keptD(5) in \<open>simp, blast\<close>)

lemma InstallMultiple_loop_spec:
  fixes s :: "'x db" and rst :: "'x db_restore"
  assumes r: "tpl_restore_total rst" and m: "\<forall>i x. mem i x"
  shows "may_enter s \<Longrightarrow> db_inv s \<Longrightarrow> l \<le> gEfiCurrentTpl s \<Longrightarrow>
    \<forall>(g, v) \<in> set args. g \<noteq> gEfiDevicePathProtocolGuid \<and> quiet_watchers l s g \<Longrightarrow> held_by w H gs s \<Longrightarrow>
    \<exists>st j H' s'. InstallMultiple_loop rst disc mem k pcd Index H args s = Ret (st, Index + j, H', s') \<and> kept 0 s s' \<and> quiet_to l s s' \<and>
      watchers s' = watchers s \<and> notifies s' = notifies s \<and>
      (st = EFI_SUCCESS \<and> held_by w H' (gs @ args) s' \<or>
       st = EFI_INVALID_PARAMETER \<and> 0 < j \<and> held_by w H' (gs @ take (j - 1) args) s')"
proof (induction args arbitrary: Index H gs s)
  case Nil
  have "kept 0 s s" using opens_only_kept[OF opens_only_refl[OF Nil.prems(1,2)]] .
  then show ?case using Nil.prems by (auto intro!: exI[of _ 0])
next
  case (Cons a args)
  obtain g v where a: "a = (g, v)" by (cases a)
  have g: "g \<noteq> gEfiDevicePathProtocolGuid" "quiet_watchers l s g" using Cons.prems(4) a by auto
  have q: "True \<longrightarrow> quiet_watchers l s g" using g by simp
  have mm: "mem Index AllocInterface" "mem Index AllocEntry \<or> entry_at s g \<noteq> None" using m by simp_all
  show ?case
  proof (cases "install_target (mem Index) s g H")
    case True
    obtain h s1 where i: "CoreInstallProtocolInterfaceNotify rst disc (mem Index) k (Some H) (Some g) EFI_NATIVE_INTERFACE v True s =
        Ret (EFI_SUCCESS, Some h, s1)" "installed h g v s s1" "quiet_to l s s1" "H = None \<longrightarrow> handles s h = None" "H \<noteq> None \<longrightarrow> H = Some h"
      using Install_succeeds[where mem = "mem Index", OF r Cons.prems(1,2) True mm Cons.prems(3) q] by blast
    have k1: "kept 0 s s1" "watchers s1 = watchers s" "notifies s1 = notifies s" using i(2) by (simp_all add: installed_def)
    have s1: "may_enter s1" "db_inv s1" by (rule kept_enter[OF Cons.prems(1) k1(1)], rule keptD(2)[OF k1(1)])
    have l1: "l \<le> gEfiCurrentTpl s1" using Cons.prems(3) keptD(1)[OF k1(1)] by (simp add: svc_def)
    have q1: "\<forall>(g, v) \<in> set args. g \<noteq> gEfiDevicePathProtocolGuid \<and> quiet_watchers l s1 g"
      using Cons.prems(4) quiet_watchers_after[OF k1] by fastforce
    have h1: "held_by w (Some h) (gs @ [(g, v)]) s1"
      by (rule held_by_put[OF Cons.prems(5) i(2) target_new[OF Cons.prems(2) True i(4,5)] i(5)])
    obtain st j H' s' where c: "InstallMultiple_loop rst disc mem k pcd (Index + 1) (Some h) args s1 = Ret (st, Index + 1 + j, H', s')"
      "kept 0 s1 s'" "quiet_to l s1 s'" "watchers s' = watchers s1" "notifies s' = notifies s1"
      "st = EFI_SUCCESS \<and> held_by w H' ((gs @ [(g, v)]) @ args) s' \<or>
       st = EFI_INVALID_PARAMETER \<and> 0 < j \<and> held_by w H' ((gs @ [(g, v)]) @ take (j - 1) args) s'"
      using Cons.IH[OF s1 l1 q1 h1, of "Index + 1"] by blast
    have "InstallMultiple_loop rst disc mem k pcd Index H (a # args) s = Ret (st, Index + Suc j, H', s')"
      using c(1) i(1) g(1) by (simp add: a CoreInstallProtocolInterface_def)
    moreover have "kept 0 s s'" using kept_trans[OF k1(1) c(2)] by simp
    moreover have "quiet_to l s s'" by (rule quiet_to_trans[OF i(3) c(3)])
    moreover have "st = EFI_SUCCESS \<and> held_by w H' (gs @ a # args) s' \<or>
       st = EFI_INVALID_PARAMETER \<and> 0 < Suc j \<and> held_by w H' (gs @ take (Suc j - 1) (a # args)) s'"
      using c(6) a by (cases j) auto
    moreover have "watchers s' = watchers s" "notifies s' = notifies s" using c(4,5) k1(2,3) by simp_all
    ultimately show ?thesis by blast
  next
    case False
    obtain s1 where i: "CoreInstallProtocolInterfaceNotify rst disc (mem Index) k (Some H) (Some g) EFI_NATIVE_INTERFACE v True s =
        Ret (EFI_INVALID_PARAMETER, H, s1)" "same_view s s1" "quiet_to l s s1" "\<forall>h g'. idle_on s h g' \<longrightarrow> idle_on s1 h g'"
      using Install_refuses[where mem = "mem Index", OF r Cons.prems(1,2) _ False] m by blast
    have k1: "kept 0 s s1" "watchers s1 = watchers s" "notifies s1 = notifies s" "instances s1 = instances s"
      using i(2) by (simp_all add: same_view_def)
    have "held_by w H gs s1"
      using Cons.prems(5) k1(4) store.added_other[OF _ k1(4)] i(4) by (auto simp: held_by_def split: if_splits)
    moreover have "InstallMultiple_loop rst disc mem k pcd Index H (a # args) s = Ret (EFI_INVALID_PARAMETER, Index + 1, H, s1)"
      using i(1) g(1) by (simp add: a CoreInstallProtocolInterface_def)
    ultimately show ?thesis using k1 i(3) by (intro exI[of _ EFI_INVALID_PARAMETER] exI[of _ 1] exI[of _ H] exI[of _ s1]) simp
  qed
qed

lemma Rollback_install_spec:
  fixes s :: "'x db" and rst :: "'x db_restore"
  assumes r: "tpl_restore_total rst"
  shows "may_enter s \<Longrightarrow> db_inv s \<Longrightarrow> held_by w H gs s \<Longrightarrow>
    \<exists>s'. Rollback_install rst disc conn (Suc k) H gs s = Ret s' \<and> kept 0 s s' \<and> quiet_to l s s' \<and> instances s' = w \<and> watchers s' = watchers s"
proof (induction gs arbitrary: s)
  case Nil
  have "kept 0 s s" using opens_only_kept[OF opens_only_refl[OF Nil.prems(1,2)]] .
  then show ?case using Nil.prems by (simp add: held_by_def)
next
  case (Cons a gs)
  obtain g v where a: "a = (g, v)" by (cases a)
  obtain h where h: "H = Some h" "store.added h ((g, v) # gs) w s" using Cons.prems(3) a by (auto simp: held_by_def)
  have mem: "(h, v) \<in> set (instances s g)" "idle_on s h g" using store.added_mem[OF h(2), of g v] by simp_all
  obtain s1 where u: "CoreUninstallProtocolInterface rst disc conn (Suc k) (Some h) (Some g) v s = Ret (EFI_SUCCESS, s1)" "uninstalled h g s s1"
    using Uninstall_idle[OF r Cons.prems(1,2) mem] by blast
  have k1: "kept 0 s s1" "watchers s1 = watchers s" "quiet_to l s s1" using u(2) by (simp_all add: uninstalled_def)
  have ad: "store.added h gs w s1" by (rule store.added_take_back[OF h(2) u(2)])
  then have "held_by w H gs s1" using h(1) by (auto simp: held_by_def store.added_def)
  from Cons.IH[OF kept_enter[OF Cons.prems(1) k1(1)] keptD(2)[OF k1(1)] this]
  obtain s' where s': "Rollback_install rst disc conn (Suc k) H gs s1 = Ret s'" "kept 0 s1 s'" "quiet_to l s1 s'" "instances s' = w" "watchers s' = watchers s1"
    by blast
  show ?case using u(1) s' h(1) a kept_trans[OF k1(1) s'(2)] quiet_to_trans[OF k1(3) s'(3)] k1(2) by simp
qed

lemma instances_tpl [simp]:
  "instances (s\<lparr>gEfiCurrentTpl := t\<rparr>) = instances s" "watchers (s\<lparr>gEfiCurrentTpl := t\<rparr>) = watchers s"
  "db_inv (s\<lparr>gEfiCurrentTpl := t\<rparr>) = db_inv s"
  by (rule instances_cong watchers_cong db_inv_cong; simp)+

lemma quiet_tpl [simp]: "quiet_watchers l (s\<lparr>gEfiCurrentTpl := t\<rparr>) g = quiet_watchers l s g"
  by (simp add: quiet_watchers_def quiet_event_def)

text \<open>All interfaces of the group are installed on one handle, or none is.\<close>

lemma InstallMultiple_all_or_none:
  fixes s :: "'x db" and rst :: "'x db_restore"
  assumes r: "tpl_restore_total rst" and s: "may_enter s" and inv: "db_inv s" and m: "\<forall>i x. mem i x"
    and a: "\<forall>(g, v) \<in> set args. g \<noteq> gEfiDevicePathProtocolGuid \<and> quiet_watchers (gEfiCurrentTpl s) s g"
  shows "\<exists>st H' s'. CoreInstallMultipleProtocolInterfaces rst disc conn mem (Suc k) pcd (Some H) args s = Ret (st, H', s') \<and>
    svc s s' \<and> db_inv s' \<and> watchers s' = watchers s \<and>
    (st = EFI_SUCCESS \<and> (args = [] \<or> (\<exists>h. H' = Some h \<and> distinct (map fst args) \<and>
        instances s' = (\<lambda>g. instances s g @ (case map_of args g of None \<Rightarrow> [] | Some v \<Rightarrow> [(h, v)])))) \<or>
     st = EFI_INVALID_PARAMETER \<and> H' = H \<and> instances s' = instances s)"
proof -
  let ?u = "s\<lparr>gEfiCurrentTpl := TPL_NOTIFY\<rparr>" and ?t = "gEfiCurrentTpl s"
  note ra = raise_notify[OF s]
  have iu: "db_inv ?u" using inv by simp
  have le: "?t \<le> gEfiCurrentTpl ?u" using s by (simp add: may_enter_def)
  have au: "\<forall>(g, v) \<in> set args. g \<noteq> gEfiDevicePathProtocolGuid \<and> quiet_watchers ?t ?u g" using a by simp
  have h0: "held_by (instances s) H [] ?u" by (simp add: held_by_def)
  obtain st j H' s2 where lp: "InstallMultiple_loop rst disc mem (Suc k) pcd 0 H args ?u = Ret (st, 0 + j, H', s2)" "kept 0 ?u s2"
    "quiet_to ?t ?u s2" "watchers s2 = watchers ?u"
    "st = EFI_SUCCESS \<and> held_by (instances s) H' ([] @ args) s2 \<or>
     st = EFI_INVALID_PARAMETER \<and> 0 < j \<and> held_by (instances s) H' ([] @ take (j - 1) args) s2"
    using InstallMultiple_loop_spec[OF r m ra(2) iu le au h0, of disc "Suc k" pcd 0] by blast
  have s2: "may_enter s2" "db_inv s2" by (rule kept_enter[OF ra(2) lp(2)], rule keptD(2)[OF lp(2)])
  show ?thesis
    using lp(5)
  proof (elim disjE conjE)
    assume st: "st = EFI_SUCCESS" and hb: "held_by (instances s) H' ([] @ args) s2"
    note lo = lower_again[OF r s keptD(1)[OF lp(2)] lp(3)]
    have "CoreInstallMultipleProtocolInterfaces rst disc conn mem (Suc k) pcd (Some H) args s =
        Ret (EFI_SUCCESS, H', s2\<lparr>gEfiCurrentTpl := ?t\<rparr>)"
      using lp(1) st lo(1) by (simp add: CoreInstallMultipleProtocolInterfaces_def ra(1))
    moreover have "args = [] \<or> (\<exists>h. H' = Some h \<and> distinct (map fst args) \<and>
        instances s2 = (\<lambda>g. instances s g @ (case map_of args g of None \<Rightarrow> [] | Some v \<Rightarrow> [(h, v)])))"
      using hb by (auto simp: held_by_def store.added_def split: if_splits)
    ultimately show ?thesis using lo(2) s2(2) lp(4) by (intro exI[of _ EFI_SUCCESS] exI[of _ H'] exI[of _ "s2\<lparr>gEfiCurrentTpl := ?t\<rparr>"]) simp
  next
    assume st: "st = EFI_INVALID_PARAMETER" "0 < j" and hb: "held_by (instances s) H' ([] @ take (j - 1) args) s2"
    have hb': "held_by (instances s) H' (take (j - 1) args) s2" using hb by simp
    obtain s3 where s3: "Rollback_install rst disc conn (Suc k) H' (take (j - 1) args) s2 = Ret s3" "kept 0 s2 s3"
      "quiet_to ?t s2 s3" "instances s3 = instances s" "watchers s3 = watchers s2"
      using Rollback_install_spec[OF r s2 hb', of disc conn k ?t] by blast
    have k3: "kept 0 ?u s3" using kept_trans[OF lp(2) s3(2)] by simp
    note lo = lower_again[OF r s keptD(1)[OF k3] quiet_to_trans[OF lp(3) s3(3)]]
    have "CoreInstallMultipleProtocolInterfaces rst disc conn mem (Suc k) pcd (Some H) args s =
        Ret (EFI_INVALID_PARAMETER, H, s3\<lparr>gEfiCurrentTpl := ?t\<rparr>)"
      using lp(1) st s3(1) lo(1) by (simp add: CoreInstallMultipleProtocolInterfaces_def ra(1))
    then show ?thesis using lo(2) keptD(2)[OF k3] s3(4,5) lp(4)
      by (intro exI[of _ EFI_INVALID_PARAMETER] exI[of _ H] exI[of _ "s3\<lparr>gEfiCurrentTpl := ?t\<rparr>"]) simp
  qed
qed

lemma same_viewD:
  assumes "same_view s s'"
  shows "kept 0 s s'" "instances s' = instances s" "watchers s' = watchers s" "handles s' h = None \<longleftrightarrow> handles s h = None"
  using assms unfolding same_view_def by (blast, blast, blast, metis)

text \<open>The counterpart does not put back what it removed when that was all the handle had: the handle
  is freed with its last interface, and the rollback installs on the freed handle.\<close>

lemma UninstallMultiple_loses:
  fixes s :: "'x db" and rst :: "'x db_restore"
  assumes r: "tpl_restore_total rst" and s: "may_enter s" and inv: "db_inv s" and m: "\<forall>i x. mem i x"
    and v: "(h, v) \<in> set (instances s g)" and id: "idle_on s h g"
    and only: "\<forall>g' v'. (h, v') \<in> set (instances s g') \<longrightarrow> g' = g"
  shows "\<exists>s'. CoreUninstallMultipleProtocolInterfaces rst disc conn mem (Suc k) (Some h) [(g, v), (g2, v2)] s = Ret (EFI_INVALID_PARAMETER, s') \<and>
    svc s s' \<and> db_inv s' \<and> handles s' h = None \<and> instances s' = (instances s)(g := filter (\<lambda>x. fst x \<noteq> h) (instances s g))"
proof -
  obtain s1 where u: "CoreUninstallProtocolInterface rst disc conn (Suc k) (Some h) (Some g) v s = Ret (EFI_SUCCESS, s1)" "uninstalled h g s s1"
    using Uninstall_idle[OF r s inv v id] by blast
  have k1: "kept 0 s s1" "instances s1 = (instances s)(g := filter (\<lambda>x. fst x \<noteq> h) (instances s g))" using u(2) by (simp_all add: uninstalled_def)
  have s1: "may_enter s1" "db_inv s1" by (rule kept_enter[OF s k1(1)], rule keptD(2)[OF k1(1)])
  have no: "(h, w) \<notin> set (instances s1 g')" for w g' using only k1(2) by auto
  then have dead: "handles s1 h = None" using live_iff_instances[OF s1(2), of h] by blast
  obtain s2 where s2: "CoreUninstallProtocolInterface rst disc conn (Suc k) (Some h) (Some g2) v2 s1 = Ret (EFI_INVALID_PARAMETER, s2)"
    "same_view s1 s2"
    using Uninstall_refuses[OF r s1, of "Some h" v2 g2 disc conn "Suc k"] no dead by auto
  have k2: "kept 0 s1 s2" "instances s2 = instances s1" "handles s2 h = None"
    using same_viewD[OF s2(2)] dead by simp_all
  have m2: "may_enter s2" "db_inv s2" by (rule kept_enter[OF s1(1) k2(1)], rule keptD(2)[OF k2(1)])
  have nt: "\<not> install_target (mem 0) s2 g (Some h)" using k2(3) by (simp add: install_target_def)
  obtain s3 where s3: "CoreInstallProtocolInterfaceNotify rst disc (mem 0) (Suc k) (Some (Some h)) (Some g) EFI_NATIVE_INTERFACE v True s2 =
      Ret (EFI_INVALID_PARAMETER, Some h, s3)" "same_view s2 s3"
    using Install_refuses[where mem = "mem 0", OF r m2 _ nt] m by blast
  have "CoreUninstallMultipleProtocolInterfaces rst disc conn mem (Suc k) (Some h) [(g, v), (g2, v2)] s = Ret (EFI_INVALID_PARAMETER, s3)"
    using u(1) s2(1) s3(1) by (simp add: CoreUninstallMultipleProtocolInterfaces_def CoreInstallProtocolInterface_def)
  moreover have "kept 0 s s3" using kept_trans[OF k1(1) kept_trans[OF k2(1) same_viewD(1)[OF s3(2)]]] by simp
  moreover have "instances s3 = (instances s)(g := filter (\<lambda>x. fst x \<noteq> h) (instances s g))" "handles s3 h = None"
    using same_viewD[OF s3(2)] k1(2) k2(2,3) by simp_all
  ultimately show ?thesis using keptD(1,2)[of 0 s s3] by blast
qed

end
