(* ===== verification/DevicePathSpec.thy ===== *)
theory DevicePathSpec
  imports DevicePath
begin

text \<open>
  The device path library against its abstract view: a path is a list of nodes. \<open>path_at\<close> says that a
  memory holds the nodes of a path at an address; the library functions are concatenation, copying,
  joining and splitting of such lists, and write nothing but the buffer they allocate.
\<close>

section \<open>Paths as lists of nodes\<close>

text \<open>The bytes of one node that is not the end of the path, and a path with its nodes.\<close>

definition node_at :: "memory \<Rightarrow> nat \<Rightarrow> u8 list \<Rightarrow> bool" where
  "node_at m p n \<longleftrightarrow> n = map m [p..<p + length n] \<and> length n = DevicePathNodeLength m p \<and> 4 \<le> length n \<and>
     \<not> IsDevicePathEnd m p \<and>
     (m p = MEDIA_DEVICE_PATH \<and> m (p + 1) = MEDIA_FILEPATH_DP \<longrightarrow>
        m (p + length n - 2) = 0 \<and> m (p + length n - 1) = 0)"

fun path_at :: "memory \<Rightarrow> nat \<Rightarrow> u8 list list \<Rightarrow> bool" where
  "path_at m p [] \<longleftrightarrow> IsDevicePathEnd m p \<and> DevicePathNodeLength m p = END_DEVICE_PATH_LENGTH"
| "path_at m p (n # ns) \<longleftrightarrow> node_at m p n \<and> path_at m (p + length n) ns"

definition path_length :: "u8 list list \<Rightarrow> nat" where
  "path_length ns = length (concat ns)"

lemma path_length_simps [simp]:
  "path_length [] = 0" "path_length (n # ns) = length n + path_length ns"
  "path_length (ns @ ms) = path_length ns + path_length ms"
  by (simp_all add: path_length_def)

lemmas node_defs = DevicePathType_def DevicePathSubType_def DevicePathNodeLength_def ReadUnaligned16_def
  NextDevicePathNode_def IsDevicePathEndType_def IsDevicePathEnd_def IsDevicePathEndInstance_def

lemma node_at_unique: "node_at m p n \<Longrightarrow> node_at m p n' \<Longrightarrow> n = n'"
  unfolding node_at_def by metis

lemma path_at_unique: "path_at m p ns \<Longrightarrow> path_at m p ns' \<Longrightarrow> ns = ns'"
proof (induction ns arbitrary: p ns')
  case Nil
  then show ?case by (cases ns') (auto simp: node_at_def)
next
  case (Cons n ns)
  then obtain n' ms where "ns' = n' # ms" by (cases ns') (auto simp: node_at_def)
  with Cons show ?case using node_at_unique[of m p n n'] by auto
qed

lemma node_at_self:
  assumes "\<not> IsDevicePathEnd m p" "4 \<le> DevicePathNodeLength m p"
    "m p = MEDIA_DEVICE_PATH \<and> m (p + 1) = MEDIA_FILEPATH_DP \<longrightarrow>
        m (p + DevicePathNodeLength m p - 2) = 0 \<and> m (p + DevicePathNodeLength m p - 1) = 0"
  shows "node_at m p (map m [p..<p + DevicePathNodeLength m p])"
  using assms by (simp add: node_at_def)

declare IsDevicePathValid_loop.simps [simp del]

lemma valid_loop_iff:
  assumes "MaxSize \<le> MAX_UINTN" and "4 \<le> MaxSize" and "Size + 4 \<le> MaxSize" and "pcd > 0 \<longrightarrow> Count < pcd"
  shows "IsDevicePathValid_loop m pcd MaxSize Count Size p \<longleftrightarrow>
    (\<exists>ns. path_at m p ns \<and> Size + path_length ns + 4 \<le> MaxSize \<and> (pcd > 0 \<longrightarrow> Count + length ns < pcd))"
  using assms
proof (induction m pcd MaxSize Count Size p rule: IsDevicePathValid_loop.induct)
  case (1 m pcd MaxSize Count Size p)
  let ?L = "DevicePathNodeLength m p"
  let ?bad = "?L < 4 \<or> Size + ?L + 4 > MaxSize \<or> (pcd > 0 \<and> Count + 1 \<ge> pcd) \<or>
     (m p = MEDIA_DEVICE_PATH \<and> m (p + 1) = MEDIA_FILEPATH_DP \<and> (m (p + ?L - 2) \<noteq> 0 \<or> m (p + ?L - 1) \<noteq> 0))"
  let ?P = "\<lambda>ns. path_at m p ns \<and> Size + path_length ns + 4 \<le> MaxSize \<and> (pcd > 0 \<longrightarrow> Count + length ns < pcd)"
  show ?case
  proof (cases "IsDevicePathEnd m p")
    case True
    have "?P ns \<longleftrightarrow> ns = [] \<and> ?L = 4" for ns using True 1(4,5) by (cases ns) (auto simp: node_at_def)
    then have "(\<exists>ns. ?P ns) \<longleftrightarrow> ?L = 4" by simp
    then show ?thesis using True by (subst IsDevicePathValid_loop.simps) simp
  next
    case nend: False
    have cons: "\<exists>n ms. ns = n # ms \<and> node_at m p n \<and> length n = ?L \<and> path_at m (p + ?L) ms" if "path_at m p ns" for ns
      using that nend by (cases ns) (auto simp: node_at_def)
    show ?thesis
    proof (cases ?bad)
      case True
      have "\<not> ?P ns" for ns
        using True cons[of ns] by (force simp: node_at_def)
      moreover have "\<not> IsDevicePathValid_loop m pcd MaxSize Count Size p"
        using True nend 1(2-4)
        by (subst IsDevicePathValid_loop.simps) (auto simp: Let_def DevicePathType_def DevicePathSubType_def)
      ultimately show ?thesis by blast
    next
      case ok: False
      have IH: "IsDevicePathValid_loop m pcd MaxSize (if 0 < pcd then Count + 1 else Count) (Size + ?L) (NextDevicePathNode m p) \<longleftrightarrow>
         (\<exists>ns. path_at m (NextDevicePathNode m p) ns \<and> Size + ?L + path_length ns + 4 \<le> MaxSize \<and>
            (pcd > 0 \<longrightarrow> (if 0 < pcd then Count + 1 else Count) + length ns < pcd))"
        using ok nend 1(2-4) by (intro 1(1)) (auto simp: DevicePathType_def DevicePathSubType_def)
      have step: "IsDevicePathValid_loop m pcd MaxSize Count Size p =
          IsDevicePathValid_loop m pcd MaxSize (if 0 < pcd then Count + 1 else Count) (Size + ?L) (NextDevicePathNode m p)"
        using ok nend 1(2-4)
        by (subst IsDevicePathValid_loop.simps) (auto simp: Let_def DevicePathType_def DevicePathSubType_def)
      have nd: "node_at m p (map m [p..<p + ?L])" using ok nend by (intro node_at_self) auto
      show ?thesis
        unfolding step IH
      proof
        assume "\<exists>ns. path_at m (NextDevicePathNode m p) ns \<and> Size + ?L + path_length ns + 4 \<le> MaxSize \<and>
            (pcd > 0 \<longrightarrow> (if 0 < pcd then Count + 1 else Count) + length ns < pcd)"
        then obtain ns where "path_at m (p + ?L) ns" "Size + ?L + path_length ns + 4 \<le> MaxSize"
            "pcd > 0 \<longrightarrow> Count + 1 + length ns < pcd" by (auto simp: NextDevicePathNode_def)
        then show "\<exists>ns. ?P ns" using nd by (intro exI[of _ "map m [p..<p + ?L] # ns"]) simp
      next
        assume "\<exists>ns. ?P ns"
        then show "\<exists>ns. path_at m (NextDevicePathNode m p) ns \<and> Size + ?L + path_length ns + 4 \<le> MaxSize \<and>
            (pcd > 0 \<longrightarrow> (if 0 < pcd then Count + 1 else Count) + length ns < pcd)"
          using cons by (force simp: NextDevicePathNode_def)
      qed
    qed
  qed
qed

text \<open>A path that the library accepts: it is a list of nodes, not too long and of not too many nodes.\<close>

definition accepted :: "nat \<Rightarrow> nat \<Rightarrow> u8 list list \<Rightarrow> bool" where
  "accepted pcd MaxSize ns \<longleftrightarrow> path_length ns + 4 \<le> MaxSize \<and> (pcd > 0 \<longrightarrow> length ns < pcd)"

lemma valid_iff:
  assumes "MaxSize \<le> MAX_UINTN"
  shows "IsDevicePathValid m pcd DevicePath MaxSize \<longleftrightarrow>
    (\<exists>p ns. DevicePath = Some p \<and> path_at m p ns \<and> accepted pcd (if MaxSize = 0 then MAX_UINTN else MaxSize) ns)"
proof (cases DevicePath)
  case (Some p)
  consider (small) "0 < MaxSize" "MaxSize < 4" | (ok) "MaxSize = 0 \<or> 4 \<le> MaxSize" by linarith
  then show ?thesis
  proof cases
    case small
    then show ?thesis using Some by (simp add: IsDevicePathValid_def accepted_def)
  next
    case ok
    let ?M = "if MaxSize = 0 then MAX_UINTN else MaxSize"
    have "IsDevicePathValid m pcd DevicePath MaxSize = IsDevicePathValid_loop m pcd ?M 0 0 p"
      using ok Some by (auto simp: IsDevicePathValid_def)
    then show ?thesis
      using valid_loop_iff[of ?M 0 pcd 0 m p] ok assms Some by (auto simp: accepted_def)
  qed
qed (simp add: IsDevicePathValid_def)

section \<open>Walking, sizes and copies\<close>

lemma walk_end: "path_at m p ns \<Longrightarrow> length ns < k \<Longrightarrow> walk_until IsDevicePathEnd k m p = Ret (p + path_length ns)"
proof (induction ns arbitrary: p k)
  case Nil
  then show ?case by (cases k) simp_all
next
  case (Cons n ns)
  then obtain j where "k = Suc j" by (cases k) auto
  with Cons show ?case by (auto simp: node_at_def NextDevicePathNode_def add.assoc)
qed

lemma path_at_end: "path_at m p ns \<Longrightarrow> path_at m (p + path_length ns) []"
  by (induction ns arbitrary: p) (auto simp flip: add.assoc)

lemma path_at_append:
  "path_at m p (ns @ ms) \<longleftrightarrow> (\<forall>i < length ns. node_at m (p + path_length (take i ns)) (ns ! i)) \<and> path_at m (p + path_length ns) ms"
proof (induction ns arbitrary: p)
  case (Cons n ns)
  have *: "(\<forall>i < length (n # ns). Q i) \<longleftrightarrow> Q 0 \<and> (\<forall>i < length ns. Q (Suc i))" for Q
    by (auto simp: less_Suc_eq_0_disj)
  show ?case by (subst *) (simp add: Cons.IH add.assoc)
qed simp

lemma GetDevicePathSize_eq:
  assumes "path_at m p ns" and "accepted pcd MAX_UINTN ns" and "length ns < k"
  shows "GetDevicePathSize pcd k m (Some p) = Ret (path_length ns + 4)"
proof -
  have "IsDevicePathValid m pcd (Some p) 0" using assms by (subst valid_iff) auto
  moreover have "DevicePathNodeLength m (p + path_length ns) = 4" using path_at_end[OF assms(1)] by simp
  ultimately show ?thesis
    using walk_end[OF assms(1,3)] by (simp add: GetDevicePathSize_def UefiDevicePathLibGetDevicePathSize_def)
qed

lemma node_at_copy:
  assumes "node_at m p n" and "\<And>i. i < length n \<Longrightarrow> m' (q + i) = m (p + i)"
  shows "node_at m' q n"
proof -
  have l: "4 \<le> length n" "n = map m [p..<p + length n]" using assms(1) unfolding node_at_def by blast+
  have ne: "n \<noteq> []" using l(1) by auto
  have e: "map m' [q..<q + length n] = map m [p..<p + length n]"
    using assms(2) by (intro nth_equalityI) simp_all
  have b: "m' q = m p" "m' (Suc q) = m (Suc p)" "m' (Suc (Suc q)) = m (Suc (Suc p))"
    "m' (Suc (Suc (Suc q))) = m (Suc (Suc (Suc p)))"
    using assms(2)[of 0] assms(2)[of 1] assms(2)[of 2] assms(2)[of 3] l(1) ne
    by (auto simp: numeral_eq_Suc)
  have c: "m' (q + length n - 2) = m (p + length n - 2)" "m' (q + length n - Suc 0) = m (p + length n - Suc 0)"
    using assms(2)[of "length n - 2"] assms(2)[of "length n - 1"] l(1) by simp_all
  have d: "DevicePathNodeLength m' q = length n" "\<not> IsDevicePathEnd m' q"
    using assms(1) unfolding node_at_def by (simp_all add: node_defs b)
  have f: "m p = MEDIA_DEVICE_PATH \<and> m (p + 1) = MEDIA_FILEPATH_DP \<longrightarrow>
      m (p + length n - 2) = 0 \<and> m (p + length n - 1) = 0" using assms(1) unfolding node_at_def by blast
  show ?thesis
    unfolding node_at_def d e using l(1) d(2) f b c by (simp add: l(2)[symmetric])
qed

lemma path_at_copy:
  assumes "path_at m p ns" and "\<And>i. i < path_length ns + 4 \<Longrightarrow> m' (q + i) = m (p + i)"
  shows "path_at m' q ns"
  using assms
proof (induction ns arbitrary: p q)
  case Nil
  have "m' q = m p" "m' (q + 1) = m (p + 1)" "m' (q + 2) = m (p + 2)" "m' (q + 3) = m (p + 3)"
    using Nil(2)[of 0] Nil(2)[of 1] Nil(2)[of 2] Nil(2)[of 3] by simp_all
  with Nil(1) show ?case by (simp add: node_defs numeral_3_eq_3)
next
  case (Cons n ns)
  have c: "m' (q + i) = m (p + i)" if "i < length n + path_length ns + 4" for i
    using Cons.prems(2) that by simp
  have nd: "node_at m p n" "path_at m (p + length n) ns" using Cons.prems(1) by simp_all
  have "node_at m' q n" by (rule node_at_copy[OF nd(1)]) (rule c, simp)
  moreover have "m' (q + length n + i) = m (p + length n + i)" if "i < path_length ns + 4" for i
    using c[of "length n + i"] that by (simp only: add.assoc)
  ultimately show ?case using Cons.IH[OF nd(2)] by simp
qed

text \<open>What a library call does to the heap: a new buffer of \<open>n\<close> bytes, and nothing else is written.\<close>

definition fresh_buffer :: "heap \<Rightarrow> nat \<Rightarrow> heap \<Rightarrow> bool" where
  "fresh_buffer H n H' \<longleftrightarrow> brk H' = brk H + n \<and> (\<forall>a. a < brk H \<or> brk H + n \<le> a \<longrightarrow> bytes H' a = bytes H a)"

lemma heap_simps [simp]:
  "brk (CopyMem d s n H) = brk H" "brk (poke a b H) = brk H" "bytes (poke a b H) = (bytes H)(a := b)"
  "brk (SetDevicePathEndNode p H) = brk H"
  "bytes (CopyMem d s n H) a = (if d \<le> a \<and> a < d + n then bytes H (s + (a - d)) else bytes H a)"
  by (simp_all add: CopyMem_def poke_def SetDevicePathEndNode_def)

text \<open>A path in the used part of the heap.\<close>

definition in_heap :: "heap \<Rightarrow> nat \<Rightarrow> u8 list list \<Rightarrow> bool" where
  "in_heap H p ns \<longleftrightarrow> path_at (bytes H) p ns \<and> p + path_length ns + 4 \<le> brk H"

lemma Duplicate_eq:
  assumes p: "in_heap H p ns" and acc: "accepted pcd MAX_UINTN ns" and k: "length ns < k"
  shows "\<exists>H'. DuplicateDevicePath True pcd k (Some p) H = Ret (Some (brk H), H') \<and>
    path_at (bytes H') (brk H) ns \<and> fresh_buffer H (path_length ns + 4) H'"
proof -
  let ?n = "path_length ns + 4"
  let ?H = "CopyMem (brk H) p ?n (H\<lparr>brk := brk H + ?n\<rparr>)"
  have p': "path_at (bytes H) p ns" "p + path_length ns + 4 \<le> brk H" using p by (simp_all add: in_heap_def)
  have "path_at (bytes ?H) (brk H) ns"
    by (rule path_at_copy[OF p'(1)]) (use p'(2) in simp)
  moreover have "fresh_buffer H ?n ?H" by (auto simp: fresh_buffer_def)
  ultimately show ?thesis
    using GetDevicePathSize_eq[OF p'(1) acc k]
    by (simp add: DuplicateDevicePath_def UefiDevicePathLibDuplicateDevicePath_def AllocateCopyPool_def AllocatePool_def)
qed

lemma NodeLength_less: "DevicePathNodeLength m p < 65536"
  unfolding DevicePathNodeLength_def ReadUnaligned16_def
  using unat_byte_less[of "m (p + 2)"] unat_byte_less[of "m (p + 2 + 1)"] by linarith

text \<open>The nodes of one path, then another path.\<close>

lemma path_exchange:
  assumes "path_at m p (ns @ rest)" and "\<And>i. i < path_length ns \<Longrightarrow> m' (q + i) = m (p + i)"
    and "path_at m' (q + path_length ns) ms"
  shows "path_at m' q (ns @ ms)"
  using assms
proof (induction ns arbitrary: p q)
  case (Cons n ns)
  have nd: "node_at m p n" "path_at m (p + length n) (ns @ rest)" using Cons.prems(1) by simp_all
  have "node_at m' q n" by (rule node_at_copy[OF nd(1)]) (rule Cons.prems(2), simp)
  moreover have "m' (q + length n + i) = m (p + length n + i)" if "i < path_length ns" for i
    using Cons.prems(2)[of "length n + i"] that by (simp add: add.assoc)
  ultimately show ?case using Cons.IH[OF nd(2)] Cons.prems(3) by (simp add: add.assoc)
qed simp

lemmas path_prefix = path_exchange[where rest = "[]", simplified]

lemma AppendDevicePath_eq:
  assumes 1: "in_heap H p1 ns1" "accepted pcd MAX_UINTN ns1" "length ns1 < k"
    and 2: "in_heap H p2 ns2" "accepted pcd MAX_UINTN ns2" "length ns2 < k"
  shows "\<exists>H'. AppendDevicePath True pcd k (Some p1) (Some p2) H = Ret (Some (brk H), H') \<and>
    path_at (bytes H') (brk H) (ns1 @ ns2) \<and> fresh_buffer H (path_length (ns1 @ ns2) + 4) H'"
proof -
  let ?l1 = "path_length ns1" and ?l2 = "path_length ns2"
  let ?n = "?l1 + 4 + ?l2"
  let ?H = "CopyMem (brk H + ?l1) p2 (?l2 + 4) (CopyMem (brk H) p1 (?l1 + 4) (H\<lparr>brk := brk H + ?n\<rparr>))"
  have p: "path_at (bytes H) p1 ns1" "p1 + ?l1 + 4 \<le> brk H" "path_at (bytes H) p2 ns2" "p2 + ?l2 + 4 \<le> brk H"
    using 1(1) 2(1) by (simp_all add: in_heap_def)
  have v: "IsDevicePathValid (bytes H) pcd (Some p1) 0" "IsDevicePathValid (bytes H) pcd (Some p2) 0"
    using p 1(2) 2(2) by (subst valid_iff; auto)+
  have "path_at (bytes ?H) (brk H) (ns1 @ ns2)"
    by (rule path_prefix[OF p(1)], use p(2) in simp, rule path_at_copy[OF p(3)]) (use p(4) in simp)
  moreover have "fresh_buffer H (path_length (ns1 @ ns2) + 4) ?H" using p(2,4) by (auto simp: fresh_buffer_def)
  ultimately show ?thesis
    using GetDevicePathSize_eq[OF p(1) 1(2,3)] GetDevicePathSize_eq[OF p(3) 2(2,3)] v
    by (simp add: AppendDevicePath_def UefiDevicePathLibAppendDevicePath_def AllocatePool_def)
qed

text \<open>Appending a node makes two buffers: the node with an end, and the path.\<close>

lemma AppendDevicePathNode_eq:
  assumes 1: "in_heap H p1 ns1" "accepted pcd MAX_UINTN ns1" "length ns1 < k"
    and nd: "node_at (bytes H) q n" "q + length n \<le> brk H" and pcd: "pcd = 0 \<or> 1 < pcd" and k: "1 < k"
  shows "\<exists>H' r. AppendDevicePathNode True True pcd k (Some p1) (Some q) H = Ret (Some r, H') \<and>
    path_at (bytes H') r (ns1 @ [n]) \<and> r = brk H + length n + 4 \<and>
    fresh_buffer H (length n + 4 + (path_length ns1 + length n + 4)) H'"
proof -
  let ?H1 = "H\<lparr>brk := brk H + (length n + 4)\<rparr>"
  let ?H2 = "CopyMem (brk H) q (length n) ?H1"
  let ?H3 = "SetDevicePathEndNode (brk H + length n) ?H2"
  have l: "length n = DevicePathNodeLength (bytes H) q" "4 \<le> length n" using nd(1) unfolding node_at_def by blast+
  have b3: "bytes ?H3 a = bytes H a" if "a < brk H \<or> brk H + length n + 4 \<le> a" for a
    using that by (auto simp: SetDevicePathEndNode_def)
  have n2: "node_at (bytes ?H2) (brk H) n" by (rule node_at_copy[OF nd(1)]) simp
  have nx: "NextDevicePathNode (bytes ?H2) (brk H) = brk H + length n"
    using n2 by (simp add: NextDevicePathNode_def node_at_def)
  have n3: "node_at (bytes ?H3) (brk H) n"
    by (rule node_at_copy[OF n2]) (simp add: SetDevicePathEndNode_def)
  have "path_at (bytes ?H3) (brk H) [n]"
    using n3 by (simp add: node_defs SetDevicePathEndNode_def)
  then have h2: "in_heap ?H3 (brk H) [n]" by (simp add: in_heap_def CopyMem_def)
  have "path_at (bytes ?H3) p1 ns1"
    by (rule path_at_copy[where m = "bytes H" and p = p1]) (use 1(1) b3 in \<open>auto simp: in_heap_def\<close>)
  then have h1: "in_heap ?H3 p1 ns1" using 1(1) by (simp add: in_heap_def CopyMem_def)
  have "length n < 65536" using l(1) NodeLength_less by simp
  then have acc: "accepted pcd MAX_UINTN [n]" using pcd by (auto simp: accepted_def)
  obtain H' where H': "AppendDevicePath True pcd k (Some p1) (Some (brk H)) ?H3 = Ret (Some (brk ?H3), H')"
    "path_at (bytes H') (brk ?H3) (ns1 @ [n])" "fresh_buffer ?H3 (path_length (ns1 @ [n]) + 4) H'"
    using AppendDevicePath_eq[OF h1 1(2,3) h2 acc] k by auto
  have "fresh_buffer H (length n + 4 + (path_length ns1 + length n + 4)) H'"
    using H'(3) b3 by (auto simp: fresh_buffer_def CopyMem_def)
  then show ?thesis
    using H'(1,2) nx l(1) by (simp add: AppendDevicePathNode_def UefiDevicePathLibAppendDevicePathNode_def Let_def AllocatePool_def CopyMem_def add.assoc)
qed

text \<open>The end of an instance, and the walk to the first node of end type.\<close>

definition end_instance :: "u8 list" where
  "end_instance = [END_DEVICE_PATH_TYPE, END_INSTANCE_DEVICE_PATH_SUBTYPE, 4, 0]"

lemma end_instance_simps [simp]: "length end_instance = 4" "hd end_instance = END_DEVICE_PATH_TYPE"
  by (simp_all add: end_instance_def)

lemma node_at_end_instance:
  assumes "m p = END_DEVICE_PATH_TYPE" "m (Suc p) = END_INSTANCE_DEVICE_PATH_SUBTYPE" "m (Suc (Suc p)) = 4"
    "m (Suc (Suc (Suc p))) = 0"
  shows "node_at m p end_instance"
  using assms by (simp add: node_at_def end_instance_def node_defs upt_conv_Cons)

definition single_instance :: "u8 list list \<Rightarrow> bool" where
  "single_instance ns \<longleftrightarrow> (\<forall>n \<in> set ns. hd n \<noteq> END_DEVICE_PATH_TYPE)"

lemma end_bytes: 
  assumes "path_at m p []"
  shows "m p = END_DEVICE_PATH_TYPE" "m (Suc p) = END_ENTIRE_DEVICE_PATH_SUBTYPE" "m (Suc (Suc p)) = 4" "m (Suc (Suc (Suc p))) = 0"
proof -
  have l: "unat (m (Suc (Suc p))) + 256 * unat (m (Suc (Suc (Suc p)))) = 4" using assms by (simp add: node_defs)
  then have "unat (m (Suc (Suc (Suc p)))) = 0" "unat (m (Suc (Suc p))) = 4" by arith+
  then show "m (Suc (Suc p)) = 4" "m (Suc (Suc (Suc p))) = 0" by (simp_all add: word_unat_eq_iff)
  show "m p = END_DEVICE_PATH_TYPE" "m (Suc p) = END_ENTIRE_DEVICE_PATH_SUBTYPE" using assms by (simp_all add: node_defs)
qed

lemma node_at_hd:
  assumes "node_at m p n" shows "hd n = m p"
proof -
  have n: "n = map m [p..<p + length n]" and l: "4 \<le> length n" using assms unfolding node_at_def by blast+
  have "p < p + length n" using l by linarith
  then have "hd (map m [p..<p + length n]) = m p" by (simp add: upt_conv_Cons)
  then show ?thesis by (simp only: n[symmetric])
qed

lemma walk_end_type:
  assumes "path_at m p (ns @ ms)" and "single_instance ns" and "length ns < k"
    and "ms = [] \<or> hd (hd ms) = END_DEVICE_PATH_TYPE"
  shows "walk_until IsDevicePathEndType k m p = Ret (p + path_length ns)"
  using assms(1,2,3)
proof (induction ns arbitrary: p k)
  case Nil
  then obtain j where k: "k = Suc j" by (cases k) auto
  have "m p = END_DEVICE_PATH_TYPE"
  proof (cases ms)
    case Nil
    then show ?thesis using Nil.prems(1) by (simp add: node_defs)
  next
    case (Cons n l)
    then show ?thesis using Nil.prems(1) node_at_hd[of m p n] assms(4) by simp
  qed
  then show ?case using k by (simp add: IsDevicePathEndType_def DevicePathType_def)
next
  case (Cons n ns)
  then obtain j where k: "k = Suc j" by (cases k) auto
  have nd: "node_at m p n" "path_at m (p + length n) (ns @ ms)" using Cons.prems(1) by simp_all
  have "\<not> IsDevicePathEndType m p" using Cons.prems(2) node_at_hd[OF nd(1)] by (simp add: single_instance_def IsDevicePathEndType_def DevicePathType_def)
  moreover have "NextDevicePathNode m p = p + length n" using nd(1) by (simp add: node_at_def NextDevicePathNode_def)
  ultimately show ?case using Cons.IH[OF nd(2), of j] Cons.prems(2,3) k by (simp add: single_instance_def add.assoc)
qed


lemma AppendDevicePathInstance_eq:
  assumes 1: "in_heap H p1 ns1" "accepted pcd MAX_UINTN ns1" "length ns1 < k"
    and 2: "in_heap H p2 ns2" "accepted pcd MAX_UINTN ns2" "length ns2 < k"
  shows "\<exists>H'. AppendDevicePathInstance True pcd k (Some p1) (Some p2) H = Ret (Some (brk H), H') \<and>
    path_at (bytes H') (brk H) (ns1 @ end_instance # ns2) \<and>
    fresh_buffer H (path_length (ns1 @ end_instance # ns2) + 4) H'"
proof -
  let ?l1 = "path_length ns1" and ?l2 = "path_length ns2"
  let ?n = "?l1 + 4 + (?l2 + 4)" and ?r = "brk H" and ?e = "brk H + path_length ns1"
  let ?H2 = "CopyMem ?r p1 (?l1 + 4) (H\<lparr>brk := ?r + ?n\<rparr>)"
  let ?H3 = "poke (Suc ?e) END_INSTANCE_DEVICE_PATH_SUBTYPE ?H2"
  let ?H = "CopyMem (?e + 4) p2 (?l2 + 4) ?H3"
  have p: "path_at (bytes H) p1 ns1" "p1 + ?l1 + 4 \<le> brk H" "path_at (bytes H) p2 ns2" "p2 + ?l2 + 4 \<le> brk H"
    using 1(1) 2(1) by (simp_all add: in_heap_def)
  have v: "IsDevicePathValid (bytes H) pcd (Some p1) 0" "IsDevicePathValid (bytes H) pcd (Some p2) 0"
    using p 1(2) 2(2) by (subst valid_iff; auto)+
  have p2: "path_at (bytes ?H2) ?r ns1" by (rule path_at_copy[OF p(1)]) (use p(2) in simp)
  note w = walk_end[OF p2 1(3)]
  note eb = end_bytes[OF path_at_end[OF p2]]
  have nx: "NextDevicePathNode (bytes ?H3) ?e = ?e + 4"
    using eb by (simp add: node_defs)
  have E: "node_at (bytes ?H) ?e end_instance"
    using eb by (intro node_at_end_instance) simp_all
  have "path_at (bytes ?H) (?e + 4) ns2"
    by (rule path_at_copy[OF p(3)]) (use p(4) in simp)
  then have "path_at (bytes ?H) ?e (end_instance # ns2)" using E by simp
  then have "path_at (bytes ?H) ?r (ns1 @ end_instance # ns2)"
    by (intro path_prefix[OF p(1)]) (use p(2) in simp_all)
  moreover have "fresh_buffer H (path_length (ns1 @ end_instance # ns2) + 4) ?H"
    using p(2,4) by (auto simp: fresh_buffer_def)
  ultimately show ?thesis
    using GetDevicePathSize_eq[OF p(1) 1(2,3)] GetDevicePathSize_eq[OF p(3) 2(2,3)] v w nx
    by (simp add: AppendDevicePathInstance_def UefiDevicePathLibAppendDevicePathInstance_def AllocatePool_def Let_def)
qed

text \<open>Taking the first instance of a path with a further one.\<close>

lemma GetNextInstance_eq:
  assumes 1: "in_heap H p (ns @ end_instance # ms)" "accepted pcd MAX_UINTN (ns @ end_instance # ms)"
    and s: "single_instance ns" and k: "length ns < k"
  shows "\<exists>H'. GetNextDevicePathInstance True pcd k (Some p) H =
      Ret (Some (brk H), Some (p + path_length ns + 4), Some (path_length ns + 4), H') \<and>
    path_at (bytes H') (brk H) ns \<and> fresh_buffer H (path_length ns + 4) H' \<and>
    path_at (bytes H') (p + path_length ns + 4) ms"
proof -
  let ?e = "p + path_length ns"
  let ?H1 = "poke (Suc ?e) END_ENTIRE_DEVICE_PATH_SUBTYPE H"
  have pp: "path_at (bytes H) p (ns @ end_instance # ms)" "?e + path_length ms + 8 \<le> brk H"
    using 1(1) by (simp_all add: in_heap_def)
  have v: "IsDevicePathValid (bytes H) pcd (Some p) 0" using pp(1) 1(2) by (subst valid_iff) auto
  have w: "walk_until IsDevicePathEndType k (bytes H) p = Ret ?e"
    by (rule walk_end_type[OF pp(1) s k]) simp
  have E: "node_at (bytes H) ?e end_instance" "path_at (bytes H) (?e + 4) ms"
    using pp(1) by (simp_all add: path_at_append)
  have eb: "bytes H ?e = END_DEVICE_PATH_TYPE" "bytes H (Suc ?e) = END_INSTANCE_DEVICE_PATH_SUBTYPE"
    "bytes H (Suc (Suc ?e)) = 4" "bytes H (Suc (Suc (Suc ?e))) = 0"
    using E(1) unfolding node_at_def end_instance_def by (simp_all add: upt_conv_Cons)
  have "path_at (bytes ?H1) ?e []" using eb by (simp add: node_defs)
  then have "path_at (bytes ?H1) p (ns @ [])"
    by (intro path_exchange[OF pp(1)]) simp_all
  then have h1: "in_heap ?H1 p ns" using pp(2) by (simp add: in_heap_def)
  have acc: "accepted pcd MAX_UINTN ns" using 1(2) by (auto simp: accepted_def)
  obtain H2 where H2: "DuplicateDevicePath True pcd k (Some p) ?H1 = Ret (Some (brk H), H2)"
    "path_at (bytes H2) (brk H) ns" "fresh_buffer ?H1 (path_length ns + 4) H2"
    using Duplicate_eq[OF h1 acc k] by auto
  let ?H3 = "poke (Suc ?e) END_INSTANCE_DEVICE_PATH_SUBTYPE H2"
  have f: "fresh_buffer H (path_length ns + 4) ?H3"
    using H2(3) eb(2) pp(2) by (auto simp: fresh_buffer_def)
  then have same: "bytes ?H3 a = bytes H a" if "a < brk H" for a using that by (simp add: fresh_buffer_def)
  have "bytes ?H3 (Suc (Suc ?e)) = 4" "bytes ?H3 (Suc (Suc (Suc ?e))) = 0"
    using same[of "Suc (Suc ?e)"] same[of "Suc (Suc (Suc ?e))"] eb pp(2) by simp_all
  then have nx: "NextDevicePathNode (bytes ?H3) ?e = ?e + 4" by (simp add: node_defs)
  have "path_at (bytes ?H3) (brk H) ns"
    by (rule path_at_copy[OF H2(2)]) (use pp(2) in auto)
  moreover have "path_at (bytes ?H3) (?e + 4) ms"
    by (rule path_at_copy[OF E(2)]) (rule same, use pp(2) in linarith)
  ultimately show ?thesis
    using v w H2(1) f eb(2) nx
    by (simp add: GetNextDevicePathInstance_def UefiDevicePathLibGetNextDevicePathInstance_def Let_def DevicePathSubType_def)
qed

section \<open>Properties\<close>

text \<open>C34: a device path is accepted exactly when it is a list of well-formed nodes followed by a 4-byte end
  node, within the size limit and the node limit; a NULL pointer never is.\<close>

theorem valid_is_node_list:
  assumes "MaxSize \<le> MAX_UINTN"
  shows "IsDevicePathValid m pcd DevicePath MaxSize \<longleftrightarrow>
    (\<exists>p ns. DevicePath = Some p \<and> path_at m p ns \<and> accepted pcd (if MaxSize = 0 then MAX_UINTN else MaxSize) ns)"
  by (rule valid_iff[OF assms])

text \<open>C35: appending two valid paths returns, with one unit of fuel more than either has nodes, a new buffer
  just past the used heap that holds the nodes of both and one end, and writes nothing outside it.\<close>

theorem append_concatenates:
  assumes "in_heap H p1 ns1" and "accepted pcd MAX_UINTN ns1" and "length ns1 < k"
    and "in_heap H p2 ns2" and "accepted pcd MAX_UINTN ns2" and "length ns2 < k"
  shows "\<exists>H'. AppendDevicePath True pcd k (Some p1) (Some p2) H = Ret (Some (brk H), H') \<and>
    path_at (bytes H') (brk H) (ns1 @ ns2) \<and> brk H' = brk H + path_length ns1 + path_length ns2 + 4 \<and>
    (\<forall>a. a < brk H \<or> brk H' \<le> a \<longrightarrow> bytes H' a = bytes H a)"
  using AppendDevicePath_eq[OF assms] by (auto simp: fresh_buffer_def)

text \<open>C36: splitting undoes joining: the first instance taken from a path to which an instance was appended
  is a copy of that path, the rest is the instance, and neither input nor the joined path is changed.\<close>

theorem instance_roundtrip:
  assumes "in_heap H p1 ns1" and "accepted pcd MAX_UINTN ns1" and "length ns1 < k"
    and "in_heap H p2 ns2" and "accepted pcd MAX_UINTN ns2" and "length ns2 < k"
    and "accepted pcd MAX_UINTN (ns1 @ end_instance # ns2)" and "single_instance ns1"
  shows "\<exists>H1 H2 r. AppendDevicePathInstance True pcd k (Some p1) (Some p2) H = Ret (Some r, H1) \<and>
    GetNextDevicePathInstance True pcd k (Some r) H1 =
      Ret (Some (brk H1), Some (r + path_length ns1 + 4), Some (path_length ns1 + 4), H2) \<and>
    path_at (bytes H2) (brk H1) ns1 \<and> path_at (bytes H2) (r + path_length ns1 + 4) ns2 \<and>
    (\<forall>a < brk H. bytes H2 a = bytes H a) \<and> (\<forall>a < brk H1. bytes H2 a = bytes H1 a)"
proof -
  obtain H1 where H1: "AppendDevicePathInstance True pcd k (Some p1) (Some p2) H = Ret (Some (brk H), H1)"
    "path_at (bytes H1) (brk H) (ns1 @ end_instance # ns2)"
    "fresh_buffer H (path_length (ns1 @ end_instance # ns2) + 4) H1"
    using AppendDevicePathInstance_eq[OF assms(1-6)] by blast
  have "in_heap H1 (brk H) (ns1 @ end_instance # ns2)" using H1(2,3) by (simp add: in_heap_def fresh_buffer_def)
  from GetNextInstance_eq[OF this assms(7,8,3)] H1 show ?thesis by (auto simp: fresh_buffer_def)
qed

text \<open>Two paths in a heap: a PCI node, and a PCI node with a USB node.\<close>

definition demo_bytes :: "u8 list" where
  "demo_bytes = [1, 1, 6, 0, 0, 3, 0x7F, 0xFF, 4, 0, 1, 1, 6, 0, 0, 4, 3, 5, 6, 0, 2, 0, 0x7F, 0xFF, 4, 0]"

definition demo_heap :: heap where
  "demo_heap = \<lparr>bytes = (\<lambda>a. if 16 \<le> a \<and> a < 42 then demo_bytes ! (a - 16) else 0), brk = 48\<rparr>"

lemma demo_heap: "in_heap demo_heap 16 [[1, 1, 6, 0, 0, 3]]" "in_heap demo_heap 26 [[1, 1, 6, 0, 0, 4], [3, 5, 6, 0, 2, 0]]"
  by code_simp+

lemma valid_is_node_list_witness:
  "IsDevicePathValid (bytes demo_heap) 0 (Some 26) 16 \<and> \<not> IsDevicePathValid (bytes demo_heap) 0 (Some 26) 15"
proof -
  let ?ns = "[[1, 1, 6, 0, 0, 4], [3, 5, 6, 0, 2, 0]] :: u8 list list"
  have p: "path_at (bytes demo_heap) 26 ?ns" using demo_heap(2) by (simp add: in_heap_def)
  have l: "path_length ?ns = 12" by simp
  have "accepted 0 16 ?ns" "\<not> accepted 0 15 ?ns" unfolding accepted_def l by simp_all
  moreover have "IsDevicePathValid (bytes demo_heap) 0 (Some 26) M \<longleftrightarrow>
      (\<exists>q ns. Some 26 = Some q \<and> path_at (bytes demo_heap) q ns \<and> accepted 0 (if M = 0 then MAX_UINTN else M) ns)"
    if "M \<le> MAX_UINTN" for M
    by (rule valid_is_node_list[OF that])
  from this[of 16] this[of 15] have "IsDevicePathValid (bytes demo_heap) 0 (Some 26) 16 \<longleftrightarrow> (\<exists>ns. path_at (bytes demo_heap) 26 ns \<and> accepted 0 16 ns)"
    "IsDevicePathValid (bytes demo_heap) 0 (Some 26) 15 \<longleftrightarrow> (\<exists>ns. path_at (bytes demo_heap) 26 ns \<and> accepted 0 15 ns)"
    by simp_all
  ultimately show ?thesis using p path_at_unique[OF p] by metis
qed

lemma append_concatenates_witness:
  "\<exists>H'. AppendDevicePath True 0 3 (Some 16) (Some 26) demo_heap = Ret (Some 48, H') \<and>
    path_at (bytes H') 48 [[1, 1, 6, 0, 0, 3], [1, 1, 6, 0, 0, 4], [3, 5, 6, 0, 2, 0]]"
  using append_concatenates[OF demo_heap(1) _ _ demo_heap(2), of 0 3]
  by (auto simp: accepted_def demo_heap_def)

lemma instance_roundtrip_witness:
  "\<exists>H1 H2 r. AppendDevicePathInstance True 0 3 (Some 16) (Some 26) demo_heap = Ret (Some r, H1) \<and>
    (\<exists>c q. GetNextDevicePathInstance True 0 3 (Some r) H1 = Ret (Some c, Some q, Some 10, H2) \<and>
      path_at (bytes H2) c [[1, 1, 6, 0, 0, 3]] \<and> path_at (bytes H2) q [[1, 1, 6, 0, 0, 4], [3, 5, 6, 0, 2, 0]])"
  using instance_roundtrip[OF demo_heap(1) _ _ demo_heap(2), of 0 3]
  by (fastforce simp: accepted_def single_instance_def)

end
