(* ===== verification/ProtocolPath.thy ===== *)
theory ProtocolPath
  imports ProtocolMultiple DevicePathSpec
begin

text \<open>
  \<open>CoreLocateDevicePath\<close>: the handle whose device path is the longest prefix of a given path, as a
  function of the instances in the database, and the failed assertion on matches of equal length.
\<close>

section \<open>The first instance of a path and its bytes\<close>

lemma walk_single:
  "path_at m p ns \<Longrightarrow> single_instance ns \<Longrightarrow> length ns < k \<Longrightarrow>
     walk_until (\<lambda>m p. IsDevicePathEnd m p \<or> IsDevicePathEndInstance m p) k m p = Ret (p + path_length ns)"
proof (induction ns arbitrary: p k)
  case Nil
  then show ?case by (cases k) simp_all
next
  case (Cons n ns)
  then obtain j where k: "k = Suc j" by (cases k) auto
  have nd: "node_at m p n" "path_at m (p + length n) ns" using Cons.prems(1) by simp_all
  have "\<not> IsDevicePathEndType m p" using Cons.prems(2) node_at_hd[OF nd(1)]
    by (simp add: single_instance_def IsDevicePathEndType_def DevicePathType_def)
  moreover have "NextDevicePathNode m p = p + length n" using nd(1) by (simp add: node_at_def NextDevicePathNode_def)
  ultimately show ?case using Cons.IH[OF nd(2), of j] Cons.prems(2,3) k
    by (simp add: single_instance_def IsDevicePathEnd_def IsDevicePathEndInstance_def add.assoc)
qed

lemma path_bytes: "path_at m p ns \<Longrightarrow> map m [p..<p + path_length ns] = concat ns"
proof (induction ns arbitrary: p)
  case (Cons n ns)
  have nd: "n = map m [p..<p + length n]" using Cons.prems unfolding path_at.simps node_at_def by blast
  have "[p..<p + (length n + path_length ns)] = [p..<p + length n] @ [p + length n..<p + length n + path_length ns]"
    by (metis add.assoc le_add1 upt_add_eq_append)
  moreover have "map m [p + length n..<p + length n + path_length ns] = concat ns" using Cons by simp
  ultimately show ?case using nd by (simp only: path_length_simps map_append concat.simps)
qed simp

text \<open>The handle whose path is the longest prefix; \<open>None\<close> when a match is as long as the best one so far.\<close>

fun best_match :: "u8 list \<Rightarrow> (nat \<Rightarrow> u8 list list option) \<Rightarrow> int \<Rightarrow> ptr \<Rightarrow> nat list \<Rightarrow> (int \<times> ptr) option" where
  "best_match sb P b d [] = Some (b, d)"
| "best_match sb P b d (h # l) =
     (case P h of None \<Rightarrow> best_match sb P b d l
      | Some ns \<Rightarrow>
        if take (path_length ns) sb = concat ns then
          if int (path_length ns) = b then None
          else if b < int (path_length ns) then best_match sb P (int (path_length ns)) (Some h) l
          else best_match sb P b d l
        else best_match sb P b d l)"

text \<open>Which device path a handle has.\<close>

definition paths_on :: "'x db \<Rightarrow> nat \<Rightarrow> nat \<Rightarrow> nat list \<Rightarrow> (nat \<Rightarrow> u8 list list option) \<Rightarrow> bool" where
  "paths_on s pcd k hs P \<longleftrightarrow> (\<forall>h \<in> set hs. handles s h \<noteq> None \<and>
     (case P h of None \<Rightarrow> \<forall>v. \<not> provides s h gEfiDevicePathProtocolGuid v
      | Some ns \<Rightarrow> \<exists>p. provides s h gEfiDevicePathProtocolGuid (Some p) \<and> path_at (memory s) p ns \<and>
          accepted pcd MAX_UINTN ns \<and> length ns < k))"

lemma same_bytes:
  assumes "map m [a..<a + n] = map m [b..<b + n]"
  shows "\<forall>i < n. m (a + i) = m (b + i)"
proof (intro allI impI)
  fix i assume "i < n"
  then have "map m [a..<a + n] ! i = m (a + i)" "map m [b..<b + n] ! i = m (b + i)" by simp_all
  then show "m (a + i) = m (b + i)" using assms by simp
qed

lemma prefix_bytes:
  assumes p: "path_at m p ns" and n: "N = map m [src..<src + sz]"
  shows "(path_length ns \<le> sz \<and> (\<forall>i < path_length ns. m (src + i) = m (p + i))) \<longleftrightarrow> take (path_length ns) N = concat ns"
proof -
  have l: "length (concat ns) = path_length ns" by (simp add: path_length_def)
  have t: "take (path_length ns) N = map m [src..<src + min (path_length ns) sz]"
    unfolding n take_map by (simp add: take_upt min_def)
  show ?thesis
  proof
    assume a: "path_length ns \<le> sz \<and> (\<forall>i < path_length ns. m (src + i) = m (p + i))"
    then have "map m [src..<src + path_length ns] = map m [p..<p + path_length ns]"
      by (intro nth_equalityI) simp_all
    then show "take (path_length ns) N = concat ns" using t a path_bytes[OF p] by (simp add: min_def)
  next
    assume a: "take (path_length ns) N = concat ns"
    then have "length (take (path_length ns) N) = path_length ns" using l by simp
    then have le: "path_length ns \<le> sz" using n by simp
    then have "map m [src..<src + path_length ns] = map m [p..<p + path_length ns]"
      using a t path_bytes[OF p] by (simp add: min_def)
    from same_bytes[OF this] le show "path_length ns \<le> sz \<and> (\<forall>i < path_length ns. m (src + i) = m (p + i))" by blast
  qed
qed

lemma BestMatch_loop_eq:
  fixes s :: "'x db" and rst :: "'x db_restore"
  assumes r: "tpl_restore_total rst" and m: "mem AllocOpenData"
  shows "may_enter s \<Longrightarrow> db_inv s \<Longrightarrow> paths_on s pcd k hs P \<Longrightarrow> N = map (memory s) [src..<src + sz] \<Longrightarrow>
    \<exists>s'. BestMatch_loop rst disc mem k pcd src sz b d hs s =
      (case best_match N P b d hs of None \<Rightarrow> Assert | Some (b', d') \<Rightarrow> Ret (b', d', s')) \<and> opens_only s s'"
proof (induction hs arbitrary: b d s)
  case Nil
  then show ?case using opens_only_refl by auto
next
  case (Cons h hs)
  let ?g = gEfiDevicePathProtocolGuid
  have hl: "live s (Some h)" using Cons.prems(3) by (simp add: paths_on_def)
  obtain s1 where s1: "CoreHandleProtocol rst disc mem k (Some h) (Some ?g) True s =
     Ret (if \<exists>v. provides s h ?g v then (EFI_SUCCESS, Some (THE v. provides s h ?g v), s1) else (EFI_UNSUPPORTED, Some None, s1))"
     "opens_only s s1"
  proof -
    from HandleProtocol_eq[where mem = mem, OF r Cons.prems(1,2), of disc k "Some h" ?g] m
    obtain s' where "CoreHandleProtocol rst disc mem k (Some h) (Some ?g) True s =
      Ret (if \<not> live s (Some h) then (EFI_INVALID_PARAMETER, None, s')
          else if \<exists>v. provides s (the (Some h)) ?g v then (EFI_SUCCESS, Some (THE v. provides s (the (Some h)) ?g v), s')
          else (EFI_UNSUPPORTED, Some None, s'))" "opens_only s s'" by blast
    then show thesis using that[of s'] hl by (simp del: live_simps)
  qed
  note d1 = opens_onlyD[OF s1(2)] and pr = opens_only_provides(2)[OF s1(2)]
  have en: "may_enter s1" by (rule opens_only_enter[OF Cons.prems(1) s1(2)])
  have po: "paths_on s1 pcd k hs P" using Cons.prems(3) unfolding paths_on_def d1(3,10) pr by simp
  have N1: "N = map (memory s1) [src..<src + sz]" using Cons.prems(4) d1 by simp
  have step: "\<exists>s'. BestMatch_loop rst disc mem k pcd src sz b d hs s1 =
      (case best_match N P b d hs of None \<Rightarrow> Assert | Some (b', d') \<Rightarrow> Ret (b', d', s')) \<and> opens_only s s'" for b d
    using Cons.IH[OF en d1(2) po N1, of b d] opens_only_trans[OF s1(2)] by blast
  show ?case
  proof (cases "P h")
    case None
    then have "\<not> (\<exists>v. provides s h ?g v)" using Cons.prems(3) by (simp add: paths_on_def)
    then show ?thesis using s1(1) None step[of b d] by simp
  next
    case (Some ns)
    then obtain p where p: "provides s h ?g (Some p)" "path_at (memory s) p ns" "accepted pcd MAX_UINTN ns" "length ns < k"
      using Cons.prems(3) by (auto simp: paths_on_def)
    have "(THE v. provides s h ?g v) = Some p" using p(1) provides_unique[OF Cons.prems(2)] by blast
    then have c: "CoreHandleProtocol rst disc mem k (Some h) (Some ?g) True s = Ret (EFI_SUCCESS, Some (Some p), s1)"
      using s1(1) p(1) by auto
    have gs: "GetDevicePathSize pcd k (memory s1) (Some p) = Ret (path_length ns + 4)"
      using GetDevicePathSize_eq[OF p(2,3,4)] d1 by simp
    have pb: "(path_length ns \<le> sz \<and> (\<forall>i < path_length ns. memory s1 (src + i) = memory s1 (p + i))) \<longleftrightarrow> take (path_length ns) N = concat ns"
      using prefix_bytes[OF p(2) Cons.prems(4)] d1 by simp
    let ?n = "path_length ns"
    have "BestMatch_loop rst disc mem k pcd src sz b d (h # hs) s =
      (if take ?n N = concat ns then ASSERT (int ?n \<noteq> b)
         (if int ?n > b then BestMatch_loop rst disc mem k pcd src sz (int ?n) (Some h) hs s1
          else BestMatch_loop rst disc mem k pcd src sz b d hs s1)
       else BestMatch_loop rst disc mem k pcd src sz b d hs s1)"
      using c gs pb by (simp add: Let_def)
    then show ?thesis using Some step[of "int ?n" "Some h"] step[of b d] s1(2) by (auto simp: ASSERT_def)
  qed
qed

lemma opens_only_request: "opens_only s s' \<Longrightarrow> request_inv s \<Longrightarrow> request_inv s'"
  using keptD(3)[OF opens_only_kept] by blast

text \<open>\<open>CoreLocateDevicePath\<close> on a single-instance path: the longest prefix among the handles of the
  protocol, or a failed assertion.\<close>

lemma LocateDevicePath_eq:
  fixes s :: "'x db" and rst :: "'x db_restore"
  assumes r: "tpl_restore_total rst" and s: "may_enter s" and inv: "db_inv s" and q: "request_inv s"
    and w: "unat (mEfiLocateHandleRequest s) + 2 < 2 ^ 64" and n: "8 * length (instances s g) < 2 ^ 64" and m: "\<forall>x. mem x"
    and src: "path_at (memory s) src ns" "single_instance ns" "length ns < k"
    and P: "paths_on s pcd k (map fst (instances s g)) P" and ne: "instances s g \<noteq> []"
  shows "\<exists>s'. CoreLocateDevicePath rst disc mem k pcd (Some g) (Some (Some src)) True s =
    (case best_match (concat ns) P (- 1) None (map fst (instances s g)) of None \<Rightarrow> Assert
     | Some (b, d) \<Rightarrow> Ret (if b = - 1 then (EFI_NOT_FOUND, None, Some src, s') else (EFI_SUCCESS, d, Some (src + nat b), s'))) \<and>
    db_inv s' \<and> svc s s' \<and> instances s' = instances s"
proof -
  let ?hs = "map fst (instances s g)"
  have mb: "mem AllocBuffer" "mem AllocOpenData" using m by simp_all
  obtain s1 where s1: "CoreLocateHandleBuffer rst mem ByProtocol (Some g) None True True s =
      Ret (EFI_SUCCESS, of_nat (length (instances s g)), Some ?hs, s1)" "db_inv s1" "svc s s1" "instances s1 = instances s"
      "memory s1 = memory s" "\<forall>h. handles s1 h \<noteq> None \<longleftrightarrow> handles s h \<noteq> None"
    using LocateHandleBuffer_ByProtocol[where mem = mem, OF r s inv q w n mb(1), of None] ne by auto
  have en: "may_enter s1" by (rule may_enter_svc[OF s s1(3)])
  have P1: "paths_on s1 pcd k ?hs P"
  proof -
    have "provides s1 = provides s"
      using provides_instances[OF inv] provides_instances[OF s1(2)] s1(4) by (simp add: fun_eq_iff)
    then show ?thesis using P unfolding paths_on_def s1(5) s1(6)[rule_format] by (simp only:)
  qed
  have N: "concat ns = map (memory s1) [src..<src + path_length ns]" using path_bytes[OF src(1)] s1(5) by simp
  obtain s2 where s2: "BestMatch_loop rst disc mem k pcd src (path_length ns) (- 1) None ?hs s1 =
      (case best_match (concat ns) P (- 1) None ?hs of None \<Rightarrow> Assert | Some (b', d') \<Rightarrow> Ret (b', d', s2))" "opens_only s1 s2"
    using BestMatch_loop_eq[where mem = mem, OF r mb(2) en s1(2) P1 N] by blast
  have z: "(of_nat (length (instances s g)) :: u64) \<noteq> 0"
  proof -
    have "unat (of_nat (length (instances s g)) :: u64) = length (instances s g)" using n by (intro unat_of_nat_u64) simp
    then show ?thesis using ne by (metis length_0_conv unat_0)
  qed
  have c: "CoreLocateDevicePath rst disc mem k pcd (Some g) (Some (Some src)) True s =
    (case best_match (concat ns) P (- 1) None ?hs of None \<Rightarrow> Assert
     | Some (b, d) \<Rightarrow> Ret (if b = - 1 then (EFI_NOT_FOUND, None, Some src, s2) else (EFI_SUCCESS, d, Some (src + nat b), s2)))"
    using walk_single[OF src] s1(1) s2(1) z by (simp add: CoreLocateDevicePath_def split: option.split)
  note d = opens_onlyD[OF s2(2)]
  have "db_inv s2 \<and> svc s s2 \<and> instances s2 = instances s"
    using d(1,2) opens_only_view(1)[OF s2(2)] s1(4) svc_trans[OF s1(3)] by simp
  with c show ?thesis by (intro exI[of _ s2]) simp
qed

section \<open>Which handle wins\<close>

text \<open>With matches of different lengths the result is the longest.\<close>

definition matches :: "u8 list \<Rightarrow> (nat \<Rightarrow> u8 list list option) \<Rightarrow> nat \<Rightarrow> u8 list list \<Rightarrow> bool" where
  "matches sb P h ns \<longleftrightarrow> P h = Some ns \<and> take (path_length ns) sb = concat ns"

lemma best_match_Some:
  "best_match sb P b d hs = Some (b', d') \<Longrightarrow>
     b \<le> b' \<and> (\<forall>h \<in> set hs. \<forall>ns. matches sb P h ns \<longrightarrow> int (path_length ns) \<le> b') \<and>
     (b' = b \<and> d' = d \<or> (\<exists>h \<in> set hs. \<exists>ns. matches sb P h ns \<and> d' = Some h \<and> b' = int (path_length ns)))"
proof (induction sb P b d hs rule: best_match.induct)
  case (2 sb P b d h l)
  show ?case
  proof (cases "\<exists>ns. matches sb P h ns")
    case True
    then obtain ns where ns: "P h = Some ns" "take (path_length ns) sb = concat ns" by (auto simp: matches_def)
    then have m: "matches sb P h ms \<longleftrightarrow> ms = ns" for ms by (auto simp: matches_def)
    have ne: "int (path_length ns) \<noteq> b" using 2(5) ns by auto
    show ?thesis
    proof (cases "b < int (path_length ns)")
      case True
      then have r: "best_match sb P (int (path_length ns)) (Some h) l = Some (b', d')" using 2(5) ns by simp
      note IH = 2(2)[OF ns ne True r]
      show ?thesis using IH m True by force
    next
      case False
      then have r: "best_match sb P b d l = Some (b', d')" using 2(5) ns ne by simp
      note IH = 2(3)[OF ns ne False r]
      show ?thesis using IH m False by force
    qed
  next
    case False
    then have "best_match sb P b d l = Some (b', d')" using 2(5) by (auto simp: matches_def split: option.splits if_splits)
    then show ?thesis using 2(1,4) False by (cases "P h") (auto simp: matches_def)
  qed
qed simp

lemma best_match_total:
  "distinct hs \<Longrightarrow> \<forall>h \<in> set hs. \<forall>ns. matches sb P h ns \<longrightarrow> int (path_length ns) \<noteq> b \<Longrightarrow>
   \<forall>h \<in> set hs. \<forall>h' \<in> set hs. \<forall>ns ns'. matches sb P h ns \<longrightarrow> matches sb P h' ns' \<longrightarrow> h \<noteq> h' \<longrightarrow>
      path_length ns \<noteq> path_length ns' \<Longrightarrow>
   best_match sb P b d hs \<noteq> None"
proof (induction sb P b d hs rule: best_match.induct)
  case (2 sb P b d h l)
  then show ?case by (auto simp: matches_def split: option.splits) metis+
qed simp

text \<open>Two matches of the same length among the longest prefixes fail the assertion.\<close>

lemma best_match_append:
  "best_match sb P b d (xs @ ys) = (case best_match sb P b d xs of None \<Rightarrow> None | Some (b', d') \<Rightarrow> best_match sb P b' d' ys)"
  by (induction sb P b d xs rule: best_match.induct) (auto split: option.split)

lemma best_match_tie:
  assumes h: "matches sb P h ns" "matches sb P h' ns'" "path_length ns' = path_length ns" "hs = xs @ h # ys @ h' # zs"
    and longest: "\<forall>g \<in> set hs. \<forall>ms. matches sb P g ms \<longrightarrow> path_length ms \<le> path_length ns" and b: "b \<le> int (path_length ns)"
  shows "best_match sb P b d hs = None"
proof -
  have tie: "best_match sb P (int (path_length ns)) d (ys @ h' # zs) = None" for d
  proof (cases "best_match sb P (int (path_length ns)) d ys")
    case (Some p)
    obtain b' d' where p: "p = (b', d')" by (cases p)
    have "b' = int (path_length ns)" using best_match_Some[of sb P _ d ys b' d'] Some p longest h(4) by fastforce
    then show ?thesis using h(2,3) Some p by (simp add: best_match_append matches_def)
  qed (simp add: best_match_append)
  show ?thesis
  proof (cases "best_match sb P b d xs")
    case (Some p)
    obtain b' d' where p: "p = (b', d')" by (cases p)
    have "b' \<le> int (path_length ns)" using best_match_Some[of sb P b d xs b' d'] Some p longest b h(4) by fastforce
    then show ?thesis using h(1,4) tie Some p by (simp add: best_match_append matches_def)
  qed (use h(4) in \<open>simp add: best_match_append\<close>)
qed

end
