(* ===== verification/ProtocolTable.thy ===== *)
theory ProtocolTable
  imports ProtocolMultiple
begin

text \<open>
  The protocol database as a table: which instances each protocol has, which registrations watch it and
  what each registration has not reported yet. Runs of the database services refine the table.
\<close>

section \<open>Service calls\<close>

datatype db_call =
    DbInstall ptr guid ptr
  | DbUninstall ptr guid ptr
  | DbHandleProtocol ptr guid
  | DbLocateProtocol guid
  | DbLocateHandle guid u64
  | DbRegister guid nat
  | DbNextNew nat

datatype db_answer =
    AnsStatus efi_status
  | AnsHandle efi_status ptr
  | AnsInterface efi_status "ptr option"
  | AnsHandles efi_status u64 "nat list"

fun db_serve :: "'x db_restore \<Rightarrow> 'x disconnect \<Rightarrow> 'x connect \<Rightarrow> alloc \<Rightarrow> nat \<Rightarrow> db_call \<Rightarrow> 'x db \<Rightarrow> (db_answer \<times> 'x db) outcome" where
  "db_serve rst disc conn mem k (DbInstall uh g v) s =
     bind (CoreInstallProtocolInterface rst disc mem k (Some uh) (Some g) EFI_NATIVE_INTERFACE v s)
       (\<lambda>(st, h, s1). Ret (AnsHandle st h, s1))"
| "db_serve rst disc conn mem k (DbUninstall uh g v) s =
     bind (CoreUninstallProtocolInterface rst disc conn k uh (Some g) v s) (\<lambda>(st, s1). Ret (AnsStatus st, s1))"
| "db_serve rst disc conn mem k (DbHandleProtocol uh g) s =
     bind (CoreHandleProtocol rst disc mem k uh (Some g) True s) (\<lambda>(st, v, s1). Ret (AnsInterface st v, s1))"
| "db_serve rst disc conn mem k (DbLocateProtocol g) s =
     bind (CoreLocateProtocol rst (Some g) None True s) (\<lambda>(st, v, s1). Ret (AnsInterface st v, s1))"
| "db_serve rst disc conn mem k (DbLocateHandle g sz) s =
     bind (CoreLocateHandle rst ByProtocol (Some g) None (Some sz) True s) (\<lambda>(st, n, hs, s1). Ret (AnsHandles st n hs, s1))"
| "db_serve rst disc conn mem k (DbRegister g e) s =
     bind (CoreRegisterProtocolNotify rst mem (Some g) (Some e) True s) (\<lambda>(st, n, s1). Ret (AnsHandle st n, s1))"
| "db_serve rst disc conn mem k (DbNextNew n) s =
     bind (CoreLocateHandle rst ByRegisterNotify None (Some n) (Some 8) True s) (\<lambda>(st, n, hs, s1). Ret (AnsHandles st n hs, s1))"

fun db_run :: "'x db_restore \<Rightarrow> 'x disconnect \<Rightarrow> 'x connect \<Rightarrow> alloc \<Rightarrow> nat \<Rightarrow> db_call list \<Rightarrow> 'x db \<Rightarrow> (db_answer list \<times> 'x db) outcome" where
  "db_run rst disc conn mem k [] s = Ret ([], s)"
| "db_run rst disc conn mem k (c # cs) s =
     bind (db_serve rst disc conn mem k c s) (\<lambda>(a, s1).
     bind (db_run rst disc conn mem k cs s1) (\<lambda>(as, s2). Ret (a # as, s2)))"

text \<open>
  What callers must see to: a registration key comes from a registration, and the event of a
  registration exists, is in no group and has no notification above the level of the caller.
\<close>

lemma quiet_event_code [code]:
  "quiet_event t s e = (case events s e of None \<Rightarrow> False
     | Some ev \<Rightarrow> ExFlag ev AND EVT_EXFLAG_EVENT_GROUP = 0 \<and> (Type ev AND EVT_NOTIFY_SIGNAL \<noteq> 0 \<longrightarrow> NotifyTpl ev \<le> t))"
  by (simp add: quiet_event_def split: option.split)

fun proper_call :: "db_call \<Rightarrow> 'x db \<Rightarrow> bool" where
  "proper_call (DbRegister g e) s \<longleftrightarrow> quiet_event (gEfiCurrentTpl s) s e"
| "proper_call (DbNextNew n) s \<longleftrightarrow> registered s n"
| "proper_call _ s \<longleftrightarrow> True"

fun proper_calls :: "'x db_restore \<Rightarrow> 'x disconnect \<Rightarrow> 'x connect \<Rightarrow> alloc \<Rightarrow> nat \<Rightarrow> db_call list \<Rightarrow> 'x db \<Rightarrow> bool" where
  "proper_calls rst disc conn mem k [] s \<longleftrightarrow> True"
| "proper_calls rst disc conn mem k (c # cs) s \<longleftrightarrow> proper_call c s \<and>
     (case db_serve rst disc conn mem k c s of Ret (_, s1) \<Rightarrow> proper_calls rst disc conn mem k cs s1 | _ \<Rightarrow> True)"

section \<open>The table\<close>

record table =
  rows :: "guid \<Rightarrow> (nat \<times> ptr) list"
  watching :: "guid \<Rightarrow> nat list"
  news :: "nat \<Rightarrow> (nat \<times> ptr) list"
  signals :: "nat \<Rightarrow> nat option"

definition has_row :: "table \<Rightarrow> nat \<Rightarrow> bool" where
  "has_row T h \<longleftrightarrow> (\<exists>g v. (h, v) \<in> set (rows T g))"

definition put_row :: "nat \<Rightarrow> guid \<Rightarrow> ptr \<Rightarrow> table \<Rightarrow> table" where
  "put_row h g v T = T\<lparr>rows := (rows T)(g := rows T g @ [(h, v)]),
     news := (\<lambda>n. news T n @ (if n \<in> set (watching T g) then [(h, v)] else []))\<rparr>"

definition drop_row :: "nat \<Rightarrow> guid \<Rightarrow> table \<Rightarrow> table" where
  "drop_row h g T = T\<lparr>rows := (rows T)(g := filter (\<lambda>x. fst x \<noteq> h) (rows T g)),
     news := (\<lambda>n. if n \<in> set (watching T g) then filter (\<lambda>x. fst x \<noteq> h) (news T n) else news T n)\<rparr>"

definition watch_rows :: "nat \<Rightarrow> guid \<Rightarrow> nat \<Rightarrow> table \<Rightarrow> table" where
  "watch_rows n g e T = T\<lparr>watching := (watching T)(g := watching T g @ [n]), news := (news T)(n := rows T g),
     signals := (signals T)(n \<mapsto> e)\<rparr>"

definition next_new :: "nat \<Rightarrow> table \<Rightarrow> table" where
  "next_new n T = T\<lparr>news := (news T)(n := tl (news T n))\<rparr>"

fun table_step :: "table \<Rightarrow> db_call \<Rightarrow> db_answer \<Rightarrow> table \<Rightarrow> bool" where
  "table_step T (DbInstall uh g v) a T' \<longleftrightarrow>
     (case uh of None \<Rightarrow> \<exists>h. \<not> has_row T h \<and> a = AnsHandle EFI_SUCCESS (Some h) \<and> T' = put_row h g v T
      | Some h \<Rightarrow>
        if has_row T h \<and> h \<notin> fst ` set (rows T g) then a = AnsHandle EFI_SUCCESS uh \<and> T' = put_row h g v T
        else a = AnsHandle EFI_INVALID_PARAMETER uh \<and> T' = T)"
| "table_step T (DbUninstall uh g v) a T' \<longleftrightarrow>
     (case uh of None \<Rightarrow> a = AnsStatus EFI_INVALID_PARAMETER \<and> T' = T
      | Some h \<Rightarrow>
        if (h, v) \<in> set (rows T g) then a = AnsStatus EFI_SUCCESS \<and> T' = drop_row h g T
        else a = AnsStatus (if has_row T h then EFI_NOT_FOUND else EFI_INVALID_PARAMETER) \<and> T' = T)"
| "table_step T (DbHandleProtocol uh g) a T' \<longleftrightarrow> T' = T \<and>
     a = (case uh of None \<Rightarrow> AnsInterface EFI_INVALID_PARAMETER None
          | Some h \<Rightarrow>
            if \<not> has_row T h then AnsInterface EFI_INVALID_PARAMETER None
            else case map_of (rows T g) h of None \<Rightarrow> AnsInterface EFI_UNSUPPORTED (Some None)
                 | Some v \<Rightarrow> AnsInterface EFI_SUCCESS (Some v))"
| "table_step T (DbLocateProtocol g) a T' \<longleftrightarrow> T' = T \<and>
     a = (case rows T g of [] \<Rightarrow> AnsInterface EFI_NOT_FOUND (Some None) | x # _ \<Rightarrow> AnsInterface EFI_SUCCESS (Some (snd x)))"
| "table_step T (DbLocateHandle g sz) a T' \<longleftrightarrow> T' = T \<and>
     a = (let n = 8 * length (rows T g) in
          if n = 0 then AnsHandles EFI_NOT_FOUND sz []
          else AnsHandles (if n \<le> unat sz then EFI_SUCCESS else EFI_BUFFER_TOO_SMALL) (of_nat n)
                 (take (unat sz div 8) (map fst (rows T g))))"
| "table_step T (DbRegister g e) a T' \<longleftrightarrow>
     (\<exists>n. signals T n = None \<and> a = AnsHandle EFI_SUCCESS (Some n) \<and> T' = watch_rows n g e T)"
| "table_step T (DbNextNew n) a T' \<longleftrightarrow> T' = next_new n T \<and>
     a = (case news T n of [] \<Rightarrow> AnsHandles EFI_NOT_FOUND 8 [] | x # _ \<Rightarrow> AnsHandles EFI_SUCCESS 8 [fst x])"

fun table_run :: "table \<Rightarrow> db_call list \<Rightarrow> db_answer list \<Rightarrow> table \<Rightarrow> bool" where
  "table_run T [] [] T' \<longleftrightarrow> T' = T"
| "table_run T (c # cs) (a # as) T' \<longleftrightarrow> (\<exists>T1. table_step T c a T1 \<and> table_run T1 cs as T')"
| "table_run T _ _ T' \<longleftrightarrow> False"

definition table_of :: "'x db \<Rightarrow> table" where
  "table_of s = \<lparr>rows = instances s, watching = watchers s, news = unseen s, signals = notify_events s\<rparr>"

lemma table_of_simps [simp]:
  "rows (table_of s) = instances s" "watching (table_of s) = watchers s" "news (table_of s) = unseen s"
  "signals (table_of s) = notify_events s"
  by (simp_all add: table_of_def)

lemma has_row_live: "db_inv s \<Longrightarrow> has_row (table_of s) h \<longleftrightarrow> live s (Some h)"
  using live_iff_instances[of s h] by (simp add: has_row_def live_def)

lemma table_same: "same_view s s' \<Longrightarrow> table_of s' = table_of s"
  by (simp add: same_view_def table_of_def notify_events_eq[of s' s])

lemma table_opens_only: "opens_only s s' \<Longrightarrow> table_of s' = table_of s"
  by (rule table_same[OF opens_only_same_view])

lemma table_searched: "searched s s' \<Longrightarrow> table_of s' = table_of s"
  by (simp add: searched_def table_of_def notify_events_eq[of s' s])

lemma table_installed: "installed h g v s s' \<Longrightarrow> table_of s' = put_row h g v (table_of s)"
  by (simp add: installed_def table_of_def put_row_def notify_events_eq[of s' s])

lemma table_uninstalled: "uninstalled h g s s' \<Longrightarrow> table_of s' = drop_row h g (table_of s)"
  by (simp add: uninstalled_def drop_row_def table_of_def cong: if_cong)

lemma table_enrolled: "enrolled n g e s s' \<Longrightarrow> table_of s' = watch_rows n g e (table_of s)"
  by (simp add: enrolled_def table_of_def watch_rows_def)

lemma table_notified: "notified n s s' \<Longrightarrow> table_of s' = next_new n (table_of s)"
  by (simp add: notified_def table_of_def next_new_def)

section \<open>States that are served\<close>

text \<open>\<open>k\<close> further calls fit; no driver uses an interface, and no registration interrupts the caller.\<close>

definition serving :: "nat \<Rightarrow> 'x db \<Rightarrow> bool" where
  "serving k s \<longleftrightarrow> may_enter s \<and> db_inv s \<and> request_inv s \<and>
     unat (mEfiLocateHandleRequest s) + k < 2 ^ 64 \<and> (\<forall>g. 8 * (length (instances s g) + k) < 2 ^ 64) \<and>
     (\<forall>g. quiet_watchers (gEfiCurrentTpl s) s g) \<and> (\<forall>h g v. (h, v) \<in> set (instances s g) \<longrightarrow> idle_on s h g)"

lemma servingD:
  assumes "serving k s"
  shows "may_enter s" "db_inv s" "request_inv s" "unat (mEfiLocateHandleRequest s) + k < 2 ^ 64"
    "8 * (length (instances s g) + k) < 2 ^ 64" "quiet_watchers (gEfiCurrentTpl s) s g"
    "(h, v) \<in> set (instances s g) \<Longrightarrow> idle_on s h g"
  using assms unfolding serving_def by blast+

text \<open>What one call leaves.\<close>

definition served :: "nat \<Rightarrow> 'x db \<Rightarrow> 'x db \<Rightarrow> bool" where
  "served k s s' \<longleftrightarrow> serving k s' \<and> kept 1 s s'"

lemma serving_mono:
  assumes "serving (a + b) s" shows "serving a s"
proof -
  have "8 * (length (instances s g) + a) < 2 ^ 64" for g using servingD(5)[OF assms, of g] by simp
  moreover have "unat (mEfiLocateHandleRequest s) + a < 2 ^ 64" using servingD(4)[OF assms] by simp
  ultimately show ?thesis using assms unfolding serving_def by blast
qed

lemma serving_step:
  assumes s: "serving (Suc k) s" and t: "kept 1 s s'"
    and len: "\<And>g. length (instances s' g) \<le> Suc (length (instances s g))"
    and w: "\<And>g n. n \<in> set (watchers s' g) \<Longrightarrow> \<exists>e. notify_events s' n = Some e \<and> quiet_event (gEfiCurrentTpl s) s' e"
    and id: "\<And>h g v. (h, v) \<in> set (instances s' g) \<Longrightarrow> idle_on s' h g"
  shows "served k s s'"
  unfolding served_def serving_def
proof (intro conjI allI impI)
  note d = servingD[OF s] and kd = keptD[OF t]
  show "kept 1 s s'" by (rule t)
  show "may_enter s'" by (rule kept_enter[OF d(1) t])
  show "db_inv s'" by (rule kd(2))
  show "request_inv s'" by (rule kd(3)[OF d(3)])
  show "unat (mEfiLocateHandleRequest s') + k < 2 ^ 64" using kd(4) d(4) by linarith
  show "8 * (length (instances s' g) + k) < 2 ^ 64" for g 
    using le_less_trans[OF mult_le_mono2 d(5)[of g], of "length (instances s' g) + k"] len[of g] by simp
  have "gEfiCurrentTpl s' = gEfiCurrentTpl s" using kd(1) by (simp add: svc_def)
  then show "quiet_watchers (gEfiCurrentTpl s') s' g" for g using w unfolding quiet_watchers_events by simp
  show "(h, v) \<in> set (instances s' g) \<Longrightarrow> idle_on s' h g" for h g v by (rule id)
qed

lemma kept_1: "kept 0 s s' \<Longrightarrow> kept 1 s s'"
  by (simp add: kept_def)

lemma serving_same:
  assumes s: "serving (Suc k) s" and t: "kept 1 s s'" and v: "instances s' = instances s" "watchers s' = watchers s"
    "notify_events s' = notify_events s" and id: "\<And>h g. idle_on s h g \<Longrightarrow> idle_on s' h g"
  shows "served k s s'"
proof (rule serving_step[OF s t])
  show "n \<in> set (watchers s' g) \<Longrightarrow> \<exists>e. notify_events s' n = Some e \<and> quiet_event (gEfiCurrentTpl s) s' e" for g n
    using servingD(6)[OF s, of g] keptD(5)[OF t] v unfolding quiet_watchers_events by metis
qed (use v servingD(7)[OF s] id in auto)

lemma serving_unopened:
  assumes s: "serving (Suc k) s" and t: "kept 1 s s'" and v: "instances s' = instances s" "watchers s' = watchers s"
    "notify_events s' = notify_events s" "interfaces s' = interfaces s"
  shows "served k s s'"
  by (rule serving_same[OF s t v(1-3)]) (rule idle_on_ids[OF _ keptD(8)[OF t]], use v(4) in simp_all)

lemma serving_installed:
  assumes s: "serving (Suc k) s" and i: "installed h g v s s'"
  shows "served k s s'"
proof (rule serving_step[OF s])
  have k: "kept 0 s s'" "watchers s' = watchers s" "notify_events s' = notify_events s"
      and v: "instances s' = (instances s)(g := instances s g @ [(h, v)])"
    using i by (simp_all add: installed_def notify_events_eq[of s' s])
  show "kept 1 s s'" by (rule kept_1[OF k(1)])
  show "length (instances s' x) \<le> Suc (length (instances s x))" for x by (simp add: v)
  show "n \<in> set (watchers s' x) \<Longrightarrow> \<exists>e. notify_events s' n = Some e \<and> quiet_event (gEfiCurrentTpl s) s' e" for x n
    using servingD(6)[OF s, of x] keptD(5)[OF k(1)] k unfolding quiet_watchers_events by metis
  show "(h', v') \<in> set (instances s' x) \<Longrightarrow> idle_on s' h' x" for h' v' x
    using installed_idle[OF i] servingD(7)[OF s] v by (auto split: if_splits)
qed

lemma serving_uninstalled:
  assumes s: "serving (Suc k) s" and i: "uninstalled h g s s'"
  shows "served k s s'"
proof (rule serving_step[OF s])
  have k: "kept 0 s s'" "watchers s' = watchers s" "notify_events s' = notify_events s"
      and v: "instances s' = (instances s)(g := filter (\<lambda>x. fst x \<noteq> h) (instances s g))"
    using i by (simp_all add: uninstalled_def)
  show "kept 1 s s'" by (rule kept_1[OF k(1)])
  show "length (instances s' x) \<le> Suc (length (instances s x))" for x by (simp add: v le_SucI)
  show "n \<in> set (watchers s' x) \<Longrightarrow> \<exists>e. notify_events s' n = Some e \<and> quiet_event (gEfiCurrentTpl s) s' e" for x n
    using servingD(6)[OF s, of x] keptD(5)[OF k(1)] k unfolding quiet_watchers_events by metis
  show "(h', v') \<in> set (instances s' x) \<Longrightarrow> idle_on s' h' x" for h' v' x
    using uninstalled_idle[OF i servingD(7)[OF s, of h' v' x]] v by (auto split: if_splits)
qed

lemma serving_enrolled:
  assumes s: "serving (Suc k) s" and i: "enrolled n g e s s'" and e: "quiet_event (gEfiCurrentTpl s) s e"
  shows "served k s s'"
proof (rule serving_step[OF s])
  have k: "kept 0 s s'" "watchers s' = (watchers s)(g := watchers s g @ [n])"
      "notify_events s' = (notify_events s)(n \<mapsto> e)" "instances s' = instances s" "interfaces s' = interfaces s"
    using i by (simp_all add: enrolled_def)
  show "kept 1 s s'" by (rule kept_1[OF k(1)])
  show "length (instances s' x) \<le> Suc (length (instances s x))" for x by (simp add: k)
  show "m \<in> set (watchers s' x) \<Longrightarrow> \<exists>e. notify_events s' m = Some e \<and> quiet_event (gEfiCurrentTpl s) s' e" for x m
    using servingD(6)[OF s, of x] keptD(5)[OF k(1)] k(2,3) e unfolding quiet_watchers_events
    by (auto split: if_splits)
  have "same_ids s s'" using keptD(8)[OF k(1)] .
  then show "(h', v') \<in> set (instances s' x) \<Longrightarrow> idle_on s' h' x" for h' v' x
    using idle_on_ids[of s h' x s'] servingD(7)[OF s] k by auto
qed

section \<open>Refinement\<close>

lemma map_of_provides:
  assumes inv: "db_inv s"
  shows "map_of (instances s g) h = (if \<exists>v. provides s h g v then Some (THE v. provides s h g v) else None)"
proof (cases "\<exists>v. provides s h g v")
  case True
  then obtain v where v: "provides s h g v" by blast
  then have "(h, v) \<in> set (instances s g)" using provides_instances[OF inv] by blast
  then obtain w where w: "map_of (instances s g) h = Some w" using weak_map_of_SomeI by fastforce
  then have "provides s h g w" using provides_instances[OF inv] map_of_SomeD by fast
  then have "(THE v. provides s h g v) = w" using provides_unique[OF inv] by blast
  then show ?thesis using w v by auto
next
  case False
  then have "h \<notin> fst ` set (instances s g)" using provides_instances[OF inv] by force
  then show ?thesis using False by (simp add: map_of_eq_None_iff)
qed

lemma serve_Install:
  fixes s :: "'x db" and rst :: "'x db_restore"
  assumes r: "tpl_restore_total rst" and m: "\<forall>x. mem x" and s: "serving (Suc k) s"
  shows "\<exists>a s'. db_serve rst disc conn mem (Suc n) (DbInstall uh g v) s = Ret (a, s') \<and>
    table_step (table_of s) (DbInstall uh g v) a (table_of s') \<and> served k s s'"
proof -
  note d = servingD[OF s]
  show ?thesis
  proof (cases "install_target mem s g uh")
    case True
    have q: "True \<longrightarrow> quiet_watchers (gEfiCurrentTpl s) s g" using d(6) by simp
    obtain h s' where c: "CoreInstallProtocolInterfaceNotify rst disc mem (Suc n) (Some uh) (Some g) EFI_NATIVE_INTERFACE v True s =
        Ret (EFI_SUCCESS, Some h, s')" "installed h g v s s'" "uh = None \<longrightarrow> handles s h = None" "uh \<noteq> None \<longrightarrow> uh = Some h"
      using Install_succeeds[where mem = mem, OF r d(1,2) True _ _ le_refl q] m by blast
    have "table_step (table_of s) (DbInstall uh g v) (AnsHandle EFI_SUCCESS (Some h)) (table_of s')"
      using c(3,4) True table_installed[OF c(2)] has_row_live[OF d(2)] by (cases uh) (auto simp: install_target_def live_def)
    then show ?thesis using c(1) serving_installed[OF s c(2)] by (simp add: CoreInstallProtocolInterface_def)
  next
    case False
    obtain s' where c: "CoreInstallProtocolInterfaceNotify rst disc mem (Suc n) (Some uh) (Some g) EFI_NATIVE_INTERFACE v True s =
        Ret (EFI_INVALID_PARAMETER, uh, s')" "same_view s s'" "\<forall>h g'. idle_on s h g' \<longrightarrow> idle_on s' h g'"
      using Install_refuses[where mem = mem, OF r d(1,2) m False] by blast
    obtain h where h: "uh = Some h" using False m by (cases uh) (simp_all add: install_target_def)
    have "table_step (table_of s) (DbInstall uh g v) (AnsHandle EFI_INVALID_PARAMETER uh) (table_of s')"
      using False h table_same[OF c(2)] has_row_live[OF d(2)] by (auto simp: install_target_def live_def)
    moreover have "served k s s'"
      by (rule serving_same[OF s]) (use c(2,3) kept_1[of s s'] notify_events_eq[of s' s] in \<open>auto simp: same_view_def\<close>)
    ultimately show ?thesis using c(1) by (simp add: CoreInstallProtocolInterface_def)
  qed
qed

lemma serve_Uninstall:
  fixes s :: "'x db" and rst :: "'x db_restore"
  assumes r: "tpl_restore_total rst" and s: "serving (Suc k) s"
  shows "\<exists>a s'. db_serve rst disc conn mem (Suc n) (DbUninstall uh g v) s = Ret (a, s') \<and>
    table_step (table_of s) (DbUninstall uh g v) a (table_of s') \<and> served k s s'"
proof (cases "\<exists>h. uh = Some h \<and> (h, v) \<in> set (instances s g)")
  note d = servingD[OF s]
  case True
  then obtain h where h: "uh = Some h" "(h, v) \<in> set (instances s g)" by blast
  obtain s' where c: "CoreUninstallProtocolInterface rst disc conn (Suc n) (Some h) (Some g) v s = Ret (EFI_SUCCESS, s')" "uninstalled h g s s'"
    using Uninstall_idle[OF r d(1,2) h(2) d(7)[OF h(2)]] by blast
  then show ?thesis using h table_uninstalled[OF c(2)] serving_uninstalled[OF s c(2)] by simp
next
  note d = servingD[OF s]
  case False
  then obtain s' where c: "CoreUninstallProtocolInterface rst disc conn (Suc n) uh (Some g) v s =
      Ret (if live s uh then EFI_NOT_FOUND else EFI_INVALID_PARAMETER, s')" "same_view s s'" "interfaces s' = interfaces s"
    using Uninstall_refuses[OF r d(1,2), of uh v g] by blast
  have "uh = Some h \<Longrightarrow> table_step (table_of s) (DbUninstall uh g v) (AnsStatus (if live s uh then EFI_NOT_FOUND else EFI_INVALID_PARAMETER)) (table_of s')" for h
    using False table_same[OF c(2)] has_row_live[OF d(2)] by (auto split: if_splits)
  moreover have "uh = None \<Longrightarrow> table_step (table_of s) (DbUninstall uh g v) (AnsStatus EFI_INVALID_PARAMETER) (table_of s')"
    using table_same[OF c(2)] by simp
  moreover have "served k s s'"
    by (rule serving_unopened[OF s]) (use c(2,3) kept_1[of s s'] notify_events_eq[of s' s] in \<open>auto simp: same_view_def\<close>)
  ultimately show ?thesis using c(1) by (cases uh) auto
qed

lemma serve_HandleProtocol:
  fixes s :: "'x db" and rst :: "'x db_restore"
  assumes r: "tpl_restore_total rst" and m: "\<forall>x. mem x" and s: "serving (Suc k) s"
  shows "\<exists>a s'. db_serve rst disc conn mem (Suc n) (DbHandleProtocol uh g) s = Ret (a, s') \<and>
    table_step (table_of s) (DbHandleProtocol uh g) a (table_of s') \<and> served k s s'"
proof -
  note d = servingD[OF s]
  obtain s' where c: "CoreHandleProtocol rst disc mem (Suc n) uh (Some g) True s =
      Ret (if \<not> live s uh then (EFI_INVALID_PARAMETER, None, s')
        else if \<exists>v. provides s (the uh) g v then (EFI_SUCCESS, Some (THE v. provides s (the uh) g v), s')
        else (EFI_UNSUPPORTED, Some None, s'))" "opens_only s s'" "\<forall>h g'. idle_on s h g' \<longrightarrow> idle_on s' h g'"
    using HandleProtocol_eq[where mem = mem, OF r d(1,2)] m by blast
  let ?a = "case uh of None \<Rightarrow> AnsInterface EFI_INVALID_PARAMETER None
          | Some h \<Rightarrow> if \<not> live s (Some h) then AnsInterface EFI_INVALID_PARAMETER None
            else case map_of (instances s g) h of None \<Rightarrow> AnsInterface EFI_UNSUPPORTED (Some None)
                 | Some v \<Rightarrow> AnsInterface EFI_SUCCESS (Some v)"
  have "table_step (table_of s) (DbHandleProtocol uh g) ?a (table_of s')"
    using table_opens_only[OF c(2)] has_row_live[OF d(2)] by (auto split: option.split)
  moreover have "db_serve rst disc conn mem (Suc n) (DbHandleProtocol uh g) s = Ret (?a, s')"
    using c(1) map_of_provides[OF d(2), of g] by (cases uh) (auto simp: live_def)
  moreover have "served k s s'"
    by (rule serving_same[OF s]) (use c(2,3) opens_only_kept[OF c(2)] kept_1[of s s'] opens_only_same_view[OF c(2)] notify_events_eq[of s' s] in \<open>auto simp: same_view_def\<close>)
  ultimately show ?thesis by blast
qed

lemma serve_LocateProtocol:
  fixes s :: "'x db" and rst :: "'x db_restore"
  assumes r: "tpl_restore_total rst" and s: "serving (Suc k) s"
  shows "\<exists>a s'. db_serve rst disc conn mem n (DbLocateProtocol g) s = Ret (a, s') \<and>
    table_step (table_of s) (DbLocateProtocol g) a (table_of s') \<and> served k s s'"
proof -
  note d = servingD[OF s]
  have w: "unat (mEfiLocateHandleRequest s) + 1 < 2 ^ 64" using d(4) by simp
  obtain s' where c: "CoreLocateProtocol rst (Some g) None True s =
      Ret (case instances s g of [] \<Rightarrow> (EFI_NOT_FOUND, Some None, s') | x # _ \<Rightarrow> (EFI_SUCCESS, Some (snd x), s'))" "searched s s'"
    using LocateProtocol_first[OF r d(1,2,3) w] by blast
  have "served k s s'"
    by (rule serving_unopened[OF s]) (use c(2) notify_events_eq[of s' s] in \<open>auto simp: searched_def\<close>)
  then show ?thesis using c(1) table_searched[OF c(2)] by (auto split: list.splits)
qed

lemma serve_LocateHandle:
  fixes s :: "'x db" and rst :: "'x db_restore"
  assumes r: "tpl_restore_total rst" and s: "serving (Suc k) s"
  shows "\<exists>a s'. db_serve rst disc conn mem n (DbLocateHandle g sz) s = Ret (a, s') \<and>
    table_step (table_of s) (DbLocateHandle g sz) a (table_of s') \<and> served k s s'"
proof -
  note d = servingD[OF s]
  have w: "unat (mEfiLocateHandleRequest s) + 1 < 2 ^ 64" "8 * length (instances s g) < 2 ^ 64" "sz = 0 \<or> True"
    using d(4) d(5)[of g] by simp_all
  obtain s' where c: "CoreLocateHandle rst ByProtocol (Some g) None (Some sz) True s =
      Ret (if instances s g = [] then (EFI_NOT_FOUND, sz, [], s')
        else (if 8 * length (instances s g) \<le> unat sz then EFI_SUCCESS else EFI_BUFFER_TOO_SMALL,
              of_nat (8 * length (instances s g)), take (unat sz div 8) (map fst (instances s g)), s'))" "searched s s'"
    using LocateHandle_ByProtocol[OF r d(1,2,3) w(1), of g sz True None] w(2) by auto
  have "served k s s'"
    by (rule serving_unopened[OF s]) (use c(2) notify_events_eq[of s' s] in \<open>auto simp: searched_def\<close>)
  then show ?thesis using c(1) table_searched[OF c(2)] by (simp add: Let_def)
qed

lemma serve_Register:
  fixes s :: "'x db" and rst :: "'x db_restore"
  assumes r: "tpl_restore_total rst" and m: "\<forall>x. mem x" and s: "serving (Suc k) s" and e: "quiet_event (gEfiCurrentTpl s) s e"
  shows "\<exists>a s'. db_serve rst disc conn mem n (DbRegister g e) s = Ret (a, s') \<and>
    table_step (table_of s) (DbRegister g e) a (table_of s') \<and> served k s s'"
proof -
  note d = servingD[OF s]
  have ev: "events s e \<noteq> None" using e by (auto simp: quiet_event_def)
  obtain q s' where c: "CoreRegisterProtocolNotify rst mem (Some g) (Some e) True s = Ret (EFI_SUCCESS, Some q, s')" "enrolled q g e s s'"
    using Register_enrolls[where mem = mem, OF r d(1,2) _ _ ev] m by blast
  have "signals (table_of s) q = None" using c(2) by (simp add: enrolled_def)
  then show ?thesis using c(1) table_enrolled[OF c(2)] serving_enrolled[OF s c(2) e] by auto
qed

lemma serve_NextNew:
  fixes s :: "'x db" and rst :: "'x db_restore"
  assumes r: "tpl_restore_total rst" and s: "serving (Suc k) s" and q: "registered s q"
  shows "\<exists>a s'. db_serve rst disc conn mem n (DbNextNew q) s = Ret (a, s') \<and>
    table_step (table_of s) (DbNextNew q) a (table_of s') \<and> served k s s'"
proof -
  note d = servingD[OF s]
  have w: "unat (mEfiLocateHandleRequest s) + 1 < 2 ^ 64" using d(4) by simp
  obtain s' where c: "CoreLocateHandle rst ByRegisterNotify None (Some q) (Some 8) True s =
      Ret (case unseen s q of [] \<Rightarrow> (EFI_NOT_FOUND, 8, [], s') | x # _ \<Rightarrow> (EFI_SUCCESS, 8, [fst x], s'))" "notified q s s'"
    using LocateHandle_ByRegisterNotify[OF r d(1,2) q w] by blast
  have "served k s s'"
    by (rule serving_unopened[OF s]) (use c(2) in \<open>auto simp: notified_def\<close>)
  then show ?thesis using c(1) table_notified[OF c(2)] by (auto split: list.splits)
qed

lemma serve_step:
  fixes s :: "'x db" and rst :: "'x db_restore"
  assumes "tpl_restore_total rst" and "\<forall>x. mem x" and "serving (Suc k) s" and "proper_call c s"
  shows "\<exists>a s'. db_serve rst disc conn mem (Suc n) c s = Ret (a, s') \<and> table_step (table_of s) c a (table_of s') \<and> served k s s'"
proof (cases c)
  case (DbInstall uh g v) then show ?thesis using serve_Install[OF assms(1-3)] by blast
next
  case (DbUninstall uh g v) then show ?thesis using serve_Uninstall[OF assms(1,3)] by blast
next
  case (DbHandleProtocol uh g) then show ?thesis using serve_HandleProtocol[OF assms(1-3)] by blast
next
  case (DbLocateProtocol g) then show ?thesis using serve_LocateProtocol[OF assms(1,3)] by blast
next
  case (DbLocateHandle g sz) then show ?thesis using serve_LocateHandle[OF assms(1,3)] by blast
next
  case (DbRegister g e) then show ?thesis using serve_Register[OF assms(1-3)] assms(4) by simp
next
  case (DbNextNew q) then show ?thesis using serve_NextNew[OF assms(1,3)] assms(4) by simp
qed

lemma db_run_refines:
  fixes s :: "'x db" and rst :: "'x db_restore"
  assumes r: "tpl_restore_total rst" and m: "\<forall>x. mem x"
  shows "serving (length cs + j) s \<Longrightarrow> proper_calls rst disc conn mem (Suc n) cs s \<Longrightarrow>
    \<exists>as s'. db_run rst disc conn mem (Suc n) cs s = Ret (as, s') \<and> table_run (table_of s) cs as (table_of s') \<and> serving j s' \<and> kept (length cs) s s'"
proof (induction cs arbitrary: s)
  case (Cons c cs)
  have s: "serving (Suc (length cs + j)) s" and p: "proper_call c s" using Cons.prems by simp_all
  obtain a s1 where a: "db_serve rst disc conn mem (Suc n) c s = Ret (a, s1)" "table_step (table_of s) c a (table_of s1)" "served (length cs + j) s s1"
    using serve_step[OF r m s p] by blast
  have s1: "serving (length cs + j) s1" using a(3) by (simp add: served_def)
  have "proper_calls rst disc conn mem (Suc n) cs s1" using Cons.prems(2) a(1) by simp
  from Cons.IH[OF s1 this] obtain as s' where "db_run rst disc conn mem (Suc n) cs s1 = Ret (as, s')"
    "table_run (table_of s1) cs as (table_of s')" "serving j s'" "kept (length cs) s1 s'" by blast
  moreover have "kept 1 s s1" using a(3) by (simp add: served_def)
  ultimately show ?case using a kept_trans[of 1 s s1 "length cs" s'] by auto
next
  case Nil
  then have "serving j s" by simp
  then show ?case using opens_only_kept[OF opens_only_refl[OF servingD(1,2)]] by simp
qed

text \<open>Keys that are registered and events that are quiet beforehand stay so.\<close>

lemma table_step_signals: "table_step T c a T' \<Longrightarrow> signals T n \<noteq> None \<Longrightarrow> signals T' n \<noteq> None"
  by (cases c) (auto simp: put_row_def drop_row_def watch_rows_def next_new_def split: option.splits if_splits)

lemma proper_later:
  assumes t: "table_step (table_of s) c a (table_of s')" and k: "kept 1 s s'" and p: "proper_call d s"
  shows "proper_call d s'"
proof (cases d)
  case (DbRegister g e)
  moreover have "gEfiCurrentTpl s' = gEfiCurrentTpl s" using keptD(1)[OF k] by (simp add: svc_def)
  ultimately show ?thesis using p keptD(5)[OF k] by simp
next
  case (DbNextNew n)
  then show ?thesis using p table_step_signals[OF t, of n] by (simp add: registered_events)
qed simp_all

lemma proper_calls_static:
  fixes s :: "'x db" and rst :: "'x db_restore"
  assumes r: "tpl_restore_total rst" and m: "\<forall>x. mem x"
  shows "serving (length cs) s \<Longrightarrow> \<forall>c \<in> set cs. proper_call c s \<Longrightarrow> proper_calls rst disc conn mem (Suc n) cs s"
proof (induction cs arbitrary: s)
  case (Cons c cs)
  have s: "serving (Suc (length cs)) s" and p: "proper_call c s" using Cons.prems by simp_all
  obtain a s1 where a: "db_serve rst disc conn mem (Suc n) c s = Ret (a, s1)" "table_step (table_of s) c a (table_of s1)" "served (length cs) s s1"
    using serve_step[OF r m s p] by blast
  have "serving (length cs) s1" and k: "kept 1 s s1" using a(3) by (simp_all add: served_def)
  then have "proper_calls rst disc conn mem (Suc n) cs s1" using Cons.IH[of s1] proper_later[OF a(2) k] Cons.prems(2) by simp
  then show ?case using a(1) p by simp
qed simp

section \<open>Each instance is reported once\<close>

text \<open>What the searches by the registration \<open>n\<close> have answered.\<close>

fun told :: "nat \<Rightarrow> db_call list \<Rightarrow> db_answer list \<Rightarrow> nat list" where
  "told n (DbNextNew m # cs) (AnsHandles st sz hs # as) = (if m = n then hs else []) @ told n cs as"
| "told n (c # cs) (a # as) = told n cs as"
| "told n _ _ = []"

definition only_watches :: "table \<Rightarrow> nat \<Rightarrow> guid \<Rightarrow> bool" where
  "only_watches T n g \<longleftrightarrow> (\<forall>g'. n \<in> set (watching T g') \<longleftrightarrow> g' = g) \<and> signals T n \<noteq> None"

fun removes :: "db_call \<Rightarrow> bool" where
  "removes (DbUninstall uh g v) \<longleftrightarrow> True"
| "removes _ \<longleftrightarrow> False"

lemma step_kinds:
  assumes "table_step T c a T1" and "\<not> removes c"
  obtains (same) "T1 = T" "told n [c] [a] = []"
  | (put) h x v where "T1 = put_row h x v T" "told n [c] [a] = []"
  | (watch) m x e where "T1 = watch_rows m x e T" "signals T m = None" "told n [c] [a] = []"
  | (pop) m where "T1 = next_new m T" "told n [c] [a] = (if m = n then map fst (take 1 (news T m)) else [])"
proof (cases c)
  case (DbInstall uh g v)
  then show ?thesis using assms(1) same put by (cases uh) (auto split: if_splits)
next
  case (DbRegister g e)
  then show ?thesis using assms(1) watch by auto
next
  case (DbNextNew m)
  have a: "T1 = next_new m T" "a = (case news T m of [] \<Rightarrow> AnsHandles EFI_NOT_FOUND 8 [] | x # _ \<Rightarrow> AnsHandles EFI_SUCCESS 8 [fst x])"
    using assms(1) unfolding DbNextNew table_step.simps by simp_all
  have "told n [c] [a] = (if m = n then map fst (take 1 (news T m)) else [])"
    unfolding DbNextNew a(2) by (cases "m = n"; cases "news T m") simp_all
  with a(1) show ?thesis by (rule pop)
qed (use assms same in \<open>auto\<close>)

lemma told_step:
  assumes t: "table_step T c a T1" "\<not> removes c" and w: "only_watches T n g"
  shows "only_watches T1 n g \<and> (\<exists>new. rows T1 g = rows T g @ new \<and> told n [c] [a] @ map fst (news T1 n) = map fst (news T n) @ map fst new)"
  using t
proof (cases rule: step_kinds[where n = n])
  case same
  then show ?thesis using w by simp
next
  case (put h x v)
  then show ?thesis using w
    by (intro conjI exI[of _ "if x = g then [(h, v)] else []"]) (auto simp: put_row_def only_watches_def)
next
  case (watch m x e)
  then have "m \<noteq> n" using w by (auto simp: only_watches_def)
  then show ?thesis using watch w by (auto simp: watch_rows_def only_watches_def)
next
  case (pop m)
  then show ?thesis using w by (cases "news T m") (auto simp: next_new_def only_watches_def)
qed

lemma told_Cons: "told n (c # cs) (a # as) = told n [c] [a] @ told n cs as"
  by (cases c; cases a) simp_all

lemma told_once:
  "table_run T cs as T' \<Longrightarrow> \<forall>c \<in> set cs. \<not> removes c \<Longrightarrow> only_watches T n g \<Longrightarrow>
   \<exists>new. rows T' g = rows T g @ new \<and> told n cs as @ map fst (news T' n) = map fst (news T n) @ map fst new"
proof (induction T cs as T' rule: table_run.induct)
  case (2 T c cs a as T')
  obtain T1 where t: "table_step T c a T1" "table_run T1 cs as T'" using 2(2) by auto
  have nr: "\<not> removes c" "\<forall>c \<in> set cs. \<not> removes c" using 2(3) by simp_all
  obtain new1 where n1: "rows T1 g = rows T g @ new1" "told n [c] [a] @ map fst (news T1 n) = map fst (news T n) @ map fst new1"
    using told_step[OF t(1) nr(1) 2(4)] by blast
  obtain new where n2: "rows T' g = rows T1 g @ new" "told n cs as @ map fst (news T' n) = map fst (news T1 n) @ map fst new"
    using 2(1)[OF t(2) nr(2) told_step[OF t(1) nr(1) 2(4), THEN conjunct1]] by blast
  have "told n (c # cs) (a # as) @ map fst (news T' n) = told n [c] [a] @ (told n cs as @ map fst (news T' n))"
    by (simp only: told_Cons[of n c cs] append_assoc)
  also have "\<dots> = (told n [c] [a] @ map fst (news T1 n)) @ map fst new" by (simp only: n2(2) append_assoc)
  also have "\<dots> = map fst (news T n) @ map fst (new1 @ new)" by (simp only: n1(2) append_assoc map_append)
  finally show ?case using n1(1) n2(1) by (intro exI[of _ "new1 @ new"]) simp
qed simp_all

end
