(* ===== verification/ProtocolProps.thy ===== *)
theory ProtocolProps
  imports EventProps ProtocolPath ProtocolTable
begin

text \<open>
  The properties of the protocol database: runs of its services against the table of instances, open
  access, installation and removal of single interfaces and of groups, the searches by protocol, by
  registration and by device path. Each has a witness on a concrete database made by the services.
\<close>

section \<open>A concrete database\<close>

definition demo_core :: core where
  "demo_core = after [SvcCreateEvent EVT_NOTIFY_SIGNAL TPL_CALLBACK (Some (ClientFn 1)) None None, SvcRaiseTPL TPL_CALLBACK]"

definition empty_db :: protocol_db where
  "empty_db = initial_db demo_core"

definition db_restore :: "unit db_restore" where
  "db_restore = CoreRestoreTpl harness_notify (Suc (Suc 10))"

definition no_driver :: "'x disconnect" where
  "no_driver controller driver child s = Ret (EFI_NOT_FOUND, s)"

definition no_connect :: "'x connect" where
  "no_connect controller drivers path rec s = Ret (EFI_NOT_FOUND, s)"

definition serve_demo :: "db_call \<Rightarrow> protocol_db \<Rightarrow> (db_answer \<times> protocol_db) outcome" where
  "serve_demo = db_serve db_restore no_driver no_connect (\<lambda>_. True) (Suc 0)"

definition run_demo :: "db_call list \<Rightarrow> protocol_db \<Rightarrow> (db_answer list \<times> protocol_db) outcome" where
  "run_demo = db_run db_restore no_driver no_connect (\<lambda>_. True) (Suc 0)"

text \<open>A database in which event 3 is registered for protocol 7; the registration is object 2.\<close>

definition demo_db :: protocol_db where
  "demo_db = (case serve_demo (DbRegister 7 3) empty_db of Ret (_, s) \<Rightarrow> s | _ \<Rightarrow> empty_db)"

lemma db_restore_total: "tpl_restore_total db_restore"
  unfolding db_restore_def by (rule notify_client.restore_total[OF harness_client])

lemma demo_core_ok: "core_inv demo_core" "gEfiCurrentTpl demo_core = 8" "\<not> held demo_core l" "events demo_core 3 \<noteq> None"
proof -
  let ?cs = "[SvcCreateEvent EVT_NOTIFY_SIGNAL TPL_CALLBACK (Some (ClientFn 1)) None None, SvcRaiseTPL TPL_CALLBACK]"
  have "demo_ok ?cs" by code_simp
  then show "core_inv demo_core" "\<not> held demo_core l" unfolding demo_core_def by (rule after_idle)+
  show "gEfiCurrentTpl demo_core = 8" "events demo_core 3 \<noteq> None" by code_simp+
qed

lemma initial_db_views [simp]:
  "instances (initial_db s) g = []" "watchers (initial_db s) g = []" "unseen (initial_db s) n = []"
  "notify_events (initial_db s) n = None"
  by (simp_all add: initial_db_def core.defs instances_def watchers_def unseen_def entry_at_def notify_events_def)

lemma initial_db_serving:
  assumes "core_inv s" and "\<not> held s gProtocolDatabaseLock" and "gEfiCurrentTpl s \<le> TPL_NOTIFY" and "k < 2 ^ 61"
  shows "serving k (initial_db s)"
proof -
  have "core_inv (initial_db s)" using assms(1) by (simp add: initial_db_def core_inv_extend)
  moreover have "db_inv (initial_db s)"
    by (simp add: initial_db_def core.defs db_inv_def handle_inv_def entry_inv_def interface_inv_def notify_inv_def fresh_inv_def)
  moreover have "request_inv (initial_db s)" by (simp add: request_inv_def initial_db_def core.defs)
  moreover have "gEfiCurrentTpl (initial_db s) = gEfiCurrentTpl s" "locks (initial_db s) = locks s" "mEfiLocateHandleRequest (initial_db s) = 0"
    by (simp_all add: initial_db_def core.defs)
  ultimately show ?thesis using assms by (simp add: serving_def may_enter_def quiet_watchers_def)
qed

lemma all_True: "\<forall>x. (\<lambda>_. True) x"
  by simp

lemma demo_registered:
  assumes "k < 2 ^ 60"
  shows "serving k demo_db" "table_of demo_db = watch_rows 2 7 3 (table_of empty_db)" "quiet_event 8 demo_db 3" "gEfiCurrentTpl demo_db = 8"
proof -
  have s: "serving (Suc k) empty_db"
    unfolding empty_db_def by (rule initial_db_serving) (use demo_core_ok assms in simp_all)
  have q: "quiet_event (gEfiCurrentTpl empty_db) empty_db 3" by code_simp
  obtain a s' where a: "serve_demo (DbRegister 7 3) empty_db = Ret (a, s')" "table_step (table_of empty_db) (DbRegister 7 3) a (table_of s')" "served k empty_db s'"
    unfolding serve_demo_def
    using serve_Register[where mem = "\<lambda>_. True", OF db_restore_total all_True s q, of no_driver no_connect "Suc 0" 7] by (elim exE conjE)
  have d: "demo_db = s'" using a(1) by (simp add: demo_db_def)
  have "(case serve_demo (DbRegister 7 3) empty_db of Ret (a, s) \<Rightarrow> a = AnsHandle EFI_SUCCESS (Some 2) | _ \<Rightarrow> False)" by code_simp
  then have "a = AnsHandle EFI_SUCCESS (Some 2)" using a(1) by simp
  then show "table_of demo_db = watch_rows 2 7 3 (table_of empty_db)" using a(2) d by auto
  show "serving k demo_db" using a(3) d by (simp add: served_def)
  have k: "kept 1 empty_db demo_db" using a(3) d by (simp add: served_def)
  have "gEfiCurrentTpl empty_db = 8" by code_simp
  then show "gEfiCurrentTpl demo_db = 8" "quiet_event 8 demo_db 3" using keptD(1,5)[OF k] q by (simp_all add: svc_def)
qed

section \<open>Runs against the table\<close>

lemma table_run_Nil: "table_run T [] as T' \<longleftrightarrow> as = [] \<and> T' = T"
  by (cases as) auto

lemma table_run_Cons: "table_run T (c # cs) as T' \<longleftrightarrow> (\<exists>a bs T1. as = a # bs \<and> table_step T c a T1 \<and> table_run T1 cs bs T')"
  by (cases as) auto

lemma demo_table_of: "table_of demo_db = \<lparr>rows = \<lambda>_. [], watching = (\<lambda>_. [])(7 := [2]), news = \<lambda>_. [], signals = [2 \<mapsto> 3]\<rparr>"
  unfolding demo_registered(2)[of 0, simplified] by (simp add: watch_rows_def fun_eq_iff empty_db_def)

lemma demo_table [simp]: "instances demo_db = (\<lambda>_. [])" "watchers demo_db = (\<lambda>_. [])(7 := [2])" "unseen demo_db = (\<lambda>_. [])"
  "notify_events demo_db = [2 \<mapsto> 3]"
  using demo_table_of by (simp_all add: table_of_def)

text \<open>C6: the protocol database behaves as a table of instances with registrations. In every sequence of
  calls that install, uninstall, open by handle, locate and register, each call returns what the table
  says and changes the table as the call should, statuses included; no assertion fails, no freed object
  is touched, and the database stays well formed. Callers only use registration keys they were given,
  and register events whose notification does not interrupt them.\<close>

theorem database_refines_table:
  fixes s :: "'x db"
  assumes "notify_client cl" and "serving (length cs + j) s"
    and "proper_calls (CoreRestoreTpl cl (Suc (Suc n))) disc conn (\<lambda>_. True) (Suc k) cs s"
  shows "\<exists>as s'. db_run (CoreRestoreTpl cl (Suc (Suc n))) disc conn (\<lambda>_. True) (Suc k) cs s = Ret (as, s') \<and>
    table_run (table_of s) cs as (table_of s') \<and> serving j s'"
  using db_run_refines[OF notify_client.restore_total[OF assms(1)] all_True assms(2,3)] by blast

definition install_demo :: "db_call list" where
  "install_demo = [DbInstall None 7 (Some 100), DbInstall None 7 (Some 101), DbNextNew 2, DbLocateHandle 7 8, DbNextNew 2,
     DbNextNew 2, DbLocateProtocol 7, DbUninstall None 7 (Some 100), DbHandleProtocol None 7]"

lemma install_demo_proper: "proper_calls db_restore disc conn (\<lambda>_. True) (Suc k) install_demo demo_db"
  by (rule proper_calls_static[OF db_restore_total all_True])
    (use demo_registered(1) in \<open>auto simp: install_demo_def registered_events\<close>)

lemma database_refines_table_witness:
  "\<exists>s' h h'. run_demo install_demo demo_db = Ret ([AnsHandle EFI_SUCCESS (Some h), AnsHandle EFI_SUCCESS (Some h'), AnsHandles EFI_SUCCESS 8 [h],
     AnsHandles EFI_BUFFER_TOO_SMALL 16 [h], AnsHandles EFI_SUCCESS 8 [h'], AnsHandles EFI_NOT_FOUND 8 [],
     AnsInterface EFI_SUCCESS (Some (Some 100)), AnsStatus EFI_INVALID_PARAMETER, AnsInterface EFI_INVALID_PARAMETER None], s') \<and>
     h' \<noteq> h \<and> instances s' 7 = [(h, Some 100), (h', Some 101)]"
proof -
  have s: "serving (length install_demo + 0) demo_db" by (rule demo_registered(1)) (simp add: install_demo_def)
  obtain as s' where r: "run_demo install_demo demo_db = Ret (as, s')" "table_run (table_of demo_db) install_demo as (table_of s')"
    using database_refines_table[OF harness_client s install_demo_proper[unfolded db_restore_def], where disc = no_driver and conn = no_connect and k = 0, folded db_restore_def run_demo_def] by blast
  from r(2) obtain h h' where "as = [AnsHandle EFI_SUCCESS (Some h), AnsHandle EFI_SUCCESS (Some h'), AnsHandles EFI_SUCCESS 8 [h],
     AnsHandles EFI_BUFFER_TOO_SMALL 16 [h], AnsHandles EFI_SUCCESS 8 [h'], AnsHandles EFI_NOT_FOUND 8 [],
     AnsInterface EFI_SUCCESS (Some (Some 100)), AnsStatus EFI_INVALID_PARAMETER, AnsInterface EFI_INVALID_PARAMETER None]"
     "h' \<noteq> h" "rows (table_of s') 7 = [(h, Some 100), (h', Some 101)]"
    unfolding install_demo_def table_run_Cons table_run_Nil
    by (auto simp: demo_table_of put_row_def next_new_def has_row_def Let_def simp del: table_of_simps split: if_splits)
  then show ?thesis using r(1) by auto
qed

text \<open>C7: whoever registers for a protocol is told of each of its interfaces exactly once and in the
  order of their installation: along any calls without a removal, what the searches by the
  registration have reported, followed by what they have not reported yet, is what was unreported at
  first, followed by everything installed since.\<close>

theorem registration_reports_once:
  fixes s :: "'x db"
  assumes "notify_client cl" and "serving (length cs) s"
    and "proper_calls (CoreRestoreTpl cl (Suc (Suc n))) disc conn (\<lambda>_. True) (Suc k) cs s"
    and "\<forall>c \<in> set cs. \<not> removes c" and "only_watches (table_of s) r g"
  shows "\<exists>as s' new. db_run (CoreRestoreTpl cl (Suc (Suc n))) disc conn (\<lambda>_. True) (Suc k) cs s = Ret (as, s') \<and>
    instances s' g = instances s g @ new \<and>
    told r cs as @ map fst (unseen s' r) = map fst (unseen s r) @ map fst new"
  using db_run_refines[where j = 0, OF notify_client.restore_total[OF assms(1)] all_True _ assms(3)] assms(2)
    told_once[OF _ assms(4,5)] by fastforce

lemma registration_reports_once_witness:
  "\<exists>as s'. run_demo (take 6 install_demo) demo_db = Ret (as, s') \<and> map fst (instances s' 7) = told 2 (take 6 install_demo) as @ map fst (unseen s' 2)"
proof -
  have s: "serving (length (take 6 install_demo)) demo_db" by (rule demo_registered(1)) (simp add: install_demo_def)
  have p: "proper_calls db_restore no_driver no_connect (\<lambda>_. True) (Suc 0) (take 6 install_demo) demo_db"
    by (rule proper_calls_static[OF db_restore_total all_True])
      (use demo_registered(1) in \<open>auto simp: install_demo_def registered_events\<close>)
  have nr: "\<forall>c \<in> set (take 6 install_demo). \<not> removes c" by (simp add: install_demo_def)
  have w: "only_watches (table_of demo_db) 2 7" by (simp add: only_watches_def)
  show ?thesis
    using registration_reports_once[OF harness_client s p[unfolded db_restore_def] nr w, folded db_restore_def run_demo_def] by force
qed

section \<open>Opening and closing\<close>

text \<open>The open records of protocol \<open>g\<close> on handle \<open>h\<close>.\<close>

definition opens_at :: "'x db \<Rightarrow> nat \<Rightarrow> guid \<Rightarrow> open_protocol_data list \<Rightarrow> bool" where
  "opens_at s h g ds \<longleftrightarrow> (\<exists>i I. iface_at s h g i \<and> interfaces s i = Some I \<and> OpenList I = ds)"



lemma opens_at_left:
  assumes "iface_at s h g i" and "interfaces s i = Some I"
  shows "opens_at (left s (set_interface i (with_opens ds I) (inside s))) h g ds"
  using assms unfolding opens_at_def
  by (intro exI[of _ i] exI[of _ "with_opens ds I"]) (auto simp: iface_at_def)

lemma Open_at:
  fixes s :: "'x db" and rst :: "'x db_restore"
  assumes r: "tpl_restore_total rst" and s: "may_enter s" and inv: "db_inv s"
    and v: "open_valid (Some h) ih ch attr s" and o: "attr \<noteq> EFI_OPEN_PROTOCOL_TEST_PROTOCOL \<longrightarrow> out"
    and l: "opens_at s h g ds" and d: "\<not> must_disconnect attr ds"
  shows "\<exists>v s'. CoreOpenProtocol rst disc mem k (Some h) (Some g) out ih ch attr s = Ret (fst (opened (mem AllocOpenData) ih ch attr ds), v, s') \<and>
    opens_at s' h g (snd (opened (mem AllocOpenData) ih ch attr ds)) \<and> opens_only s s'"
proof -
  obtain i I where i: "iface_at s h g i" "interfaces s i = Some I" "OpenList I = ds" using l by (auto simp: opens_at_def)
  show ?thesis
    using OpenProtocol_eq[where mem = mem and disc = disc and k = k, OF r s inv v o i(1,2)] d i(3)
      opens_at_left[OF i(1,2)] opens_only_left[OF r s inv i(2)] by (auto split: prod.split)
qed

lemma Close_at:
  fixes s :: "'x db" and rst :: "'x db_restore"
  assumes r: "tpl_restore_total rst" and s: "may_enter s" and inv: "db_inv s"
    and v: "close_valid (Some h) ah ch s" and l: "opens_at s h g ds"
  shows "\<exists>s'. CoreCloseProtocol rst (Some h) (Some g) ah ch s =
      Ret (if \<exists>d \<in> set ds. closes ah ch d then EFI_SUCCESS else EFI_NOT_FOUND, s') \<and>
    opens_at s' h g (filter (\<lambda>d. \<not> closes ah ch d) ds) \<and> opens_only s s'"
proof -
  obtain i I where i: "iface_at s h g i" "interfaces s i = Some I" "OpenList I = ds" using l by (auto simp: opens_at_def)
  show ?thesis
    using CloseProtocol_eq[OF r s inv v i(1,2)] i(3)
      opens_at_left[OF i(1,2)] opens_only_left[OF r s inv i(2)] by (auto simp: closed_opens_def)
qed

lemma opens_only_valid:
  assumes "opens_only s s'"
  shows "open_valid uh ih ch attr s' = open_valid uh ih ch attr s" "close_valid uh ah ch s' = close_valid uh ah ch s"
proof -
  have "live s' = live s" using opens_onlyD(3)[OF assms] by (simp add: live_def[abs_def])
  then show "open_valid uh ih ch attr s' = open_valid uh ih ch attr s" "close_valid uh ah ch s' = close_valid uh ah ch s"
    by (simp_all add: open_valid_def close_valid_def)
qed

lemma count_up_append: "\<forall>d \<in> set ds. \<not> P d \<Longrightarrow> P d \<Longrightarrow> count_up P (ds @ [d]) = ds @ [d\<lparr>OpenCount := OpenCount d + 1\<rparr>]"
  by (induction ds) auto

text \<open>The demonstration database with protocol 7 on handle 3.\<close>

definition one_db :: protocol_db where
  "one_db = (case serve_demo (DbInstall None 7 (Some 100)) empty_db of Ret (_, s) \<Rightarrow> s | _ \<Rightarrow> empty_db)"

lemma one_db_serving:
  assumes "k < 2 ^ 60"
  shows "serving k one_db" "instances one_db = (\<lambda>_. [])(7 := [(3, Some 100)])" "handles one_db 3 \<noteq> None"
proof -
  have s: "serving (Suc k) empty_db"
    unfolding empty_db_def by (rule initial_db_serving) (use demo_core_ok assms in simp_all)
  obtain a s' where a: "serve_demo (DbInstall None 7 (Some 100)) empty_db = Ret (a, s')"
      "table_step (table_of empty_db) (DbInstall None 7 (Some 100)) a (table_of s')" "served k empty_db s'"
    unfolding serve_demo_def
    using serve_Install[where mem = "\<lambda>_. True", OF db_restore_total all_True s, of no_driver no_connect 0 None 7 "Some 100"] by (elim exE conjE)
  have d: "one_db = s'" using a(1) by (simp add: one_db_def)
  show "serving k one_db" using a(3) d by (simp add: served_def)
  have "(case serve_demo (DbInstall None 7 (Some 100)) empty_db of Ret (a, s) \<Rightarrow> a = AnsHandle EFI_SUCCESS (Some 3) | _ \<Rightarrow> False)" by code_simp
  then have "a = AnsHandle EFI_SUCCESS (Some 3)" using a(1) by simp
  then have "table_of one_db = put_row 3 7 (Some 100) (table_of empty_db)" using a(2) d by auto
  then have "instances one_db = rows (put_row 3 7 (Some 100) (table_of empty_db))" by (metis table_of_simps(1))
  then show i: "instances one_db = (\<lambda>_. [])(7 := [(3, Some 100)])" by (simp add: put_row_def empty_db_def fun_eq_iff)
  then have "(3, Some 100) \<in> set (instances one_db 7)" by simp
  then show "handles one_db 3 \<noteq> None" by (rule instances_handle_live[OF servingD(2)[OF \<open>serving k one_db\<close>]])
qed

lemma one_db_enter: "may_enter one_db" "db_inv one_db"
  using servingD(1,2)[OF one_db_serving(1)[of 0]] by simp_all

lemma one_db_opens: "opens_at one_db 3 7 []"
proof -
  have "case interfaces one_db 2 of None \<Rightarrow> False | Some I \<Rightarrow> IHandle I = 3 \<and> OpenList I = [] \<and>
     (case prot_entries one_db (IProtocol I) of None \<Rightarrow> False | Some E \<Rightarrow> ProtocolID E = 7)" by code_simp
  then show ?thesis by (auto simp: opens_at_def iface_at_def intro!: exI[of _ 2] split: option.splits)
qed



text \<open>C14: \<open>OpenCount\<close> does not count closes: after any agent has opened an interface twice, one call
  of \<open>CoreCloseProtocol\<close> forgets both, and the second close finds nothing.\<close>

theorem reopen_needs_one_close:
  fixes s :: "'x db"
  assumes "notify_client cl" and "may_enter s" and "db_inv s"
    and "open_valid (Some h) (Some a) ch attr s" and "close_valid (Some h) (Some a) ch s" and "opens_at s h g ds"
    and "attr AND EFI_OPEN_PROTOCOL_EXCLUSIVE = 0" and "\<not> denied attr ds" and "\<forall>d \<in> set ds. \<not> closes (Some a) ch d" and "mem AllocOpenData"
  shows "\<exists>v1 v2 s1 s2 s3 s4 d. let rst = CoreRestoreTpl cl (Suc (Suc n)) in
    CoreOpenProtocol rst disc mem k (Some h) (Some g) True (Some a) ch attr s = Ret (EFI_SUCCESS, v1, s1) \<and>
    CoreOpenProtocol rst disc mem k (Some h) (Some g) True (Some a) ch attr s1 = Ret (EFI_SUCCESS, v2, s2) \<and>
    opens_at s2 h g (ds @ [d]) \<and> OpenCount d = 2 \<and>
    CoreCloseProtocol rst (Some h) (Some g) (Some a) ch s2 = Ret (EFI_SUCCESS, s3) \<and> opens_at s3 h g ds \<and>
    CoreCloseProtocol rst (Some h) (Some g) (Some a) ch s3 = Ret (EFI_NOT_FOUND, s4)"
proof -
  note r = notify_client.restore_total[OF assms(1), of n]
  let ?rst = "CoreRestoreTpl cl (Suc (Suc n))"
  let ?d = "\<lparr>AgentHandle = Some a, ControllerHandle = ch, OAttributes = attr, OpenCount = 1\<rparr>"
  let ?e = "?d\<lparr>OpenCount := OpenCount ?d + 1\<rparr>"
  have so: "\<forall>d \<in> set ds. \<not> same_open (Some a) ch attr d" using assms(9) by (simp add: same_open_def closes_def)
  have nd: "\<not> must_disconnect attr xs" for xs using assms(7) by (simp add: must_disconnect_def)
  have mr: "may_recount attr" using assms(7) by (simp add: may_recount_def)
  have o1: "opened True (Some a) ch attr ds = (EFI_SUCCESS, ds @ [?d])" using so assms(8) by (simp add: opened_def)
  have o2: "opened True (Some a) ch attr (ds @ [?d]) = (EFI_SUCCESS, ds @ [?e])"
    using mr so count_up_append[of ds "same_open (Some a) ch attr" ?d] by (simp add: opened_def same_open_def)
  have t: "attr \<noteq> EFI_OPEN_PROTOCOL_TEST_PROTOCOL \<longrightarrow> True" by simp
  obtain v1 s1 where 1: "CoreOpenProtocol ?rst disc mem k (Some h) (Some g) True (Some a) ch attr s = Ret (EFI_SUCCESS, v1, s1)"
      "opens_at s1 h g (ds @ [?d])" "opens_only s s1"
    using Open_at[where mem = mem and disc = disc and k = k, OF r assms(2,3,4) t assms(6) nd] assms(10) o1 by auto
  note e1 = opens_only_enter[OF assms(2) 1(3)] opens_onlyD(2)[OF 1(3)] and v1 = opens_only_valid[OF 1(3)]
  have p1: "open_valid (Some h) (Some a) ch attr s1" using v1 assms(4) by simp
  obtain v2 s2 where 2: "CoreOpenProtocol ?rst disc mem k (Some h) (Some g) True (Some a) ch attr s1 = Ret (EFI_SUCCESS, v2, s2)"
      "opens_at s2 h g (ds @ [?e])" "opens_only s1 s2"
    using Open_at[where mem = mem and disc = disc and k = k, OF r e1 p1 t 1(2) nd] assms(10) o2 by auto
  note e2 = opens_only_enter[OF e1(1) 2(3)] opens_onlyD(2)[OF 2(3)] and v2 = opens_only_valid[OF 2(3)]
  have p2: "close_valid (Some h) (Some a) ch s2" using v1 v2 assms(5) by simp
  have f: "filter (\<lambda>d. \<not> closes (Some a) ch d) ds = ds" using assms(9) by (simp add: filter_id_conv)
  obtain s3 where 3: "CoreCloseProtocol ?rst (Some h) (Some g) (Some a) ch s2 = Ret (EFI_SUCCESS, s3)" "opens_at s3 h g ds" "opens_only s2 s3"
    using Close_at[OF r e2 p2 2(2)] f by (auto simp: closes_def)
  note e3 = opens_only_enter[OF e2(1) 3(3)] opens_onlyD(2)[OF 3(3)]
  have p3: "close_valid (Some h) (Some a) ch s3" using opens_only_valid[OF 3(3)] p2 by simp
  obtain s4 where 4: "CoreCloseProtocol ?rst (Some h) (Some g) (Some a) ch s3 = Ret (EFI_NOT_FOUND, s4)"
    using Close_at[OF r e3 p3 3(2)] assms(9) by auto
  have "OpenCount ?e = 2" by simp
  with 1(1) 2(1,2) 3(1,2) 4 show ?thesis unfolding Let_def by blast
qed

lemma reopen_needs_one_close_witness:
  "\<exists>v1 v2 s1 s2 s3 s4.
    CoreOpenProtocol db_restore no_driver (\<lambda>_. True) 1 (Some 3) (Some 7) True (Some 3) (Some 3) EFI_OPEN_PROTOCOL_BY_DRIVER one_db = Ret (EFI_SUCCESS, v1, s1) \<and>
    CoreOpenProtocol db_restore no_driver (\<lambda>_. True) 1 (Some 3) (Some 7) True (Some 3) (Some 3) EFI_OPEN_PROTOCOL_BY_DRIVER s1 = Ret (EFI_SUCCESS, v2, s2) \<and>
    CoreCloseProtocol db_restore (Some 3) (Some 7) (Some 3) (Some 3) s2 = Ret (EFI_SUCCESS, s3) \<and>
    CoreCloseProtocol db_restore (Some 3) (Some 7) (Some 3) (Some 3) s3 = Ret (EFI_NOT_FOUND, s4)"
proof -
  have v: "open_valid (Some 3) (Some 3) (Some 3) EFI_OPEN_PROTOCOL_BY_DRIVER one_db" "close_valid (Some 3) (Some 3) (Some 3) one_db"
    using one_db_serving(3)[of 0] by (simp_all add: open_valid_def valid_attributes_def close_valid_def)
  have "EFI_OPEN_PROTOCOL_BY_DRIVER AND EFI_OPEN_PROTOCOL_EXCLUSIVE = 0" "\<not> denied EFI_OPEN_PROTOCOL_BY_DRIVER []"
    "\<forall>d \<in> set []. \<not> closes (Some 3) (Some 3) d" "(\<lambda>_. True) AllocOpenData" by (simp_all add: denied_def)
  from reopen_needs_one_close[where mem = "\<lambda>_. True", OF harness_client one_db_enter v one_db_opens this, of 10 no_driver 1, folded db_restore_def]
  show ?thesis unfolding Let_def by blast
qed

section \<open>Installing and removing\<close>

lemma all_True2: "\<forall>i x. (\<lambda>_ _. True) i x"
  by simp

text \<open>C15: an interface that has been installed is found under its handle and can be taken away again,
  after which the database has the instances it had before and a handle made for it is gone.\<close>

theorem install_roundtrip:
  fixes s :: "'x db"
  assumes "notify_client cl" and "may_enter s" and "db_inv s" and "install_target (\<lambda>_. True) s g uh"
    and "quiet_watchers (gEfiCurrentTpl s) s g"
  shows "\<exists>h s1 s2 s3. let rst = CoreRestoreTpl cl (Suc (Suc n)) in
    CoreInstallProtocolInterface rst disc (\<lambda>_. True) (Suc k) (Some uh) (Some g) EFI_NATIVE_INTERFACE v s = Ret (EFI_SUCCESS, Some h, s1) \<and>
    instances s1 g = instances s g @ [(h, v)] \<and>
    CoreHandleProtocol rst disc (\<lambda>_. True) (Suc k) (Some h) (Some g) True s1 = Ret (EFI_SUCCESS, Some v, s2) \<and>
    CoreUninstallProtocolInterface rst disc conn (Suc k) (Some h) (Some g) v s2 = Ret (EFI_SUCCESS, s3) \<and>
    instances s3 = instances s \<and> watchers s3 = watchers s \<and> db_inv s3 \<and> may_enter s3 \<and> (\<forall>x. handles s3 x \<noteq> None \<longleftrightarrow> handles s x \<noteq> None)"
proof -
  note r = notify_client.restore_total[OF assms(1), of n]
  let ?rst = "CoreRestoreTpl cl (Suc (Suc n))"
  obtain h s1 where 1: "CoreInstallProtocolInterfaceNotify ?rst disc (\<lambda>_. True) (Suc k) (Some uh) (Some g) EFI_NATIVE_INTERFACE v True s = Ret (EFI_SUCCESS, Some h, s1)"
      "installed h g v s s1" "uh = None \<longrightarrow> handles s h = None" "uh \<noteq> None \<longrightarrow> uh = Some h"
    using Install_succeeds[where mem = "\<lambda>_. True", OF r assms(2,3,4) _ _ le_refl, of True] assms(5) by blast
  have i1: "kept 0 s s1" "instances s1 = (instances s)(g := instances s g @ [(h, v)])" "watchers s1 = watchers s" using 1(2) by (simp_all add: installed_def)
  note e1 = kept_enter[OF assms(2) i1(1)] keptD(2)[OF i1(1)]
  have p1: "provides s1 h g v" using provides_instances[OF e1(2)] i1(2) by simp
  have l1: "live s1 (Some h)" using instances_handle_live[OF e1(2), of h v g] i1(2) by simp
  have the: "(THE w. provides s1 h g w) = v" using p1 provides_unique[OF e1(2)] by blast
  obtain s2 where 2: "CoreHandleProtocol ?rst disc (\<lambda>_. True) (Suc k) (Some h) (Some g) True s1 =
       Ret (if \<not> live s1 (Some h) then (EFI_INVALID_PARAMETER, None, s2)
        else if \<exists>v. provides s1 (the (Some h)) g v then (EFI_SUCCESS, Some (THE v. provides s1 (the (Some h)) g v), s2)
        else (EFI_UNSUPPORTED, Some None, s2))"
      "opens_only s1 s2" "\<forall>h g'. idle_on s1 h g' \<longrightarrow> idle_on s2 h g'"
    using HandleProtocol_eq[where mem = "\<lambda>_. True", OF r e1, of disc "Suc k" "Some h" g] by blast
  have c2: "CoreHandleProtocol ?rst disc (\<lambda>_. True) (Suc k) (Some h) (Some g) True s1 = Ret (EFI_SUCCESS, Some v, s2)"
    using 2(1) l1 p1 the by auto
  note e2 = opens_only_enter[OF e1(1) 2(2)] opens_onlyD(2)[OF 2(2)]
  have v2: "instances s2 = instances s1" "watchers s2 = watchers s1" using opens_only_view[OF 2(2)] by simp_all
  have m2: "(h, v) \<in> set (instances s2 g)" using v2 i1(2) by simp
  have id2: "idle_on s2 h g" using 2(3) installed_idle(1)[OF 1(2)] by simp
  obtain s3 where 3: "CoreUninstallProtocolInterface ?rst disc conn (Suc k) (Some h) (Some g) v s2 = Ret (EFI_SUCCESS, s3)" "uninstalled h g s2 s3"
    using Uninstall_idle[OF r e2 m2 id2] by blast
  have i3: "kept 0 s2 s3" "instances s3 = (instances s2)(g := filter (\<lambda>x. fst x \<noteq> h) (instances s2 g))" "watchers s3 = watchers s2"
    using 3(2) by (simp_all add: uninstalled_def)
  note e3 = kept_enter[OF e2(1) i3(1)] keptD(2)[OF i3(1)]
  have "h \<notin> fst ` set (instances s g)" by (rule target_new[OF assms(3,4) 1(3,4)])
  then have "filter (\<lambda>x. fst x \<noteq> h) (instances s g) = instances s g" by (force simp: filter_id_conv)
  then have b: "instances s3 = instances s" using i3(2) v2(1) i1(2) by (simp add: fun_eq_iff)
  have "handles s3 x \<noteq> None \<longleftrightarrow> handles s x \<noteq> None" for x
    unfolding live_iff_instances[OF e3(2)] live_iff_instances[OF assms(3)] b ..
  then show ?thesis
    using 1(1) c2 3(1) i1 b e3 i3(3) v2(2) unfolding Let_def CoreInstallProtocolInterface_def
    by (intro exI[of _ h] exI[of _ s1] exI[of _ s2] exI[of _ s3]) simp
qed

lemma install_roundtrip_witness:
  "\<exists>h s1 s2 s3. CoreInstallProtocolInterface db_restore no_driver (\<lambda>_. True) (Suc 0) (Some (Some 3)) (Some 8) EFI_NATIVE_INTERFACE (Some 102) one_db =
      Ret (EFI_SUCCESS, Some h, s1) \<and>
    CoreUninstallProtocolInterface db_restore no_driver no_connect (Suc 0) (Some h) (Some 8) (Some 102) s2 = Ret (EFI_SUCCESS, s3) \<and> instances s3 7 = [(3, Some 100)]"
proof -
  have t: "install_target (\<lambda>_. True) one_db 8 (Some 3)" using one_db_serving(2,3)[of 0] by (simp add: install_target_def)
  have q: "quiet_watchers (gEfiCurrentTpl one_db) one_db 8" using servingD(6)[OF one_db_serving(1)[of 0]] by simp
  show ?thesis
    using install_roundtrip[OF harness_client one_db_enter t q, of 10 no_driver 0 "Some 102" no_connect, folded db_restore_def] one_db_serving(2)[of 0]
    unfolding Let_def by (elim exE conjE) (intro exI conjI, assumption+, simp)
qed



text \<open>C9: the rollback of \<open>CoreUninstallMultipleProtocolInterfaces\<close> does not restore: when the first
  removal takes the last interface of the handle, the handle is freed, the second removal fails, and
  putting the first back is refused because its handle is gone. The call reports failure and has
  removed the interface and the handle.\<close>

theorem UninstallMultiple_not_atomic:
  fixes s :: "'x db"
  assumes "notify_client cl" and "may_enter s" and "db_inv s" and "(h, v) \<in> set (instances s g)" and "idle_on s h g"
    and "\<forall>g' v'. (h, v') \<in> set (instances s g') \<longrightarrow> g' = g"
  shows "\<exists>s'. CoreUninstallMultipleProtocolInterfaces (CoreRestoreTpl cl (Suc (Suc n))) disc conn (\<lambda>_ _. True) (Suc k) (Some h) [(g, v), (g2, v2)] s =
      Ret (EFI_INVALID_PARAMETER, s') \<and> handles s' h = None \<and> instances s' g = filter (\<lambda>x. fst x \<noteq> h) (instances s g)"
  using UninstallMultiple_loses[where mem = "\<lambda>_ _. True", OF notify_client.restore_total[OF assms(1)] assms(2,3) all_True2 assms(4-6), of n disc conn k g2 v2] by auto

lemma UninstallMultiple_not_atomic_witness:
  "\<exists>s'. CoreUninstallMultipleProtocolInterfaces db_restore no_driver no_connect (\<lambda>_ _. True) (Suc 0) (Some 3) [(7, Some 100), (8, Some 102)] one_db =
     Ret (EFI_INVALID_PARAMETER, s') \<and> handles s' 3 = None \<and> instances s' 7 = []"
proof -
  note i = one_db_serving(2)[of 0]
  have m: "(3, Some 100) \<in> set (instances one_db 7)" "\<forall>g' v'. (3, v') \<in> set (instances one_db g') \<longrightarrow> g' = 7" using i by (auto split: if_splits)
  have id: "idle_on one_db 3 7" by (rule servingD(7)[OF one_db_serving(1)[of 0] m(1)]) simp
  show ?thesis
    using UninstallMultiple_not_atomic[OF harness_client one_db_enter m(1) id m(2), of 10 no_driver no_connect 0 8 "Some 102", folded db_restore_def] i by simp
qed


section \<open>Searching\<close>

text \<open>C38: \<open>CoreLocateHandleBuffer\<close> returns exactly the handles of the protocol in the order of
  installation, and a count that matches, or reports that there is none.\<close>

theorem LocateHandleBuffer_complete:
  fixes s :: "'x db"
  assumes "notify_client cl" and "serving 2 s"
  shows "\<exists>s'. CoreLocateHandleBuffer (CoreRestoreTpl cl (Suc (Suc n))) (\<lambda>_. True) ByProtocol (Some g) None True True s =
      Ret (if instances s g = [] then (EFI_NOT_FOUND, 0, None, s')
           else (EFI_SUCCESS, of_nat (length (instances s g)), Some (map fst (instances s g)), s')) \<and>
    instances s' = instances s \<and> distinct (map fst (instances s g))"
proof -
  note d = servingD[OF assms(2)]
  have "8 * length (instances s g) < 2 ^ 64" using d(5)[of g] by simp
  from LocateHandleBuffer_ByProtocol[where mem = "\<lambda>_. True", OF notify_client.restore_total[OF assms(1)] d(1,2,3,4) this, of n None]
  show ?thesis using distinct_instances[OF d(2)] by auto
qed

lemma LocateHandleBuffer_complete_witness:
  "\<exists>s'. CoreLocateHandleBuffer db_restore (\<lambda>_. True) ByProtocol (Some 7) None True True one_db = Ret (EFI_SUCCESS, 1, Some [3], s')"
  using LocateHandleBuffer_complete[OF harness_client one_db_serving(1), of 10 7, folded db_restore_def] one_db_serving(2)[of 0] by auto



text \<open>C16: \<open>CoreLocateDevicePath\<close> finds the nearest device: among the handles of the protocol whose
  device path is a prefix of the given path it returns the one with the longest path and the rest of
  the path after it, or reports that there is none, when no two of these paths are equally long.\<close>

theorem LocateDevicePath_longest:
  fixes s :: "'x db"
  assumes "notify_client cl" and "serving 2 s" and "instances s g \<noteq> []"
    and "path_at (memory s) src ns" and "single_instance ns" and "length ns < k"
    and "paths_on s pcd k (map fst (instances s g)) P"
    and "\<forall>h h' ms ms'. h \<noteq> h' \<and> matches (concat ns) P h ms \<and> matches (concat ns) P h' ms' \<longrightarrow> path_length ms \<noteq> path_length ms'"
  shows "\<exists>st d rest s'. CoreLocateDevicePath (CoreRestoreTpl cl (Suc (Suc n))) disc (\<lambda>_. True) k pcd (Some g) (Some (Some src)) True s =
      Ret (st, d, Some rest, s') \<and> instances s' = instances s \<and>
    ((\<forall>h \<in> fst ` set (instances s g). \<forall>ms. \<not> matches (concat ns) P h ms) \<and> st = EFI_NOT_FOUND \<and> d = None \<and> rest = src \<or>
     (\<exists>h \<in> fst ` set (instances s g). \<exists>ms. matches (concat ns) P h ms \<and> st = EFI_SUCCESS \<and> d = Some h \<and> rest = src + path_length ms \<and>
        (\<forall>h' \<in> fst ` set (instances s g). \<forall>ms'. matches (concat ns) P h' ms' \<longrightarrow> path_length ms' \<le> path_length ms)))"
proof -
  note d = servingD[OF assms(2)]
  let ?hs = "map fst (instances s g)" and ?b = "concat ns"
  have n: "8 * length (instances s g) < 2 ^ 64" using d(5)[of g] by simp
  obtain s' where s': "CoreLocateDevicePath (CoreRestoreTpl cl (Suc (Suc n))) disc (\<lambda>_. True) k pcd (Some g) (Some (Some src)) True s =
    (case best_match ?b P (- 1) None ?hs of None \<Rightarrow> Assert
     | Some (b, d) \<Rightarrow> Ret (if b = - 1 then (EFI_NOT_FOUND, None, Some src, s') else (EFI_SUCCESS, d, Some (src + nat b), s')))"
    "instances s' = instances s"
    using LocateDevicePath_eq[where mem = "\<lambda>_. True", OF notify_client.restore_total[OF assms(1)] d(1,2,3,4) n all_True assms(4-7,3), of n disc] by blast
  have "best_match ?b P (- 1) None ?hs \<noteq> None"
    by (rule best_match_total[OF distinct_instances[OF d(2)]]) (use assms(8) in auto)
  then obtain b e where b: "best_match ?b P (- 1) None ?hs = Some (b, e)" by auto
  note m = best_match_Some[OF b]
  show ?thesis
  proof (cases "b = - 1")
    case True
    have "\<not> matches ?b P h ms" if "h \<in> fst ` set (instances s g)" for h ms
    proof
      assume "matches ?b P h ms"
      then have "int (path_length ms) \<le> b" using m that by auto
      then show False using True by simp
    qed
    then show ?thesis using s' b True by (intro exI[of _ EFI_NOT_FOUND] exI[of _ None] exI[of _ src] exI[of _ s']) simp
  next
    case False
    then obtain h ms where h: "h \<in> set ?hs" "matches ?b P h ms" "e = Some h" "b = int (path_length ms)" using m by blast
    have "path_length ms' \<le> path_length ms" if "h' \<in> set ?hs" "matches ?b P h' ms'" for h' ms' using m that h(4) by auto
    then show ?thesis using s' b False h
      by (intro exI[of _ EFI_SUCCESS] exI[of _ "Some h"] exI[of _ "src + path_length ms"] exI[of _ s'] conjI disjI2 bexI[of _ h] exI[of _ ms]) simp_all
  qed
qed


text \<open>The demonstration: one node at 100, the same node followed by another one at 200.\<close>

definition path_bytes_at :: "nat \<Rightarrow> u8" where
  "path_bytes_at a =
     (if 100 \<le> a \<and> a < 110 then [1, 1, 6, 0, 0, 3, 0x7F, 0xFF, 4, 0] ! (a - 100)
      else if 200 \<le> a \<and> a < 216 then [1, 1, 6, 0, 0, 3, 3, 5, 6, 0, 2, 0, 0x7F, 0xFF, 4, 0] ! (a - 200) else 0)"

definition path_db :: "db_call list \<Rightarrow> protocol_db" where
  "path_db cs = (case run_demo cs (empty_db\<lparr>memory := path_bytes_at\<rparr>) of Ret (_, s) \<Rightarrow> s | _ \<Rightarrow> empty_db)"

abbreviation install_path :: db_call where
  "install_path \<equiv> DbInstall None gEfiDevicePathProtocolGuid (Some 100)"

lemma path_at_100: "path_at path_bytes_at 100 [[1, 1, 6, 0, 0, 3]]" "path_at path_bytes_at 200 [[1, 1, 6, 0, 0, 3], [3, 5, 6, 0, 2, 0]]"
  by code_simp+

lemma serving_memory: "serving k (s\<lparr>memory := m\<rparr>) = serving k s"
proof -
  have "instances (s\<lparr>memory := m\<rparr>) = instances s" "watchers (s\<lparr>memory := m\<rparr>) = watchers s"
    by (rule instances_cong watchers_cong; simp)+
  moreover have "db_inv (s\<lparr>memory := m\<rparr>) = db_inv s" by (rule db_inv_cong) simp_all
  moreover have "core_inv (s\<lparr>memory := m\<rparr>) = core_inv s" 
    using core_inv_truncate[of "s\<lparr>memory := m\<rparr>"] core_inv_truncate[of s] by (simp add: core.truncate_def)
  ultimately show ?thesis
    by (simp add: serving_def may_enter_def request_inv_def quiet_watchers_def quiet_event_def idle_on_def iface_at_def)
qed

lemma table_of_memory: "table_of (s\<lparr>memory := m\<rparr>) = table_of s"
proof -
  have "instances (s\<lparr>memory := m\<rparr>) = instances s" "watchers (s\<lparr>memory := m\<rparr>) = watchers s" "unseen (s\<lparr>memory := m\<rparr>) = unseen s"
    by (rule instances_cong watchers_cong unseen_cong; simp add: instance_of_def[abs_def])+
  then show ?thesis by (simp add: table_of_def notify_events_def[abs_def])
qed

lemma proper_trivial:
  assumes "\<forall>c \<in> set cs. \<forall>s :: protocol_db. proper_call c s" and "serving (length cs) s"
  shows "proper_calls db_restore no_driver no_connect (\<lambda>_. True) (Suc 0) cs s"
  by (rule proper_calls_static[OF db_restore_total all_True assms(2)]) (use assms(1) in blast)

lemma path_db_run:
  assumes "\<forall>c \<in> set cs. \<forall>s :: protocol_db. proper_call c s" and "length cs + j < 2 ^ 60"
  shows "\<exists>as. table_run (table_of empty_db) cs as (table_of (path_db cs))" "serving j (path_db cs)" "memory (path_db cs) = path_bytes_at"
proof -
  let ?e = "empty_db\<lparr>memory := path_bytes_at\<rparr>"
  have s: "serving (length cs + j) ?e"
    unfolding serving_memory empty_db_def by (rule initial_db_serving) (use demo_core_ok assms in simp_all)
  obtain as s' where r: "run_demo cs ?e = Ret (as, s')" "table_run (table_of ?e) cs as (table_of s')" "serving j s'" "kept (length cs) ?e s'"
    unfolding run_demo_def
    using db_run_refines[OF db_restore_total all_True s proper_trivial[OF assms(1) serving_mono[OF s]]] by blast
  have p: "path_db cs = s'" using r(1) by (simp add: path_db_def)
  show "\<exists>as. table_run (table_of empty_db) cs as (table_of (path_db cs))" "serving j (path_db cs)" "memory (path_db cs) = path_bytes_at"
    using r(2,3) keptD(6)[OF r(4)] p by (auto simp: table_of_memory)
qed

lemma empty_db_table: "table_of empty_db = \<lparr>rows = \<lambda>_. [], watching = \<lambda>_. [], news = \<lambda>_. [], signals = Map.empty\<rparr>"
  unfolding empty_db_def by (simp add: table_of_def fun_eq_iff)

lemma path_db_instances:
  assumes "\<forall>x \<in> set (instances (path_db cs) gEfiDevicePathProtocolGuid). snd x = Some 100" and "serving j (path_db cs)" and "memory (path_db cs) = path_bytes_at"
  shows "paths_on (path_db cs) 0 4 (map fst (instances (path_db cs) gEfiDevicePathProtocolGuid)) (\<lambda>_. Some [[1, 1, 6, 0, 0, 3]])"
  unfolding paths_on_def
proof (intro ballI conjI)
  note inv = servingD(2)[OF assms(2)]
  fix h assume "h \<in> set (map fst (instances (path_db cs) gEfiDevicePathProtocolGuid))"
  then have h: "(h, Some 100) \<in> set (instances (path_db cs) gEfiDevicePathProtocolGuid)" using assms(1) by force
  then show "handles (path_db cs) h \<noteq> None" by (rule instances_handle_live[OF inv])
  have "provides (path_db cs) h gEfiDevicePathProtocolGuid (Some 100)" using provides_instances[OF inv] h by blast
  then show "case Some [[1, 1, 6, 0, 0, 3]] of None \<Rightarrow> \<forall>v. \<not> provides (path_db cs) h gEfiDevicePathProtocolGuid v
    | Some ns \<Rightarrow> \<exists>p. provides (path_db cs) h gEfiDevicePathProtocolGuid (Some p) \<and> path_at (memory (path_db cs)) p ns \<and> accepted 0 MAX_UINTN ns \<and> length ns < 4"
    using path_at_100(1) assms(3) by (auto simp: accepted_def intro!: exI[of _ 100])
qed

lemma path_db_1: "\<exists>h. instances (path_db [install_path]) gEfiDevicePathProtocolGuid = [(h, Some 100)]"
proof -
  have p: "\<forall>c \<in> set [install_path]. \<forall>s :: protocol_db. proper_call c s" "length [install_path] + 2 < 2 ^ 60" by simp_all
  from path_db_run(1)[OF p] obtain h where "rows (table_of (path_db [install_path])) gEfiDevicePathProtocolGuid = [(h, Some 100)]"
    unfolding table_run_Cons table_run_Nil by (auto simp: empty_db_table put_row_def simp del: table_of_simps)
  then show ?thesis by auto
qed


lemma path_demo: "path_length [[1, 1, 6, 0, 0, 3]] = 6" "single_instance [[1, 1, 6, 0, 0, 3], [3, 5, 6, 0, 2, 0]]"
  "matches (concat [[1, 1, 6, 0, 0, 3], [3, 5, 6, 0, 2, 0]]) (\<lambda>_. Some [[1, 1, 6, 0, 0, 3]]) h ms \<longleftrightarrow> ms = [[1, 1, 6, 0, 0, 3]]"
  by (auto simp: single_instance_def matches_def)

lemma LocateDevicePath_longest_witness:
  "\<exists>h s'. CoreLocateDevicePath db_restore no_driver (\<lambda>_. True) 4 0 (Some gEfiDevicePathProtocolGuid) (Some (Some 200)) True (path_db [install_path]) =
     Ret (EFI_SUCCESS, Some h, Some 206, s')"
proof -
  let ?s = "path_db [install_path]" and ?g = gEfiDevicePathProtocolGuid
  have p: "\<forall>c \<in> set [install_path]. \<forall>s :: protocol_db. proper_call c s" "length [install_path] + 2 < 2 ^ 60" by simp_all
  note run = path_db_run(2,3)[OF p]
  obtain h where i: "instances ?s ?g = [(h, Some 100)]" using path_db_1 by blast
  have po: "paths_on ?s 0 4 (map fst (instances ?s ?g)) (\<lambda>x. if x = h then Some [[1, 1, 6, 0, 0, 3]] else None)"
    using path_db_instances[OF _ run] by (simp add: i paths_on_def)
  have src: "path_at (memory ?s) 200 [[1, 1, 6, 0, 0, 3], [3, 5, 6, 0, 2, 0]]" using path_at_100(2) run(2) by simp
  have ne: "instances ?s ?g \<noteq> []" "length [[1, 1, 6, 0, 0, 3], [3, 5, 6, 0, 2, 0 :: u8]] < 4" using i by simp_all
  have m: "matches (concat [[1, 1, 6, 0, 0, 3], [3, 5, 6, 0, 2, 0]]) (\<lambda>x. if x = h then Some [[1, 1, 6, 0, 0, 3]] else None) x ms \<longleftrightarrow>
      x = h \<and> ms = [[1, 1, 6, 0, 0, 3]]" for x ms
    by (auto simp: matches_def)
  have d: "\<forall>x x' ms ms'. x \<noteq> x' \<and> matches (concat [[1, 1, 6, 0, 0, 3], [3, 5, 6, 0, 2, 0]]) (\<lambda>x. if x = h then Some [[1, 1, 6, 0, 0, 3]] else None) x ms \<and>
      matches (concat [[1, 1, 6, 0, 0, 3], [3, 5, 6, 0, 2, 0]]) (\<lambda>x. if x = h then Some [[1, 1, 6, 0, 0, 3]] else None) x' ms' \<longrightarrow> path_length ms \<noteq> path_length ms'"
    unfolding m by blast
  have hs: "fst ` set (instances ?s ?g) = {h}" by (simp add: i)
  show ?thesis
    using LocateDevicePath_longest[OF harness_client run(1) ne(1) src path_demo(2) ne(2) po d, of 10 no_driver, folded db_restore_def]
    unfolding m hs by (auto simp: path_demo(1))
qed


end
