(* ===== verification/LinkedList.thy ===== *)
theory LinkedList
  imports Outcome
begin

text \<open>
  The doubly linked lists of the base library, \<open>LinkedList.c\<close>: nodes with a forward and a back link in a
  heap, circular through the head. Every list of the services is one of these; the theories of the
  services have them as lists of nodes, and this theory shows that the code is right to be read so.
\<close>

section \<open>The code\<close>

record list_entry =
  ForwardLink :: "nat option"
  BackLink :: "nat option"

type_synonym links = "nat \<Rightarrow> list_entry option"

text \<open>Reading a link and writing it, through a pointer that may be null or dangling.\<close>

definition get_fwd :: "nat option \<Rightarrow> links \<Rightarrow> nat option outcome" where
  "get_fwd p h = deref p (\<lambda>a. deref (h a) (\<lambda>E. Ret (ForwardLink E)))"

definition get_back :: "nat option \<Rightarrow> links \<Rightarrow> nat option outcome" where
  "get_back p h = deref p (\<lambda>a. deref (h a) (\<lambda>E. Ret (BackLink E)))"

definition set_fwd :: "nat option \<Rightarrow> nat option \<Rightarrow> links \<Rightarrow> links outcome" where
  "set_fwd p v h = deref p (\<lambda>a. deref (h a) (\<lambda>E. Ret (h(a \<mapsto> E\<lparr>ForwardLink := v\<rparr>))))"

definition set_back :: "nat option \<Rightarrow> nat option \<Rightarrow> links \<Rightarrow> links outcome" where
  "set_back p v h = deref p (\<lambda>a. deref (h a) (\<lambda>E. Ret (h(a \<mapsto> E\<lparr>BackLink := v\<rparr>))))"

definition InternalBaseLibIsListValid :: "nat option \<Rightarrow> links \<Rightarrow> bool outcome" where
  "InternalBaseLibIsListValid List h =
     ASSERT (List \<noteq> None) (bind (get_fwd List h) (\<lambda>f. ASSERT (f \<noteq> None)
       (bind (get_back List h) (\<lambda>b. ASSERT (b \<noteq> None) (Ret True)))))"

text \<open>The search loop takes one unit of fuel for each node that it visits.\<close>

fun NodeInList_loop :: "nat \<Rightarrow> nat option \<Rightarrow> nat option \<Rightarrow> nat option \<Rightarrow> links \<Rightarrow> bool outcome" where
  "NodeInList_loop 0 Ptr FirstEntry SecondEntry h = NoFuel"
| "NodeInList_loop (Suc k) Ptr FirstEntry SecondEntry h = bind (get_fwd Ptr h) (\<lambda>Ptr.
     if Ptr = SecondEntry then Ret True
     else if Ptr \<noteq> FirstEntry then NodeInList_loop k Ptr FirstEntry SecondEntry h
     else Ret False)"

definition IsNodeInList :: "nat \<Rightarrow> nat option \<Rightarrow> nat option \<Rightarrow> links \<Rightarrow> bool outcome" where
  "IsNodeInList k FirstEntry SecondEntry h =
     bind (InternalBaseLibIsListValid FirstEntry h) (\<lambda>valid. ASSERT valid (ASSERT (SecondEntry \<noteq> None)
       (NodeInList_loop k FirstEntry FirstEntry SecondEntry h)))"

definition InitializeListHead :: "nat option \<Rightarrow> links \<Rightarrow> (nat option \<times> links) outcome" where
  "InitializeListHead ListHead h =
     ASSERT (ListHead \<noteq> None) (bind (set_fwd ListHead ListHead h) (\<lambda>h1.
       bind (set_back ListHead ListHead h1) (\<lambda>h2. Ret (ListHead, h2))))"

definition InsertHeadList :: "nat option \<Rightarrow> nat option \<Rightarrow> links \<Rightarrow> (nat option \<times> links) outcome" where
  "InsertHeadList ListHead Entry h =
     bind (get_fwd ListHead h) (\<lambda>f. bind (set_fwd Entry f h) (\<lambda>h1.
     bind (set_back Entry ListHead h1) (\<lambda>h2.
     bind (get_fwd Entry h2) (\<lambda>n. bind (set_back n Entry h2) (\<lambda>h3.
     bind (set_fwd ListHead Entry h3) (\<lambda>h4. Ret (ListHead, h4)))))))"

definition InsertTailList :: "nat option \<Rightarrow> nat option \<Rightarrow> links \<Rightarrow> (nat option \<times> links) outcome" where
  "InsertTailList ListHead Entry h =
     bind (set_fwd Entry ListHead h) (\<lambda>h1.
     bind (get_back ListHead h1) (\<lambda>b. bind (set_back Entry b h1) (\<lambda>h2.
     bind (get_back Entry h2) (\<lambda>p. bind (set_fwd p Entry h2) (\<lambda>h3.
     bind (set_back ListHead Entry h3) (\<lambda>h4. Ret (ListHead, h4)))))))"

definition GetFirstNode :: "nat option \<Rightarrow> links \<Rightarrow> nat option outcome" where
  "GetFirstNode List h = bind (InternalBaseLibIsListValid List h) (\<lambda>valid. ASSERT valid (get_fwd List h))"

definition GetNextNode :: "nat option \<Rightarrow> nat option \<Rightarrow> links \<Rightarrow> nat option outcome" where
  "GetNextNode List Node h = get_fwd Node h"

definition GetPreviousNode :: "nat option \<Rightarrow> nat option \<Rightarrow> links \<Rightarrow> nat option outcome" where
  "GetPreviousNode List Node h = get_back Node h"

definition IsListEmpty :: "nat option \<Rightarrow> links \<Rightarrow> bool outcome" where
  "IsListEmpty ListHead h =
     bind (InternalBaseLibIsListValid ListHead h) (\<lambda>valid. ASSERT valid (bind (get_fwd ListHead h) (\<lambda>f. Ret (f = ListHead))))"

definition IsNull :: "nat option \<Rightarrow> nat option \<Rightarrow> links \<Rightarrow> bool outcome" where
  "IsNull List Node h = Ret (Node = List)"

definition IsNodeAtEnd :: "nat option \<Rightarrow> nat option \<Rightarrow> links \<Rightarrow> bool outcome" where
  "IsNodeAtEnd List Node h = bind (IsNull List Node h) (\<lambda>null.
     if null then Ret False else bind (get_back List h) (\<lambda>b. Ret (b = Node)))"

definition RemoveEntryList :: "nat option \<Rightarrow> links \<Rightarrow> (nat option \<times> links) outcome" where
  "RemoveEntryList Entry h =
     bind (IsListEmpty Entry h) (\<lambda>empty. ASSERT (\<not> empty)
       (bind (get_fwd Entry h) (\<lambda>f. bind (get_back Entry h) (\<lambda>b. bind (set_back f b h) (\<lambda>h1.
        bind (get_back Entry h1) (\<lambda>b. bind (get_fwd Entry h1) (\<lambda>f. bind (set_fwd b f h1) (\<lambda>h2.
        bind (get_fwd Entry h2) (\<lambda>f. Ret (f, h2))))))))))"

definition SwapListEntries :: "nat option \<Rightarrow> nat option \<Rightarrow> links \<Rightarrow> (nat option \<times> links) outcome" where
  "SwapListEntries FirstEntry SecondEntry h =
     (if FirstEntry = SecondEntry then Ret (SecondEntry, h)
      else bind (RemoveEntryList FirstEntry h) (\<lambda>(Ptr, h1).
        bind (get_back Ptr h1) (\<lambda>b.
        if b = SecondEntry then InsertTailList SecondEntry FirstEntry h1
        else bind (InsertHeadList SecondEntry FirstEntry h1) (\<lambda>(r, h2).
          if Ptr = r then Ret (Ptr, h2)
          else bind (RemoveEntryList SecondEntry h2) (\<lambda>(_, h3).
            bind (InsertTailList Ptr SecondEntry h3) (\<lambda>(_, h4). Ret (SecondEntry, h4)))))))"

section \<open>Circular lists\<close>

definition adjacent :: "links \<Rightarrow> nat \<Rightarrow> nat \<Rightarrow> bool" where
  "adjacent h a b \<longleftrightarrow> map_option ForwardLink (h a) = Some (Some b) \<and> map_option BackLink (h b) = Some (Some a)"

fun chain :: "links \<Rightarrow> nat \<Rightarrow> nat list \<Rightarrow> nat \<Rightarrow> bool" where
  "chain h a [] z = adjacent h a z"
| "chain h a (x # xs) z = (adjacent h a x \<and> chain h x xs z)"

text \<open>The nodes \<open>a # xs\<close> form a circle.\<close>

fun circle :: "links \<Rightarrow> nat list \<Rightarrow> bool" where
  "circle h [] = False"
| "circle h (a # xs) = (distinct (a # xs) \<and> chain h a xs a)"

lemma chain_append: "chain h a (xs @ x # ys) z \<longleftrightarrow> chain h a xs x \<and> chain h x ys z"
  by (induction xs arbitrary: a) auto

lemma circle_rotate: "circle h (xs @ ys) \<longleftrightarrow> circle h (ys @ xs)"
proof (cases xs)
  case (Cons a as)
  show ?thesis
  proof (cases ys)
    case (Cons b bs)
    then show ?thesis using \<open>xs = a # as\<close> by (auto simp: chain_append)
  qed (use Cons in simp)
qed simp

lemma chain_ends:
  "\<forall>y \<in> set xs. h' y = h y \<Longrightarrow> map_option ForwardLink (h' a) = map_option ForwardLink (h a) \<Longrightarrow>
   map_option BackLink (h' z) = map_option BackLink (h z) \<Longrightarrow> chain h' a xs z = chain h a xs z"
  by (induction xs arbitrary: a) (simp_all add: adjacent_def)

lemma circle_frame: "\<forall>x \<in> set xs. h' x = h x \<Longrightarrow> circle h' xs = circle h xs"
  using chain_ends[of "tl xs" h' h "hd xs" "hd xs"] by (cases xs) simp_all

lemma circle_distinct: "circle h xs \<Longrightarrow> distinct xs"
  by (cases xs) simp_all

text \<open>The neighbours of a node of a circle.\<close>

lemma chain_fwd: "chain h a xs z \<Longrightarrow> map_option ForwardLink (h a) = Some (Some (hd (xs @ [z])))"
  by (cases xs) (simp_all add: adjacent_def)

lemma chain_back: "chain h a xs z \<Longrightarrow> map_option BackLink (h z) = Some (Some (last (a # xs)))"
  by (induction xs arbitrary: a) (simp_all add: adjacent_def)

lemma circle_node:
  assumes "circle h (a # xs)"
  shows "h a = Some \<lparr>ForwardLink = Some (hd (xs @ [a])), BackLink = Some (last (a # xs))\<rparr>"
proof -
  have "map_option ForwardLink (h a) = Some (Some (hd (xs @ [a])))" "map_option BackLink (h a) = Some (Some (last (a # xs)))"
    using assms chain_fwd[of h a xs a] chain_back[of h a xs a] by simp_all
  then show ?thesis by auto
qed

lemma circle_links:
  assumes "circle h (a # xs)"
  shows "get_fwd (Some a) h = Ret (Some (hd (xs @ [a])))" "get_back (Some a) h = Ret (Some (last (a # xs)))"
    "InternalBaseLibIsListValid (Some a) h = Ret True"
  using circle_node[OF assms] by (simp_all add: get_fwd_def get_back_def InternalBaseLibIsListValid_def)

lemma IsListEmpty_circle:
  assumes "circle h (a # xs)" shows "IsListEmpty (Some a) h = Ret (xs = [])"
proof -
  have "hd (xs @ [a]) = a \<longleftrightarrow> xs = []" using circle_distinct[OF assms] by (cases xs) auto
  then show ?thesis using circle_links[OF assms] by (simp add: IsListEmpty_def)
qed

text \<open>Nothing but the links of \<open>S\<close> changes.\<close>

definition only :: "nat set \<Rightarrow> links \<Rightarrow> links \<Rightarrow> bool" where
  "only S h h' \<longleftrightarrow> (\<forall>x. x \<notin> S \<longrightarrow> h' x = h x) \<and> dom h' = dom h"

lemma only_trans: "only S h h' \<Longrightarrow> only T h' h'' \<Longrightarrow> S \<union> T \<subseteq> U \<Longrightarrow> only U h h''"
  unfolding only_def by (metis UnI1 UnI2 subsetD)

section \<open>Insertion and removal\<close>

lemma InsertHeadList_circle:
  assumes c: "circle h (a # xs)" and e: "e \<notin> set (a # xs)" "h e = Some E"
  shows "\<exists>h'. InsertHeadList (Some a) (Some e) h = Ret (Some a, h') \<and> circle h' (a # e # xs) \<and> only (set (e # a # xs)) h h'"
proof (cases xs)
  case Nil
  have a: "h a = Some \<lparr>ForwardLink = Some a, BackLink = Some a\<rparr>" using circle_node[OF c] Nil by simp
  show ?thesis using e a Nil
    by (auto simp: InsertHeadList_def get_fwd_def get_back_def set_fwd_def set_back_def adjacent_def only_def)
next
  case (Cons x ys)
  have d: "distinct (e # a # x # ys)" and ch: "adjacent h a x" "chain h x ys a" using c e Cons by auto
  obtain A X where A: "h a = Some A" "ForwardLink A = Some x" and X: "h x = Some X" using ch(1) by (auto simp: adjacent_def)
  let ?h = "h(e \<mapsto> E\<lparr>ForwardLink := Some x, BackLink := Some a\<rparr>, x \<mapsto> X\<lparr>BackLink := Some e\<rparr>, a \<mapsto> A\<lparr>ForwardLink := Some e\<rparr>)"
  have "InsertHeadList (Some a) (Some e) h = Ret (Some a, ?h)"
    using d A X e(2) by (simp add: InsertHeadList_def get_fwd_def set_fwd_def set_back_def fun_upd_twist)
  moreover have "chain ?h x ys a = chain h x ys a" by (rule chain_ends) (use d A X in auto)
  then have "circle ?h (a # e # xs)" using d ch(2) Cons by (simp add: adjacent_def)
  moreover have "only (set (e # a # xs)) h ?h" using A X e Cons by (auto simp: only_def)
  ultimately show ?thesis by blast
qed

lemma InsertTailList_circle:
  assumes c: "circle h (a # xs)" and e: "e \<notin> set (a # xs)" "h e = Some E"
  shows "\<exists>h'. InsertTailList (Some a) (Some e) h = Ret (Some a, h') \<and> circle h' (a # xs @ [e]) \<and> only (set (e # a # xs)) h h'"
proof (cases xs rule: rev_cases)
  case Nil
  have a: "h a = Some \<lparr>ForwardLink = Some a, BackLink = Some a\<rparr>" using circle_node[OF c] Nil by simp
  show ?thesis using e a Nil
    by (auto simp: InsertTailList_def get_fwd_def get_back_def set_fwd_def set_back_def adjacent_def only_def)
next
  case (snoc ys y)
  have d: "distinct (e # a # y # ys)" and ch: "chain h a ys y" "adjacent h y a" using c e snoc by (auto simp: chain_append)
  obtain A Y where A: "h a = Some A" "BackLink A = Some y" and Y: "h y = Some Y" using ch(2) by (auto simp: adjacent_def)
  let ?h = "h(e \<mapsto> E\<lparr>ForwardLink := Some a, BackLink := Some y\<rparr>, y \<mapsto> Y\<lparr>ForwardLink := Some e\<rparr>, a \<mapsto> A\<lparr>BackLink := Some e\<rparr>)"
  have "InsertTailList (Some a) (Some e) h = Ret (Some a, ?h)"
    using d A Y e(2) by (simp add: InsertTailList_def get_back_def set_fwd_def set_back_def fun_upd_twist)
  moreover have "chain ?h a ys y = chain h a ys y" by (rule chain_ends) (use d A Y in auto)
  then have "chain ?h a (ys @ y # [e]) a" using d ch(1) unfolding chain_append by (simp add: adjacent_def)
  then have "circle ?h (a # xs @ [e])" using c e snoc by simp
  moreover have "only (set (e # a # xs)) h ?h" using A Y e snoc by (auto simp: only_def)
  ultimately show ?thesis by blast
qed

lemma RemoveEntryList_circle:
  assumes c: "circle h (e # xs)" and x: "xs \<noteq> []"
  shows "\<exists>h'. RemoveEntryList (Some e) h = Ret (Some (hd xs), h') \<and> circle h' xs \<and> only (set xs) h h'"
proof -
  obtain x ys where xs: "xs = x # ys" using x by (cases xs) auto
  have d: "distinct (e # x # ys)" and ch: "adjacent h e x" "chain h x ys e" using c xs by auto
  note n = circle_links[OF c] IsListEmpty_circle[OF c]
  show ?thesis
  proof (cases ys rule: rev_cases)
    case Nil
    have "h e = Some \<lparr>ForwardLink = Some x, BackLink = Some x\<rparr>" "h x = Some \<lparr>ForwardLink = Some e, BackLink = Some e\<rparr>"
      using circle_node[OF c] circle_node[of h x "[e]"] circle_rotate[of h "[e]" "[x]"] c xs Nil by auto
    then show ?thesis using xs Nil n d
      by (auto simp: RemoveEntryList_def get_fwd_def get_back_def set_fwd_def set_back_def adjacent_def only_def)
  next
    case (snoc zs z)
    have dz: "distinct (e # x # z # zs)" and cz: "chain h x zs z" "adjacent h z e" using d ch snoc by (auto simp: chain_append)
    have E: "h e = Some \<lparr>ForwardLink = Some x, BackLink = Some z\<rparr>" using circle_node[OF c] xs snoc by simp
    obtain X Z where X: "h x = Some X" and Z: "h z = Some Z" using ch(1) cz(2) E
      by (metis chain_fwd cz(1) adjacent_def map_option_eq_Some)
    let ?h = "h(x \<mapsto> X\<lparr>BackLink := Some z\<rparr>, z \<mapsto> Z\<lparr>ForwardLink := Some x\<rparr>)"
    have "RemoveEntryList (Some e) h = Ret (Some x, ?h)"
      using dz E X Z n xs by (simp add: RemoveEntryList_def get_fwd_def get_back_def set_fwd_def set_back_def)
    moreover have "chain ?h x zs z = chain h x zs z" by (rule chain_ends) (use dz X Z in auto)
    then have "chain ?h x (zs @ z # []) x" using dz cz(1) unfolding chain_append by (simp add: adjacent_def)
    then have "circle ?h xs" using d xs snoc by simp
    moreover have "only (set xs) h ?h" using X Z xs snoc by (auto simp: only_def)
    ultimately show ?thesis using xs by auto
  qed
qed

section \<open>Exchange, search and position\<close>

definition swapped :: "nat \<Rightarrow> nat \<Rightarrow> nat list \<Rightarrow> nat list" where
  "swapped e f = map (\<lambda>x. if x = e then f else if x = f then e else x)"

lemma swapped_other: "e \<notin> set xs \<Longrightarrow> f \<notin> set xs \<Longrightarrow> swapped e f xs = xs"
  by (induction xs) (auto simp: swapped_def)

lemma swapped_split:
  assumes "distinct (e # as @ f # bs)" shows "swapped e f (e # as @ f # bs) = f # as @ e # bs"
proof -
  have "swapped e f as = as" "swapped e f bs = bs" using assms by (simp_all add: swapped_other)
  then show ?thesis using assms by (simp add: swapped_def)
qed

lemma swapped_rotate:
  "circle h (swapped e f (xs @ ys)) = circle h (swapped e f (ys @ xs))"
  using circle_rotate[of h "swapped e f xs" "swapped e f ys"] by (simp add: swapped_def)

lemma only_alloc: "only S h h' \<Longrightarrow> h x = Some X \<Longrightarrow> \<exists>X. h' x = Some X"
  unfolding only_def by blast

lemma SwapListEntries_head:
  assumes c: "circle h (e # as @ f # bs)"
  shows "\<exists>p h'. SwapListEntries (Some e) (Some f) h = Ret (Some p, h') \<and> circle h' (f # as @ e # bs) \<and> only (set (e # as @ f # bs)) h h'"
proof -
  have d: "distinct (e # as @ f # bs)" by (rule circle_distinct[OF c])
  obtain E where E: "h e = Some E" using circle_node[OF c] by blast
  obtain h1 where r1: "RemoveEntryList (Some e) h = Ret (Some (hd (as @ f # bs)), h1)" "circle h1 (as @ f # bs)" "only (set (as @ f # bs)) h h1"
    using RemoveEntryList_circle[OF c] by auto
  have E1: "h1 e = Some E" using r1(3) E d by (simp add: only_def)
  have c1: "circle h1 (f # bs @ as)" using circle_rotate[of h1 as "f # bs"] r1(2) by simp
  have b: "get_back (Some (hd (as @ f # bs))) h1 = Ret (Some (last (f # bs)))"
    using circle_links(2)[of h1 "hd (as @ f # bs)" "tl (as @ f # bs)"] r1(2) by (cases as) simp_all
  show ?thesis
  proof (cases "bs = []")
    case True
    have i: "e \<notin> set (f # as)" "circle h1 (f # as)" using d c1 True by simp_all
    obtain h2 where h2: "InsertTailList (Some f) (Some e) h1 = Ret (Some f, h2)" "circle h2 (f # as @ [e])" "only (set (e # f # as)) h1 h2"
      using InsertTailList_circle[OF i(2,1) E1] by blast
    have "SwapListEntries (Some e) (Some f) h = Ret (Some f, h2)"
      using d r1(1) b h2(1) True by (simp add: SwapListEntries_def)
    moreover have "only (set (e # as @ f # bs)) h h2" by (rule only_trans[OF r1(3) h2(3)]) (use True in auto)
    ultimately show ?thesis using h2(2) True by auto
  next
    case False
    then have lb: "last (f # bs) \<noteq> f" using d by auto
    have i: "e \<notin> set (f # bs @ as)" using d by auto
    obtain h2 where h2: "InsertHeadList (Some f) (Some e) h1 = Ret (Some f, h2)" "circle h2 (f # e # bs @ as)" "only (set (e # f # bs @ as)) h1 h2"
      using InsertHeadList_circle[OF c1 i E1] by blast
    have o2: "only (set (e # as @ f # bs)) h h2" by (rule only_trans[OF r1(3) h2(3)]) auto
    show ?thesis
    proof (cases as)
      case Nil
      then have "SwapListEntries (Some e) (Some f) h = Ret (Some f, h2)"
        using d r1(1) b h2(1) lb by (simp add: SwapListEntries_def)
      then show ?thesis using h2(2) o2 Nil by auto
    next
      case (Cons p ps)
      obtain h3 where r3: "RemoveEntryList (Some f) h2 = Ret (Some e, h3)" "circle h3 (e # bs @ as)" "only (set (e # bs @ as)) h2 h3"
        using RemoveEntryList_circle[OF h2(2)] by auto
      have c3: "circle h3 (p # ps @ e # bs)" using circle_rotate[of h3 "e # bs" as] r3(2) Cons by simp
      obtain F where "h f = Some F" using circle_node[of h f "bs @ e # as"] circle_rotate[of h "f # bs" "e # as"] c by auto
      then obtain F where F: "h3 f = Some F" using only_alloc[OF o2] only_alloc[OF r3(3)] by blast
      have i3: "f \<notin> set (p # ps @ e # bs)" using d Cons by auto
      obtain h4 where h4: "InsertTailList (Some p) (Some f) h3 = Ret (Some p, h4)" "circle h4 (p # (ps @ e # bs) @ [f])" "only (set (f # p # ps @ e # bs)) h3 h4"
        using InsertTailList_circle[OF c3 i3 F] by blast
      have "p \<noteq> f" using d Cons by auto
      then have "SwapListEntries (Some e) (Some f) h = Ret (Some f, h4)"
        using d r1(1) b h2(1) lb r3(1) h4(1) Cons by (simp add: SwapListEntries_def)
      moreover have "circle h4 (f # as @ e # bs)" using circle_rotate[of h4 "[f]" "as @ e # bs"] h4(2) Cons by simp
      moreover have "only (set (e # as @ f # bs)) h h3" by (rule only_trans[OF o2 r3(3)]) auto
      then have "only (set (e # as @ f # bs)) h h4" by (rule only_trans[OF _ h4(3)]) (use Cons in auto)
      ultimately show ?thesis by blast
    qed
  qed
qed

lemma SwapListEntries_circle:
  assumes c: "circle h xs" and e: "e \<in> set xs" and f: "f \<in> set xs"
  shows "\<exists>p h'. SwapListEntries (Some e) (Some f) h = Ret (Some p, h') \<and> circle h' (swapped e f xs) \<and> only (set xs) h h'"
proof (cases "e = f")
  case True
  have "swapped e e xs = xs" by (induction xs) (simp_all add: swapped_def)
  then show ?thesis using True c by (intro exI[of _ f] exI[of _ h]) (simp add: SwapListEntries_def only_def)
next
  case False
  obtain us vs where u: "xs = us @ e # vs" using split_list[OF e] by blast
  then have "f \<in> set (vs @ us)" using f False by auto
  then obtain as bs where a: "vs @ us = as @ f # bs" by (meson split_list)
  have eq: "e # as @ f # bs = (e # vs) @ us" using a by simp
  have c1: "circle h (e # as @ f # bs)" unfolding eq using c u circle_rotate[of h us "e # vs"] by simp
  obtain p h' where h': "SwapListEntries (Some e) (Some f) h = Ret (Some p, h')" "circle h' (f # as @ e # bs)" "only (set (e # as @ f # bs)) h h'"
    using SwapListEntries_head[OF c1] by blast
  have "circle h' (swapped e f ((e # vs) @ us))"
    using h'(2) swapped_split[OF circle_distinct[OF c1]] unfolding eq by simp
  then have "circle h' (swapped e f xs)" using swapped_rotate[of h' e f us "e # vs"] u by simp
  moreover have "set (e # as @ f # bs) = set xs" unfolding eq using u by auto
  ultimately show ?thesis using h'(1,3) by auto
qed

lemma NodeInList_chain:
  "chain h a xs z \<Longrightarrow> length xs < k \<Longrightarrow> z \<notin> set xs \<Longrightarrow>
     NodeInList_loop k (Some a) (Some z) (Some n) h = Ret (n \<in> set xs \<or> n = z)"
proof (induction xs arbitrary: a k)
  case Nil
  then show ?case using chain_fwd[OF Nil(1)] by (cases k) (auto simp: get_fwd_def)
next
  case (Cons x xs)
  obtain k' where k: "k = Suc k'" using Cons.prems(2) by (cases k) auto
  have "get_fwd (Some a) h = Ret (Some x)" using chain_fwd[OF Cons.prems(1)] by (auto simp: get_fwd_def)
  moreover have "NodeInList_loop k' (Some x) (Some z) (Some n) h = Ret (n \<in> set xs \<or> n = z)"
    using Cons.IH[of x k'] Cons.prems k by simp
  ultimately show ?case using Cons.prems(3) k by auto
qed

lemma IsNodeInList_circle:
  assumes "circle h (a # xs)" and "length xs < k"
  shows "IsNodeInList k (Some a) (Some n) h = Ret (n \<in> set (a # xs))"
  using NodeInList_chain[of h a xs a k n] circle_links(3)[OF assms(1)] assms by (auto simp: IsNodeInList_def)

text \<open>Neighbours in a list seen from any of its nodes.\<close>

definition after_node :: "nat \<Rightarrow> nat list \<Rightarrow> nat" where
  "after_node n xs = hd (tl (dropWhile (\<lambda>x. x \<noteq> n) xs) @ xs)"

definition before_node :: "nat \<Rightarrow> nat list \<Rightarrow> nat" where
  "before_node n xs = after_node n (rev xs)"

lemma circle_neighbours:
  assumes c: "circle h xs" and n: "n \<in> set xs"
  shows "get_fwd (Some n) h = Ret (Some (after_node n xs))" "get_back (Some n) h = Ret (Some (before_node n xs))"
proof -
  obtain us vs where u: "xs = us @ n # vs" using split_list[OF n] by blast
  have d: "n \<notin> set us" "n \<notin> set vs" using circle_distinct[OF c] u by auto
  have c1: "circle h (n # vs @ us)" using c u circle_rotate[of h us "n # vs"] by simp
  have "dropWhile (\<lambda>x. x \<noteq> n) (us @ n # vs) = n # vs" "dropWhile (\<lambda>x. x \<noteq> n) (rev vs @ n # rev us) = n # rev us"
    using d by (simp_all add: dropWhile_append)
  then have "after_node n xs = hd (vs @ us @ n # vs)" "before_node n xs = hd (rev us @ rev vs @ n # rev us)"
    using u by (simp_all add: after_node_def before_node_def)
  moreover have "hd ((vs @ us) @ [n]) = hd (vs @ us @ n # vs)" by (cases vs; cases us) simp_all
  moreover have "last (n # vs @ us) = hd (rev us @ rev vs @ n # rev us)"
    by (cases us rule: rev_cases; cases vs rule: rev_cases) simp_all
  ultimately show "get_fwd (Some n) h = Ret (Some (after_node n xs))" "get_back (Some n) h = Ret (Some (before_node n xs))"
    using circle_links(1,2)[OF c1] by simp_all
qed

lemma circle_alloc: "circle h xs \<Longrightarrow> x \<in> set xs \<Longrightarrow> x \<in> dom h"
  using circle_neighbours(1)[of h xs x] by (cases "h x") (simp_all add: get_fwd_def dom_def)

section \<open>All lists of a heap\<close>

text \<open>
  A client sees free nodes and lists under their heads. \<open>list_spec\<close> is what a call answers and does to
  them; it is undefined for a call outside the contract of the library: a node that is in use
  already, or a node that is in another list or in none.
\<close>

datatype list_call =
    ListInit nat
  | ListInsertHead nat nat
  | ListInsertTail nat nat
  | ListRemove nat nat
  | ListSwap nat nat nat
  | ListFirst nat
  | ListNext nat nat
  | ListPrevious nat nat
  | ListIsEmpty nat
  | ListIsNull nat nat
  | ListAtEnd nat nat
  | ListContains nat nat

datatype list_answer = Node "nat option" | Bool bool | Done

type_synonym lists = "nat list \<times> (nat \<Rightarrow> nat list option)"

fun list_spec :: "list_call \<Rightarrow> lists \<Rightarrow> (list_answer \<times> lists) option" where
  "list_spec (ListInit a) (F, L) = (if a \<in> set F then Some (Node (Some a), remove1 a F, L(a \<mapsto> [])) else None)"
| "list_spec (ListInsertHead a e) (F, L) = (case L a of None \<Rightarrow> None | Some xs \<Rightarrow>
     if e \<in> set F then Some (Node (Some a), remove1 e F, L(a \<mapsto> e # xs)) else None)"
| "list_spec (ListInsertTail a e) (F, L) = (case L a of None \<Rightarrow> None | Some xs \<Rightarrow>
     if e \<in> set F then Some (Node (Some a), remove1 e F, L(a \<mapsto> xs @ [e])) else None)"
| "list_spec (ListRemove a e) (F, L) = (case L a of None \<Rightarrow> None | Some xs \<Rightarrow>
     if e \<in> set xs then Some (Node (Some (after_node e (a # xs))), e # F, L(a \<mapsto> remove1 e xs)) else None)"
| "list_spec (ListSwap a e f) (F, L) = (case L a of None \<Rightarrow> None | Some xs \<Rightarrow>
     if e \<in> set xs \<and> f \<in> set xs then Some (Done, F, L(a \<mapsto> swapped e f xs)) else None)"
| "list_spec (ListFirst a) (F, L) = (case L a of None \<Rightarrow> None | Some xs \<Rightarrow> Some (Node (Some (hd (xs @ [a]))), F, L))"
| "list_spec (ListNext a n) (F, L) = (case L a of None \<Rightarrow> None | Some xs \<Rightarrow>
     if n \<in> set (a # xs) then Some (Node (Some (after_node n (a # xs))), F, L) else None)"
| "list_spec (ListPrevious a n) (F, L) = (case L a of None \<Rightarrow> None | Some xs \<Rightarrow>
     if n \<in> set (a # xs) then Some (Node (Some (before_node n (a # xs))), F, L) else None)"
| "list_spec (ListIsEmpty a) (F, L) = (case L a of None \<Rightarrow> None | Some xs \<Rightarrow> Some (Bool (xs = []), F, L))"
| "list_spec (ListIsNull a n) (F, L) = Some (Bool (n = a), F, L)"
| "list_spec (ListAtEnd a n) (F, L) = (case L a of None \<Rightarrow> None | Some xs \<Rightarrow> Some (Bool (xs \<noteq> [] \<and> n = last xs), F, L))"
| "list_spec (ListContains a n) (F, L) = (case L a of None \<Rightarrow> None | Some xs \<Rightarrow> Some (Bool (n \<in> set (a # xs)), F, L))"

text \<open>The same calls on the links; \<open>k\<close> is the fuel of the search.\<close>

fun list_do :: "nat \<Rightarrow> list_call \<Rightarrow> links \<Rightarrow> (list_answer \<times> links) outcome" where
  "list_do k (ListInit a) h = bind (InitializeListHead (Some a) h) (\<lambda>(p, h'). Ret (Node p, h'))"
| "list_do k (ListInsertHead a e) h = bind (InsertHeadList (Some a) (Some e) h) (\<lambda>(p, h'). Ret (Node p, h'))"
| "list_do k (ListInsertTail a e) h = bind (InsertTailList (Some a) (Some e) h) (\<lambda>(p, h'). Ret (Node p, h'))"
| "list_do k (ListRemove a e) h = bind (RemoveEntryList (Some e) h) (\<lambda>(p, h'). Ret (Node p, h'))"
| "list_do k (ListSwap a e f) h = bind (SwapListEntries (Some e) (Some f) h) (\<lambda>(p, h'). Ret (Done, h'))"
| "list_do k (ListFirst a) h = bind (GetFirstNode (Some a) h) (\<lambda>p. Ret (Node p, h))"
| "list_do k (ListNext a n) h = bind (GetNextNode (Some a) (Some n) h) (\<lambda>p. Ret (Node p, h))"
| "list_do k (ListPrevious a n) h = bind (GetPreviousNode (Some a) (Some n) h) (\<lambda>p. Ret (Node p, h))"
| "list_do k (ListIsEmpty a) h = bind (IsListEmpty (Some a) h) (\<lambda>b. Ret (Bool b, h))"
| "list_do k (ListIsNull a n) h = bind (IsNull (Some a) (Some n) h) (\<lambda>b. Ret (Bool b, h))"
| "list_do k (ListAtEnd a n) h = bind (IsNodeAtEnd (Some a) (Some n) h) (\<lambda>b. Ret (Bool b, h))"
| "list_do k (ListContains a n) h = bind (IsNodeInList k (Some a) (Some n) h) (\<lambda>b. Ret (Bool b, h))"

text \<open>The nodes of the free list and of every list are pairwise different and every list is a circle.\<close>

definition holds :: "links \<Rightarrow> lists \<Rightarrow> bool" where
  "holds h S \<longleftrightarrow> (case S of (F, L) \<Rightarrow> distinct F \<and> set F \<subseteq> dom h \<and>
     (\<forall>a xs. L a = Some xs \<longrightarrow> circle h (a # xs) \<and> set F \<inter> set (a # xs) = {}) \<and>
     (\<forall>a xs b ys. L a = Some xs \<and> L b = Some ys \<and> a \<noteq> b \<longrightarrow> set (a # xs) \<inter> set (b # ys) = {}))"

lemma holdsD:
  assumes "holds h (F, L)"
  shows "distinct F" "x \<in> set F \<Longrightarrow> \<exists>X. h x = Some X" "L a = Some xs \<Longrightarrow> circle h (a # xs)"
    "L a = Some xs \<Longrightarrow> set F \<inter> set (a # xs) = {}" "L a = Some xs \<Longrightarrow> L b = Some ys \<Longrightarrow> a \<noteq> b \<Longrightarrow> set (a # xs) \<inter> set (b # ys) = {}"
  using assms unfolding holds_def by auto

text \<open>A change of one list: its nodes come from the old ones and the free nodes.\<close>

lemma holds_update:
  assumes H: "holds h (F, L)" and c: "circle h' (a # ys)" and o: "only T h h'"
    and F': "distinct F'" "set F' \<inter> set (a # ys) = {}" "set F' \<union> set (a # ys) \<subseteq> set F \<union> old" "T \<subseteq> set F \<union> old"
    and old: "case L a of None \<Rightarrow> old = {} | Some xs \<Rightarrow> old = set (a # xs)"
  shows "holds h' (F', L(a \<mapsto> ys))"
proof -
  have other: "circle h' (b # xs) \<and> (set F \<union> old) \<inter> set (b # xs) = {}" if b: "L b = Some xs" "b \<noteq> a" for b xs
  proof -
    have d: "(set F \<union> old) \<inter> set (b # xs) = {}"
      using holdsD(4)[OF H b(1)] holdsD(5)[OF H _ b(1)] b(2) old by (cases "L a") (simp_all add: Int_Un_distrib2)
    then have "\<forall>x \<in> set (b # xs). h' x = h x" using o F'(4) unfolding only_def by blast
    then show ?thesis using circle_frame holdsD(3)[OF H b(1)] d by blast
  qed
  have dom: "old \<subseteq> dom h"
  proof
    fix x assume x: "x \<in> old"
    then obtain xs where xs: "L a = Some xs" "x \<in> set (a # xs)" using old by (cases "L a") auto
    show "x \<in> dom h" by (rule circle_alloc[OF holdsD(3)[OF H xs(1)] xs(2)])
  qed
  have sub: "set F' \<subseteq> dom h'" using F'(3) dom holdsD(2)[OF H] o unfolding only_def by auto
  have dis: "set F' \<inter> set (b # xs) = {}" "set (a # ys) \<inter> set (b # xs) = {}" if "L b = Some xs" "b \<noteq> a" for b xs
    using other[OF that] F'(3) by auto
  show ?thesis unfolding holds_def prod.case
  proof (intro conjI allI impI)
    fix b xs assume "(L(a \<mapsto> ys)) b = Some xs"
    then show "circle h' (b # xs)" "set F' \<inter> set (b # xs) = {}"
      using c F'(2) other[of b xs] dis(1)[of b xs] by (cases "b = a"; simp)+
  next
    fix b xs d zs assume "(L(a \<mapsto> ys)) b = Some xs \<and> (L(a \<mapsto> ys)) d = Some zs \<and> b \<noteq> d"
    then consider "b = a" "ys = xs" "L d = Some zs" "d \<noteq> a" | "d = a" "ys = zs" "L b = Some xs" "b \<noteq> a" | "L b = Some xs" "L d = Some zs" "b \<noteq> d"
      by (auto split: if_splits)
    then show "set (b # xs) \<inter> set (d # zs) = {}"
      using dis(2) holdsD(5)[OF H] by cases blast+
  qed (use F'(1) sub in auto)
qed

lemma RemoveEntryList_inside:
  assumes c: "circle h (a # xs)" and e: "e \<in> set xs"
  shows "\<exists>h'. RemoveEntryList (Some e) h = Ret (Some (after_node e (a # xs)), h') \<and> circle h' (a # remove1 e xs) \<and> only (set (a # xs)) h h'"
proof -
  obtain us vs where u: "xs = us @ e # vs" "e \<notin> set us" using split_list_first[OF e] by blast
  have c1: "circle h (e # vs @ a # us)" using c u circle_rotate[of h "a # us" "e # vs"] by simp
  obtain h' where h': "RemoveEntryList (Some e) h = Ret (Some (hd (vs @ a # us)), h')" "circle h' (vs @ a # us)" "only (set (vs @ a # us)) h h'"
    using RemoveEntryList_circle[OF c1] by auto
  have "hd (vs @ a # us) = after_node e (a # xs)"
    using circle_links(1)[OF c1] circle_neighbours(1)[OF c, of e] e by (cases vs) simp_all
  moreover have "circle h' (a # remove1 e xs)" using h'(2) u circle_rotate[of h' vs "a # us"] by (simp add: remove1_append)
  moreover have "only (set (a # xs)) h h'" using h'(3) u unfolding only_def by auto
  ultimately show ?thesis using h'(1) by auto
qed

lemma InitializeListHead_circle:
  assumes "h a = Some A"
  shows "\<exists>h'. InitializeListHead (Some a) h = Ret (Some a, h') \<and> circle h' [a] \<and> only {a} h h'"
  using assms by (auto simp: InitializeListHead_def set_fwd_def set_back_def adjacent_def only_def)

lemma IsNodeAtEnd_circle:
  assumes c: "circle h (a # xs)" shows "IsNodeAtEnd (Some a) (Some n) h = Ret (xs \<noteq> [] \<and> n = last xs)"
proof -
  have "last xs \<noteq> a" if "xs \<noteq> []" using circle_distinct[OF c] last_in_set[OF that] by auto
  then show ?thesis using circle_links(2)[OF c] by (auto simp: IsNodeAtEnd_def IsNull_def)
qed

lemma circle_short:
  assumes "circle h xs" and "finite (dom h)" shows "length xs \<le> card (dom h)"
proof -
  have "set xs \<subseteq> dom h" using circle_alloc[OF assms(1)] by blast
  then show ?thesis using card_mono[OF assms(2), of "set xs"] distinct_card[OF circle_distinct[OF assms(1)]] by simp
qed

lemma only_mono: "only S h h' \<Longrightarrow> S \<subseteq> T \<Longrightarrow> only T h h'"
  unfolding only_def by blast

text \<open>Calls that change the links.\<close>

definition does :: "nat \<Rightarrow> list_call \<Rightarrow> links \<Rightarrow> list_answer \<Rightarrow> lists \<Rightarrow> bool" where
  "does k c h r S' \<longleftrightarrow> (\<exists>h'. list_do k c h = Ret (r, h') \<and> holds h' S' \<and> dom h' = dom h)"

lemma does_queries:
  assumes H: "holds h (F, L)" and L: "L a = Some xs" and k: "finite (dom h)" "card (dom h) \<le> k"
  shows "does k (ListFirst a) h (Node (Some (hd (xs @ [a])))) (F, L)"
    "n \<in> set (a # xs) \<Longrightarrow> does k (ListNext a n) h (Node (Some (after_node n (a # xs)))) (F, L)"
    "n \<in> set (a # xs) \<Longrightarrow> does k (ListPrevious a n) h (Node (Some (before_node n (a # xs)))) (F, L)"
    "does k (ListIsEmpty a) h (Bool (xs = [])) (F, L)"
    "does k (ListAtEnd a n) h (Bool (xs \<noteq> [] \<and> n = last xs)) (F, L)"
    "does k (ListContains a n) h (Bool (n \<in> set (a # xs))) (F, L)"
proof -
  note c = holdsD(3)[OF H L]
  have "length xs < k" using circle_short[OF c k(1)] k(2) by simp
  then show "does k (ListFirst a) h (Node (Some (hd (xs @ [a])))) (F, L)"
    "n \<in> set (a # xs) \<Longrightarrow> does k (ListNext a n) h (Node (Some (after_node n (a # xs)))) (F, L)"
    "n \<in> set (a # xs) \<Longrightarrow> does k (ListPrevious a n) h (Node (Some (before_node n (a # xs)))) (F, L)"
    "does k (ListIsEmpty a) h (Bool (xs = [])) (F, L)"
    "does k (ListAtEnd a n) h (Bool (xs \<noteq> [] \<and> n = last xs)) (F, L)"
    "does k (ListContains a n) h (Bool (n \<in> set (a # xs))) (F, L)"
    using H circle_links[OF c] circle_neighbours[OF c, of n] IsListEmpty_circle[OF c] IsNodeAtEnd_circle[OF c, of n] IsNodeInList_circle[OF c, of k n]
    by (simp_all add: does_def GetFirstNode_def GetNextNode_def GetPreviousNode_def)
qed

lemma does_Init:
  assumes H: "holds h (F, L)" and a: "a \<in> set F"
  shows "does k (ListInit a) h (Node (Some a)) (remove1 a F, L(a \<mapsto> []))"
proof -
  obtain A where "h a = Some A" using holdsD(2)[OF H a] by blast
  then obtain h' where h': "InitializeListHead (Some a) h = Ret (Some a, h')" "circle h' [a]" "only {a} h h'"
    using InitializeListHead_circle by blast
  have n: "L a = None" using holdsD(4)[OF H] a by (cases "L a") auto
  have "holds h' (remove1 a F, L(a \<mapsto> []))"
    by (rule holds_update[OF H h'(2,3), where old = "{}"]) (use a n holdsD(1)[OF H] in auto)
  then show ?thesis using h'(1,3) by (simp add: does_def only_def)
qed

lemma does_Insert:
  assumes H: "holds h (F, L)" and L: "L a = Some xs" and e: "e \<in> set F"
  shows "does k (ListInsertHead a e) h (Node (Some a)) (remove1 e F, L(a \<mapsto> e # xs))"
    "does k (ListInsertTail a e) h (Node (Some a)) (remove1 e F, L(a \<mapsto> xs @ [e]))"
proof -
  note c = holdsD(3)[OF H L]
  obtain E where E: "h e = Some E" using holdsD(2)[OF H e] by blast
  have n: "e \<notin> set (a # xs)" using holdsD(4)[OF H L] e by blast
  obtain h' where h': "InsertHeadList (Some a) (Some e) h = Ret (Some a, h')" "circle h' (a # e # xs)" "only (set (e # a # xs)) h h'"
    using InsertHeadList_circle[OF c n E] by blast
  have "holds h' (remove1 e F, L(a \<mapsto> e # xs))"
    by (rule holds_update[OF H h'(2,3), where old = "set (a # xs)"])
      (use e L holdsD(1)[OF H] holdsD(4)[OF H L] in auto)
  then show "does k (ListInsertHead a e) h (Node (Some a)) (remove1 e F, L(a \<mapsto> e # xs))"
    using h'(1,3) by (simp add: does_def only_def)
  obtain g where g: "InsertTailList (Some a) (Some e) h = Ret (Some a, g)" "circle g (a # xs @ [e])" "only (set (e # a # xs)) h g"
    using InsertTailList_circle[OF c n E] by blast
  have "holds g (remove1 e F, L(a \<mapsto> xs @ [e]))"
    by (rule holds_update[OF H g(2,3), where old = "set (a # xs)"])
      (use e L holdsD(1)[OF H] holdsD(4)[OF H L] in auto)
  then show "does k (ListInsertTail a e) h (Node (Some a)) (remove1 e F, L(a \<mapsto> xs @ [e]))"
    using g(1,3) by (simp add: does_def only_def)
qed

lemma does_Remove:
  assumes H: "holds h (F, L)" and L: "L a = Some xs" and e: "e \<in> set xs"
  shows "does k (ListRemove a e) h (Node (Some (after_node e (a # xs)))) (e # F, L(a \<mapsto> remove1 e xs))"
proof -
  note c = holdsD(3)[OF H L]
  have d: "distinct xs" "a \<notin> set xs" using circle_distinct[OF c] by simp_all
  obtain h' where h': "RemoveEntryList (Some e) h = Ret (Some (after_node e (a # xs)), h')" "circle h' (a # remove1 e xs)" "only (set (a # xs)) h h'"
    using RemoveEntryList_inside[OF c e] by blast
  have "holds h' (e # F, L(a \<mapsto> remove1 e xs))"
    by (rule holds_update[OF H h'(2,3), where old = "set (a # xs)"])
      (use e L d holdsD(1)[OF H] holdsD(4)[OF H L] in auto)
  then show ?thesis using h'(1,3) by (simp add: does_def only_def)
qed

lemma does_Swap:
  assumes H: "holds h (F, L)" and L: "L a = Some xs" and e: "e \<in> set xs" "f \<in> set xs"
  shows "does k (ListSwap a e f) h Done (F, L(a \<mapsto> swapped e f xs))"
proof -
  note c = holdsD(3)[OF H L]
  have d: "a \<notin> set xs" using circle_distinct[OF c] by simp
  then have s: "swapped e f (a # xs) = a # swapped e f xs" "set (swapped e f xs) = set xs"
    using e by (auto simp: swapped_def image_iff)
  obtain p h' where h': "SwapListEntries (Some e) (Some f) h = Ret (Some p, h')" "circle h' (a # swapped e f xs)" "only (set (a # xs)) h h'"
    using SwapListEntries_circle[OF c, of e f] e s(1) by auto
  have "holds h' (F, L(a \<mapsto> swapped e f xs))"
    by (rule holds_update[OF H h'(2,3), where old = "set (a # xs)"])
      (use L s holdsD(1)[OF H] holdsD(4)[OF H L] in auto)
  then show ?thesis using h'(1,3) by (simp add: does_def only_def)
qed

lemma list_do_refines:
  assumes H: "holds h S" and k: "finite (dom h)" "card (dom h) \<le> k" and s: "list_spec c S = Some (r, S')"
  shows "does k c h r S'"
proof -
  obtain F L where S: "S = (F, L)" by (cases S)
  note H' = H[unfolded S] and s' = s[unfolded S]
  note q = does_queries[OF H' _ k] does_Init[OF H'] does_Insert[OF H'] does_Remove[OF H'] does_Swap[OF H']
  show ?thesis
  proof (cases c)
    case (ListIsNull a n)
    then show ?thesis using s' H' by (auto simp: does_def IsNull_def)
  qed (use s' q in \<open>auto split: option.splits if_split_asm simp del: list.set(2)\<close>)
qed

fun list_run :: "nat \<Rightarrow> list_call list \<Rightarrow> links \<Rightarrow> (list_answer list \<times> links) outcome" where
  "list_run k [] h = Ret ([], h)"
| "list_run k (c # cs) h = bind (list_do k c h) (\<lambda>(r, h1). bind (list_run k cs h1) (\<lambda>(rs, h2). Ret (r # rs, h2)))"

fun lists_spec :: "list_call list \<Rightarrow> lists \<Rightarrow> (list_answer list \<times> lists) option" where
  "lists_spec [] S = Some ([], S)"
| "lists_spec (c # cs) S = (case list_spec c S of None \<Rightarrow> None | Some (r, S1) \<Rightarrow>
     (case lists_spec cs S1 of None \<Rightarrow> None | Some (rs, S2) \<Rightarrow> Some (r # rs, S2)))"

lemma list_run_refines:
  "holds h S \<Longrightarrow> finite (dom h) \<Longrightarrow> card (dom h) \<le> k \<Longrightarrow> lists_spec cs S = Some (rs, S') \<Longrightarrow>
     \<exists>h'. list_run k cs h = Ret (rs, h') \<and> holds h' S'"
proof (induction cs arbitrary: h S rs)
  case (Cons c cs)
  obtain r S1 rs' where s: "list_spec c S = Some (r, S1)" "lists_spec cs S1 = Some (rs', S')" "rs = r # rs'"
    using Cons.prems(4) by (auto split: option.splits prod.splits)
  obtain h1 where h1: "list_do k c h = Ret (r, h1)" "holds h1 S1" "dom h1 = dom h"
    using list_do_refines[OF Cons.prems(1-3) s(1)] by (auto simp: does_def)
  obtain h2 where "list_run k cs h1 = Ret (rs', h2)" "holds h2 S'"
    using Cons.IH[OF h1(2) _ _ s(2)] h1(3) Cons.prems(2,3) by auto
  then show ?case using h1(1) s(3) by simp
qed simp

section \<open>Properties\<close>

text \<open>C5: any sequence of calls within the contract of the library, on any number of lists, answers as lists
  of nodes do and leaves circles that hold these lists: inserting at the head and the tail, removing, exchanging, walking
  in both directions and searching, which ends after at most as many steps as there are nodes. No call fails an
  assertion or follows a bad link, and no call disturbs another list.\<close>

theorem linked_lists_refine_lists:
  assumes "holds h S" and "finite (dom h)" and "card (dom h) \<le> k" and "lists_spec cs S = Some (rs, S')"
  shows "\<exists>h'. list_run k cs h = Ret (rs, h') \<and> holds h' S'"
  by (rule list_run_refines[OF assms])

definition blank_links :: links where
  "blank_links = (\<lambda>a. if a < 6 then Some \<lparr>ForwardLink = None, BackLink = None\<rparr> else None)"

lemma blank_links: "holds blank_links ([0, 1, 2, 3, 4, 5], \<lambda>_. None)" "dom blank_links = {..<6}"
  by (auto simp: holds_def blank_links_def dom_def split: if_splits)

definition list_demo :: "list_call list" where
  "list_demo = [ListInit 0, ListInsertTail 0 1, ListInsertTail 0 2, ListInsertHead 0 3, ListInit 4, ListInsertHead 4 5, ListSwap 0 3 2,
     ListFirst 0, ListNext 0 2, ListPrevious 0 0, ListRemove 0 1, ListContains 0 1, ListContains 4 5, ListAtEnd 0 3, ListIsEmpty 4]"

lemma linked_lists_refine_lists_witness:
  "\<exists>h'. list_run 6 list_demo blank_links = Ret ([Node (Some 0), Node (Some 0), Node (Some 0), Node (Some 0), Node (Some 4), Node (Some 4), Done,
     Node (Some 2), Node (Some 1), Node (Some 3), Node (Some 3), Bool False, Bool True, Bool True, Bool False], h') \<and> circle h' [0, 2, 3] \<and> circle h' [4, 5]"
proof -
  have "map_option (\<lambda>(rs, F, L). (rs, L 0, L 4)) (lists_spec list_demo ([0, 1, 2, 3, 4, 5], \<lambda>_. None)) =
      Some ([Node (Some 0), Node (Some 0), Node (Some 0), Node (Some 0), Node (Some 4), Node (Some 4), Done,
     Node (Some 2), Node (Some 1), Node (Some 3), Node (Some 3), Bool False, Bool True, Bool True, Bool False], Some [2, 3], Some [5])"
    by code_simp
  then obtain F L where s: "lists_spec list_demo ([0, 1, 2, 3, 4, 5], \<lambda>_. None) = Some ([Node (Some 0), Node (Some 0), Node (Some 0), Node (Some 0), Node (Some 4), Node (Some 4), Done,
     Node (Some 2), Node (Some 1), Node (Some 3), Node (Some 3), Bool False, Bool True, Bool True, Bool False], F, L)"
      "L 0 = Some [2, 3]" "L 4 = Some [5]" by auto
  have "finite (dom blank_links)" "card (dom blank_links) \<le> 6" using blank_links(2) by simp_all
  from linked_lists_refine_lists[OF blank_links(1) this s(1)] show ?thesis
    using s(2,3) holdsD(3)[of _ F L] by blast
qed

end
