(* ===== verification/CheckSum.thy ===== *)
theory CheckSum
  imports Outcome
begin

text \<open>
  The checksums of the base library, \<open>CheckSum.c\<close>: sums that drop the carry, their two's complements, and
  the table-driven CRC-32 against the shift register that it stands for. Memory maps 64-bit addresses to
  bytes; wider elements are little-endian.
\<close>

section \<open>The code\<close>

abbreviation MAX_ADDRESS :: u64 where
  "MAX_ADDRESS \<equiv> 0xFFFFFFFFFFFFFFFF"

type_synonym memory64 = "u64 \<Rightarrow> u8"

fun element :: "nat \<Rightarrow> memory64 \<Rightarrow> u64 \<Rightarrow> 'a::len word" where
  "element 0 m a = 0"
| "element (Suc n) m a = ucast (m a) OR push_bit 8 (element n m (a + 1))"

text \<open>The loop of all four sums, over elements of \<open>w\<close> bytes.\<close>

fun Sum_loop :: "nat \<Rightarrow> memory64 \<Rightarrow> u64 \<Rightarrow> nat \<Rightarrow> 'a::len word \<Rightarrow> 'a word" where
  "Sum_loop w m p 0 s = s"
| "Sum_loop w m p (Suc n) s = Sum_loop w m (p + of_nat w) n (s + element w m p)"

definition CalculateSum8 :: "memory64 \<Rightarrow> u64 \<Rightarrow> u64 \<Rightarrow> u8 outcome" where
  "CalculateSum8 m Buffer Length = ASSERT (Buffer \<noteq> 0) (ASSERT (Length \<le> MAX_ADDRESS - Buffer + 1)
     (Ret (Sum_loop 1 m Buffer (unat Length) 0)))"

definition CalculateCheckSum8 :: "memory64 \<Rightarrow> u64 \<Rightarrow> u64 \<Rightarrow> u8 outcome" where
  "CalculateCheckSum8 m Buffer Length = bind (CalculateSum8 m Buffer Length) (\<lambda>CheckSum. Ret (word_of_int (0x100 - uint CheckSum)))"

definition CalculateSum16 :: "memory64 \<Rightarrow> u64 \<Rightarrow> u64 \<Rightarrow> u16 outcome" where
  "CalculateSum16 m Buffer Length = ASSERT (Buffer \<noteq> 0) (ASSERT (Buffer AND 0x1 = 0) (ASSERT (Length AND 0x1 = 0)
     (ASSERT (Length \<le> MAX_ADDRESS - Buffer + 1) (Ret (Sum_loop 2 m Buffer (unat Length div 2) 0)))))"

definition CalculateCheckSum16 :: "memory64 \<Rightarrow> u64 \<Rightarrow> u64 \<Rightarrow> u16 outcome" where
  "CalculateCheckSum16 m Buffer Length = bind (CalculateSum16 m Buffer Length) (\<lambda>CheckSum. Ret (word_of_int (0x10000 - uint CheckSum)))"

definition CalculateSum32 :: "memory64 \<Rightarrow> u64 \<Rightarrow> u64 \<Rightarrow> u32 outcome" where
  "CalculateSum32 m Buffer Length = ASSERT (Buffer \<noteq> 0) (ASSERT (Buffer AND 0x3 = 0) (ASSERT (Length AND 0x3 = 0)
     (ASSERT (Length \<le> MAX_ADDRESS - Buffer + 1) (Ret (Sum_loop 4 m Buffer (unat Length div 4) 0)))))"

definition CalculateCheckSum32 :: "memory64 \<Rightarrow> u64 \<Rightarrow> u64 \<Rightarrow> u32 outcome" where
  "CalculateCheckSum32 m Buffer Length = bind (CalculateSum32 m Buffer Length) (\<lambda>CheckSum. Ret (- 1 - CheckSum + 1))"

definition CalculateSum64 :: "memory64 \<Rightarrow> u64 \<Rightarrow> u64 \<Rightarrow> u64 outcome" where
  "CalculateSum64 m Buffer Length = ASSERT (Buffer \<noteq> 0) (ASSERT (Buffer AND 0x7 = 0) (ASSERT (Length AND 0x7 = 0)
     (ASSERT (Length \<le> MAX_ADDRESS - Buffer + 1) (Ret (Sum_loop 8 m Buffer (unat Length div 8) 0)))))"

definition CalculateCheckSum64 :: "memory64 \<Rightarrow> u64 \<Rightarrow> u64 \<Rightarrow> u64 outcome" where
  "CalculateCheckSum64 m Buffer Length = bind (CalculateSum64 m Buffer Length) (\<lambda>CheckSum. Ret (- 1 - CheckSum + 1))"

definition mCrcTable_values :: "int list" where
  "mCrcTable_values =
    [0x00000000, 0x77073096, 0xEE0E612C, 0x990951BA, 0x076DC419, 0x706AF48F, 0xE963A535, 0x9E6495A3,
     0x0EDB8832, 0x79DCB8A4, 0xE0D5E91E, 0x97D2D988, 0x09B64C2B, 0x7EB17CBD, 0xE7B82D07, 0x90BF1D91,
     0x1DB71064, 0x6AB020F2, 0xF3B97148, 0x84BE41DE, 0x1ADAD47D, 0x6DDDE4EB, 0xF4D4B551, 0x83D385C7,
     0x136C9856, 0x646BA8C0, 0xFD62F97A, 0x8A65C9EC, 0x14015C4F, 0x63066CD9, 0xFA0F3D63, 0x8D080DF5,
     0x3B6E20C8, 0x4C69105E, 0xD56041E4, 0xA2677172, 0x3C03E4D1, 0x4B04D447, 0xD20D85FD, 0xA50AB56B,
     0x35B5A8FA, 0x42B2986C, 0xDBBBC9D6, 0xACBCF940, 0x32D86CE3, 0x45DF5C75, 0xDCD60DCF, 0xABD13D59,
     0x26D930AC, 0x51DE003A, 0xC8D75180, 0xBFD06116, 0x21B4F4B5, 0x56B3C423, 0xCFBA9599, 0xB8BDA50F,
     0x2802B89E, 0x5F058808, 0xC60CD9B2, 0xB10BE924, 0x2F6F7C87, 0x58684C11, 0xC1611DAB, 0xB6662D3D,
     0x76DC4190, 0x01DB7106, 0x98D220BC, 0xEFD5102A, 0x71B18589, 0x06B6B51F, 0x9FBFE4A5, 0xE8B8D433,
     0x7807C9A2, 0x0F00F934, 0x9609A88E, 0xE10E9818, 0x7F6A0DBB, 0x086D3D2D, 0x91646C97, 0xE6635C01,
     0x6B6B51F4, 0x1C6C6162, 0x856530D8, 0xF262004E, 0x6C0695ED, 0x1B01A57B, 0x8208F4C1, 0xF50FC457,
     0x65B0D9C6, 0x12B7E950, 0x8BBEB8EA, 0xFCB9887C, 0x62DD1DDF, 0x15DA2D49, 0x8CD37CF3, 0xFBD44C65,
     0x4DB26158, 0x3AB551CE, 0xA3BC0074, 0xD4BB30E2, 0x4ADFA541, 0x3DD895D7, 0xA4D1C46D, 0xD3D6F4FB,
     0x4369E96A, 0x346ED9FC, 0xAD678846, 0xDA60B8D0, 0x44042D73, 0x33031DE5, 0xAA0A4C5F, 0xDD0D7CC9,
     0x5005713C, 0x270241AA, 0xBE0B1010, 0xC90C2086, 0x5768B525, 0x206F85B3, 0xB966D409, 0xCE61E49F,
     0x5EDEF90E, 0x29D9C998, 0xB0D09822, 0xC7D7A8B4, 0x59B33D17, 0x2EB40D81, 0xB7BD5C3B, 0xC0BA6CAD,
     0xEDB88320, 0x9ABFB3B6, 0x03B6E20C, 0x74B1D29A, 0xEAD54739, 0x9DD277AF, 0x04DB2615, 0x73DC1683,
     0xE3630B12, 0x94643B84, 0x0D6D6A3E, 0x7A6A5AA8, 0xE40ECF0B, 0x9309FF9D, 0x0A00AE27, 0x7D079EB1,
     0xF00F9344, 0x8708A3D2, 0x1E01F268, 0x6906C2FE, 0xF762575D, 0x806567CB, 0x196C3671, 0x6E6B06E7,
     0xFED41B76, 0x89D32BE0, 0x10DA7A5A, 0x67DD4ACC, 0xF9B9DF6F, 0x8EBEEFF9, 0x17B7BE43, 0x60B08ED5,
     0xD6D6A3E8, 0xA1D1937E, 0x38D8C2C4, 0x4FDFF252, 0xD1BB67F1, 0xA6BC5767, 0x3FB506DD, 0x48B2364B,
     0xD80D2BDA, 0xAF0A1B4C, 0x36034AF6, 0x41047A60, 0xDF60EFC3, 0xA867DF55, 0x316E8EEF, 0x4669BE79,
     0xCB61B38C, 0xBC66831A, 0x256FD2A0, 0x5268E236, 0xCC0C7795, 0xBB0B4703, 0x220216B9, 0x5505262F,
     0xC5BA3BBE, 0xB2BD0B28, 0x2BB45A92, 0x5CB36A04, 0xC2D7FFA7, 0xB5D0CF31, 0x2CD99E8B, 0x5BDEAE1D,
     0x9B64C2B0, 0xEC63F226, 0x756AA39C, 0x026D930A, 0x9C0906A9, 0xEB0E363F, 0x72076785, 0x05005713,
     0x95BF4A82, 0xE2B87A14, 0x7BB12BAE, 0x0CB61B38, 0x92D28E9B, 0xE5D5BE0D, 0x7CDCEFB7, 0x0BDBDF21,
     0x86D3D2D4, 0xF1D4E242, 0x68DDB3F8, 0x1FDA836E, 0x81BE16CD, 0xF6B9265B, 0x6FB077E1, 0x18B74777,
     0x88085AE6, 0xFF0F6A70, 0x66063BCA, 0x11010B5C, 0x8F659EFF, 0xF862AE69, 0x616BFFD3, 0x166CCF45,
     0xA00AE278, 0xD70DD2EE, 0x4E048354, 0x3903B3C2, 0xA7672661, 0xD06016F7, 0x4969474D, 0x3E6E77DB,
     0xAED16A4A, 0xD9D65ADC, 0x40DF0B66, 0x37D83BF0, 0xA9BCAE53, 0xDEBB9EC5, 0x47B2CF7F, 0x30B5FFE9,
     0xBDBDF21C, 0xCABAC28A, 0x53B39330, 0x24B4A3A6, 0xBAD03605, 0xCDD70693, 0x54DE5729, 0x23D967BF,
     0xB3667A2E, 0xC4614AB8, 0x5D681B02, 0x2A6F2B94, 0xB40BBE37, 0xC30C8EA1, 0x5A05DF1B, 0x2D02EF8D]"

definition mCrcTable :: "u32 list" where
  "mCrcTable = map word_of_int mCrcTable_values"

fun Crc_loop :: "memory64 \<Rightarrow> u64 \<Rightarrow> nat \<Rightarrow> u32 \<Rightarrow> u32" where
  "Crc_loop m Ptr 0 Crc = Crc"
| "Crc_loop m Ptr (Suc n) Crc =
     Crc_loop m (Ptr + 1) n (drop_bit 8 Crc XOR mCrcTable ! unat ((ucast Crc :: u8) XOR m Ptr))"

definition CalculateCrc32 :: "memory64 \<Rightarrow> u64 \<Rightarrow> u64 \<Rightarrow> u32 outcome" where
  "CalculateCrc32 m Buffer Length = ASSERT (Buffer \<noteq> 0) (ASSERT (Length \<le> MAX_ADDRESS - Buffer + 1)
     (Ret (Crc_loop m Buffer (unat Length) 0xFFFFFFFF XOR 0xFFFFFFFF)))"

section \<open>The shift register\<close>

text \<open>One step of the register of the polynomial \<open>0xEDB88320\<close>, which is the one of ITU-T V.42 with the bits reversed.\<close>

definition crc_bit :: "u32 \<Rightarrow> u32" where
  "crc_bit c = (if bit c 0 then drop_bit 1 c XOR 0xEDB88320 else drop_bit 1 c)"

definition crc_byte :: "u32 \<Rightarrow> u8 \<Rightarrow> u32" where
  "crc_byte c b = (crc_bit ^^ 8) (c XOR ucast b)"

definition crc32 :: "u8 list \<Rightarrow> u32" where
  "crc32 bs = NOT (foldl crc_byte 0xFFFFFFFF bs)"

lemma crc_bit_xor: "crc_bit (a XOR b) = crc_bit a XOR crc_bit b"
  by (rule bit_word_eqI) (auto simp: crc_bit_def bit_xor_iff bit_drop_bit_eq)

lemma crc_bits_xor: "(crc_bit ^^ n) (a XOR b) = (crc_bit ^^ n) a XOR (crc_bit ^^ n) b"
  by (induction n) (simp_all add: crc_bit_xor)

lemma crc_bit_top: "bit (crc_bit c) 31 = bit c 0"
proof -
  have k: "bit (0xEDB88320 :: u32) 31" by code_simp
  have "\<not> bit c 32" using bit_imp_le_length[of c 32] by auto
  then have "\<not> bit (drop_bit 1 c) 31" by (simp add: bit_drop_bit_eq)
  then show ?thesis using k by (simp add: crc_bit_def bit_xor_iff)
qed

lemma xor_cancel:
  fixes a b k :: u32
  assumes "a XOR k = b XOR k" shows "a = b"
proof (rule bit_word_eqI)
  fix n show "bit a n = bit b n" using arg_cong[OF assms, of "\<lambda>x. bit x n"] by (auto simp: bit_xor_iff)
qed

lemma crc_bit_inj: "crc_bit a = crc_bit b \<Longrightarrow> a = b"
proof -
  assume e: "crc_bit a = crc_bit b"
  then have b0: "bit a 0 = bit b 0" using crc_bit_top by metis
  then have d: "drop_bit 1 a = drop_bit 1 b" using e by (auto simp: crc_bit_def dest: xor_cancel split: if_splits)
  show "a = b"
  proof (rule bit_word_eqI)
    fix n assume "n < LENGTH(32)"
    show "bit a n = bit b n" using b0 arg_cong[OF d, of "\<lambda>x. bit x (n - 1)"] by (cases n) (simp_all add: bit_drop_bit_eq)
  qed
qed

lemma crc_bits_inj: "(crc_bit ^^ n) a = (crc_bit ^^ n) b \<Longrightarrow> a = b"
  by (induction n) (auto dest: crc_bit_inj)

text \<open>A register with \<open>n\<close> low zero bits is only shifted.\<close>

lemma crc_bits_shift: "(\<forall>i<n. \<not> bit c i) \<Longrightarrow> (crc_bit ^^ n) c = drop_bit n c"
proof (induction n arbitrary: c)
  case (Suc n)
  then have "crc_bit c = drop_bit 1 c" "\<forall>i<n. \<not> bit (drop_bit 1 c) i" by (auto simp: crc_bit_def bit_drop_bit_eq)
  then have "(crc_bit ^^ n) (crc_bit c) = drop_bit (Suc n) c" using Suc.IH[of "drop_bit 1 c"] by simp
  then show ?case by (simp add: funpow_swap1)
qed simp

section \<open>The table\<close>

fun evens :: "'a list \<Rightarrow> 'a list" where
  "evens (x # y # zs) = x # evens zs"
| "evens zs = zs"

lemma evens_nth: "2 * j < length xs \<Longrightarrow> evens xs ! j = xs ! (2 * j)"
  by (induction xs arbitrary: j rule: evens.induct) (auto simp: nth_Cons split: nat.splits)

lemma length_evens: "length (evens xs) = (length xs + 1) div 2"
  by (induction xs rule: evens.induct) simp_all

definition crc_step :: "int \<Rightarrow> int" where
  "crc_step c = (if c mod 2 = 1 then xor (c div 2) 0xEDB88320 else c div 2)"

text \<open>The three facts that fix the table: entry 1, the odd entries, and one step of the even ones.\<close>

lemma table_facts:
  "length mCrcTable_values = 256" "take 2 mCrcTable_values = [0, 0x77073096]"
  "list_all (\<lambda>n. 0 \<le> n \<and> n < 0x100000000) mCrcTable_values"
  "map crc_step (evens mCrcTable_values) = take 128 mCrcTable_values"
  "evens (tl mCrcTable_values) = map (xor 0x77073096) (evens mCrcTable_values)"
  by code_simp+

lemma half_word:
  assumes "0 \<le> n" "n < 0x100000000" shows "drop_bit 1 (word_of_int n :: u32) = word_of_int (n div 2)"
  using assms by (simp add: drop_bit_eq_div word_div_def unsigned_of_int take_bit_int_eq_self)

lemma xor_word: "word_of_int (xor a b) = (word_of_int a XOR word_of_int b :: u32)"
  by (rule bit_word_eqI) (simp add: bit_xor_iff bit_word_of_int_iff)

lemma crc_step_word:
  assumes "0 \<le> n" "n < 0x100000000" shows "word_of_int (crc_step n) = crc_bit (word_of_int n)"
proof -
  have "bit (word_of_int n :: u32) 0 \<longleftrightarrow> n mod 2 = 1"
    by (simp only: bit_word_of_int_iff) (simp add: bit_0 odd_iff_mod_2_eq_one)
  then show ?thesis using half_word[OF assms] by (simp add: crc_step_def crc_bit_def xor_word)
qed

lemma table_even:
  assumes "j < 128" shows "crc_bit (mCrcTable ! (2 * j)) = mCrcTable ! j"
proof -
  let ?t = mCrcTable_values
  have l: "length ?t = 256" "length (evens ?t) = 128" using table_facts(1) by (simp_all add: length_evens)
  have "crc_step (?t ! (2 * j)) = ?t ! j"
    using arg_cong[OF table_facts(4), of "\<lambda>xs. xs ! j"] assms l by (simp add: evens_nth)
  moreover have "0 \<le> ?t ! (2 * j)" "?t ! (2 * j) < 0x100000000" using table_facts(3) assms l by (simp_all add: list_all_length)
  ultimately show ?thesis using assms l crc_step_word[of "?t ! (2 * j)"] by (simp add: mCrcTable_def)
qed

lemma table_odd:
  assumes "j < 128" shows "mCrcTable ! Suc (2 * j) = 0x77073096 XOR mCrcTable ! (2 * j)"
proof -
  let ?t = mCrcTable_values
  have l: "length ?t = 256" "length (evens ?t) = 128" "length (evens (tl ?t)) = 128" using table_facts(1) by (simp_all add: length_evens)
  have "tl ?t ! (2 * j) = xor 0x77073096 (?t ! (2 * j))"
    using arg_cong[OF table_facts(5), of "\<lambda>xs. xs ! j"] assms l by (simp add: evens_nth)
  then have "?t ! Suc (2 * j) = xor 0x77073096 (?t ! (2 * j))" using assms l by (simp add: nth_tl)
  then show ?thesis using assms l xor_word[of "0x77073096"] by (simp add: mCrcTable_def)
qed

lemma table_start: "mCrcTable ! 0 = 0" "(crc_bit ^^ 8) 1 = 0x77073096"
proof -
  show "mCrcTable ! 0 = 0" using table_facts(1) arg_cong[OF table_facts(2), of "\<lambda>xs. xs ! 0"] by (simp add: mCrcTable_def)
  show "(crc_bit ^^ 8) 1 = 0x77073096" by code_simp
qed

lemma table_entry: "i < 256 \<Longrightarrow> mCrcTable ! i = (crc_bit ^^ 8) (of_nat i)"
proof (induction i rule: less_induct)
  case (less i)
  have even: "mCrcTable ! (2 * j) = (crc_bit ^^ 8) (of_nat (2 * j))" if j: "2 * j \<le> i" for j
  proof (cases "j = 0")
    case True
    have "(crc_bit ^^ 8) 0 = 0" by code_simp
    then show ?thesis using True table_start(1) by simp
  next
    case False
    have l: "2 * j < 2 ^ 32" "j < 128" "j < i" using j less.prems False by simp_all
    have "\<not> bit (of_nat (2 * j) :: u32) 0" by (simp add: bit_0)
    then have "crc_bit (of_nat (2 * j)) = drop_bit 1 (of_nat (2 * j))" by (simp add: crc_bit_def)
    also have "\<dots> = of_nat j" using half_word[of "int (2 * j)"] l(1) by (simp del: drop_bit_Suc)
    finally have "crc_bit ((crc_bit ^^ 8) (of_nat (2 * j))) = (crc_bit ^^ 8) (of_nat j)" by (metis funpow_swap1)
    also have "\<dots> = mCrcTable ! j" using less.IH[OF l(3)] l(2) by simp
    also have "\<dots> = crc_bit (mCrcTable ! (2 * j))" using table_even[OF l(2)] by simp
    finally show ?thesis by (metis crc_bit_inj)
  qed
  show ?case
  proof (cases "even i")
    case True
    then show ?thesis using even[of "i div 2"] by simp
  next
    case False
    then obtain j where j: "i = Suc (2 * j)" by (elim oddE) simp
    have "(of_nat i :: u32) = 1 XOR of_nat (2 * j)" using j by (simp add: one_xor_eq)
    then show ?thesis using even[of j] table_odd[of j] table_start(2) j less.prems by (simp add: crc_bits_xor)
  qed
qed

section \<open>The table-driven sum\<close>

text \<open>The bytes of a buffer.\<close>

fun buffer :: "memory64 \<Rightarrow> u64 \<Rightarrow> nat \<Rightarrow> u8 list" where
  "buffer m p 0 = []"
| "buffer m p (Suc n) = m p # buffer m (p + 1) n"

lemma crc_byte_table: "crc_byte c b = drop_bit 8 c XOR mCrcTable ! unat ((ucast c :: u8) XOR b)"
proof -
  let ?x = "c XOR ucast b" and ?i = "(ucast c :: u8) XOR b"
  have split: "?x = (push_bit 8 (drop_bit 8 c)) XOR ucast ?i"
    by (rule bit_word_eqI) (auto simp: bit_xor_iff bit_push_bit_iff bit_drop_bit_eq bit_ucast_iff)
  have "(crc_bit ^^ 8) (push_bit 8 (drop_bit 8 c)) = drop_bit 8 (push_bit 8 (drop_bit 8 c))"
    by (rule crc_bits_shift) (simp add: bit_push_bit_iff)
  also have "\<dots> = drop_bit 8 c"
    by (rule bit_word_eqI) (auto simp: bit_push_bit_iff bit_drop_bit_eq dest: bit_imp_le_length)
  finally have "(crc_bit ^^ 8) ?x = drop_bit 8 c XOR (crc_bit ^^ 8) (ucast ?i)" unfolding split crc_bits_xor by simp
  moreover have "unat ?i < 256" by simp
  then have "(crc_bit ^^ 8) (ucast ?i) = mCrcTable ! unat ?i" using table_entry[of "unat ?i"] by (simp add: unsigned_ucast_eq)
  ultimately show ?thesis by (simp add: crc_byte_def)
qed

lemma Crc_loop_eq: "Crc_loop m p n c = foldl crc_byte c (buffer m p n)"
  by (induction n arbitrary: p c) (simp_all add: crc_byte_table)

lemma CalculateCrc32_eq:
  "p \<noteq> 0 \<Longrightarrow> n \<le> MAX_ADDRESS - p + 1 \<Longrightarrow> CalculateCrc32 m p n = Ret (crc32 (buffer m p (unat n)))"
proof -
  have m: "(0xFFFFFFFF :: u32) = - 1" by simp
  have "x XOR 0xFFFFFFFF = NOT x" for x :: u32 unfolding m by (rule bit_word_eqI) (simp add: bit_xor_iff bit_not_iff)
  then show "p \<noteq> 0 \<Longrightarrow> n \<le> MAX_ADDRESS - p + 1 \<Longrightarrow> CalculateCrc32 m p n = Ret (crc32 (buffer m p (unat n)))"
    by (simp add: CalculateCrc32_def crc32_def Crc_loop_eq)
qed

text \<open>Every byte and every earlier register value can be told from the register.\<close>

lemma ucast_ucast_u8: "ucast (ucast b :: u32) = (b :: u8)"
  by (rule bit_word_eqI) (simp add: bit_ucast_iff)

lemma crc_byte_inj: "crc_byte c b = crc_byte c' b \<Longrightarrow> c = c'" "crc_byte c b = crc_byte c b' \<Longrightarrow> b = b'"
proof -
  show "crc_byte c b = crc_byte c' b \<Longrightarrow> c = c'" unfolding crc_byte_def by (drule crc_bits_inj) (rule xor_cancel)
  assume "crc_byte c b = crc_byte c b'"
  then have "ucast b XOR c = (ucast b' XOR c :: u32)" unfolding crc_byte_def by (drule_tac crc_bits_inj) (simp add: xor.commute)
  then have "ucast b = (ucast b' :: u32)" by (rule xor_cancel)
  then have "ucast (ucast b :: u32) = (ucast (ucast b' :: u32) :: u8)" by (rule arg_cong)
  then show "b = b'" by (simp only: ucast_ucast_u8)
qed

lemma foldl_crc_inj: "foldl crc_byte c bs = foldl crc_byte c' bs \<Longrightarrow> c = c'"
  by (induction bs arbitrary: c c') (auto dest: crc_byte_inj(1))

lemma crc32_detects: "b \<noteq> b' \<Longrightarrow> crc32 (as @ b # cs) \<noteq> crc32 (as @ b' # cs)"
  unfolding crc32_def by (auto dest!: foldl_crc_inj crc_byte_inj(2))

section \<open>Sums\<close>

lemma Sum_loop_start: "Sum_loop w m p n s = s + Sum_loop w m p n 0"
proof (induction n arbitrary: p s)
  case (Suc n)
  from Suc[of "p + of_nat w" "s + element w m p"] Suc[of "p + of_nat w" "element w m p"] show ?case by (simp add: add.assoc)
qed simp

lemma Sum_loop_snoc: "Sum_loop w m p (Suc n) s = Sum_loop w m p n s + element w m (p + of_nat w * of_nat n)"
proof (induction n arbitrary: p s)
  case (Suc n)
  from Suc[of "p + of_nat w" "s + element w m p"] show ?case by (simp add: algebra_simps)
qed simp

lemma length_step: "unat (n :: u64) + k < 2 ^ 64 \<Longrightarrow> unat (n + of_nat k) = unat n + k"
  by (simp add: unat_word_ariths unsigned_of_nat take_bit_nat_eq_self)

lemma aligned_dvd: "(n :: u64) AND mask k = 0 \<longleftrightarrow> 2 ^ k dvd unat n"
proof -
  have "n AND mask k = 0 \<longleftrightarrow> unat (take_bit k n) = 0" by (simp add: take_bit_eq_mask unat_eq_zero)
  also have "unat (take_bit k n) = unat n mod 2 ^ k" by (subst unsigned_take_bit_eq) (simp add: take_bit_eq_mod)
  finally show ?thesis by (simp add: dvd_eq_mod_eq_0)
qed

text \<open>One element more.\<close>

lemma Sum_loop_next:
  assumes w: "0 < w" "w dvd unat n" "unat n + w < 2 ^ 64"
  shows "Sum_loop w m p (unat (n + of_nat w) div w) 0 = Sum_loop w m p (unat n div w) 0 + element w m (p + n)"
    "w dvd unat (n + of_nat w)"
proof -
  have u: "unat (n + of_nat w) = unat n + w" by (rule length_step[OF w(3)])
  then have "unat (n + of_nat w) div w = Suc (unat n div w)" using w by simp
  moreover have "of_nat w * of_nat (unat n div w) = n" 
    using w(2) by (simp flip: of_nat_mult)
  ultimately show "Sum_loop w m p (unat (n + of_nat w) div w) 0 = Sum_loop w m p (unat n div w) 0 + element w m (p + n)"
    by (simp only: Sum_loop_snoc)
  show "w dvd unat (n + of_nat w)" using u w by simp
qed

lemma add_no_wrap:
  assumes "n \<le> (n :: u64) + of_nat w" "w < 2 ^ 64" shows "unat n + w < 2 ^ 64"
  using assms by (simp add: no_olen_add_nat unsigned_of_nat take_bit_nat_eq_self)

text \<open>All four sums are one, over elements of \<open>2 ^ k\<close> bytes.\<close>

definition sum_of :: "nat \<Rightarrow> memory64 \<Rightarrow> u64 \<Rightarrow> u64 \<Rightarrow> 'a::len word outcome" where
  "sum_of k m p n = ASSERT (p \<noteq> 0) (ASSERT (p AND mask k = 0) (ASSERT (n AND mask k = 0)
     (ASSERT (n \<le> MAX_ADDRESS - p + 1) (Ret (Sum_loop (2 ^ k) m p (unat n div 2 ^ k) 0)))))"

lemma sums: "CalculateSum8 = sum_of 0" "CalculateSum16 = sum_of 1" "CalculateSum32 = sum_of 2" "CalculateSum64 = sum_of 3"
  by (simp_all add: fun_eq_iff sum_of_def CalculateSum8_def CalculateSum16_def CalculateSum32_def CalculateSum64_def mask_eq_exp_minus_1)

lemma checksums:
  "CalculateCheckSum8 m p n = bind (CalculateSum8 m p n) (\<lambda>s. Ret (- s))"
  "CalculateCheckSum16 m p n = bind (CalculateSum16 m p n) (\<lambda>s. Ret (- s))"
  "CalculateCheckSum32 m p n = bind (CalculateSum32 m p n) (\<lambda>s. Ret (- s))"
  "CalculateCheckSum64 m p n = bind (CalculateSum64 m p n) (\<lambda>s. Ret (- s))"
proof -
  have z: "(256 :: u8) = 0" "(65536 :: u16) = 0" by code_simp+
  show "CalculateCheckSum8 m p n = bind (CalculateSum8 m p n) (\<lambda>s. Ret (- s))"
    "CalculateCheckSum16 m p n = bind (CalculateSum16 m p n) (\<lambda>s. Ret (- s))"
    "CalculateCheckSum32 m p n = bind (CalculateSum32 m p n) (\<lambda>s. Ret (- s))"
    "CalculateCheckSum64 m p n = bind (CalculateSum64 m p n) (\<lambda>s. Ret (- s))"
    by (simp_all add: CalculateCheckSum8_def CalculateCheckSum16_def CalculateCheckSum32_def CalculateCheckSum64_def z)
qed

lemma sum_of_cancel:
  assumes c: "bind (sum_of k m p n) (\<lambda>s. Ret (- s)) = Ret (element (2 ^ k) m (p + n) :: 'a::len word)"
    and n: "n < n + of_nat (2 ^ k)" "n + of_nat (2 ^ k) \<le> MAX_ADDRESS - p + 1" and k: "k < 64"
  shows "sum_of k m p (n + of_nat (2 ^ k)) = Ret (0 :: 'a word)"
proof -
  from c obtain s :: "'a word" where "sum_of k m p n = Ret s" "- s = element (2 ^ k) m (p + n)" by (auto simp: bind_eq_Ret)
  then have s: "sum_of k m p n = Ret s" "element (2 ^ k) m (p + n) = - s" by simp_all
  then have p: "p \<noteq> 0" "p AND mask k = 0" "n AND mask k = 0" "s = Sum_loop (2 ^ k) m p (unat n div 2 ^ k) 0"
    by (auto simp: sum_of_def ASSERT_def split: if_splits)
  have k': "(2 ^ k :: nat) < 2 ^ 64" using power_strict_increasing[OF k, of "2 :: nat"] by simp
  have w: "0 < (2 ^ k :: nat)" "2 ^ k dvd unat n" "unat n + 2 ^ k < 2 ^ 64"
    using add_no_wrap[of n "2 ^ k"] n(1) k' p(3) aligned_dvd[of n k] by simp_all
  note nx = Sum_loop_next(1)[where ?'a = 'a, OF w, of m p] Sum_loop_next(2)[OF w]
  have "(n + of_nat (2 ^ k)) AND mask k = 0" using nx(2) aligned_dvd[of "n + of_nat (2 ^ k)" k] by blast
  then have "sum_of k m p (n + of_nat (2 ^ k)) = Ret (Sum_loop (2 ^ k) m p (unat (n + of_nat (2 ^ k)) div 2 ^ k) (0 :: 'a word))"
    using p(1,2) n(2) unfolding sum_of_def by (simp only: ASSERT_simps simp_thms not_False_eq_True)
  then show ?thesis using nx(1) p(4) s(2) by simp
qed

section \<open>Properties\<close>

text \<open>C37: the table-driven CRC of any buffer inside the address space is the one of the shift register of ITU-T V.42, bit
  by bit, over its bytes in order; and two buffers of a length that differ in one byte never have the same CRC.\<close>

theorem CalculateCrc32_bitwise:
  assumes "p \<noteq> 0" and "n \<le> MAX_ADDRESS - p + 1"
  shows "CalculateCrc32 m p n = Ret (crc32 (buffer m p (unat n))) \<and>
    (\<forall>m' as b b' cs. buffer m p (unat n) = as @ b # cs \<and> buffer m' p (unat n) = as @ b' # cs \<and> b \<noteq> b' \<longrightarrow>
       CalculateCrc32 m' p n \<noteq> CalculateCrc32 m p n)"
  using CalculateCrc32_eq[OF assms] crc32_detects by auto

lemma CalculateCrc32_bitwise_witness:
  "CalculateCrc32 (\<lambda>a. 0x31) 0x1000 1 = Ret 0x83DCEFB7"
proof -
  have "crc32 [0x31] = 0x83DCEFB7" by code_simp
  then show ?thesis using CalculateCrc32_bitwise[where p = "0x1000" and n = 1 and m = "\<lambda>a. 0x31"] by simp
qed

text \<open>The two's complement checksums of all four widths do what they are for: with the checksum of a buffer stored
  as the element behind it, the sum over buffer and checksum is zero, and no assertion on alignment or address fails.\<close>

theorem checksum_cancels:
  "(CalculateCheckSum8 m p n = Ret (element 1 m (p + n)) \<and> n < n + 1 \<and> n + 1 \<le> MAX_ADDRESS - p + 1 \<longrightarrow> CalculateSum8 m p (n + 1) = Ret 0) \<and>
   (CalculateCheckSum16 m p n = Ret (element 2 m (p + n)) \<and> n < n + 2 \<and> n + 2 \<le> MAX_ADDRESS - p + 1 \<longrightarrow> CalculateSum16 m p (n + 2) = Ret 0) \<and>
   (CalculateCheckSum32 m p n = Ret (element 4 m (p + n)) \<and> n < n + 4 \<and> n + 4 \<le> MAX_ADDRESS - p + 1 \<longrightarrow> CalculateSum32 m p (n + 4) = Ret 0) \<and>
   (CalculateCheckSum64 m p n = Ret (element 8 m (p + n)) \<and> n < n + 8 \<and> n + 8 \<le> MAX_ADDRESS - p + 1 \<longrightarrow> CalculateSum64 m p (n + 8) = Ret 0)"
  unfolding checksums sums
  using sum_of_cancel[where ?'a = 8 and k = 0 and m = m and p = p and n = n] sum_of_cancel[where ?'a = 16 and k = 1 and m = m and p = p and n = n]
    sum_of_cancel[where ?'a = 32 and k = 2 and m = m and p = p and n = n] sum_of_cancel[where ?'a = 64 and k = 3 and m = m and p = p and n = n]
  by (intro conjI impI; elim conjE; simp del: element.simps)

lemma checksum_cancels_witness:
  "CalculateSum64 (\<lambda>a. if a < 0x1008 then 0xFF else if a = 0x1008 then 1 else 0) 0x1000 16 = Ret 0"
proof -
  let ?m = "\<lambda>a. if a < (0x1008 :: u64) then 0xFF else if a = 0x1008 then 1 else (0 :: u8)"
  have "CalculateCheckSum64 ?m 0x1000 8 = Ret (element 8 ?m (0x1000 + 8))" by code_simp
  then show ?thesis using checksum_cancels[where p = "0x1000" and n = 8 and m = ?m] by (simp del: element.simps)
qed

end
