(* ===== verification/Spec2Isabelle.thy ===== *)
theory Spec2Isabelle
  imports DpcMock Udp6Mock ProtocolProps LinkedList CheckSum
begin

text \<open>
  A model of the host services of \<open>edk2-metis\<close>: the parts of the UEFI boot services that the fuzzing
  host rebuilds (\<open>src/HostLib\<close>), the pool of fuzz bytes that its mocks consume, and the mechanism by
  which mocks deliver completions later. Each service is a function of its C name over an explicit
  state; a failed assertion, undefined behaviour and an exhausted recursion bound are values of
  \<open>outcome\<close> (\<open>Outcome\<close>), so that absence of the first two is a statement about the model.

  \<^bold>\<open>Theories and code.\<close>
  \<^item> \<open>Prelude\<close>, \<open>Outcome\<close>: word and list lemmas, status codes, outcomes.
  \<^item> \<open>FuzzContext\<close>, \<open>FuzzRegistry\<close>: \<open>FuzzContextLib.c\<close>. The pool is a record with the cursor, the
    limit and the exhausted mark of \<open>MOCK_FUZZ_CONTEXT\<close>; the registry keeps the override table of the
    mocks and the reset functions as arrays with a count.
  \<^item> \<open>EventState\<close>, \<open>EventCore\<close>: \<open>EventDxeCore.c\<close>, \<open>TimerDxeCore.c\<close>, \<open>TplDxeCore.c\<close>, \<open>Library.c\<close>,
    \<open>MockTimerHost.c\<close>. The state \<open>core\<close> has the events (a heap), the queues per priority, the signal
    and timer lists, the TPL, the pending time and the locks. \<open>CoreRestoreTpl\<close> runs notification
    functions, which call services again; it is an argument of the services, and the recursion is
    closed with fuel in its definition. Notification functions of drivers are the parameter \<open>cl\<close>.
  \<^item> \<open>EventInv\<close>, \<open>EventSignal\<close>, \<open>EventTimer\<close>, \<open>EventDispatch\<close>, \<open>EventServices\<close>, \<open>EventInit\<close>: the
    invariant of the core and that every service keeps it under the contracts \<open>tpl_restore\<close> and
    \<open>notify_client\<close>; \<open>EventOrder\<close>, \<open>EventExpiry\<close>, \<open>EventQuiet\<close>, \<open>EventClient\<close>, \<open>EventRuns\<close>: delivery
    order, expiry, services that run no notification, the notification functions of the harness as
    an instance, and whole runs; \<open>EventProps\<close>: the properties.
  \<^item> \<open>Deferred\<close>, \<open>DeferredProps\<close>: \<open>MockDeferredSignal.c\<close> over the event services. \<open>DpcMock\<close>: the DPC ring
    \<open>MockgEfiDpcProtocolGuid.c\<close>, as a bounded queue without duplicates whose procedures are the interface
    \<open>dpc_procedures\<close>, and the deferred callback that drains it. A ring and its procedures extend the state
    of \<open>Deferred\<close>; the procedures of the instance queue further calls and cancel deliveries.
  \<^item> \<open>Udp6Mock\<close>: the protocol functions of \<open>MockgEfiUdp6ProtocolGuid.c\<close>, where the pool, its overrides, the events
    and the deferred signalling meet: what a receive, transmit, cancel or configure call does to all of them.
  \<^item> \<open>ProtocolState\<close>, \<open>ProtocolOps\<close>, \<open>ProtocolLocate\<close>: \<open>Handle.c\<close>, \<open>Notify.c\<close>, \<open>Locate.c\<close>. The state
    \<open>protocol_db\<close> extends the core by the heaps of handles, protocol entries, interfaces and notify
    records and by the two lists; \<open>ProtocolInv\<close>: its invariant and critical sections; \<open>ProtocolFacts\<close>,
    \<open>ProtocolLink\<close>: lookups and the linking of new objects; \<open>ProtocolOpen\<close>: open and close as functions
    of the open list; \<open>ProtocolView\<close>: the instances of a protocol, its registrations and what each has
    not reported; \<open>ProtocolInstall\<close>, \<open>ProtocolUninstall\<close>, \<open>ProtocolSearch\<close>, \<open>ProtocolNotify\<close>: the
    services in terms of this view; \<open>ProtocolContract\<close>: refused calls and the interface
    \<open>instance_store\<close>, on which \<open>ProtocolMultiple\<close> rests the group operations; \<open>ProtocolPath\<close>: search by
    device path; \<open>ProtocolTable\<close>: runs of the services refine a table; \<open>ProtocolProps\<close>: the properties.
  \<^item> \<open>DevicePath\<close>, \<open>DevicePathSpec\<close>: \<open>UefiDevicePathLibHost\<close> over a byte memory, against lists of nodes.

  \<^item> \<open>LinkedList\<close>: \<open>BaseLibHost/LinkedList.c\<close> on a heap of links. The theories above have every list of the
    services as a HOL list; here any sequence of calls on circular lists behaves as on HOL lists.
  \<^item> \<open>CheckSum\<close>: \<open>BaseLibHost/CheckSum.c\<close>, the sums and the CRC with its table, against a shift register.

  \<^bold>\<open>Fuel.\<close> The recursion of \<open>CoreRestoreTpl\<close> and the loops of the dispatcher and of \<open>CoreCheckTimers\<close>
  take a bound; \<open>NoFuel\<close> means that it was reached. Properties that say that a service returns give
  the bound that is enough, in the number of timers, pending entries, calls or nodes.

  \<^bold>\<open>Not modelled.\<close> Pool allocation beyond a flag that says whether it succeeds; freed addresses are
  not reused. \<open>DriverSupport.c\<close>: its two services are arguments of the database. Debug output, the
  tables of function pointers, stubs that return constants, the upstream string, bit-field, print
  and HII libraries, the other protocol mocks, the PEI and SMM services, the variable store, the memory-space maps, and the harness
  entry points, which drive an edk2 module that is not part of the repository.
\<close>

end
